(* ===== verification/Prelude.thy ===== *)
theory Prelude
  imports Main "HOL-Library.Word"
begin

unbundle bit_operations_syntax

section \<open>Shared types, byte layout, C strings and list lemmas\<close>

text \<open>
  What the components share: the machine types of the C code, the ESP-IDF error codes the code
  compares, little-endian byte layout (the records of components/fw_meta are packed and
  little-endian), null-terminated strings, and the lemma collections the component theories
  use: \<open>layout\<close> (lengths and projections of byte layouts), \<open>cstr\<close> (C string functions) and
  \<open>frame\<close> (which part of a state an operation leaves alone).
\<close>

named_theorems layout "lengths and round trips of byte layouts"
named_theorems cstr "C string functions"
named_theorems frame "state components an operation does not change"

type_synonym byte = "8 word"
type_synonym u16 = "16 word"
type_synonym u32 = "32 word"
type_synonym u64 = "64 word"

subsection \<open>Error codes\<close>

text \<open>
  The \<open>esp_err_t\<close> values the code compares or returns. The code only relies on their being
  distinct; any other driver error is \<open>ESP_ERR_CODE n\<close>.
\<close>

datatype esp_err =
    ESP_OK
  | ESP_FAIL
  | ESP_ERR_INVALID_ARG
  | ESP_ERR_INVALID_STATE
  | ESP_ERR_INVALID_SIZE
  | ESP_ERR_NOT_FOUND
  | ESP_ERR_INVALID_CRC
  | ESP_ERR_NVS_NOT_FOUND
  | ESP_ERR_OTA_VALIDATE_FAILED
  | ESP_ERR_ESP_NETIF_DHCP_ALREADY_STOPPED
  | ESP_ERR_CODE nat

subsection \<open>Little-endian layout\<close>

definition le16 :: "u16 \<Rightarrow> byte list" where
  "le16 w = [ucast w, ucast (drop_bit 8 w)]"

definition le32 :: "u32 \<Rightarrow> byte list" where
  "le32 w = [ucast w, ucast (drop_bit 8 w), ucast (drop_bit 16 w), ucast (drop_bit 24 w)]"

lemma length_le16 [simp, layout]: "length (le16 w) = 2"
  by (simp add: le16_def)

lemma length_le32 [simp, layout]: "length (le32 w) = 4"
  by (simp add: le32_def)

text \<open>A read of a 32-bit field from memory: the inverse of \<open>le32\<close>.\<close>

definition of_le32 :: "byte list \<Rightarrow> u32" where
  "of_le32 bs = ucast (bs ! 0) OR push_bit 8 (ucast (bs ! 1)) OR push_bit 16 (ucast (bs ! 2))
     OR push_bit 24 (ucast (bs ! 3))"

lemma bit_le32_split:
  fixes n :: nat
  assumes "n < 32"
  shows "(n < 8 \<longrightarrow> P n) \<and> (8 \<le> n \<and> n < 16 \<longrightarrow> P n) \<and> (16 \<le> n \<and> n < 24 \<longrightarrow> P n) \<and> (24 \<le> n \<longrightarrow> P n) \<Longrightarrow> P n"
  using assms by (metis not_le)

lemma of_le32_nth:
  "of_le32 (a # b # c # d # bs) = ucast a OR push_bit 8 (ucast b) OR push_bit 16 (ucast c) OR push_bit 24 (ucast d)"
  by (simp add: of_le32_def)

lemma of_le32_le32_append [simp, layout]: "of_le32 (le32 w @ bs) = w"
proof (rule bit_word_eqI)
  fix n assume "n < LENGTH(32)"
  then have n: "n < 32" by simp
  show "bit (of_le32 (le32 w @ bs)) n = bit w n"
    by (rule bit_le32_split [OF n]) (use n in \<open>auto simp: le32_def of_le32_nth bit_simps\<close>)
qed

lemma of_le32_le32 [simp, layout]: "of_le32 (le32 w) = w"
  using of_le32_le32_append [of w "[]"] by simp

lemma le32_of_le32 [layout]:
  assumes "length bs = 4"
  shows "le32 (of_le32 bs) = bs"
proof -
  from assms obtain a b c d where bs: "bs = [a, b, c, d]"
    by (auto simp: length_Suc_conv numeral_eq_Suc)
  have hi: "\<not> bit (x :: byte) (8 + k)" "8 \<le> k \<Longrightarrow> \<not> bit x k" for x k
    by (auto dest: bit_imp_le_length)
  have "ucast (of_le32 bs) = a" "ucast (drop_bit 8 (of_le32 bs)) = b"
    "ucast (drop_bit 16 (of_le32 bs)) = c" "ucast (drop_bit 24 (of_le32 bs)) = d"
    unfolding bs of_le32_nth by (rule bit_word_eqI; simp add: bit_simps hi)+
  then show ?thesis by (simp add: le32_def bs)
qed

lemma le32_inject [simp]: "le32 v = le32 w \<longleftrightarrow> v = w"
  by (metis of_le32_le32)

subsection \<open>Lists\<close>

lemma list_update_same_iff:
  "i < length xs \<Longrightarrow> xs[i := v] = xs \<longleftrightarrow> xs ! i = v"
  by (metis list_update_id nth_list_update_eq)

text \<open>Writing a block into a buffer at an offset (a \<open>memcpy\<close> into the middle of an array).\<close>

definition overwrite :: "nat \<Rightarrow> 'a list \<Rightarrow> 'a list \<Rightarrow> 'a list" where
  "overwrite off bs buf = take off buf @ bs @ drop (off + length bs) buf"

lemma length_overwrite [simp, layout]:
  "off + length bs \<le> length buf \<Longrightarrow> length (overwrite off bs buf) = length buf"
  by (simp add: overwrite_def)

lemma overwrite_id:
  "off + n \<le> length buf \<Longrightarrow> overwrite off (take n (drop off buf)) buf = buf"
  unfolding overwrite_def by (simp add: min_def drop_drop [symmetric] add.commute [of off] del: drop_drop)

lemma take_overwrite_before [simp]:
  "n \<le> off \<Longrightarrow> off \<le> length buf \<Longrightarrow> take n (overwrite off bs buf) = take n buf"
  by (simp add: overwrite_def min_def)

lemma drop_overwrite_after [simp]:
  "off + length bs \<le> n \<Longrightarrow> off + length bs \<le> length buf \<Longrightarrow> drop n (overwrite off bs buf) = drop n buf"
  by (simp add: overwrite_def)

lemma take_overwrite:
  "off + length bs \<le> n \<Longrightarrow> n \<le> length buf \<Longrightarrow> take n (overwrite off bs buf) = overwrite off bs (take n buf)"
  by (simp add: overwrite_def drop_take)

text \<open>The bytes of an ASCII literal.\<close>

definition ascii :: "string \<Rightarrow> byte list" where
  "ascii s = map of_char s"

lemma length_ascii [simp]: "length (ascii s) = length s"
  by (simp add: ascii_def)

subsection \<open>C strings\<close>

text \<open>
  A buffer of characters holds the string before its first null character. \<open>cstr\<close> is the
  string a C function reading the buffer sees; \<open>strnlen\<close> counts at most \<open>n\<close> characters of it.
\<close>

definition NUL :: char where
  "NUL = CHR 0x00"

definition cstr :: "string \<Rightarrow> string" where
  "cstr buf = takeWhile (\<lambda>c. c \<noteq> NUL) buf"

definition strnlen :: "string \<Rightarrow> nat \<Rightarrow> nat" where
  "strnlen buf n = length (cstr (take n buf))"

text \<open>A fixed-size character field holding \<open>s\<close>, padded with null characters.\<close>

definition cfield :: "nat \<Rightarrow> string \<Rightarrow> string" where
  "cfield n s = take n (s @ replicate n NUL)"

lemma length_cfield [simp, cstr]: "length (cfield n s) = n"
  by (simp add: cfield_def)

lemma cstr_no_nul: "NUL \<notin> set s \<Longrightarrow> cstr s = s"
  unfolding cstr_def by (rule takeWhile_eq_all_conv [THEN iffD2]) auto

lemma NUL_notin_cstr [simp]: "NUL \<notin> set (cstr s)"
  by (auto simp: cstr_def dest: set_takeWhileD)

lemma cstr_cstr [simp]: "cstr (cstr s) = cstr s"
  by (rule cstr_no_nul) simp

lemma length_cstr_le: "length (cstr s) \<le> length s"
  by (simp add: cstr_def length_takeWhile_le)

lemma cstr_append_NUL: "NUL \<notin> set s \<Longrightarrow> cstr (s @ NUL # t) = s"
  unfolding cstr_def by (subst takeWhile_append2) auto

lemma cstr_cfield:
  assumes "NUL \<notin> set s" and "length s < n"
  shows "cstr (cfield n s) = s"
proof -
  from assms(2) obtain k where "n - length s = Suc k"
    by (metis Suc_diff_Suc)
  then have "cfield n s = s @ NUL # replicate k NUL"
    using assms(2) by (simp add: cfield_def)
  then show ?thesis using assms(1) by (simp add: cstr_append_NUL)
qed

lemma strnlen_le: "strnlen buf n \<le> n"
  using length_cstr_le [of "take n buf"] by (simp add: strnlen_def)

subsection \<open>Formatting\<close>

text \<open>
  The conversions the code prints with: \<open>%u\<close> of an unsigned number, \<open>%02X\<close> of a byte, and
  \<open>snprintf\<close>, which keeps at most \<open>n - 1\<close> characters.
\<close>

fun dec :: "nat \<Rightarrow> string" where
  "dec n = (if n < 10 then [char_of (48 + n)] else dec (n div 10) @ [char_of (48 + n mod 10)])"

declare dec.simps [simp del]

definition hex_digit :: "nat \<Rightarrow> char" where
  "hex_digit n = ''0123456789ABCDEF'' ! n"

definition hex2 :: "byte \<Rightarrow> string" where
  "hex2 b = [hex_digit (unat b div 16), hex_digit (unat b mod 16)]"

definition snprintf :: "nat \<Rightarrow> string \<Rightarrow> string" where
  "snprintf n s = take (n - 1) s"

lemma length_hex2 [simp]: "length (hex2 b) = 2"
  by (simp add: hex2_def)

lemma length_dec_le: "n < 10 ^ Suc k \<Longrightarrow> length (dec n) \<le> Suc k"
proof (induction k arbitrary: n)
  case 0 then show ?case by (simp add: dec.simps [of n])
next
  case (Suc k)
  then have "n div 10 < 10 ^ Suc k" by (simp add: div_less_iff_less_mult)
  then have "length (dec (n div 10)) \<le> Suc k" by (rule Suc.IH)
  then show ?case by (subst dec.simps) simp
qed

lemma length_dec_u32: "n < 2 ^ 32 \<Longrightarrow> length (dec n) \<le> 10"
  using length_dec_le [of n 9] by simp

lemma snprintf_fits: "length s < n \<Longrightarrow> snprintf n s = s"
  by (simp add: snprintf_def)

text \<open>A character array read as text, and text as the bytes of a character array.\<close>

definition bytes_str :: "byte list \<Rightarrow> string" where
  "bytes_str bs = cstr (map (\<lambda>b. char_of (unat b)) bs)"

lemma length_bytes_str_le: "length (bytes_str bs) \<le> length bs"
  using length_cstr_le [of "map (\<lambda>b. char_of (unat b)) bs"] by (simp add: bytes_str_def)

subsection \<open>HTTP replies\<close>

text \<open>What a handler sends: status line, content type, further headers and body.\<close>

record http_reply =
  hr_status :: string
  hr_type :: string
  hr_headers :: "(string \<times> string) list"
  hr_body :: string

end
