(* ===== verification/FwMeta.thy ===== *)
theory FwMeta
  imports Prelude
begin

section \<open>Firmware metadata: records, CRC-32, embedded metadata, boot decision\<close>

text \<open>
  Model of components/fw_meta/fw_meta.c and fw_meta.h. A packed C structure is a record of its
  fields together with its byte layout (\<open>meta_bytes\<close>, \<open>ctrl_bytes\<close>) and the reading of that
  layout (\<open>meta_of_bytes\<close>, \<open>ctrl_of_bytes\<close>); a pointer into a buffer is the list of the bytes
  from there on. The functions are pure, as in the source.
\<close>

subsection \<open>Constants\<close>

definition FW_META_MAGIC :: u32 where "FW_META_MAGIC = 0x57424752"
definition FW_CTRL_MAGIC :: u32 where "FW_CTRL_MAGIC = 0x4C525443"
definition FW_FORCE_BOOTLOADER_CLEAR :: u32 where "FW_FORCE_BOOTLOADER_CLEAR = 0xFFFFFFFF"
definition FW_FORCE_BOOTLOADER_SET :: u32 where "FW_FORCE_BOOTLOADER_SET = 0"
definition FW_APP_DESC_MAGIC :: u32 where "FW_APP_DESC_MAGIC = 0xABCD5432"
definition FW_IMAGE_MAGIC :: byte where "FW_IMAGE_MAGIC = 0xE9"
definition FW_IMAGE_CHIP_ID_ESP32C3 :: u16 where "FW_IMAGE_CHIP_ID_ESP32C3 = 5"
definition FW_CRASH_RESET_LIMIT :: byte where "FW_CRASH_RESET_LIMIT = 3"

abbreviation (input) FW_VERSION_LEN :: nat where "FW_VERSION_LEN \<equiv> 8"
abbreviation (input) FW_VERSION_FIELD_LEN :: nat where "FW_VERSION_FIELD_LEN \<equiv> 9"
abbreviation (input) FW_SHA256_LEN :: nat where "FW_SHA256_LEN \<equiv> 32"
abbreviation (input) FW_EMBEDDED_META_OFFSET :: nat where "FW_EMBEDDED_META_OFFSET \<equiv> 288"
abbreviation (input) FW_IMAGE_HEAD_LEN :: nat where "FW_IMAGE_HEAD_LEN \<equiv> 304"
abbreviation (input) FW_META_SECTOR_BYTES :: nat where "FW_META_SECTOR_BYTES \<equiv> 4096"
abbreviation (input) IMAGE_CHIP_ID_OFFSET :: nat where "IMAGE_CHIP_ID_OFFSET \<equiv> 12"
abbreviation (input) IMAGE_FIRST_SEGMENT_DATA_OFFSET :: nat where "IMAGE_FIRST_SEGMENT_DATA_OFFSET \<equiv> 32"

text \<open>Offsets and sizes of the packed records: \<open>offsetof\<close> and \<open>sizeof\<close> in the source.\<close>

abbreviation (input) META_SIZE :: nat where "META_SIZE \<equiv> 60"
abbreviation (input) META_CRC_OFFSET :: nat where "META_CRC_OFFSET \<equiv> 52"
abbreviation (input) META_FORCE_OFFSET :: nat where "META_FORCE_OFFSET \<equiv> 56"
abbreviation (input) CTRL_SIZE :: nat where "CTRL_SIZE \<equiv> 12"
abbreviation (input) CTRL_CRC_OFFSET :: nat where "CTRL_CRC_OFFSET \<equiv> 8"

lemmas fw_consts = FW_META_MAGIC_def FW_CTRL_MAGIC_def FW_FORCE_BOOTLOADER_CLEAR_def
  FW_FORCE_BOOTLOADER_SET_def FW_APP_DESC_MAGIC_def FW_IMAGE_MAGIC_def
  FW_IMAGE_CHIP_ID_ESP32C3_def FW_CRASH_RESET_LIMIT_def

subsection \<open>Records and their layout\<close>

record fw_embedded_meta =
  em_magic :: u32
  em_version :: "byte list"
  em_reserved :: "byte list"

record fw_meta_record =
  mr_magic :: u32
  mr_version :: "byte list"
  mr_reserved :: "byte list"
  mr_image_size :: u32
  mr_image_sha256 :: "byte list"
  mr_crc32 :: u32
  mr_force_bootloader :: u32

record fw_ctrl_record =
  cr_magic :: u32
  cr_crash_count :: byte
  cr_boot_attempts :: byte
  cr_reserved :: "byte list"
  cr_crc32 :: u32

text \<open>The array fields have the lengths the structure declares.\<close>

definition wf_meta :: "fw_meta_record \<Rightarrow> bool" where
  "wf_meta r \<longleftrightarrow> length (mr_version r) = 9 \<and> length (mr_reserved r) = 3 \<and> length (mr_image_sha256 r) = 32"

definition wf_ctrl :: "fw_ctrl_record \<Rightarrow> bool" where
  "wf_ctrl r \<longleftrightarrow> length (cr_reserved r) = 2"

definition meta_body :: "fw_meta_record \<Rightarrow> byte list" where
  "meta_body r = le32 (mr_magic r) @ mr_version r @ mr_reserved r @ le32 (mr_image_size r) @ mr_image_sha256 r"

definition meta_bytes :: "fw_meta_record \<Rightarrow> byte list" where
  "meta_bytes r = meta_body r @ le32 (mr_crc32 r) @ le32 (mr_force_bootloader r)"

definition meta_of_bytes :: "byte list \<Rightarrow> fw_meta_record" where
  "meta_of_bytes bs = \<lparr>mr_magic = of_le32 (take 4 bs), mr_version = take 9 (drop 4 bs),
     mr_reserved = take 3 (drop 13 bs), mr_image_size = of_le32 (take 4 (drop 16 bs)),
     mr_image_sha256 = take 32 (drop 20 bs), mr_crc32 = of_le32 (take 4 (drop 52 bs)),
     mr_force_bootloader = of_le32 (take 4 (drop 56 bs))\<rparr>"

definition ctrl_body :: "fw_ctrl_record \<Rightarrow> byte list" where
  "ctrl_body r = le32 (cr_magic r) @ [cr_crash_count r, cr_boot_attempts r] @ cr_reserved r"

definition ctrl_bytes :: "fw_ctrl_record \<Rightarrow> byte list" where
  "ctrl_bytes r = ctrl_body r @ le32 (cr_crc32 r)"

definition ctrl_of_bytes :: "byte list \<Rightarrow> fw_ctrl_record" where
  "ctrl_of_bytes bs = \<lparr>cr_magic = of_le32 (take 4 bs), cr_crash_count = bs ! 4, cr_boot_attempts = bs ! 5,
     cr_reserved = take 2 (drop 6 bs), cr_crc32 = of_le32 (take 4 (drop 8 bs))\<rparr>"

definition embedded_of_bytes :: "byte list \<Rightarrow> fw_embedded_meta" where
  "embedded_of_bytes bs = \<lparr>em_magic = of_le32 (take 4 bs), em_version = take 9 (drop 4 bs),
     em_reserved = take 3 (drop 13 bs)\<rparr>"

lemma length_meta_body [layout]: "wf_meta r \<Longrightarrow> length (meta_body r) = 52"
  by (simp add: wf_meta_def meta_body_def)

lemma length_meta_bytes [layout]: "wf_meta r \<Longrightarrow> length (meta_bytes r) = 60"
  by (simp add: meta_bytes_def layout)

lemma length_ctrl_body [layout]: "wf_ctrl r \<Longrightarrow> length (ctrl_body r) = 8"
  by (simp add: wf_ctrl_def ctrl_body_def)

lemma length_ctrl_bytes [layout]: "wf_ctrl r \<Longrightarrow> length (ctrl_bytes r) = 12"
  by (simp add: ctrl_bytes_def layout)

lemma take_meta_bytes [layout]: "wf_meta r \<Longrightarrow> take 52 (meta_bytes r) = meta_body r"
  by (simp add: meta_bytes_def layout)

lemma take_ctrl_bytes [layout]: "wf_ctrl r \<Longrightarrow> take 8 (ctrl_bytes r) = ctrl_body r"
  by (simp add: ctrl_bytes_def layout)

lemma meta_of_bytes_meta_bytes [layout]: "wf_meta r \<Longrightarrow> meta_of_bytes (meta_bytes r) = r"
  by (cases r) (simp add: meta_of_bytes_def meta_bytes_def meta_body_def wf_meta_def)

lemma ctrl_of_bytes_ctrl_bytes [layout]: "wf_ctrl r \<Longrightarrow> ctrl_of_bytes (ctrl_bytes r) = r"
  by (cases r) (simp add: ctrl_of_bytes_def ctrl_bytes_def ctrl_body_def wf_ctrl_def nth_append)

lemma wf_meta_of_bytes [layout]: "length bs = 60 \<Longrightarrow> wf_meta (meta_of_bytes bs)"
  by (simp add: wf_meta_def meta_of_bytes_def)

lemma wf_ctrl_of_bytes [layout]: "length bs = 12 \<Longrightarrow> wf_ctrl (ctrl_of_bytes bs)"
  by (simp add: wf_ctrl_def ctrl_of_bytes_def)

lemma take_take_drop: "take m xs @ take n (drop m xs) = take (m + n) xs"
  by (simp add: take_add)

lemma meta_bytes_meta_of_bytes [layout]:
  assumes "length bs = 60"
  shows "meta_bytes (meta_of_bytes bs) = bs"
proof -
  have "meta_bytes (meta_of_bytes bs) =
    take 4 bs @ take 9 (drop 4 bs) @ take 3 (drop 13 bs) @ take 4 (drop 16 bs) @ take 32 (drop 20 bs)
      @ take 4 (drop 52 bs) @ take 4 (drop 56 bs)"
    using assms by (simp add: meta_bytes_def meta_body_def meta_of_bytes_def le32_of_le32)
  also have "\<dots> = take 60 bs"
    by (simp add: take_take_drop flip: append_assoc)
  finally show ?thesis using assms by simp
qed

subsection \<open>Version check\<close>

text \<open>
  The loop of \<open>IsValidFwVersion\<close> over the pattern \<open>DD.DD.DD\<close> stops at the first byte that
  does not match, then the terminator is checked. Digits are the bytes 0x30 to 0x39, the dot is 0x2E.
\<close>

definition version_pattern :: string where
  "version_pattern = ''DD.DD.DD''"

definition is_version_digit :: "byte \<Rightarrow> bool" where
  "is_version_digit c \<longleftrightarrow> 0x30 \<le> c \<and> c \<le> 0x39"

definition version_char_ok :: "char \<Rightarrow> byte \<Rightarrow> bool" where
  "version_char_ok p c \<longleftrightarrow> (if p = CHR ''D'' then is_version_digit c else c = 0x2E)"

definition IsValidFwVersion :: "byte list \<Rightarrow> bool" where
  "IsValidFwVersion version \<longleftrightarrow>
     list_all (\<lambda>index. version_char_ok (version_pattern ! index) (version ! index)) [0..<FW_VERSION_LEN]
     \<and> version ! FW_VERSION_LEN = 0"

lemma IsValidFwVersion_field:
  "IsValidFwVersion [a, b, c, d, e, f, g, h, i] \<longleftrightarrow>
     is_version_digit a \<and> is_version_digit b \<and> c = 0x2E \<and> is_version_digit d \<and> is_version_digit e \<and>
     f = 0x2E \<and> is_version_digit g \<and> is_version_digit h \<and> i = 0"
  by (auto simp: IsValidFwVersion_def version_pattern_def version_char_ok_def upt_rec)

lemma IsValidFwVersion_take:
  "9 \<le> length v \<Longrightarrow> IsValidFwVersion (take 9 v) \<longleftrightarrow> IsValidFwVersion v"
  by (auto simp: IsValidFwVersion_def upt_rec)

subsection \<open>CRC-32\<close>

definition crc_bit :: "u32 \<Rightarrow> u32" where
  "crc_bit crc = drop_bit 1 crc XOR (0xEDB88320 AND (0 - (crc AND 1)))"

definition crc_byte :: "u32 \<Rightarrow> byte \<Rightarrow> u32" where
  "crc_byte crc b = (crc_bit ^^ 8) (crc XOR ucast b)"

definition ComputeFwCrc32 :: "byte list \<Rightarrow> nat \<Rightarrow> u32" where
  "ComputeFwCrc32 data len = foldl crc_byte 0xFFFFFFFF (take len data) XOR 0xFFFFFFFF"

text \<open>The masking trick of the source: the polynomial is applied exactly when bit 0 is set.\<close>

lemma crc_mask: "(crc :: u32) AND 1 = (if bit crc 0 then 1 else 0)"
  by (simp add: and_one_eq odd_iff_mod_2_eq_one bit_0)

lemma crc_bit_alt: "crc_bit crc = (if bit crc 0 then drop_bit 1 crc XOR 0xEDB88320 else drop_bit 1 crc)"
  by (simp add: crc_bit_def crc_mask)

lemma bit_crc_bit_31: "bit (crc_bit crc) 31 \<longleftrightarrow> bit crc 0"
  by (auto simp: crc_bit_alt bit_simps bit_numeral_rec dest: bit_imp_le_length)

text \<open>
  One step of the shift register is a bijection and is linear over XOR. Everything the checksum
  detects follows from these two facts.
\<close>

lemma xor_left_cancel [simp]: "(x :: u32) XOR y = x XOR z \<longleftrightarrow> y = z"
proof
  assume "x XOR y = x XOR z"
  then have "x XOR (x XOR y) = x XOR (x XOR z)" by simp
  then show "y = z" by (simp only: xor_self_eq xor.left_neutral flip: xor.assoc)
qed simp

lemma xor_right_cancel [simp]: "(y :: u32) XOR x = z XOR x \<longleftrightarrow> y = z"
  by (simp add: xor.commute [of _ x])

lemma crc_bit_inject [simp]: "crc_bit x = crc_bit y \<longleftrightarrow> x = y"
proof
  assume eq: "crc_bit x = crc_bit y"
  then have b0: "bit x 0 = bit y 0"
    using bit_crc_bit_31 [of x] bit_crc_bit_31 [of y] by simp
  with eq have "drop_bit 1 x = drop_bit 1 y"
    using b0 by (cases "bit y 0") (simp_all add: crc_bit_alt)
  then have "bit x (Suc n) = bit y (Suc n)" for n
    by (metis bit_drop_bit_eq comp_apply plus_1_eq_Suc)
  with b0 show "x = y"
    by (metis bit_word_eqI not0_implies_Suc)
qed simp

lemma crc_bit_xor: "crc_bit (x XOR y) = crc_bit x XOR crc_bit y"
  by (simp add: crc_bit_alt drop_bit_xor bit_xor_iff ac_simps)

lemma crc_bits_inject [simp]: "(crc_bit ^^ n) x = (crc_bit ^^ n) y \<longleftrightarrow> x = y"
  by (induction n arbitrary: x y) auto

lemma crc_bits_xor: "(crc_bit ^^ n) (x XOR y) = (crc_bit ^^ n) x XOR (crc_bit ^^ n) y"
  by (induction n) (auto simp: crc_bit_xor)

lemma crc_bit_push:
  assumes "n < 24"
  shows "crc_bit (push_bit (Suc n) (ucast (b :: byte))) = push_bit n (ucast b)"
proof (rule bit_word_eqI)
  fix m assume "m < LENGTH(32)"
  have "\<not> bit (push_bit (Suc n) (ucast b) :: u32) 0"
    by (simp add: bit_push_bit_iff del: push_bit_Suc)
  then show "bit (crc_bit (push_bit (Suc n) (ucast b))) m = bit (push_bit n (ucast b) :: u32) m"
    using assms \<open>m < LENGTH(32)\<close>
    by (auto simp: crc_bit_alt bit_simps simp del: push_bit_Suc dest: bit_imp_le_length)
qed

lemma crc_bits_push:
  "n \<le> 24 \<Longrightarrow> (crc_bit ^^ n) (push_bit n (ucast (b :: byte))) = ucast b"
proof (induction n)
  case (Suc n)
  then have "crc_bit (push_bit (Suc n) (ucast b)) = push_bit n (ucast b)"
    by (intro crc_bit_push) simp
  with Suc show ?case by (simp add: funpow_swap1 del: push_bit_Suc)
qed simp

lemma ucast_byte_inject [simp]: "(ucast (a :: byte) :: u32) = ucast b \<longleftrightarrow> a = b"
proof
  assume eq: "(ucast a :: u32) = ucast b"
  show "a = b"
  proof (rule bit_word_eqI)
    fix n assume "n < LENGTH(8)"
    then show "bit a n = bit b n"
      using arg_cong [OF eq, of "\<lambda>w. bit w n"] by (simp add: bit_simps)
  qed
qed simp

lemma crc_byte_inject_crc [simp]: "crc_byte x b = crc_byte y b \<longleftrightarrow> x = y"
  by (simp add: crc_byte_def)

lemma crc_bytes_inject [simp]: "foldl crc_byte x bs = foldl crc_byte y bs \<longleftrightarrow> x = y"
  by (induction bs arbitrary: x y) auto

text \<open>
  Four bytes are one 32-bit word XORed into the register and shifted out: distinct words give
  distinct registers, so a change confined to four consecutive bytes is always detected.
\<close>

lemma crc_byte_push:
  assumes "n \<le> 24"
  shows "crc_byte ((crc_bit ^^ n) x) b = (crc_bit ^^ (n + 8)) (x XOR push_bit n (ucast b))"
  using crc_bits_push [OF assms, of b]
  by (simp add: crc_byte_def crc_bits_xor funpow_add add.commute [of n])

lemma of_le32_xor:
  "of_le32 [a, b, c, d] = ucast a XOR push_bit 8 (ucast b) XOR push_bit 16 (ucast c) XOR push_bit 24 (ucast d)"
proof (rule bit_word_eqI)
  fix n assume "n < LENGTH(32)"
  then have n: "n < 32" by simp
  show "bit (of_le32 [a, b, c, d]) n =
    bit (ucast a XOR push_bit 8 (ucast b) XOR push_bit 16 (ucast c) XOR push_bit 24 (ucast d) :: u32) n"
    by (rule bit_le32_split [OF n]) (use n in \<open>auto simp: of_le32_nth bit_simps dest: bit_imp_le_length\<close>)
qed

lemma crc_word:
  "foldl crc_byte x [a, b, c, d] = (crc_bit ^^ 32) (x XOR of_le32 [a, b, c, d])"
proof -
  have 1: "crc_byte x a = (crc_bit ^^ 8) (x XOR ucast a)"
    by (simp add: crc_byte_def)
  show ?thesis
    by (simp only: foldl.simps 1 crc_byte_push [of 8, simplified] crc_byte_push [of 16, simplified]
      crc_byte_push [of 24, simplified] of_le32_xor) (simp add: xor.assoc)
qed

lemma four_bytes: "length (zs :: byte list) = 4 \<Longrightarrow> \<exists>a b c d. zs = [a, b, c, d]"
  by (auto simp: length_Suc_conv numeral_eq_Suc)

lemma crc_detects_burst:
  assumes "length xs = 4" "length ys = 4" "xs \<noteq> ys"
  shows "foldl crc_byte x (pre @ xs @ suf) \<noteq> foldl crc_byte x (pre @ ys @ suf)"
proof -
  from four_bytes [OF assms(1)] four_bytes [OF assms(2)] obtain a b c d a' b' c' d'
    where xs: "xs = [a, b, c, d]" and ys: "ys = [a', b', c', d']" by blast
  have "of_le32 xs \<noteq> of_le32 ys"
    using assms le32_of_le32 by metis
  then show ?thesis
    unfolding foldl_append crc_bytes_inject by (simp only: xs ys crc_word) simp
qed

text \<open>
  The register after the data and the checksum that follows it in little-endian order is a constant exactly when the checksum is
  right. So the checksum field needs no separate treatment: it is covered like the data.
\<close>

lemma crc_residue:
  assumes "n + 4 \<le> length d"
  shows "of_le32 (take 4 (drop n d)) = ComputeFwCrc32 d n \<longleftrightarrow>
    foldl crc_byte 0xFFFFFFFF (take (n + 4) d) = (crc_bit ^^ 32) 0xFFFFFFFF"
proof -
  let ?x = "foldl crc_byte 0xFFFFFFFF (take n d)" and ?c = "of_le32 (take 4 (drop n d))"
  have "length (take 4 (drop n d)) = 4" using assms by simp
  then obtain a b c e where f: "take 4 (drop n d) = [a, b, c, e]" using four_bytes by blast
  have "foldl crc_byte 0xFFFFFFFF (take (n + 4) d) = (crc_bit ^^ 32) (?x XOR ?c)"
    by (simp only: take_add foldl_append f crc_word)
  moreover have "?x XOR ?c = 0xFFFFFFFF \<longleftrightarrow> ?c = ?x XOR 0xFFFFFFFF"
    using xor_left_cancel [of ?x "?x XOR ?c" "0xFFFFFFFF"] by (simp del: xor_left_cancel flip: xor.assoc)
  ultimately show ?thesis by (simp add: ComputeFwCrc32_def)
qed

lemma crc_field_burst:
  assumes "length bs = 4" and "off + 4 \<le> n + 4" and "n + 4 \<le> length d" and "bs \<noteq> take 4 (drop off d)"
    and "of_le32 (take 4 (drop n d)) = ComputeFwCrc32 d n"
  shows "of_le32 (take 4 (drop n (overwrite off bs d))) \<noteq> ComputeFwCrc32 (overwrite off bs d) n"
proof -
  let ?d = "take (n + 4) d" and ?c = "overwrite off bs d"
  have "?d = overwrite off (take 4 (drop off ?d)) ?d"
    using assms by (intro overwrite_id [symmetric]) simp
  moreover have "take 4 (drop off ?d) = take 4 (drop off d)"
    using assms by (simp add: drop_take)
  ultimately have d: "?d = take off ?d @ take 4 (drop off d) @ drop (off + 4) ?d"
    using assms by (simp add: overwrite_def)
  have tk: "take (n + 4) ?c = take off ?d @ bs @ drop (off + 4) ?d"
    using assms by (simp add: take_overwrite) (simp add: overwrite_def)
  have l: "n + 4 \<le> length ?c" using assms by (subst length_overwrite) auto
  have "foldl crc_byte 0xFFFFFFFF (take off ?d @ bs @ drop (off + 4) ?d)
      \<noteq> foldl crc_byte 0xFFFFFFFF (take off ?d @ take 4 (drop off d) @ drop (off + 4) ?d)"
    by (rule crc_detects_burst) (use assms in simp_all)
  then have "foldl crc_byte 0xFFFFFFFF (take (n + 4) ?c) \<noteq> foldl crc_byte 0xFFFFFFFF ?d"
    unfolding tk by (simp only: d [symmetric] not_False_eq_True)
  then show ?thesis using assms(5) by (simp only: crc_residue [OF assms(3)] crc_residue [OF l] not_False_eq_True)
qed

subsection \<open>Record validity and construction\<close>

definition IsFwMetaRecordValid :: "fw_meta_record \<Rightarrow> u32 \<Rightarrow> bool" where
  "IsFwMetaRecordValid record ota_size \<longleftrightarrow>
     mr_magic record = FW_META_MAGIC \<and>
     IsValidFwVersion (mr_version record) \<and>
     of_nat FW_IMAGE_HEAD_LEN \<le> mr_image_size record \<and>
     mr_image_size record \<le> ota_size \<and>
     mr_crc32 record = ComputeFwCrc32 (meta_bytes record) META_CRC_OFFSET"

definition IsFwCtrlRecordValid :: "fw_ctrl_record \<Rightarrow> bool" where
  "IsFwCtrlRecordValid record \<longleftrightarrow>
     cr_magic record = FW_CTRL_MAGIC \<and>
     cr_crc32 record = ComputeFwCrc32 (ctrl_bytes record) CTRL_CRC_OFFSET"

definition IsFwForceRequested :: "fw_meta_record \<Rightarrow> bool" where
  "IsFwForceRequested record \<longleftrightarrow> mr_force_bootloader record \<noteq> FW_FORCE_BOOTLOADER_CLEAR"

text \<open>\<open>memset(record, 0, sizeof)\<close>.\<close>

definition zero_meta :: fw_meta_record where
  "zero_meta = meta_of_bytes (replicate META_SIZE 0)"

definition zero_ctrl :: fw_ctrl_record where
  "zero_ctrl = ctrl_of_bytes (replicate CTRL_SIZE 0)"

definition BuildFwMetaRecord :: "byte list \<Rightarrow> u32 \<Rightarrow> byte list \<Rightarrow> fw_meta_record" where
  "BuildFwMetaRecord version image_size sha256 =
     (let r = zero_meta\<lparr>mr_magic := FW_META_MAGIC, mr_version := take FW_VERSION_FIELD_LEN version,
                        mr_image_size := image_size, mr_image_sha256 := take FW_SHA256_LEN sha256\<rparr>
      in r\<lparr>mr_crc32 := ComputeFwCrc32 (meta_bytes r) META_CRC_OFFSET,
           mr_force_bootloader := FW_FORCE_BOOTLOADER_CLEAR\<rparr>)"

definition BuildFwCtrlRecord :: "byte \<Rightarrow> byte \<Rightarrow> fw_ctrl_record" where
  "BuildFwCtrlRecord crash_count boot_attempts =
     (let r = zero_ctrl\<lparr>cr_magic := FW_CTRL_MAGIC, cr_crash_count := crash_count,
                        cr_boot_attempts := boot_attempts\<rparr>
      in r\<lparr>cr_crc32 := ComputeFwCrc32 (ctrl_bytes r) CTRL_CRC_OFFSET\<rparr>)"

text \<open>The checksum covers the fields before it, so neither it nor the force flag changes it.\<close>

lemma crc_of_meta [simp]:
  "wf_meta r \<Longrightarrow> ComputeFwCrc32 (meta_bytes (r\<lparr>mr_crc32 := c\<rparr>)) 52 = ComputeFwCrc32 (meta_body r) 52"
  "wf_meta r \<Longrightarrow> ComputeFwCrc32 (meta_bytes (r\<lparr>mr_force_bootloader := f\<rparr>)) 52 = ComputeFwCrc32 (meta_body r) 52"
  "wf_meta r \<Longrightarrow> ComputeFwCrc32 (meta_bytes r) 52 = ComputeFwCrc32 (meta_body r) 52"
  by (simp_all add: ComputeFwCrc32_def meta_bytes_def meta_body_def wf_meta_def)

lemma crc_of_ctrl [simp]:
  "wf_ctrl r \<Longrightarrow> ComputeFwCrc32 (ctrl_bytes (r\<lparr>cr_crc32 := c\<rparr>)) 8 = ComputeFwCrc32 (ctrl_body r) 8"
  "wf_ctrl r \<Longrightarrow> ComputeFwCrc32 (ctrl_bytes r) 8 = ComputeFwCrc32 (ctrl_body r) 8"
  by (simp_all add: ComputeFwCrc32_def ctrl_bytes_def ctrl_body_def wf_ctrl_def)

lemma IsFwMetaRecordValid_force [simp]:
  "wf_meta r \<Longrightarrow> IsFwMetaRecordValid (r\<lparr>mr_force_bootloader := f\<rparr>) n = IsFwMetaRecordValid r n"
  by (simp add: IsFwMetaRecordValid_def)

lemma zero_meta_fields [simp]:
  "length (mr_version zero_meta) = 9" "mr_reserved zero_meta = replicate 3 0"
  "length (mr_image_sha256 zero_meta) = 32"
  by (simp_all add: zero_meta_def meta_of_bytes_def)

lemma zero_ctrl_fields [simp]: "cr_reserved zero_ctrl = replicate 2 0"
  by (simp add: zero_ctrl_def ctrl_of_bytes_def)

lemma BuildFwMetaRecord_fields [simp]:
  "mr_magic (BuildFwMetaRecord v sz sha) = FW_META_MAGIC"
  "mr_version (BuildFwMetaRecord v sz sha) = take 9 v"
  "mr_reserved (BuildFwMetaRecord v sz sha) = replicate 3 0"
  "mr_image_size (BuildFwMetaRecord v sz sha) = sz"
  "mr_image_sha256 (BuildFwMetaRecord v sz sha) = take 32 sha"
  "mr_force_bootloader (BuildFwMetaRecord v sz sha) = FW_FORCE_BOOTLOADER_CLEAR"
  by (simp_all add: BuildFwMetaRecord_def Let_def)

lemma wf_BuildFwMetaRecord [simp]:
  "9 \<le> length v \<Longrightarrow> 32 \<le> length sha \<Longrightarrow> wf_meta (BuildFwMetaRecord v sz sha)"
  by (simp add: wf_meta_def)

lemma BuildFwMetaRecord_crc:
  assumes "9 \<le> length v" "32 \<le> length sha"
  shows "mr_crc32 (BuildFwMetaRecord v sz sha) = ComputeFwCrc32 (meta_bytes (BuildFwMetaRecord v sz sha)) 52"
proof -
  let ?r = "zero_meta\<lparr>mr_magic := FW_META_MAGIC, mr_version := take 9 v, mr_image_size := sz,
    mr_image_sha256 := take 32 sha\<rparr>"
  have wf: "wf_meta ?r" using assms by (simp add: wf_meta_def)
  have "meta_body (BuildFwMetaRecord v sz sha) = meta_body ?r"
    by (simp add: meta_body_def)
  moreover have "mr_crc32 (BuildFwMetaRecord v sz sha) = ComputeFwCrc32 (meta_body ?r) 52"
    using wf by (simp add: BuildFwMetaRecord_def Let_def)
  ultimately show ?thesis using assms by simp
qed

lemma BuildFwMetaRecord_valid_iff:
  assumes "9 \<le> length v" "32 \<le> length sha"
  shows "IsFwMetaRecordValid (BuildFwMetaRecord v sz sha) n \<longleftrightarrow> IsValidFwVersion v \<and> 304 \<le> sz \<and> sz \<le> n"
  using assms BuildFwMetaRecord_crc [OF assms] IsValidFwVersion_take [OF assms(1)]
  by (auto simp: IsFwMetaRecordValid_def)

lemma BuildFwCtrlRecord_fields [simp]:
  "cr_magic (BuildFwCtrlRecord c b) = FW_CTRL_MAGIC"
  "cr_crash_count (BuildFwCtrlRecord c b) = c"
  "cr_boot_attempts (BuildFwCtrlRecord c b) = b"
  "cr_reserved (BuildFwCtrlRecord c b) = [0, 0]"
  by (simp_all add: BuildFwCtrlRecord_def Let_def numeral_2_eq_2)

lemma wf_BuildFwCtrlRecord [simp]: "wf_ctrl (BuildFwCtrlRecord c b)"
  by (simp add: wf_ctrl_def)

lemma BuildFwCtrlRecord_valid [simp]: "IsFwCtrlRecordValid (BuildFwCtrlRecord c b)"
proof -
  let ?r = "zero_ctrl\<lparr>cr_magic := FW_CTRL_MAGIC, cr_crash_count := c, cr_boot_attempts := b\<rparr>"
  have "wf_ctrl ?r" by (simp add: wf_ctrl_def)
  then have "cr_crc32 (BuildFwCtrlRecord c b) = ComputeFwCrc32 (ctrl_body ?r) 8"
    by (simp add: BuildFwCtrlRecord_def Let_def)
  moreover have "ctrl_body (BuildFwCtrlRecord c b) = ctrl_body ?r"
    by (simp add: ctrl_body_def numeral_2_eq_2)
  ultimately show ?thesis by (simp add: IsFwCtrlRecordValid_def)
qed

text \<open>Erased flash holds neither a valid record nor a force request.\<close>

lemma of_le32_erased: "of_le32 (replicate 4 0xFF) = 0xFFFFFFFF"
proof -
  have "replicate 4 (0xFF :: byte) = [0xFF, 0xFF, 0xFF, 0xFF]"
    by (simp add: numeral_eq_Suc)
  then show ?thesis by (simp add: of_le32_nth)
qed

lemma erased_meta:
  defines "r \<equiv> meta_of_bytes (replicate 60 0xFF)"
  shows "\<not> IsFwMetaRecordValid r n" "\<not> IsFwForceRequested r"
  by (simp_all add: r_def IsFwMetaRecordValid_def IsFwForceRequested_def meta_of_bytes_def fw_consts
    of_le32_erased)

lemma erased_ctrl: "\<not> IsFwCtrlRecordValid (ctrl_of_bytes (replicate 12 0xFF))"
  by (simp add: IsFwCtrlRecordValid_def ctrl_of_bytes_def fw_consts of_le32_erased)

subsection \<open>Embedded metadata of an image head\<close>

datatype fw_meta_check =
    FW_META_CHECK_OK
  | FW_META_CHECK_TOO_SHORT
  | FW_META_CHECK_NOT_IMAGE
  | FW_META_CHECK_NO_METADATA
  | FW_META_CHECK_BAD_VERSION

definition ReadLe16 :: "byte list \<Rightarrow> u16" where
  "ReadLe16 bs = ucast (bs ! 0) OR push_bit 8 (ucast (bs ! 1))"

definition ReadLe32 :: "byte list \<Rightarrow> u32" where
  "ReadLe32 bs = ucast (bs ! 0) OR push_bit 8 (ucast (bs ! 1)) OR push_bit 16 (ucast (bs ! 2))
     OR push_bit 24 (ucast (bs ! 3))"

definition CheckFwEmbeddedMeta :: "byte list \<Rightarrow> nat \<Rightarrow> fw_meta_check" where
  "CheckFwEmbeddedMeta image_head head_len =
     (if head_len < FW_IMAGE_HEAD_LEN then FW_META_CHECK_TOO_SHORT
      else if image_head ! 0 \<noteq> FW_IMAGE_MAGIC \<or>
              ReadLe16 (drop IMAGE_CHIP_ID_OFFSET image_head) \<noteq> FW_IMAGE_CHIP_ID_ESP32C3 \<or>
              ReadLe32 (drop IMAGE_FIRST_SEGMENT_DATA_OFFSET image_head) \<noteq> FW_APP_DESC_MAGIC
      then FW_META_CHECK_NOT_IMAGE
      else let meta = drop FW_EMBEDDED_META_OFFSET image_head in
           if ReadLe32 meta \<noteq> FW_META_MAGIC then FW_META_CHECK_NO_METADATA
           else if \<not> IsValidFwVersion (drop 4 meta) then FW_META_CHECK_BAD_VERSION
           else FW_META_CHECK_OK)"

lemma ReadLe32_take: "ReadLe32 bs = of_le32 (take 4 bs)"
  by (simp add: ReadLe32_def of_le32_def)

lemma ReadLe32_le32 [simp, layout]: "ReadLe32 (le32 w @ bs) = w"
  by (simp add: ReadLe32_take)

lemma ReadLe16_le16 [simp, layout]: "ReadLe16 (le16 w @ bs) = w"
proof (rule bit_word_eqI)
  fix n assume "n < LENGTH(16)"
  then show "bit (ReadLe16 (le16 w @ bs)) n = bit w n"
    by (cases "n < 8") (auto simp: ReadLe16_def le16_def bit_simps dest: bit_imp_le_length)
qed

lemma CheckFwEmbeddedMeta_OK_iff:
  "CheckFwEmbeddedMeta h n = FW_META_CHECK_OK \<longleftrightarrow>
     304 \<le> n \<and> h ! 0 = FW_IMAGE_MAGIC \<and> ReadLe16 (drop 12 h) = FW_IMAGE_CHIP_ID_ESP32C3 \<and>
     ReadLe32 (drop 32 h) = FW_APP_DESC_MAGIC \<and> ReadLe32 (drop 288 h) = FW_META_MAGIC \<and>
     IsValidFwVersion (drop 292 h)"
  by (auto simp: CheckFwEmbeddedMeta_def Let_def)

subsection \<open>Boot decision\<close>

datatype reset_reason =
    ESP_RST_PANIC
  | ESP_RST_INT_WDT
  | ESP_RST_TASK_WDT
  | ESP_RST_WDT
  | ESP_RST_DEEPSLEEP
  | ESP_RST_OTHER nat

datatype fw_boot_mode =
    FW_BOOT_FIRMWARE
  | FW_BOOT_UPDATER_REQUESTED
  | FW_BOOT_UPDATER_NO_FIRMWARE
  | FW_BOOT_UPDATER_CRASH_LOOP
  | FW_BOOT_UPDATER_BOOT_SELECT_FAILED

record fw_boot_inputs =
  bi_is_force_requested :: bool
  bi_is_record_valid :: bool
  bi_is_ota_match :: bool
  bi_crash_count :: byte
  bi_boot_attempts :: byte
  bi_reset_reason :: reset_reason

record fw_boot_decision =
  bd_mode :: fw_boot_mode
  bd_crash_count :: byte

definition IsCrashReset :: "reset_reason \<Rightarrow> bool" where
  "IsCrashReset reason \<longleftrightarrow> reason = ESP_RST_PANIC \<or> reason = ESP_RST_INT_WDT \<or>
     reason = ESP_RST_TASK_WDT \<or> reason = ESP_RST_WDT"

definition DecideFwBoot :: "fw_boot_inputs \<Rightarrow> fw_boot_decision" where
  "DecideFwBoot inputs =
     (let decision = \<lparr>bd_mode = FW_BOOT_FIRMWARE, bd_crash_count = bi_crash_count inputs\<rparr> in
      if bi_is_force_requested inputs then decision\<lparr>bd_mode := FW_BOOT_UPDATER_REQUESTED\<rparr>
      else if bi_reset_reason inputs = ESP_RST_DEEPSLEEP
      then decision\<lparr>bd_mode := FW_BOOT_UPDATER_BOOT_SELECT_FAILED\<rparr>
      else if \<not> bi_is_record_valid inputs \<or> \<not> bi_is_ota_match inputs
      then decision\<lparr>bd_mode := FW_BOOT_UPDATER_NO_FIRMWARE\<rparr>
      else if IsCrashReset (bi_reset_reason inputs) then
        let decision = (if bd_crash_count decision < 255
                        then decision\<lparr>bd_crash_count := bd_crash_count decision + 1\<rparr> else decision)
        in if FW_CRASH_RESET_LIMIT \<le> bd_crash_count decision
           then decision\<lparr>bd_mode := FW_BOOT_UPDATER_CRASH_LOOP\<rparr> else decision
      else decision)"

subsection \<open>Properties\<close>

text \<open>
  C26: corruption of a stored record is detected. A valid metadata record in which any four consecutive bytes before the force flag
  are overwritten with something else is not valid any more, whatever partition size it is checked against: the 52 bytes under
  the checksum, the checksum field itself, or bytes on both sides of its start. So a record torn or rotted within such a window
  is never taken for a commit.
\<close>

theorem meta_record_burst_detected:
  assumes wf: "wf_meta r" and valid: "IsFwMetaRecordValid r n"
    and len: "length bs = 4" and off: "off + 4 \<le> 56"
    and changed: "bs \<noteq> take 4 (drop off (meta_bytes r))"
  shows "\<not> IsFwMetaRecordValid (meta_of_bytes (overwrite off bs (meta_bytes r))) m"
proof -
  let ?b = "meta_bytes r" and ?c = "overwrite off bs (meta_bytes r)"
  have l: "length ?b = 60" using wf by (rule length_meta_bytes)
  have lc: "length ?c = 60" using l len off by (subst length_overwrite) auto
  have stored: "mr_crc32 (meta_of_bytes ?c) = of_le32 (take 4 (drop 52 ?c))"
    by (simp add: meta_of_bytes_def)
  have crc_r: "of_le32 (take 4 (drop 52 ?b)) = ComputeFwCrc32 ?b 52"
    using valid meta_of_bytes_meta_bytes [OF wf] unfolding IsFwMetaRecordValid_def
    by (metis meta_of_bytes_def fw_meta_record.select_convs(6))
  have "of_le32 (take 4 (drop 52 ?c)) \<noteq> ComputeFwCrc32 ?c 52"
    by (rule crc_field_burst [OF len _ _ changed crc_r]) (use off l in simp_all)
  then show ?thesis
    using stored meta_bytes_meta_of_bytes [OF lc] by (simp add: IsFwMetaRecordValid_def del: crc_of_meta)
qed

theorem meta_record_burst_detected_witness:
  "let r = BuildFwMetaRecord (ascii ''01.00.00'' @ [0]) 1000 (replicate 32 7) in
   wf_meta r \<and> IsFwMetaRecordValid r 4096 \<and>
   \<not> IsFwMetaRecordValid (meta_of_bytes (overwrite 0 [0, 0, 0, 0] (meta_bytes r))) 4096"
proof -
  let ?v = "ascii ''01.00.00'' @ [0]"
  let ?r = "BuildFwMetaRecord ?v 1000 (replicate 32 7)"
  have wf: "wf_meta ?r" by simp
  have v: "IsValidFwVersion ?v" by (simp add: ascii_def IsValidFwVersion_field is_version_digit_def)
  have valid: "IsFwMetaRecordValid ?r 4096" using v by (simp add: BuildFwMetaRecord_valid_iff)
  have "[0, 0, 0, 0] \<noteq> take 4 (drop 0 (meta_bytes ?r))"
    by (simp add: meta_bytes_def meta_body_def le32_def fw_consts)
  then show ?thesis
    using wf valid meta_record_burst_detected [OF wf valid, of "[0, 0, 0, 0]" 0 4096] by (simp add: Let_def)
qed

text \<open>
  The boot decision on every input, with the crash count read as a number. The firmware is
  started exactly when no update is requested, the reset is not the deep-sleep wakeup of a failed
  jump, the record is valid and matches the image, and the reset is not the crash that reaches the
  limit. The new crash count is the old one, plus one (saturating at 255, never wrapping) exactly
  when the crash rule was reached.
\<close>

theorem DecideFwBoot_decision:
  "let free = (\<not> bi_is_force_requested i \<and> bi_reset_reason i \<noteq> ESP_RST_DEEPSLEEP \<and>
         bi_is_record_valid i \<and> bi_is_ota_match i);
       crashed = (free \<and> IsCrashReset (bi_reset_reason i));
       at_limit = (crashed \<and> 2 \<le> unat (bi_crash_count i)) in
   (bd_mode (DecideFwBoot i) = FW_BOOT_FIRMWARE) = (free \<and> \<not> at_limit) \<and>
   (bd_mode (DecideFwBoot i) = FW_BOOT_UPDATER_CRASH_LOOP) = at_limit \<and>
   (bd_mode (DecideFwBoot i) = FW_BOOT_UPDATER_REQUESTED) = bi_is_force_requested i \<and>
   unat (bd_crash_count (DecideFwBoot i)) =
     (if crashed then min 255 (unat (bi_crash_count i) + 1) else unat (bi_crash_count i))"
proof -
  let ?c = "bi_crash_count i"
  obtain k where k: "unat ?c = k" by blast
  have lt: "?c < 255 \<longleftrightarrow> k < 255" by (simp add: word_less_nat_alt k)
  have bound: "k < 256" using unsigned_less [where 'a = nat and w = ?c] k by simp
  have suc: "unat (?c + 1) = k + 1" if "k < 255"
    using that by (simp add: unat_word_ariths k)
  have le: "3 \<le> ?c \<longleftrightarrow> 3 \<le> k" "k < 255 \<Longrightarrow> 3 \<le> ?c + 1 \<longleftrightarrow> 2 \<le> k"
    using suc by (auto simp: word_le_nat_alt k)
  show ?thesis
    unfolding DecideFwBoot_def Let_def FW_CRASH_RESET_LIMIT_def
    using suc bound le by (auto simp: k lt)
qed

end
