(* ===== verification/FwMetaFlash.thy ===== *)
theory FwMetaFlash
  imports FwMeta
begin

section \<open>Flash access to the fw_meta partition\<close>

text \<open>
  Model of components/fw_meta/fw_meta_flash.c. The ESP-IDF partition API is not part of the
  repository: it is the parameter \<open>drv\<close>, a record of the functions the code calls over an
  abstract device state \<open>'d\<close>, with \<open>pd_mem\<close> the bytes the partition holds in a state. What the
  code relies on is \<open>flash_laws\<close>: a read returns the stored bytes, a write can only clear bits
  (NOR flash) and an erase sets every byte to 0xFF; whether a call fails is up to the device
  state, and a failed call says nothing about the bytes in its range. Sector 0 holds the metadata
  record, sector 1 (from 4096) the control record.
\<close>

record 'd partition_drv =
  pd_found :: bool
  pd_mem :: "'d \<Rightarrow> nat \<Rightarrow> byte"
  pd_read :: "nat \<Rightarrow> nat \<Rightarrow> 'd \<Rightarrow> (esp_err \<times> byte list) \<times> 'd"
  pd_write :: "nat \<Rightarrow> byte list \<Rightarrow> 'd \<Rightarrow> esp_err \<times> 'd"
  pd_erase :: "nat \<Rightarrow> nat \<Rightarrow> 'd \<Rightarrow> esp_err \<times> 'd"

definition mem_range :: "(nat \<Rightarrow> byte) \<Rightarrow> nat \<Rightarrow> nat \<Rightarrow> byte list" where
  "mem_range m off n = map m [off..<off + n]"

definition flash_laws :: "'d partition_drv \<Rightarrow> bool" where
  "flash_laws drv \<longleftrightarrow>
     (\<forall>off n d e bs d'. pd_read drv off n d = ((e, bs), d') \<longrightarrow>
        pd_mem drv d' = pd_mem drv d \<and> (e = ESP_OK \<longrightarrow> bs = mem_range (pd_mem drv d) off n)) \<and>
     (\<forall>off bs d e d'. pd_write drv off bs d = (e, d') \<longrightarrow>
        (\<forall>a. a < off \<or> off + length bs \<le> a \<longrightarrow> pd_mem drv d' a = pd_mem drv d a) \<and>
        (e = ESP_OK \<longrightarrow> (\<forall>i < length bs. pd_mem drv d' (off + i) = pd_mem drv d (off + i) AND bs ! i))) \<and>
     (\<forall>off n d e d'. pd_erase drv off n d = (e, d') \<longrightarrow>
        (\<forall>a. a < off \<or> off + n \<le> a \<longrightarrow> pd_mem drv d' a = pd_mem drv d a) \<and>
        (e = ESP_OK \<longrightarrow> (\<forall>a. off \<le> a \<and> a < off + n \<longrightarrow> pd_mem drv d' a = 0xFF)))"

subsection \<open>Operations\<close>

abbreviation (input) FW_META_RECORD_OFFSET :: nat where "FW_META_RECORD_OFFSET \<equiv> 0"
abbreviation (input) FW_CTRL_RECORD_OFFSET :: nat where "FW_CTRL_RECORD_OFFSET \<equiv> 4096"

definition ReadFwMetaRecord :: "'d partition_drv \<Rightarrow> 'd \<Rightarrow> (esp_err \<times> fw_meta_record) \<times> 'd" where
  "ReadFwMetaRecord drv d =
     (let ((err, bs), d) = (if \<not> pd_found drv then ((ESP_ERR_NOT_FOUND, []), d)
                            else pd_read drv FW_META_RECORD_OFFSET META_SIZE d)
      in ((err, if err \<noteq> ESP_OK then meta_of_bytes (replicate META_SIZE 0xFF) else meta_of_bytes bs), d))"

definition EraseFwMetaRecord :: "'d partition_drv \<Rightarrow> 'd \<Rightarrow> esp_err \<times> 'd" where
  "EraseFwMetaRecord drv d =
     (if \<not> pd_found drv then (ESP_ERR_NOT_FOUND, d)
      else pd_erase drv FW_META_RECORD_OFFSET FW_META_SECTOR_BYTES d)"

definition WriteFwMetaRecord :: "'d partition_drv \<Rightarrow> fw_meta_record \<Rightarrow> 'd \<Rightarrow> esp_err \<times> 'd" where
  "WriteFwMetaRecord drv record d =
     (if \<not> pd_found drv then (ESP_ERR_NOT_FOUND, d)
      else pd_write drv FW_META_RECORD_OFFSET (meta_bytes record) d)"

definition ProgramFwMetaForceFlag :: "'d partition_drv \<Rightarrow> 'd \<Rightarrow> esp_err \<times> 'd" where
  "ProgramFwMetaForceFlag drv d =
     (if \<not> pd_found drv then (ESP_ERR_NOT_FOUND, d)
      else let offset = FW_META_RECORD_OFFSET + META_FORCE_OFFSET;
               flag = FW_FORCE_BOOTLOADER_SET;
               (err, d) = pd_write drv offset (le32 flag) d
           in if err \<noteq> ESP_OK then (err, d)
              else let ((err, read_back), d) = pd_read drv offset 4 d
                   in if err \<noteq> ESP_OK then (err, d)
                      else (if of_le32 read_back = flag then ESP_OK else ESP_ERR_INVALID_CRC, d))"

definition ReadFwCtrlRecord :: "'d partition_drv \<Rightarrow> 'd \<Rightarrow> (esp_err \<times> fw_ctrl_record) \<times> 'd" where
  "ReadFwCtrlRecord drv d =
     (let ((err, bs), d) = (if \<not> pd_found drv then ((ESP_ERR_NOT_FOUND, []), d)
                            else pd_read drv FW_CTRL_RECORD_OFFSET CTRL_SIZE d)
      in ((err, if err \<noteq> ESP_OK \<or> \<not> IsFwCtrlRecordValid (ctrl_of_bytes bs)
                then BuildFwCtrlRecord 0 0 else ctrl_of_bytes bs), d))"

definition WriteFwCtrlRecord :: "'d partition_drv \<Rightarrow> fw_ctrl_record \<Rightarrow> 'd \<Rightarrow> esp_err \<times> 'd" where
  "WriteFwCtrlRecord drv record d =
     (if \<not> pd_found drv then (ESP_ERR_NOT_FOUND, d)
      else let (err, d) = pd_erase drv FW_CTRL_RECORD_OFFSET FW_META_SECTOR_BYTES d
           in if err \<noteq> ESP_OK then (err, d)
              else pd_write drv FW_CTRL_RECORD_OFFSET (ctrl_bytes record) d)"

subsection \<open>What the partition holds\<close>

definition stored_meta :: "'d partition_drv \<Rightarrow> 'd \<Rightarrow> fw_meta_record" where
  "stored_meta drv d = meta_of_bytes (mem_range (pd_mem drv d) 0 60)"

definition stored_ctrl :: "'d partition_drv \<Rightarrow> 'd \<Rightarrow> fw_ctrl_record" where
  "stored_ctrl drv d = ctrl_of_bytes (mem_range (pd_mem drv d) 4096 12)"

text \<open>The control record a reader acts on: an invalid one counts as both counts 0.\<close>

definition effective_ctrl :: "'d partition_drv \<Rightarrow> 'd \<Rightarrow> fw_ctrl_record" where
  "effective_ctrl drv d =
     (if IsFwCtrlRecordValid (stored_ctrl drv d) then stored_ctrl drv d else BuildFwCtrlRecord 0 0)"

lemma length_mem_range [simp, layout]: "length (mem_range m off n) = n"
  by (simp add: mem_range_def)

lemma nth_mem_range [simp]: "i < n \<Longrightarrow> mem_range m off n ! i = m (off + i)"
  by (simp add: mem_range_def)

lemma mem_range_cong:
  "(\<And>a. off \<le> a \<Longrightarrow> a < off + n \<Longrightarrow> m a = m' a) \<Longrightarrow> mem_range m off n = mem_range m' off n"
  by (simp add: mem_range_def)

lemma wf_stored_meta [simp]: "wf_meta (stored_meta drv d)"
  by (simp add: stored_meta_def layout)

lemma wf_stored_ctrl [simp]: "wf_ctrl (stored_ctrl drv d)"
  by (simp add: stored_ctrl_def layout)

lemma mem_range_add: "mem_range m off (n + k) = mem_range m off n @ mem_range m (off + n) k"
  using upt_add_eq_append [of off "off + n" k] by (simp add: mem_range_def add.assoc)

lemma mem_range_4: "mem_range m off 4 = [m off, m (off + 1), m (off + 2), m (off + 3)]"
  by (simp add: mem_range_def numeral_eq_Suc)

lemma mem_range_const:
  assumes "\<And>a. off \<le> a \<Longrightarrow> a < off + n \<Longrightarrow> m a = c"
  shows "mem_range m off n = replicate n c"
proof -
  have "mem_range m off n = map (\<lambda>_. c) [off..<off + n]"
    unfolding mem_range_def by (rule map_cong) (use assms in auto)
  then show ?thesis by (simp add: map_replicate_const)
qed

lemma mem_range_eqI:
  assumes "length bs = n" and "\<And>i. i < n \<Longrightarrow> m (off + i) = bs ! i"
  shows "mem_range m off n = bs"
proof (rule nth_equalityI)
  show "length (mem_range m off n) = length bs" using assms(1) by simp
next
  fix i assume "i < length (mem_range m off n)"
  then show "mem_range m off n ! i = bs ! i" using assms(2) [of i] by simp
qed

lemma erased_and [simp]: "(0xFF :: byte) AND b = b"
proof -
  have "(0xFF :: byte) = - 1" by simp
  then show ?thesis by (simp only: and.left_neutral)
qed

subsection \<open>The contract of the flash driver\<close>

locale flash_driver =
  fixes drv :: "'d partition_drv"
  assumes laws: "flash_laws drv"
begin

lemmas read_law = laws [unfolded flash_laws_def, THEN conjunct1, rule_format]
lemmas write_law = laws [unfolded flash_laws_def, THEN conjunct2, THEN conjunct1, rule_format]
lemmas erase_law = laws [unfolded flash_laws_def, THEN conjunct2, THEN conjunct2, rule_format]

lemma read_mem: "pd_read drv off n d = ((e, bs), d') \<Longrightarrow> pd_mem drv d' = pd_mem drv d"
  by (rule read_law [THEN conjunct1])

lemma read_ok: "pd_read drv off n d = ((ESP_OK, bs), d') \<Longrightarrow> bs = mem_range (pd_mem drv d) off n"
  by (drule read_law) simp

lemma write_outside:
  "pd_write drv off bs d = (e, d') \<Longrightarrow> off' + n \<le> off \<or> off + length bs \<le> off' \<Longrightarrow>
   mem_range (pd_mem drv d') off' n = mem_range (pd_mem drv d) off' n"
  by (rule mem_range_cong) (drule write_law, auto)

lemma write_ok:
  "pd_write drv off bs d = (ESP_OK, d') \<Longrightarrow> i < length bs \<Longrightarrow>
   pd_mem drv d' (off + i) = pd_mem drv d (off + i) AND bs ! i"
  by (drule write_law) simp

lemma erase_outside:
  "pd_erase drv off n d = (e, d') \<Longrightarrow> off' + k \<le> off \<or> off + n \<le> off' \<Longrightarrow>
   mem_range (pd_mem drv d') off' k = mem_range (pd_mem drv d) off' k"
  by (rule mem_range_cong) (drule erase_law, auto)

lemma erase_ok:
  "pd_erase drv off n d = (ESP_OK, d') \<Longrightarrow> off \<le> off' \<Longrightarrow> off' + k \<le> off + n \<Longrightarrow>
   mem_range (pd_mem drv d') off' k = replicate k 0xFF"
  by (rule mem_range_const) (drule erase_law, auto)

text \<open>Writing into erased bytes stores exactly what was written.\<close>

lemma write_erased:
  assumes "pd_write drv off bs d = (ESP_OK, d')"
    and "mem_range (pd_mem drv d) off (length bs) = replicate (length bs) 0xFF"
  shows "mem_range (pd_mem drv d') off (length bs) = bs"
proof (rule mem_range_eqI)
  fix i assume i: "i < length bs"
  have "pd_mem drv d (off + i) = 0xFF"
    using arg_cong [OF assms(2), of "\<lambda>xs. xs ! i"] i by simp
  then show "pd_mem drv d' (off + i) = bs ! i"
    using write_ok [OF assms(1) i] by simp
qed simp

text \<open>The two records are in different sectors.\<close>

lemma stored_meta_cong:
  "mem_range (pd_mem drv d') 0 60 = mem_range (pd_mem drv d) 0 60 \<Longrightarrow> stored_meta drv d' = stored_meta drv d"
  by (simp add: stored_meta_def)

lemma stored_ctrl_cong:
  "mem_range (pd_mem drv d') 4096 12 = mem_range (pd_mem drv d) 4096 12 \<Longrightarrow> stored_ctrl drv d' = stored_ctrl drv d"
  by (simp add: stored_ctrl_def)

lemma ReadFwMetaRecord_frame [frame]:
  "ReadFwMetaRecord drv d = (r, d') \<Longrightarrow> pd_mem drv d' = pd_mem drv d"
  by (auto simp: ReadFwMetaRecord_def Let_def split: if_splits prod.splits dest: read_mem)

lemma ReadFwMetaRecord_ok:
  "ReadFwMetaRecord drv d = ((ESP_OK, r), d') \<Longrightarrow> r = stored_meta drv d"
  by (auto simp: ReadFwMetaRecord_def Let_def stored_meta_def split: if_splits prod.splits dest: read_ok)

lemma ReadFwMetaRecord_fail:
  "ReadFwMetaRecord drv d = ((e, r), d') \<Longrightarrow> e \<noteq> ESP_OK \<Longrightarrow> r = meta_of_bytes (replicate 60 0xFF)"
  by (auto simp: ReadFwMetaRecord_def Let_def split: if_splits prod.splits)

lemma ReadFwCtrlRecord_frame [frame]:
  "ReadFwCtrlRecord drv d = (r, d') \<Longrightarrow> pd_mem drv d' = pd_mem drv d"
  by (auto simp: ReadFwCtrlRecord_def Let_def split: if_splits prod.splits dest: read_mem)

lemma ReadFwCtrlRecord_ok:
  "ReadFwCtrlRecord drv d = ((ESP_OK, r), d') \<Longrightarrow> r = effective_ctrl drv d"
  by (auto simp: ReadFwCtrlRecord_def Let_def stored_ctrl_def effective_ctrl_def
    split: if_splits prod.splits dest: read_ok)

lemma ReadFwCtrlRecord_fail:
  "ReadFwCtrlRecord drv d = ((e, r), d') \<Longrightarrow> e \<noteq> ESP_OK \<Longrightarrow> r = BuildFwCtrlRecord 0 0"
  by (auto simp: ReadFwCtrlRecord_def Let_def split: if_splits prod.splits)

text \<open>Erasing and writing each record, and programming the force flag.\<close>

lemma EraseFwMetaRecord_ctrl:
  "EraseFwMetaRecord drv d = (e, d') \<Longrightarrow> stored_ctrl drv d' = stored_ctrl drv d"
  by (auto simp: EraseFwMetaRecord_def split: if_splits intro!: stored_ctrl_cong erase_outside)

lemma EraseFwMetaRecord_ok:
  "EraseFwMetaRecord drv d = (ESP_OK, d') \<Longrightarrow> mem_range (pd_mem drv d') 0 60 = replicate 60 0xFF"
  by (auto simp: EraseFwMetaRecord_def split: if_splits intro: erase_ok)

lemma WriteFwMetaRecord_ctrl:
  "wf_meta r \<Longrightarrow> WriteFwMetaRecord drv r d = (e, d') \<Longrightarrow> stored_ctrl drv d' = stored_ctrl drv d"
  by (auto simp: WriteFwMetaRecord_def layout split: if_splits intro!: stored_ctrl_cong write_outside)

lemma WriteFwMetaRecord_ok:
  assumes "WriteFwMetaRecord drv r d = (ESP_OK, d')" "wf_meta r"
    and "mem_range (pd_mem drv d) 0 60 = replicate 60 0xFF"
  shows "stored_meta drv d' = r"
  using assms write_erased [of 0 "meta_bytes r" d d']
  by (auto simp: WriteFwMetaRecord_def stored_meta_def layout split: if_splits)

lemma WriteFwCtrlRecord_meta:
  assumes "wf_ctrl r" "WriteFwCtrlRecord drv r d = (e, d')"
  shows "stored_meta drv d' = stored_meta drv d"
  using assms
  by (auto simp: WriteFwCtrlRecord_def Let_def stored_meta_def dest!: erase_outside [of _ _ _ _ _ 0 60]
    write_outside [of _ _ _ _ _ 0 60] split: if_splits prod.splits)

lemma WriteFwCtrlRecord_ok:
  assumes "wf_ctrl r" "WriteFwCtrlRecord drv r d = (ESP_OK, d')"
  shows "stored_ctrl drv d' = r"
proof -
  obtain d1 where e: "pd_erase drv 4096 4096 d = (ESP_OK, d1)"
    and w: "pd_write drv 4096 (ctrl_bytes r) d1 = (ESP_OK, d')"
    using assms by (auto simp: WriteFwCtrlRecord_def Let_def split: if_splits prod.splits)
  have "mem_range (pd_mem drv d') 4096 12 = ctrl_bytes r"
    using write_erased [OF w] erase_ok [OF e, of 4096 12] assms(1) by (simp add: layout)
  then show ?thesis using assms(1) by (simp add: stored_ctrl_def layout)
qed

lemma ProgramFwMetaForceFlag_split:
  assumes "ProgramFwMetaForceFlag drv d = (e, d')"
  shows "mem_range (pd_mem drv d') 0 56 = mem_range (pd_mem drv d) 0 56"
    and "mem_range (pd_mem drv d') 4096 12 = mem_range (pd_mem drv d) 4096 12"
    and "e = ESP_OK \<Longrightarrow> mem_range (pd_mem drv d') 56 4 = le32 FW_FORCE_BOOTLOADER_SET"
proof -
  note frames = write_outside [of 56 "le32 FW_FORCE_BOOTLOADER_SET" d _ _ 0 56]
    write_outside [of 56 "le32 FW_FORCE_BOOTLOADER_SET" d _ _ 4096 12]
  show "mem_range (pd_mem drv d') 0 56 = mem_range (pd_mem drv d) 0 56"
    and "mem_range (pd_mem drv d') 4096 12 = mem_range (pd_mem drv d) 4096 12"
    using assms frames
    by (auto simp: ProgramFwMetaForceFlag_def Let_def split: if_splits prod.splits dest!: read_mem)
  assume "e = ESP_OK"
  with assms obtain d1 bs where r: "pd_read drv 56 4 d1 = ((ESP_OK, bs), d')"
    and w: "pd_write drv 56 (le32 FW_FORCE_BOOTLOADER_SET) d = (ESP_OK, d1)"
    by (auto simp: ProgramFwMetaForceFlag_def Let_def split: if_splits prod.splits)
  have "mem_range (pd_mem drv d1) 56 4 = le32 FW_FORCE_BOOTLOADER_SET"
  proof (rule mem_range_eqI)
    fix i :: nat assume "i < 4"
    then show "pd_mem drv d1 (56 + i) = le32 FW_FORCE_BOOTLOADER_SET ! i"
      using write_ok [OF w, of i] by (auto simp: le32_def fw_consts less_Suc_eq numeral_eq_Suc)
  qed simp
  then show "mem_range (pd_mem drv d') 56 4 = le32 FW_FORCE_BOOTLOADER_SET"
    using read_mem [OF r] by simp
qed

lemma meta_of_bytes_tail:
  "length xs = 56 \<Longrightarrow> length ys = 4 \<Longrightarrow> length zs = 4 \<Longrightarrow>
   meta_of_bytes (xs @ ys) = (meta_of_bytes (xs @ zs))\<lparr>mr_force_bootloader := of_le32 ys\<rparr>"
  by (simp add: meta_of_bytes_def)

lemma ProgramFwMetaForceFlag_meta:
  assumes "ProgramFwMetaForceFlag drv d = (e, d')"
  shows "\<exists>f. stored_meta drv d' = (stored_meta drv d)\<lparr>mr_force_bootloader := f\<rparr> \<and>
    (e = ESP_OK \<longrightarrow> f = FW_FORCE_BOOTLOADER_SET)"
proof (intro exI conjI impI)
  let ?f = "of_le32 (mem_range (pd_mem drv d') 56 4)"
  have split: "mem_range (pd_mem drv x) 0 60 = mem_range (pd_mem drv x) 0 56 @ mem_range (pd_mem drv x) 56 4" for x
    using mem_range_add [of "pd_mem drv x" 0 56 4] by simp
  show "stored_meta drv d' = (stored_meta drv d)\<lparr>mr_force_bootloader := ?f\<rparr>"
    unfolding stored_meta_def split ProgramFwMetaForceFlag_split(1) [OF assms]
    by (rule meta_of_bytes_tail) simp_all
  show "?f = FW_FORCE_BOOTLOADER_SET" if "e = ESP_OK"
    using ProgramFwMetaForceFlag_split(3) [OF assms that] by simp
qed

lemma ProgramFwMetaForceFlag_ctrl:
  "ProgramFwMetaForceFlag drv d = (e, d') \<Longrightarrow> stored_ctrl drv d' = stored_ctrl drv d"
  by (rule stored_ctrl_cong) (rule ProgramFwMetaForceFlag_split(2))

end

subsection \<open>The store of the two records, as its clients see it\<close>

text \<open>
  The operations of fw_meta_flash.h with the records they keep: \<open>meta\<close> is what sector 0 holds,
  \<open>ctrl\<close> the control record a reader acts on. The updater and the firmware rely on these laws only.
\<close>

locale meta_store =
  fixes read_meta :: "'d \<Rightarrow> (esp_err \<times> fw_meta_record) \<times> 'd"
    and erase_meta :: "'d \<Rightarrow> esp_err \<times> 'd"
    and write_meta :: "fw_meta_record \<Rightarrow> 'd \<Rightarrow> esp_err \<times> 'd"
    and program_force :: "'d \<Rightarrow> esp_err \<times> 'd"
    and read_ctrl :: "'d \<Rightarrow> (esp_err \<times> fw_ctrl_record) \<times> 'd"
    and write_ctrl :: "fw_ctrl_record \<Rightarrow> 'd \<Rightarrow> esp_err \<times> 'd"
    and meta :: "'d \<Rightarrow> fw_meta_record"
    and ctrl :: "'d \<Rightarrow> fw_ctrl_record"
    and erased :: "'d \<Rightarrow> bool"
  assumes read_meta_frame: "read_meta d = (x, d') \<Longrightarrow> meta d' = meta d \<and> ctrl d' = ctrl d \<and> erased d' = erased d"
    and read_meta_ok: "read_meta d = ((ESP_OK, r), d') \<Longrightarrow> r = meta d"
    and read_ctrl_frame: "read_ctrl d = (y, d') \<Longrightarrow> meta d' = meta d \<and> ctrl d' = ctrl d"
    and read_ctrl_ok: "read_ctrl d = ((ESP_OK, c), d') \<Longrightarrow> c = ctrl d"
    and erase_meta_ctrl: "erase_meta d = (e, d') \<Longrightarrow> ctrl d' = ctrl d"
    and erase_meta_ok: "erase_meta d = (ESP_OK, d') \<Longrightarrow> erased d'"
    and erased_invalid: "erased d \<Longrightarrow> \<not> IsFwMetaRecordValid (meta d) n"
    and write_meta_ctrl: "wf_meta r \<Longrightarrow> write_meta r d = (e, d') \<Longrightarrow> ctrl d' = ctrl d"
    and write_meta_ok: "wf_meta r \<Longrightarrow> erased d \<Longrightarrow> write_meta r d = (ESP_OK, d') \<Longrightarrow> meta d' = r"
    and program_force_ctrl: "program_force d = (e, d') \<Longrightarrow> ctrl d' = ctrl d"
    and program_force_meta: "program_force d = (e, d') \<Longrightarrow>
      \<exists>f. meta d' = (meta d)\<lparr>mr_force_bootloader := f\<rparr> \<and> (e = ESP_OK \<longrightarrow> f = FW_FORCE_BOOTLOADER_SET)"
    and write_ctrl_meta: "wf_ctrl c \<Longrightarrow> write_ctrl c d = (e, d') \<Longrightarrow> meta d' = meta d"
    and write_ctrl_ok: "wf_ctrl c \<Longrightarrow> IsFwCtrlRecordValid c \<Longrightarrow> write_ctrl c d = (ESP_OK, d') \<Longrightarrow> ctrl d' = c"
    and wf_meta_meta: "wf_meta (meta d)"
begin

lemma commit_read:
  "erase_meta d = (ESP_OK, d1) \<Longrightarrow> write_meta r d1 = (ESP_OK, d2) \<Longrightarrow> wf_meta r \<Longrightarrow>
   read_meta d2 = ((ESP_OK, r'), d3) \<Longrightarrow> r' = r \<and> ctrl d3 = ctrl d"
  by (metis erase_meta_ctrl erase_meta_ok read_meta_frame read_meta_ok write_meta_ctrl write_meta_ok)

lemma write_read_ctrl:
  "write_ctrl (BuildFwCtrlRecord c b) d = (ESP_OK, d1) \<Longrightarrow> read_ctrl d1 = ((ESP_OK, c'), d2) \<Longrightarrow>
   c' = BuildFwCtrlRecord c b \<and> meta d2 = meta d"
  by (metis BuildFwCtrlRecord_valid read_ctrl_frame read_ctrl_ok wf_BuildFwCtrlRecord write_ctrl_meta
      write_ctrl_ok)

lemma force_keeps_valid:
  assumes "program_force d = (e, d')"
  shows "IsFwMetaRecordValid (meta d') n = IsFwMetaRecordValid (meta d) n"
  using program_force_meta [OF assms] wf_meta_meta by auto

lemma force_read:
  assumes "program_force d = (ESP_OK, d1)" and "read_meta d1 = ((ESP_OK, r), d2)"
  shows "r = (meta d)\<lparr>mr_force_bootloader := FW_FORCE_BOOTLOADER_SET\<rparr>"
  using program_force_meta [OF assms(1)] read_meta_ok [OF assms(2)] by auto

end

definition meta_erased :: "'d partition_drv \<Rightarrow> 'd \<Rightarrow> bool" where
  "meta_erased drv d \<longleftrightarrow> mem_range (pd_mem drv d) 0 60 = replicate 60 0xFF"

lemma stored_cong:
  assumes "pd_mem drv d' = pd_mem drv d"
  shows "stored_meta drv d' = stored_meta drv d" "stored_ctrl drv d' = stored_ctrl drv d"
    "effective_ctrl drv d' = effective_ctrl drv d" "meta_erased drv d' = meta_erased drv d"
  using assms by (simp_all add: stored_meta_def stored_ctrl_def effective_ctrl_def meta_erased_def)

lemma effective_ctrl_cong:
  "stored_ctrl drv d' = stored_ctrl drv d \<Longrightarrow> effective_ctrl drv d' = effective_ctrl drv d"
  by (simp add: effective_ctrl_def)

sublocale flash_driver \<subseteq> meta_store "ReadFwMetaRecord drv" "EraseFwMetaRecord drv"
  "WriteFwMetaRecord drv" "ProgramFwMetaForceFlag drv" "ReadFwCtrlRecord drv" "WriteFwCtrlRecord drv"
  "stored_meta drv" "effective_ctrl drv" "meta_erased drv"
proof (unfold_locales, goal_cases)
  case (1 d x d') then show ?case using stored_cong ReadFwMetaRecord_frame by metis
next
  case (2 d r d') then show ?case by (rule ReadFwMetaRecord_ok)
next
  case (3 d y d') then show ?case using stored_cong ReadFwCtrlRecord_frame by metis
next
  case (4 d c d') then show ?case by (rule ReadFwCtrlRecord_ok)
next
  case (5 d e d') then show ?case by (intro effective_ctrl_cong EraseFwMetaRecord_ctrl)
next
  case (6 d d') then show ?case by (simp add: meta_erased_def EraseFwMetaRecord_ok)
next
  case (7 d n) then show ?case by (simp add: meta_erased_def stored_meta_def erased_meta)
next
  case (8 r d e d') then show ?case by (intro effective_ctrl_cong WriteFwMetaRecord_ctrl)
next
  case (9 r d d') then show ?case by (simp add: meta_erased_def WriteFwMetaRecord_ok)
next
  case (10 d e d') then show ?case by (intro effective_ctrl_cong ProgramFwMetaForceFlag_ctrl)
next
  case (11 d e d') then show ?case by (rule ProgramFwMetaForceFlag_meta)
next
  case (12 c d e d') then show ?case by (rule WriteFwCtrlRecord_meta)
next
  case (13 c d d') then show ?case by (simp add: effective_ctrl_def WriteFwCtrlRecord_ok)
next
  case (14 d) then show ?case by simp
qed

subsection \<open>A device that satisfies the contract\<close>

text \<open>
  A NOR flash with a script of the outcomes its next calls have (success once the script is
  used up): the contract is satisfiable, with and without failing calls. A device is \<open>reliable\<close>
  in the states of a set that its calls never leave and in which they all succeed.
\<close>

record nor_dev =
  nd_mem :: "nat \<Rightarrow> byte"
  nd_script :: "esp_err list"

definition nor_next :: "'z nor_dev_scheme \<Rightarrow> esp_err \<times> 'z nor_dev_scheme" where
  "nor_next d = (case nd_script d of [] \<Rightarrow> (ESP_OK, d) | e # es \<Rightarrow> (e, d\<lparr>nd_script := es\<rparr>))"

definition nor_read :: "nat \<Rightarrow> nat \<Rightarrow> 'z nor_dev_scheme \<Rightarrow> (esp_err \<times> byte list) \<times> 'z nor_dev_scheme" where
  "nor_read off n d = (let (e, d) = nor_next d
     in ((e, if e = ESP_OK then mem_range (nd_mem d) off n else []), d))"

definition nor_write :: "nat \<Rightarrow> byte list \<Rightarrow> 'z nor_dev_scheme \<Rightarrow> esp_err \<times> 'z nor_dev_scheme" where
  "nor_write off bs d = (let (e, d) = nor_next d
     in (e, if e = ESP_OK
            then d\<lparr>nd_mem := \<lambda>a. if off \<le> a \<and> a < off + length bs then nd_mem d a AND bs ! (a - off)
                                else nd_mem d a\<rparr>
            else d))"

definition nor_erase :: "nat \<Rightarrow> nat \<Rightarrow> 'z nor_dev_scheme \<Rightarrow> esp_err \<times> 'z nor_dev_scheme" where
  "nor_erase off n d = (let (e, d) = nor_next d
     in (e, if e = ESP_OK
            then d\<lparr>nd_mem := \<lambda>a. if off \<le> a \<and> a < off + n then 0xFF else nd_mem d a\<rparr> else d))"

definition nor_drv :: "'z nor_dev_scheme partition_drv" where
  "nor_drv = \<lparr>pd_found = True, pd_mem = nd_mem, pd_read = nor_read, pd_write = nor_write, pd_erase = nor_erase\<rparr>"

lemma nor_next_mem [simp]: "nd_mem (snd (nor_next d)) = nd_mem d"
  by (simp add: nor_next_def split: list.splits)

lemma nor_laws: "flash_laws nor_drv"
proof -
  have m: "nor_next d = (e, d') \<Longrightarrow> nd_mem d' = nd_mem d" for d e d'
    using nor_next_mem [of d] by simp
  show ?thesis
    unfolding flash_laws_def nor_drv_def
    by (auto simp: nor_read_def nor_write_def nor_erase_def Let_def m split: prod.splits if_splits)
qed

interpretation nor: flash_driver nor_drv
  by (unfold_locales) (rule nor_laws)

definition reliable :: "'d partition_drv \<Rightarrow> ('d \<Rightarrow> bool) \<Rightarrow> bool" where
  "reliable drv ok \<longleftrightarrow> pd_found drv \<and>
     (\<forall>off n d. ok d \<longrightarrow> fst (fst (pd_read drv off n d)) = ESP_OK \<and> ok (snd (pd_read drv off n d))) \<and>
     (\<forall>off bs d. ok d \<longrightarrow> fst (pd_write drv off bs d) = ESP_OK \<and> ok (snd (pd_write drv off bs d))) \<and>
     (\<forall>off n d. ok d \<longrightarrow> fst (pd_erase drv off n d) = ESP_OK \<and> ok (snd (pd_erase drv off n d)))"

lemma reliable_calls:
  assumes "reliable drv ok" "ok d"
  shows "pd_read drv off n d = ((e, bs), d1) \<Longrightarrow> e = ESP_OK \<and> ok d1"
    and "pd_write drv off ws d = (e, d1) \<Longrightarrow> e = ESP_OK \<and> ok d1"
    and "pd_erase drv off n d = (e, d1) \<Longrightarrow> e = ESP_OK \<and> ok d1"
  using assms unfolding reliable_def by (metis fst_conv snd_conv)+

lemma reliable_found: "reliable drv ok \<Longrightarrow> pd_found drv"
  by (simp add: reliable_def)

context flash_driver
begin

lemma reliable_read_meta:
  assumes "reliable drv ok" "ok d"
  obtains d' where "ReadFwMetaRecord drv d = ((ESP_OK, stored_meta drv d), d')" "ok d'"
    "pd_mem drv d' = pd_mem drv d"
proof -
  obtain e bs d' where p: "pd_read drv 0 60 d = ((e, bs), d')" by (metis prod.exhaust)
  note e = reliable_calls(1) [OF assms p]
  have r: "ReadFwMetaRecord drv d = ((ESP_OK, meta_of_bytes bs), d')"
    using p e reliable_found [OF assms(1)] by (simp add: ReadFwMetaRecord_def)
  show thesis
    using that r e ReadFwMetaRecord_ok [OF r] ReadFwMetaRecord_frame [OF r] by simp
qed

lemma reliable_read_ctrl:
  assumes "reliable drv ok" "ok d"
  obtains d' where "ReadFwCtrlRecord drv d = ((ESP_OK, effective_ctrl drv d), d')" "ok d'"
    "pd_mem drv d' = pd_mem drv d"
proof -
  obtain e bs d' where p: "pd_read drv 4096 12 d = ((e, bs), d')" by (metis prod.exhaust)
  note e = reliable_calls(1) [OF assms p]
  obtain c where r: "ReadFwCtrlRecord drv d = ((ESP_OK, c), d')"
    using p e reliable_found [OF assms(1)] by (simp add: ReadFwCtrlRecord_def)
  show thesis
    using that r e ReadFwCtrlRecord_ok [OF r] ReadFwCtrlRecord_frame [OF r] by simp
qed

lemma reliable_write_ctrl:
  assumes "reliable drv ok" "ok d"
  obtains d' where "WriteFwCtrlRecord drv (BuildFwCtrlRecord c b) d = (ESP_OK, d')" "ok d'"
    "effective_ctrl drv d' = BuildFwCtrlRecord c b" "stored_meta drv d' = stored_meta drv d"
proof -
  obtain e d1 where p: "pd_erase drv 4096 4096 d = (e, d1)" by (metis prod.exhaust)
  note e = reliable_calls(3) [OF assms p]
  obtain e2 d' where p2: "pd_write drv 4096 (ctrl_bytes (BuildFwCtrlRecord c b)) d1 = (e2, d')"
    by (metis prod.exhaust)
  note e2 = reliable_calls(2) [OF assms(1) e [THEN conjunct2] p2]
  have w: "WriteFwCtrlRecord drv (BuildFwCtrlRecord c b) d = (ESP_OK, d')"
    using p p2 e e2 reliable_found [OF assms(1)] by (simp add: WriteFwCtrlRecord_def)
  show thesis
    using that w e2 write_ctrl_ok [OF _ _ w] write_ctrl_meta [OF _ w] by simp
qed

end

lemma nor_reliable: "reliable nor_drv (\<lambda>d. nd_script d = [])"
  by (auto simp: reliable_def nor_drv_def nor_read_def nor_write_def nor_erase_def nor_next_def)

text \<open>A device holding the given two records.\<close>

definition nor_holding :: "fw_meta_record \<Rightarrow> fw_ctrl_record \<Rightarrow> nor_dev" where
  "nor_holding m c = \<lparr>nd_mem = (\<lambda>a. if a < 60 then meta_bytes m ! a
     else if 4096 \<le> a \<and> a < 4108 then ctrl_bytes c ! (a - 4096) else 0xFF), nd_script = []\<rparr>"

lemma nor_holding_stored [simp]:
  "wf_meta m \<Longrightarrow> stored_meta nor_drv (nor_holding m c) = m"
  "wf_ctrl c \<Longrightarrow> stored_ctrl nor_drv (nor_holding m c) = c"
  "nd_script (nor_holding m c) = []"
proof -
  have 1: "mem_range (nd_mem (nor_holding m c)) 0 60 = meta_bytes m" if "wf_meta m"
    using that by (intro mem_range_eqI) (simp_all add: layout nor_holding_def)
  have 2: "mem_range (nd_mem (nor_holding m c)) 4096 12 = ctrl_bytes c" if "wf_ctrl c"
    using that by (intro mem_range_eqI) (simp_all add: layout nor_holding_def)
  show "wf_meta m \<Longrightarrow> stored_meta nor_drv (nor_holding m c) = m"
    "wf_ctrl c \<Longrightarrow> stored_ctrl nor_drv (nor_holding m c) = c"
    using 1 2 by (simp_all add: stored_meta_def stored_ctrl_def nor_drv_def layout)
  show "nd_script (nor_holding m c) = []" by (simp add: nor_holding_def)
qed

end
