(* ===== verification/FwUpdate.thy ===== *)
theory FwUpdate
  imports FwMetaFlash
begin

section \<open>Firmware side of the updater\<close>

text \<open>
  Model of main/fw_update/fw_update.c: the embedded metadata of the image, the update request
  that sets the force flag, and the clearing of the crash count. \<open>ota\<close> is the size of the ota_0
  partition, \<open>None\<close> when it is not found. The restart itself (\<open>esp_restart\<close>) and the timer
  service are ESP-IDF calls; the timer calls' results are arguments.
\<close>

datatype fw_update_request =
    FW_UPDATE_REQUEST_SET
  | FW_UPDATE_REQUEST_NO_RECORD
  | FW_UPDATE_REQUEST_FAILED

text \<open>\<open>FW_PROJECT_VER\<close> is set by the build; its size is asserted to be that of a version field.\<close>

definition g_fw_embedded_meta :: "byte list \<Rightarrow> fw_embedded_meta" where
  "g_fw_embedded_meta project_ver =
     \<lparr>em_magic = FW_META_MAGIC, em_version = project_ver, em_reserved = [0, 0, 0]\<rparr>"

definition GetFwVersion :: "byte list \<Rightarrow> byte list" where
  "GetFwVersion project_ver = em_version (g_fw_embedded_meta project_ver)"

definition RequestFwUpdate :: "'d partition_drv \<Rightarrow> u32 option \<Rightarrow> 'd \<Rightarrow> fw_update_request \<times> 'd" where
  "RequestFwUpdate drv ota d =
     (let ((_, record), d) = ReadFwMetaRecord drv d in
      case ota of
        None \<Rightarrow> (FW_UPDATE_REQUEST_NO_RECORD, d)
      | Some ota_size \<Rightarrow>
          if \<not> IsFwMetaRecordValid record ota_size then (FW_UPDATE_REQUEST_NO_RECORD, d)
          else let (err, d) = ProgramFwMetaForceFlag drv d
               in if err \<noteq> ESP_OK then (FW_UPDATE_REQUEST_FAILED, d) else (FW_UPDATE_REQUEST_SET, d))"

definition MarkFirmwareHealthy :: "'d partition_drv \<Rightarrow> 'd \<Rightarrow> 'd" where
  "MarkFirmwareHealthy drv d =
     (let ((_, record), d) = ReadFwCtrlRecord drv d in
      if cr_crash_count record = 0 then d
      else snd (WriteFwCtrlRecord drv (BuildFwCtrlRecord 0 (cr_boot_attempts record)) d))"

definition HandleHealthyTimer :: "'d partition_drv \<Rightarrow> 'd \<Rightarrow> 'd" where
  "HandleHealthyTimer drv d = MarkFirmwareHealthy drv d"

text \<open>
  \<open>has_timer\<close> is whether the static handle is already set; the other arguments are the results
  \<open>esp_timer_create\<close> and \<open>esp_timer_start_once\<close> would return. The result is the return value and
  whether the handle is set afterwards.
\<close>

definition StartFwHealthyTimer :: "bool \<Rightarrow> esp_err \<Rightarrow> esp_err \<Rightarrow> bool \<times> bool" where
  "StartFwHealthyTimer has_timer create_result start_result =
     (let (create_failed, has_timer) =
            (if \<not> has_timer then (create_result \<noteq> ESP_OK, create_result = ESP_OK) else (False, has_timer))
      in if create_failed \<or> start_result \<noteq> ESP_OK then (False, has_timer) else (True, has_timer))"

context flash_driver
begin

lemma RequestFwUpdate_cases:
  assumes "RequestFwUpdate drv ota d = (q, d')"
  shows "effective_ctrl drv d' = effective_ctrl drv d"
    and "\<exists>f. stored_meta drv d' = (stored_meta drv d)\<lparr>mr_force_bootloader := f\<rparr>"
    and "q = FW_UPDATE_REQUEST_SET \<Longrightarrow>
      stored_meta drv d' = (stored_meta drv d)\<lparr>mr_force_bootloader := FW_FORCE_BOOTLOADER_SET\<rparr>"
    and "q = FW_UPDATE_REQUEST_NO_RECORD \<Longrightarrow> stored_meta drv d' = stored_meta drv d"
proof -
  obtain e r d1 where r: "ReadFwMetaRecord drv d = ((e, r), d1)" by (metis prod.exhaust)
  note f = read_meta_frame [OF r]
  have same: "\<exists>f. stored_meta drv d = (stored_meta drv d)\<lparr>mr_force_bootloader := f\<rparr>"
    by (rule exI [of _ "mr_force_bootloader (stored_meta drv d)"]) simp
  have "effective_ctrl drv d' = effective_ctrl drv d \<and>
    (\<exists>f. stored_meta drv d' = (stored_meta drv d)\<lparr>mr_force_bootloader := f\<rparr>) \<and>
    (q = FW_UPDATE_REQUEST_SET \<longrightarrow>
      stored_meta drv d' = (stored_meta drv d)\<lparr>mr_force_bootloader := FW_FORCE_BOOTLOADER_SET\<rparr>) \<and>
    (q = FW_UPDATE_REQUEST_NO_RECORD \<longrightarrow> stored_meta drv d' = stored_meta drv d)"
  proof (cases "\<exists>n. ota = Some n \<and> IsFwMetaRecordValid r n")
    case True
    then obtain n e2 where p: "ProgramFwMetaForceFlag drv d1 = (e2, d')"
      and q: "q = (if e2 \<noteq> ESP_OK then FW_UPDATE_REQUEST_FAILED else FW_UPDATE_REQUEST_SET)"
      using assms r by (auto simp: RequestFwUpdate_def Let_def split: prod.splits if_splits)
    show ?thesis
      using program_force_meta [OF p] program_force_ctrl [OF p] f q by (auto split: if_splits)
  next
    case False
    then have "q = FW_UPDATE_REQUEST_NO_RECORD \<and> d' = d1"
      using assms r by (auto simp: RequestFwUpdate_def Let_def split: option.splits if_splits)
    with f same show ?thesis by auto
  qed
  then show "effective_ctrl drv d' = effective_ctrl drv d"
    and "\<exists>f. stored_meta drv d' = (stored_meta drv d)\<lparr>mr_force_bootloader := f\<rparr>"
    and "q = FW_UPDATE_REQUEST_SET \<Longrightarrow>
      stored_meta drv d' = (stored_meta drv d)\<lparr>mr_force_bootloader := FW_FORCE_BOOTLOADER_SET\<rparr>"
    and "q = FW_UPDATE_REQUEST_NO_RECORD \<Longrightarrow> stored_meta drv d' = stored_meta drv d" by simp_all
qed

end

subsection \<open>Properties\<close>

text \<open>
  An update request never damages the installed firmware's record and never fails silently.
  Whatever the flash does, the record keeps every field but the force flag, so it stays as valid as
  it was, and the control record is untouched; if the request reports SET, the next read of the
  record requests the updater; if it reports NO_RECORD, the record is unchanged.
\<close>

theorem RequestFwUpdate_safe:
  assumes "flash_laws drv" and "RequestFwUpdate drv ota d = (q, d')"
  shows "IsFwMetaRecordValid (stored_meta drv d') n = IsFwMetaRecordValid (stored_meta drv d) n \<and>
    effective_ctrl drv d' = effective_ctrl drv d \<and>
    (q = FW_UPDATE_REQUEST_SET \<longrightarrow> IsFwForceRequested (stored_meta drv d')) \<and>
    (q = FW_UPDATE_REQUEST_NO_RECORD \<longrightarrow> stored_meta drv d' = stored_meta drv d)"
proof -
  note c = flash_driver.RequestFwUpdate_cases [OF flash_driver.intro [OF assms(1)] assms(2)]
  have "IsFwMetaRecordValid (stored_meta drv d') n = IsFwMetaRecordValid (stored_meta drv d) n"
    using c(2) by auto
  moreover have "q = FW_UPDATE_REQUEST_SET \<longrightarrow> IsFwForceRequested (stored_meta drv d')"
    using c(3) by (auto simp: IsFwForceRequested_def fw_consts)
  ultimately show ?thesis using c(1) c(4) by blast
qed

definition example_version :: "byte list" where
  "example_version = ascii ''01.00.00'' @ [0]"

definition example_meta :: fw_meta_record where
  "example_meta = BuildFwMetaRecord example_version 1000 (replicate 32 7)"

lemma example_version_ok [simp]: "length example_version = 9" "IsValidFwVersion example_version"
  by (simp_all add: example_version_def ascii_def IsValidFwVersion_field is_version_digit_def)

lemma example_meta_ok [simp]: "wf_meta example_meta" "IsFwMetaRecordValid example_meta 4096"
  by (simp_all add: example_meta_def BuildFwMetaRecord_valid_iff)

theorem RequestFwUpdate_safe_witness:
  "\<exists>d'. RequestFwUpdate nor_drv (Some 4096) (nor_holding example_meta (BuildFwCtrlRecord 1 0)) =
     (FW_UPDATE_REQUEST_SET, d') \<and>
   IsFwMetaRecordValid (stored_meta nor_drv d') 4096 \<and> IsFwForceRequested (stored_meta nor_drv d')"
proof -
  let ?d = "nor_holding example_meta (BuildFwCtrlRecord 1 0)"
  let ?q = "RequestFwUpdate nor_drv (Some 4096) ?d"
  have next_ok: "nd_script d = [] \<Longrightarrow> nor_next d = (ESP_OK, d)" for d by (simp add: nor_next_def)
  have m: "meta_of_bytes (mem_range (nd_mem ?d) 0 60) = example_meta"
    using nor_holding_stored(1) [OF example_meta_ok(1)] by (simp add: stored_meta_def nor_drv_def)
  have "fst ?q = FW_UPDATE_REQUEST_SET"
    by (simp add: RequestFwUpdate_def ReadFwMetaRecord_def ProgramFwMetaForceFlag_def nor_drv_def nor_read_def
        nor_write_def next_ok m fw_consts mem_range_4 of_le32_def le32_def)
  then obtain d' where q: "?q = (FW_UPDATE_REQUEST_SET, d')" by (metis prod.collapse)
  show ?thesis
    using RequestFwUpdate_safe [OF nor_laws q, of 4096] q by auto
qed

text \<open>
  A healthy run clears the crash count and nothing else. The metadata record is never changed,
  whether or not the flash calls succeed; a count that reads as 0 causes no flash write at all; and on
  a device whose calls succeed the count is 0 afterwards while the reserved byte is kept.
\<close>

theorem MarkFirmwareHealthy_clears:
  assumes laws: "flash_laws drv"
  shows "stored_meta drv (MarkFirmwareHealthy drv d) = stored_meta drv d \<and>
    (cr_crash_count (snd (fst (ReadFwCtrlRecord drv d))) = 0 \<longrightarrow>
      pd_mem drv (MarkFirmwareHealthy drv d) = pd_mem drv d) \<and>
    (reliable drv ok \<and> ok d \<longrightarrow>
      cr_crash_count (effective_ctrl drv (MarkFirmwareHealthy drv d)) = 0 \<and>
      cr_boot_attempts (effective_ctrl drv (MarkFirmwareHealthy drv d)) = cr_boot_attempts (effective_ctrl drv d))"
proof -
  have fd: "flash_driver drv" using laws by (rule flash_driver.intro)
  obtain e r d1 where r: "ReadFwCtrlRecord drv d = ((e, r), d1)" by (metis prod.exhaust)
  obtain e2 d2 where w: "WriteFwCtrlRecord drv (BuildFwCtrlRecord 0 (cr_boot_attempts r)) d1 = (e2, d2)"
    by (metis prod.exhaust)
  have res: "MarkFirmwareHealthy drv d = (if cr_crash_count r = 0 then d1 else d2)"
    using r w by (simp add: MarkFirmwareHealthy_def)
  have mem: "pd_mem drv d1 = pd_mem drv d"
    using flash_driver.ReadFwCtrlRecord_frame [OF fd r] .
  have "stored_meta drv d2 = stored_meta drv d1"
    by (rule flash_driver.WriteFwCtrlRecord_meta [OF fd _ w]) simp
  then have meta: "stored_meta drv (MarkFirmwareHealthy drv d) = stored_meta drv d"
    using stored_cong(1) [OF mem] res by simp
  have "cr_crash_count (effective_ctrl drv (MarkFirmwareHealthy drv d)) = 0 \<and>
      cr_boot_attempts (effective_ctrl drv (MarkFirmwareHealthy drv d)) = cr_boot_attempts (effective_ctrl drv d)"
    if rel: "reliable drv ok" and ok: "ok d"
  proof -
    obtain d1' where r': "ReadFwCtrlRecord drv d = ((ESP_OK, effective_ctrl drv d), d1')" "ok d1'"
      by (rule flash_driver.reliable_read_ctrl [OF fd rel ok])
    then have r1: "r = effective_ctrl drv d" "ok d1" using r by auto
    have "effective_ctrl drv d2 = BuildFwCtrlRecord 0 (cr_boot_attempts r)"
      by (rule flash_driver.reliable_write_ctrl [OF fd rel r1(2), of 0 "cr_boot_attempts r"]) (use w in auto)
    then show ?thesis
      using res r1(1) stored_cong(3) [OF mem] by auto
  qed
  then show ?thesis using meta mem res r by auto
qed

theorem MarkFirmwareHealthy_clears_witness:
  "cr_crash_count (effective_ctrl nor_drv
     (MarkFirmwareHealthy nor_drv (nor_holding example_meta (BuildFwCtrlRecord 2 9)))) = 0"
  using MarkFirmwareHealthy_clears [OF nor_laws, of "nor_holding example_meta (BuildFwCtrlRecord 2 9)"
      "\<lambda>d. nd_script d = []"] nor_reliable [where 'a = unit] by simp

end
