(* ===== verification/OtaFlash.thy ===== *)
theory OtaFlash
  imports FwMetaFlash
begin

section \<open>The ota_0 partition\<close>

text \<open>
  The parts of ESP-IDF the updater uses on the application partition ota_0: reading it, its image
  digest (\<open>esp_partition_get_sha256\<close>, behind \<open>ComputeFwImageSha256\<close> of fw_meta_flash.c) and the
  streaming writer (\<open>esp_ota_begin/write/end/abort\<close>). They are not part of the repository, so they
  are a record of functions over the device state \<open>'d\<close> the fw_meta partition lives in too, with
  two observables: \<open>od_mem\<close> the bytes of the partition, \<open>od_written\<close> what the open writer has
  accepted. \<open>ota_laws\<close> is the documented behaviour the code relies on: the writer appends, a
  successful end means that the partition starts with what was written, the digest is a function of
  the partition's bytes, and the two partitions are disjoint.
\<close>

record 'd ota_drv =
  od_size :: u32
  od_address :: u32
  od_mem :: "'d \<Rightarrow> nat \<Rightarrow> byte"
  od_written :: "'d \<Rightarrow> byte list"
  od_digest :: "(nat \<Rightarrow> byte) \<Rightarrow> byte list"
  od_read :: "nat \<Rightarrow> nat \<Rightarrow> 'd \<Rightarrow> (esp_err \<times> byte list) \<times> 'd"
  od_sha256 :: "'d \<Rightarrow> (esp_err \<times> byte list) \<times> 'd"
  od_begin :: "nat \<Rightarrow> 'd \<Rightarrow> (esp_err \<times> u32) \<times> 'd"
  od_write :: "u32 \<Rightarrow> byte list \<Rightarrow> 'd \<Rightarrow> esp_err \<times> 'd"
  od_end :: "u32 \<Rightarrow> 'd \<Rightarrow> esp_err \<times> 'd"
  od_abort :: "u32 \<Rightarrow> 'd \<Rightarrow> esp_err \<times> 'd"

definition ComputeFwImageSha256 :: "'d ota_drv \<Rightarrow> 'd \<Rightarrow> (esp_err \<times> byte list) \<times> 'd" where
  "ComputeFwImageSha256 ota d = od_sha256 ota d"

definition ota_laws :: "'d partition_drv \<Rightarrow> 'd ota_drv \<Rightarrow> bool" where
  "ota_laws drv ota \<longleftrightarrow>
     (\<forall>m. length (od_digest ota m) = 32) \<and>
     (\<forall>off n d e bs d'. od_read ota off n d = ((e, bs), d') \<longrightarrow>
        pd_mem drv d' = pd_mem drv d \<and> od_mem ota d' = od_mem ota d \<and> od_written ota d' = od_written ota d \<and>
        (e = ESP_OK \<longrightarrow> bs = mem_range (od_mem ota d) off n)) \<and>
     (\<forall>d e sha d'. od_sha256 ota d = ((e, sha), d') \<longrightarrow>
        pd_mem drv d' = pd_mem drv d \<and> od_mem ota d' = od_mem ota d \<and> od_written ota d' = od_written ota d \<and>
        (e = ESP_OK \<longrightarrow> sha = od_digest ota (od_mem ota d))) \<and>
     (\<forall>n d e h d'. od_begin ota n d = ((e, h), d') \<longrightarrow>
        pd_mem drv d' = pd_mem drv d \<and> (e = ESP_OK \<longrightarrow> od_written ota d' = [])) \<and>
     (\<forall>h bs d e d'. od_write ota h bs d = (e, d') \<longrightarrow>
        pd_mem drv d' = pd_mem drv d \<and> (e = ESP_OK \<longrightarrow> od_written ota d' = od_written ota d @ bs)) \<and>
     (\<forall>h d e d'. od_end ota h d = (e, d') \<longrightarrow>
        pd_mem drv d' = pd_mem drv d \<and> od_written ota d' = od_written ota d \<and>
        (e = ESP_OK \<longrightarrow> mem_range (od_mem ota d') 0 (length (od_written ota d)) = od_written ota d)) \<and>
     (\<forall>h d e d'. od_abort ota h d = (e, d') \<longrightarrow> pd_mem drv d' = pd_mem drv d)"

text \<open>Calls on the fw_meta partition leave ota_0 alone.\<close>

definition meta_keeps_ota :: "'d partition_drv \<Rightarrow> 'd ota_drv \<Rightarrow> bool" where
  "meta_keeps_ota drv ota \<longleftrightarrow>
     (\<forall>off n d. od_mem ota (snd (pd_read drv off n d)) = od_mem ota d) \<and>
     (\<forall>off bs d. od_mem ota (snd (pd_write drv off bs d)) = od_mem ota d) \<and>
     (\<forall>off n d. od_mem ota (snd (pd_erase drv off n d)) = od_mem ota d)"

locale box_flash = flash_driver drv for drv :: "'d partition_drv" +
  fixes ota :: "'d ota_drv"
  assumes ota: "ota_laws drv ota"
    and separate: "meta_keeps_ota drv ota"
begin

lemma digest_length: "length (od_digest ota m) = 32"
  using ota unfolding ota_laws_def by (elim conjE) blast

lemma ota_read_law:
  assumes "od_read ota off n d = ((e, bs), d')"
  shows "pd_mem drv d' = pd_mem drv d" "od_mem ota d' = od_mem ota d" "od_written ota d' = od_written ota d"
    "e = ESP_OK \<Longrightarrow> bs = mem_range (od_mem ota d) off n"
  using ota [unfolded ota_laws_def, THEN conjunct2, THEN conjunct1, rule_format, OF assms] by simp_all

lemma ota_sha_law:
  assumes "ComputeFwImageSha256 ota d = ((e, sha), d')"
  shows "pd_mem drv d' = pd_mem drv d" "od_mem ota d' = od_mem ota d" "od_written ota d' = od_written ota d"
    "e = ESP_OK \<Longrightarrow> sha = od_digest ota (od_mem ota d)"
  using ota [unfolded ota_laws_def, THEN conjunct2, THEN conjunct2, THEN conjunct1, rule_format,
      OF assms [unfolded ComputeFwImageSha256_def]] by simp_all

lemma ota_begin_law:
  assumes "od_begin ota n d = ((e, h), d')"
  shows "pd_mem drv d' = pd_mem drv d" "e = ESP_OK \<Longrightarrow> od_written ota d' = []"
  using ota [unfolded ota_laws_def, THEN conjunct2, THEN conjunct2, THEN conjunct2, THEN conjunct1, rule_format,
      OF assms] by simp_all

lemma ota_write_law:
  assumes "od_write ota h bs d = (e, d')"
  shows "pd_mem drv d' = pd_mem drv d" "e = ESP_OK \<Longrightarrow> od_written ota d' = od_written ota d @ bs"
  using ota [unfolded ota_laws_def, THEN conjunct2, THEN conjunct2, THEN conjunct2, THEN conjunct2,
      THEN conjunct1, rule_format, OF assms] by simp_all

lemma ota_end_law:
  assumes "od_end ota h d = (e, d')"
  shows "pd_mem drv d' = pd_mem drv d" "od_written ota d' = od_written ota d"
    "e = ESP_OK \<Longrightarrow> mem_range (od_mem ota d') 0 (length (od_written ota d)) = od_written ota d"
  using ota [unfolded ota_laws_def, THEN conjunct2, THEN conjunct2, THEN conjunct2, THEN conjunct2,
      THEN conjunct2, THEN conjunct1, rule_format, OF assms] by simp_all

lemma ota_abort_law: "od_abort ota h d = (e, d') \<Longrightarrow> pd_mem drv d' = pd_mem drv d"
  using ota [unfolded ota_laws_def, THEN conjunct2, THEN conjunct2, THEN conjunct2, THEN conjunct2,
      THEN conjunct2, THEN conjunct2, rule_format] by blast

lemma separate_calls:
  "pd_read drv off n d = (x, d') \<Longrightarrow> od_mem ota d' = od_mem ota d"
  "pd_write drv off bs d = (e, d') \<Longrightarrow> od_mem ota d' = od_mem ota d"
  "pd_erase drv off n d = (e, d') \<Longrightarrow> od_mem ota d' = od_mem ota d"
  using separate unfolding meta_keeps_ota_def by (metis snd_conv)+

lemma meta_ops_keep_ota [frame]:
  "ReadFwMetaRecord drv d = (x, d') \<Longrightarrow> od_mem ota d' = od_mem ota d"
  "EraseFwMetaRecord drv d = (e, d') \<Longrightarrow> od_mem ota d' = od_mem ota d"
  "WriteFwMetaRecord drv r d = (e, d') \<Longrightarrow> od_mem ota d' = od_mem ota d"
  "ReadFwCtrlRecord drv d = (y, d') \<Longrightarrow> od_mem ota d' = od_mem ota d"
  "WriteFwCtrlRecord drv c d = (e, d') \<Longrightarrow> od_mem ota d' = od_mem ota d"
  by (auto simp: ReadFwMetaRecord_def EraseFwMetaRecord_def WriteFwMetaRecord_def ReadFwCtrlRecord_def
      WriteFwCtrlRecord_def Let_def split: if_splits prod.splits dest!: separate_calls)

end

text \<open>The whole contract, as the properties state it.\<close>

definition box_laws :: "'d partition_drv \<Rightarrow> 'd ota_drv \<Rightarrow> bool" where
  "box_laws drv ota \<longleftrightarrow> flash_laws drv \<and> ota_laws drv ota \<and> meta_keeps_ota drv ota"

lemma box_laws_iff: "box_laws drv ota \<longleftrightarrow> box_flash drv ota"
  by (auto simp: box_laws_def box_flash_def box_flash_axioms_def flash_driver_def)

subsection \<open>A device that satisfies the contract\<close>

text \<open>
  The NOR device extended with an application partition and its writer; both take the outcome of
  each call from the same script. The digest is the list of the first 32 bytes.
\<close>

record box_dev = nor_dev +
  bx_mem :: "nat \<Rightarrow> byte"
  bx_written :: "byte list"

definition box_ota :: "u32 \<Rightarrow> box_dev ota_drv" where
  "box_ota n = \<lparr>od_size = n, od_address = 0x100000, od_mem = bx_mem, od_written = bx_written,
     od_digest = (\<lambda>m. map m [0..<32]),
     od_read = (\<lambda>off n d. let (e, d) = nor_next d
                          in ((e, if e = ESP_OK then mem_range (bx_mem d) off n else []), d)),
     od_sha256 = (\<lambda>d. let (e, d) = nor_next d
                      in ((e, if e = ESP_OK then map (bx_mem d) [0..<32] else []), d)),
     od_begin = (\<lambda>n d. let (e, d) = nor_next d in ((e, 1), d\<lparr>bx_written := []\<rparr>)),
     od_write = (\<lambda>h bs d. let (e, d) = nor_next d
                          in (e, if e = ESP_OK then d\<lparr>bx_written := bx_written d @ bs\<rparr> else d)),
     od_end = (\<lambda>h d. let (e, d) = nor_next d
                     in (e, d\<lparr>bx_mem := \<lambda>i. if i < length (bx_written d) then bx_written d ! i else bx_mem d i\<rparr>)),
     od_abort = (\<lambda>h d. nor_next d)\<rparr>"

lemma box_ota_fields [simp]:
  "od_size (box_ota n) = n" "od_address (box_ota n) = 0x100000" "od_mem (box_ota n) = bx_mem"
  "od_written (box_ota n) = bx_written"
  by (simp_all add: box_ota_def)

lemma nor_next_more:
  assumes "nor_next d = (e, d')"
  shows "nd_mem d' = nd_mem d" "bx_mem d' = bx_mem d" "bx_written d' = bx_written d"
  using assms by (auto simp: nor_next_def split: list.splits)

lemma box_ota_laws: "ota_laws nor_drv (box_ota n)"
  unfolding ota_laws_def box_ota_def nor_drv_def
  by (auto simp: Let_def nor_next_more intro!: mem_range_eqI split: prod.splits if_splits)

lemma box_separate: "meta_keeps_ota nor_drv (box_ota n)"
  unfolding meta_keeps_ota_def box_ota_def nor_drv_def
  by (auto simp: nor_read_def nor_write_def nor_erase_def Let_def nor_next_more split: prod.splits)

interpretation box: box_flash nor_drv "box_ota n" for n
  by unfold_locales (rule nor_laws box_ota_laws box_separate)+

lemma box_box_laws: "box_laws nor_drv (box_ota n)"
  by (simp add: box_laws_def nor_laws box_ota_laws box_separate)

text \<open>Devices on which all calls on both partitions succeed.\<close>

definition reliable_box :: "'d partition_drv \<Rightarrow> 'd ota_drv \<Rightarrow> ('d \<Rightarrow> bool) \<Rightarrow> bool" where
  "reliable_box drv ota ok \<longleftrightarrow> reliable drv ok \<and>
     (\<forall>off n d. ok d \<longrightarrow> fst (fst (od_read ota off n d)) = ESP_OK \<and> ok (snd (od_read ota off n d))) \<and>
     (\<forall>d. ok d \<longrightarrow> fst (fst (od_sha256 ota d)) = ESP_OK \<and> ok (snd (od_sha256 ota d))) \<and>
     (\<forall>n d. ok d \<longrightarrow> fst (fst (od_begin ota n d)) = ESP_OK \<and> ok (snd (od_begin ota n d))) \<and>
     (\<forall>h bs d. ok d \<longrightarrow> fst (od_write ota h bs d) = ESP_OK \<and> ok (snd (od_write ota h bs d))) \<and>
     (\<forall>h d. ok d \<longrightarrow> fst (od_end ota h d) = ESP_OK \<and> ok (snd (od_end ota h d)))"

lemma reliable_box_calls:
  assumes "reliable_box drv ota ok" "ok d"
  shows "\<exists>bs d'. od_read ota off n d = ((ESP_OK, bs), d') \<and> ok d'"
    and "\<exists>sha d'. ComputeFwImageSha256 ota d = ((ESP_OK, sha), d') \<and> ok d'"
    and "\<exists>h d'. od_begin ota n d = ((ESP_OK, h), d') \<and> ok d'"
    and "\<exists>d'. od_write ota w bs d = (ESP_OK, d') \<and> ok d'"
    and "\<exists>d'. od_end ota w d = (ESP_OK, d') \<and> ok d'"
  using assms unfolding reliable_box_def ComputeFwImageSha256_def by (metis prod.collapse)+

lemma reliable_boxD: "reliable_box drv ota ok \<Longrightarrow> reliable drv ok"
  by (simp add: reliable_box_def)

lemma nor_next_quiet: "nd_script d = [] \<Longrightarrow> nor_next d = (ESP_OK, d)"
  by (simp add: nor_next_def)

lemma box_reliable: "reliable_box nor_drv (box_ota n) (\<lambda>d. nd_script d = [])"
  by (auto simp: reliable_box_def nor_reliable box_ota_def nor_next_quiet)

end
