(* ===== verification/UpdaterPage.thy ===== *)
theory UpdaterPage
  imports Prelude
begin

section \<open>The updater's page and reasons\<close>

text \<open>
  Model of updater/main/updater_page.c and updater_page.h: the reasons for being in updater mode
  with their log tokens and texts, and the three fragments of the page, which are lists of the
  literals the source concatenates.
\<close>

datatype updater_reason =
    UPDATER_REASON_REQUESTED
  | UPDATER_REASON_NO_FIRMWARE
  | UPDATER_REASON_CRASH_LOOP
  | UPDATER_REASON_BOOT_SELECT_FAILED

definition REASON_TEXT_REQUESTED :: string where
  "REASON_TEXT_REQUESTED = ''Update requested from the device.''"
definition REASON_TEXT_NO_FIRMWARE :: string where
  "REASON_TEXT_NO_FIRMWARE = ''No valid firmware installed.''"
definition REASON_TEXT_CRASH_LOOP :: string where
  "REASON_TEXT_CRASH_LOOP = ''The firmware crashed repeatedly and was stopped.''"
definition REASON_TEXT_BOOT_SELECT_FAILED :: string where
  "REASON_TEXT_BOOT_SELECT_FAILED = ''Could not start the firmware.''"
definition REASON_TEXT_MAX_LEN :: nat where
  "REASON_TEXT_MAX_LEN = length REASON_TEXT_CRASH_LOOP"

definition PAGE_HEAD :: "string list" where
  \<open>PAGE_HEAD = [
    ''<!DOCTYPE html><html lang="en"><head><meta charset="utf-8">'',
    ''<meta name="viewport" content="width=device-width,initial-scale=1">'',
    ''<title>RGB LED Tuner firmware update</title><style>'',
    ''body{font-family:sans-serif;max-width:30em;margin:0 auto;padding:1em;color:#111;background:#fff}'',
    ''input,button{display:block;width:100%;min-height:44px;font-size:16px;margin:.5em 0;box-sizing:border-box}'',
    ''button{background:#0b4fa8;color:#fff;border:0;border-radius:4px}'',
    ''</style></head><body><h1>RGB LED Tuner firmware update</h1><p>Installed firmware: '']\<close>

definition PAGE_MIDDLE :: "string list" where
  \<open>PAGE_MIDDLE = [
    ''</p><p>'']\<close>

definition PAGE_TAIL :: "string list" where
  \<open>PAGE_TAIL = [
    ''</p><label for="f">Firmware file (.bin)</label><input id="f" type="file" accept=".bin">'',
    ''<button id="u" type="button">Upload</button><p id="s" role="status" aria-live="polite"></p>'',
    ''<script>'',
    ''var s=document.getElementById('s'),u=document.getElementById('u');'',
    ''function d(t){s.textContent=t;u.disabled=false;}'',
    ''function p(f){var x=new XMLHttpRequest();'',
    ''x.open('POST','/update');'',
    ''x.setRequestHeader('Content-Type','application/octet-stream');'',
    ''x.upload.onprogress=function(e){if(e.lengthComputable)'',
    ''s.textContent='Uploading... '+Math.floor(e.loaded*100/e.total)+' %';};'',
    ''x.onload=function(){d(x.responseText);};'',
    ''x.onerror=function(){d('Send failed');};'',
    ''s.textContent='Uploading... 0 %';x.send(f);}'',
    ''u.onclick=function(){'',
    ''var f=document.getElementById('f').files[0];'',
    ''if(!f){s.textContent='Select a .bin file';return;}'',
    (''if(!/'' @ [CHR 0x5C] @ ''.bin$/i.test(f.name)){s.textContent='Not a .bin file';return;}''),
    ''if(f.size>1114112){s.textContent='Invalid size';return;}'',
    ''u.disabled=true;var q=new XMLHttpRequest();q.open('GET','/status');'',
    ''q.onload=function(){if(q.status!=200)d('Send failed, check connection');'',
    ''else if(/state=(uploading|done)/.test(q.responseText))d('Upload in progress');else p(f);};'',
    ''q.onerror=function(){d('Send failed, check connection');};q.send();};'',
    ''</script></body></html>'']\<close>

definition g_updater_page_head :: string where "g_updater_page_head = concat PAGE_HEAD"
definition g_updater_page_middle :: string where "g_updater_page_middle = concat PAGE_MIDDLE"
definition g_updater_page_tail :: string where "g_updater_page_tail = concat PAGE_TAIL"

text \<open>\<open>PAGE_MAX_BYTES\<close>; the version takes at most \<open>FW_VERSION_LEN\<close> (8) characters.\<close>

definition GetUpdaterPageMaxBytes :: nat where
  "GetUpdaterPageMaxBytes = length g_updater_page_head + 8 + length g_updater_page_middle +
     REASON_TEXT_MAX_LEN + length g_updater_page_tail"

fun GetUpdaterReasonName :: "updater_reason \<Rightarrow> string" where
  "GetUpdaterReasonName UPDATER_REASON_REQUESTED = ''requested''"
| "GetUpdaterReasonName UPDATER_REASON_NO_FIRMWARE = ''no_firmware''"
| "GetUpdaterReasonName UPDATER_REASON_CRASH_LOOP = ''crash_loop''"
| "GetUpdaterReasonName UPDATER_REASON_BOOT_SELECT_FAILED = ''boot_select_failed''"

fun GetUpdaterReasonText :: "updater_reason \<Rightarrow> string" where
  "GetUpdaterReasonText UPDATER_REASON_REQUESTED = REASON_TEXT_REQUESTED"
| "GetUpdaterReasonText UPDATER_REASON_NO_FIRMWARE = REASON_TEXT_NO_FIRMWARE"
| "GetUpdaterReasonText UPDATER_REASON_CRASH_LOOP = REASON_TEXT_CRASH_LOOP"
| "GetUpdaterReasonText UPDATER_REASON_BOOT_SELECT_FAILED = REASON_TEXT_BOOT_SELECT_FAILED"

lemma page_lengths:
  "length g_updater_page_head = 524" "length g_updater_page_middle = 7" "length g_updater_page_tail = 1236"
  by (simp_all add: g_updater_page_head_def g_updater_page_middle_def g_updater_page_tail_def
      PAGE_HEAD_def PAGE_MIDDLE_def PAGE_TAIL_def)

lemma reason_text_le: "length (GetUpdaterReasonText r) \<le> REASON_TEXT_MAX_LEN"
  by (cases r) (simp_all add: REASON_TEXT_MAX_LEN_def REASON_TEXT_REQUESTED_def REASON_TEXT_NO_FIRMWARE_def
      REASON_TEXT_CRASH_LOOP_def REASON_TEXT_BOOT_SELECT_FAILED_def)

lemma page_max: "GetUpdaterPageMaxBytes = 1823"
  by (simp add: GetUpdaterPageMaxBytes_def page_lengths REASON_TEXT_MAX_LEN_def REASON_TEXT_CRASH_LOOP_def)

end
