(* ===== verification/Queue.thy ===== *)
theory Queue
  imports Prelude
begin

text \<open>
  The contract of the FreeRTOS queues the program uses: a send without waiting appends the item when there is room and otherwise fails and
  changes nothing. It is interpreted on the orchestrator's queue, the log's queue and the hand-off of an upload.
\<close>

section \<open>Bounded queues\<close>

locale bounded_queue =
  fixes capacity :: nat and content :: "'s \<Rightarrow> 'm list" and send :: "'m \<Rightarrow> 's \<Rightarrow> bool \<times> 's"
  assumes send_law: "send m s = (is_sent, s') \<Longrightarrow>
    is_sent = (length (content s) < capacity) \<and> content s' = (if is_sent then content s @ [m] else content s)"
begin

lemma send_content: "content (snd (send m s)) = (if length (content s) < capacity then content s @ [m] else content s)"
  using send_law [of m s "fst (send m s)" "snd (send m s)"] by auto

text \<open>A burst of sends keeps the first items that fit, in order.\<close>

lemma burst_content:
  "length (content s) \<le> capacity \<Longrightarrow> content (fold (\<lambda>m s. snd (send m s)) ms s) = take capacity (content s @ ms)"
proof (induction ms arbitrary: s)
  case (Cons m ms)
  let ?s = "snd (send m s)"
  have "length (content ?s) \<le> capacity" using Cons.prems by (simp add: send_content)
  from Cons.IH [OF this] show ?case using Cons.prems by (auto simp: send_content take_Cons')
qed simp

lemma burst_fits:
  assumes "length (content s) + length ms \<le> capacity"
  shows "content (fold (\<lambda>m s. snd (send m s)) ms s) = content s @ ms"
  using burst_content [of s ms] assms by simp

end

end
