(* ===== verification/UpdaterHttp.thy ===== *)
theory UpdaterHttp
  imports OtaFlash UpdaterPage Queue
begin

section \<open>The updater's HTTP server and upload worker\<close>

text \<open>
  Model of updater/main/updater_http.c. The network is the parameter \<open>recv\<close>
  (\<open>httpd_req_recv\<close> over an abstract connection state \<open>'n\<close>), the flash the drivers of
  FwMetaFlash and OtaFlash. The statics the two tasks share under the state mutex are the
  record \<open>upload_shared\<close>; the buffers of the worker and the states of device and connection are
  the other fields of \<open>upload_run\<close>. Sizes are natural numbers: the code bounds every one of them by the
  32-bit partition size before it uses them. Log lines are not modelled.
\<close>

datatype upload_state =
    UPLOAD_STATE_IDLE
  | UPLOAD_STATE_UPLOADING
  | UPLOAD_STATE_DONE
  | UPLOAD_STATE_ERROR

datatype upload_result =
    UPLOAD_OK
  | UPLOAD_REJECT_SIZE
  | UPLOAD_REJECT_IMAGE
  | UPLOAD_REJECT_METADATA
  | UPLOAD_REJECT_VERSION
  | UPLOAD_REJECT_VERIFY
  | UPLOAD_REJECT_FLASH
  | UPLOAD_REJECT_INTERRUPTED

text \<open>The status and body columns of \<open>s_upload_replies\<close>.\<close>

fun s_upload_replies :: "upload_result \<Rightarrow> string \<times> string" where
  "s_upload_replies UPLOAD_OK = (''200 OK'', ''Update complete, restarting'')"
| "s_upload_replies UPLOAD_REJECT_SIZE = (''400 Bad Request'', ''Invalid size'')"
| "s_upload_replies UPLOAD_REJECT_IMAGE = (''400 Bad Request'', ''Not an ESP32-C3 firmware image'')"
| "s_upload_replies UPLOAD_REJECT_METADATA = (''400 Bad Request'', ''Missing firmware metadata'')"
| "s_upload_replies UPLOAD_REJECT_VERSION = (''400 Bad Request'', ''Invalid firmware version'')"
| "s_upload_replies UPLOAD_REJECT_VERIFY = (''400 Bad Request'', ''Image verification failed'')"
| "s_upload_replies UPLOAD_REJECT_FLASH = (''500 Internal Server Error'', ''Flash write failed'')"
| "s_upload_replies UPLOAD_REJECT_INTERRUPTED = (''408 Request Timeout'', ''Upload interrupted'')"

fun s_upload_state_names :: "upload_state \<Rightarrow> string" where
  "s_upload_state_names UPLOAD_STATE_IDLE = ''idle''"
| "s_upload_state_names UPLOAD_STATE_UPLOADING = ''uploading''"
| "s_upload_state_names UPLOAD_STATE_DONE = ''done''"
| "s_upload_state_names UPLOAD_STATE_ERROR = ''error''"

record upload_shared =
  us_installed_version :: "byte list"
  us_state :: upload_state
  us_received_bytes :: nat
  us_total_bytes :: nat

record ('d, 'n) upload_run =
  ur_shared :: upload_shared
  ur_head :: "byte list"
  ur_dev :: 'd
  ur_net :: 'n

abbreviation (input) FW_UPLOAD_CHUNK_BYTES :: nat where "FW_UPLOAD_CHUNK_BYTES \<equiv> 4096"
abbreviation (input) FW_UPLOAD_RECV_RETRIES :: nat where "FW_UPLOAD_RECV_RETRIES \<equiv> 5"
abbreviation (input) STATUS_BODY_MAX_LEN :: nat where "STATUS_BODY_MAX_LEN \<equiv> 96"

text \<open>
  The answers of \<open>httpd_req_recv\<close>: a positive count with the bytes (a count of 0 is the empty
  list), \<open>HTTPD_SOCK_ERR_TIMEOUT\<close>, or another negative value.
\<close>

datatype recv_answer = RECV_BYTES "byte list" | RECV_TIMEOUT | RECV_FAILED

type_synonym 'n recv = "nat \<Rightarrow> 'n \<Rightarrow> recv_answer \<times> 'n"

text \<open>It never returns more than the buffer holds.\<close>

definition recv_laws :: "'n recv \<Rightarrow> bool" where
  "recv_laws recv \<longleftrightarrow> (\<forall>w n bs n'. recv w n = (RECV_BYTES bs, n') \<longrightarrow> length bs \<le> w)"

subsection \<open>Shared state and pages\<close>

definition SetUploadState :: "upload_state \<Rightarrow> upload_shared \<Rightarrow> upload_shared" where
  "SetUploadState state sh = sh\<lparr>us_state := state\<rparr>"

definition SetInstalledVersion :: "byte list option \<Rightarrow> upload_shared \<Rightarrow> upload_shared" where
  "SetInstalledVersion version sh = sh\<lparr>us_installed_version :=
     (case version of None \<Rightarrow> replicate FW_VERSION_FIELD_LEN 0
      | Some v \<Rightarrow> take (FW_VERSION_FIELD_LEN - 1) v @ [0])\<rparr>"

definition CopyInstalledVersion :: "nat \<Rightarrow> upload_shared \<Rightarrow> string" where
  "CopyInstalledVersion version_size sh = snprintf version_size
     (if us_installed_version sh ! 0 \<noteq> 0 then bytes_str (us_installed_version sh) else ''none'')"

definition SendText :: "string \<Rightarrow> string \<Rightarrow> http_reply" where
  "SendText status body = \<lparr>hr_status = status, hr_type = ''text/plain'',
     hr_headers = [(''Cache-Control'', ''no-store'')], hr_body = body\<rparr>"

text \<open>A reply sent after \<open>httpd_resp_set_hdr(req, "Connection", "close")\<close>.\<close>

definition SendTextClose :: "string \<Rightarrow> string \<Rightarrow> http_reply" where
  "SendTextClose status body = (SendText status body)\<lparr>hr_headers :=
     [(''Connection'', ''close''), (''Cache-Control'', ''no-store'')]\<rparr>"

text \<open>
  The parts of the page are sent one chunk at a time until a call fails: \<open>sent\<close> holds the results
  of the calls. The result is what was sent and the return value.
\<close>

fun SendPageParts :: "string list \<Rightarrow> esp_err list \<Rightarrow> string list \<times> esp_err" where
  "SendPageParts [] sent = ([], hd sent)"
| "SendPageParts (part # parts) sent =
     (if hd sent \<noteq> ESP_OK then ([], ESP_FAIL)
      else let (out, err) = SendPageParts parts (tl sent) in (part # out, err))"

definition HandlePage :: "updater_reason \<Rightarrow> esp_err list \<Rightarrow> upload_shared \<Rightarrow> http_reply \<times> esp_err" where
  "HandlePage reason sent sh =
     (let version = CopyInstalledVersion FW_VERSION_FIELD_LEN sh;
          (out, err) = SendPageParts [g_updater_page_head, version, g_updater_page_middle,
                         GetUpdaterReasonText reason, g_updater_page_tail] sent
      in (\<lparr>hr_status = ''200 OK'', hr_type = ''text/html'', hr_headers = [(''Cache-Control'', ''no-store'')],
           hr_body = concat out\<rparr>, err))"

definition status_text :: "upload_shared \<Rightarrow> string" where
  "status_text sh = ''state='' @ s_upload_state_names (us_state sh) @ ''&received='' @ dec (us_received_bytes sh) @
     ''&total='' @ dec (us_total_bytes sh) @ ''&installed='' @ CopyInstalledVersion FW_VERSION_FIELD_LEN sh"

definition HandleStatus :: "upload_shared \<Rightarrow> http_reply" where
  "HandleStatus sh = SendText ''200 OK'' (snprintf STATUS_BODY_MAX_LEN (status_text sh))"

definition HandleNotFound :: http_reply where
  "HandleNotFound = \<lparr>hr_status = ''404 Not Found'', hr_type = ''text/plain'', hr_headers = [], hr_body = ''Not found''\<rparr>"

text \<open>\<open>httpd_resp_send_err\<close> with a 500; its body text is the server's.\<close>

definition http_500 :: "string \<Rightarrow> http_reply" where
  "http_500 body = \<lparr>hr_status = ''500 Internal Server Error'', hr_type = ''text/html'', hr_headers = [], hr_body = body\<rparr>"

subsection \<open>Receiving the image\<close>

definition CheckImageHead :: "byte list \<Rightarrow> nat \<Rightarrow> upload_result" where
  "CheckImageHead head head_len = (case CheckFwEmbeddedMeta head head_len of
       FW_META_CHECK_OK \<Rightarrow> UPLOAD_OK
     | FW_META_CHECK_NO_METADATA \<Rightarrow> UPLOAD_REJECT_METADATA
     | FW_META_CHECK_BAD_VERSION \<Rightarrow> UPLOAD_REJECT_VERSION
     | _ \<Rightarrow> UPLOAD_REJECT_IMAGE)"

function DiscardLoop :: "'n recv \<Rightarrow> nat \<Rightarrow> nat \<Rightarrow> 'n \<Rightarrow> 'n" where
  "DiscardLoop recv remaining_bytes timeouts net =
     (if 0 < remaining_bytes then
        let wanted_bytes = (if FW_UPLOAD_CHUNK_BYTES < remaining_bytes then FW_UPLOAD_CHUNK_BYTES
                            else remaining_bytes)
        in case recv wanted_bytes net of
             (RECV_TIMEOUT, net) \<Rightarrow>
               if timeouts < FW_UPLOAD_RECV_RETRIES then DiscardLoop recv remaining_bytes (timeouts + 1) net else net
           | (RECV_FAILED, net) \<Rightarrow> net
           | (RECV_BYTES chunk, net) \<Rightarrow>
               if chunk = [] then net else DiscardLoop recv (remaining_bytes - length chunk) 0 net
      else net)"
  by pat_completeness auto
termination
  by (relation "measures [\<lambda>(recv, remaining_bytes, timeouts, net). remaining_bytes,
      \<lambda>(recv, remaining_bytes, timeouts, net). 6 - timeouts]") auto

definition DiscardBody :: "'n recv \<Rightarrow> nat \<Rightarrow> 'n \<Rightarrow> 'n" where
  "DiscardBody recv remaining_bytes net = DiscardLoop recv remaining_bytes 0 net"

text \<open>The copy of a chunk into the head buffer, and the check when the buffer becomes full.\<close>

definition CollectHead :: "nat \<Rightarrow> byte list \<Rightarrow> byte list \<Rightarrow> nat \<times> byte list \<times> upload_result" where
  "CollectHead head_len chunk head =
     (if head_len < FW_IMAGE_HEAD_LEN then
        let copy_bytes = (if length chunk < FW_IMAGE_HEAD_LEN - head_len then length chunk
                          else FW_IMAGE_HEAD_LEN - head_len);
            head = overwrite head_len (take copy_bytes chunk) head;
            head_len = head_len + copy_bytes
        in (head_len, head, if head_len = FW_IMAGE_HEAD_LEN then CheckImageHead head head_len else UPLOAD_OK)
      else (head_len, head, UPLOAD_OK))"

text \<open>The \<open>while\<close> loop of \<open>ReceiveImage\<close>; its last line is the case in which the loop is done.\<close>

function ReceiveLoop :: "'n recv \<Rightarrow> 'd ota_drv \<Rightarrow> u32 \<Rightarrow> nat \<Rightarrow> nat \<Rightarrow> nat \<Rightarrow> nat \<Rightarrow> ('d, 'n) upload_run \<Rightarrow>
    upload_result \<times> ('d, 'n) upload_run" where
  "ReceiveLoop recv ota handle total_bytes head_len received_bytes timeouts r =
     (if received_bytes < total_bytes then
        let wanted_bytes = (if FW_UPLOAD_CHUNK_BYTES < total_bytes - received_bytes then FW_UPLOAD_CHUNK_BYTES
                            else total_bytes - received_bytes)
        in case recv wanted_bytes (ur_net r) of
             (RECV_TIMEOUT, net) \<Rightarrow>
               if timeouts < FW_UPLOAD_RECV_RETRIES
               then ReceiveLoop recv ota handle total_bytes head_len received_bytes (timeouts + 1) (r\<lparr>ur_net := net\<rparr>)
               else (UPLOAD_REJECT_INTERRUPTED, r\<lparr>ur_net := net\<rparr>)
           | (RECV_FAILED, net) \<Rightarrow> (UPLOAD_REJECT_INTERRUPTED, r\<lparr>ur_net := net\<rparr>)
           | (RECV_BYTES chunk, net) \<Rightarrow>
               if chunk = [] then (UPLOAD_REJECT_INTERRUPTED, r\<lparr>ur_net := net\<rparr>)
               else (case CollectHead head_len chunk (ur_head r) of (head_len', head, result) \<Rightarrow>
                 if result \<noteq> UPLOAD_OK
                 then (result, r\<lparr>ur_head := head,
                         ur_net := DiscardBody recv (total_bytes - received_bytes - length chunk) net\<rparr>)
                 else (case od_write ota handle chunk (ur_dev r) of (err, d) \<Rightarrow>
                   if err \<noteq> ESP_OK
                   then (if err = ESP_ERR_OTA_VALIDATE_FAILED then UPLOAD_REJECT_IMAGE else UPLOAD_REJECT_FLASH,
                         r\<lparr>ur_head := head, ur_dev := d,
                           ur_net := DiscardBody recv (total_bytes - received_bytes - length chunk) net\<rparr>)
                   else ReceiveLoop recv ota handle total_bytes head_len' (received_bytes + length chunk) 0
                          (r\<lparr>ur_head := head, ur_dev := d, ur_net := net,
                            ur_shared := (ur_shared r)\<lparr>us_received_bytes := received_bytes + length chunk\<rparr>\<rparr>)))
      else (if head_len < FW_IMAGE_HEAD_LEN then CheckImageHead (ur_head r) head_len else UPLOAD_OK, r))"
  by pat_completeness auto
termination
  by (relation "measures [\<lambda>(recv, ota, handle, total_bytes, head_len, received_bytes, timeouts, r). total_bytes - received_bytes,
      \<lambda>(recv, ota, handle, total_bytes, head_len, received_bytes, timeouts, r). 6 - timeouts]")
    (auto simp: neq_Nil_conv)

definition ReceiveImage :: "'n recv \<Rightarrow> 'd ota_drv \<Rightarrow> u32 \<Rightarrow> nat \<Rightarrow> ('d, 'n) upload_run \<Rightarrow>
    upload_result \<times> ('d, 'n) upload_run" where
  "ReceiveImage recv ota handle total_bytes r = ReceiveLoop recv ota handle total_bytes 0 0 0 r"

declare DiscardLoop.simps [simp del] ReceiveLoop.simps [simp del]

subsection \<open>Commit and the whole upload\<close>

definition ClearCrashCount :: "'d partition_drv \<Rightarrow> 'd \<Rightarrow> 'd" where
  "ClearCrashCount drv d =
     (let ((_, ctrl), d) = ReadFwCtrlRecord drv d in
      if cr_crash_count ctrl = 0 then d
      else snd (WriteFwCtrlRecord drv (BuildFwCtrlRecord 0 (cr_boot_attempts ctrl)) d))"

text \<open>
  The condition of \<open>CommitMetaRecord\<close> is evaluated left to right: the record is read back only if
  the write succeeded. \<open>Inl\<close> is the failure branch, with the state to erase in.
\<close>

definition WriteAndVerifyMeta :: "'d partition_drv \<Rightarrow> u32 \<Rightarrow> fw_meta_record \<Rightarrow> 'd \<Rightarrow> 'd + 'd" where
  "WriteAndVerifyMeta drv ota_size record d =
     (let (err, d) = WriteFwMetaRecord drv record d in
      if err \<noteq> ESP_OK then Inl d
      else let ((err, read_back), d) = ReadFwMetaRecord drv d in
      if err \<noteq> ESP_OK \<or> \<not> IsFwMetaRecordValid read_back ota_size \<or> meta_bytes record \<noteq> meta_bytes read_back
      then Inl d else Inr d)"

definition CommitMetaRecord :: "'d partition_drv \<Rightarrow> 'd ota_drv \<Rightarrow> nat \<Rightarrow> ('d, 'n) upload_run \<Rightarrow>
    upload_result \<times> ('d, 'n) upload_run" where
  "CommitMetaRecord drv ota total_bytes r =
     (let ((err, sha256), d) = ComputeFwImageSha256 ota (ur_dev r) in
      if err \<noteq> ESP_OK then (UPLOAD_REJECT_FLASH, r\<lparr>ur_dev := d\<rparr>)
      else let version = drop (FW_EMBEDDED_META_OFFSET + 4) (ur_head r);
               record = BuildFwMetaRecord version (of_nat total_bytes) sha256
           in case WriteAndVerifyMeta drv (od_size ota) record d of
                Inl d \<Rightarrow> (UPLOAD_REJECT_FLASH, r\<lparr>ur_dev := snd (EraseFwMetaRecord drv d)\<rparr>)
              | Inr d \<Rightarrow> (UPLOAD_OK,
                  r\<lparr>ur_shared := SetInstalledVersion (Some (mr_version record)) (ur_shared r),
                    ur_dev := ClearCrashCount drv d\<rparr>))"

text \<open>The result is the outcome, the OTA handle if it must be aborted, and the new state.\<close>

definition RunUpload :: "'n recv \<Rightarrow> 'd partition_drv \<Rightarrow> 'd ota_drv option \<Rightarrow> nat \<Rightarrow> ('d, 'n) upload_run \<Rightarrow>
    upload_result \<times> u32 option \<times> ('d, 'n) upload_run" where
  "RunUpload recv drv s_ota total_bytes r = (case s_ota of
       None \<Rightarrow> (UPLOAD_REJECT_SIZE, None, r)
     | Some ota \<Rightarrow>
         if total_bytes = 0 \<or> unat (od_size ota) < total_bytes then (UPLOAD_REJECT_SIZE, None, r)
         else let (err, d) = EraseFwMetaRecord drv (ur_dev r) in
         if err \<noteq> ESP_OK then (UPLOAD_REJECT_FLASH, None, r\<lparr>ur_dev := d\<rparr>)
         else let sh = SetInstalledVersion None (ur_shared r);
                  ((err, handle), d) = od_begin ota total_bytes d;
                  r = r\<lparr>ur_shared := sh, ur_dev := d\<rparr> in
         if err \<noteq> ESP_OK then (UPLOAD_REJECT_FLASH, None, r)
         else let (result, r) = ReceiveImage recv ota handle total_bytes r in
         if result \<noteq> UPLOAD_OK then (result, Some handle, r)
         else let (err, d) = od_end ota handle (ur_dev r);
                  r = r\<lparr>ur_dev := d\<rparr> in
         if err \<noteq> ESP_OK then (UPLOAD_REJECT_VERIFY, None, r)
         else let (result, r) = CommitMetaRecord drv ota total_bytes r in (result, None, r))"

text \<open>
  \<open>ProcessUpload\<close> in its two parts: up to the call of \<open>SetUploadState\<close> the upload holds the claim; from then on the
  worker only replies, schedules the restart and completes the request, while the server task may already claim the
  next upload (\<open>http_step\<close> below lets it in between the parts). The second part gives the reply and whether the
  restart is scheduled.
\<close>

definition ProcessUploadResult :: "'n recv \<Rightarrow> 'd partition_drv \<Rightarrow> 'd ota_drv option \<Rightarrow> nat \<Rightarrow> ('d, 'n) upload_run \<Rightarrow>
    upload_result \<times> ('d, 'n) upload_run" where
  "ProcessUploadResult recv drv s_ota content_len r =
     (let total_bytes = content_len;
          r = r\<lparr>ur_shared := (ur_shared r)\<lparr>us_received_bytes := 0, us_total_bytes := total_bytes\<rparr>\<rparr>;
          (result, open_handle, r) = RunUpload recv drv s_ota total_bytes r
      in if result \<noteq> UPLOAD_OK then
           let d = (case (s_ota, open_handle) of
                      (Some ota, Some handle) \<Rightarrow> snd (od_abort ota handle (ur_dev r)) | _ \<Rightarrow> ur_dev r)
           in (result, r\<lparr>ur_dev := d, ur_shared := SetUploadState UPLOAD_STATE_ERROR (ur_shared r)\<rparr>)
         else (result, r\<lparr>ur_shared := SetUploadState UPLOAD_STATE_DONE (ur_shared r)\<rparr>))"

definition ProcessUploadReply :: "upload_result \<Rightarrow> http_reply \<times> bool" where
  "ProcessUploadReply result =
     (let (status, body) = s_upload_replies result in (SendText status body, result = UPLOAD_OK))"

text \<open>The whole call: the outcome, the reply, whether the restart is scheduled, and the new state.\<close>

definition ProcessUpload :: "'n recv \<Rightarrow> 'd partition_drv \<Rightarrow> 'd ota_drv option \<Rightarrow> nat \<Rightarrow> ('d, 'n) upload_run \<Rightarrow>
    upload_result \<times> http_reply \<times> bool \<times> ('d, 'n) upload_run" where
  "ProcessUpload recv drv s_ota content_len r =
     (let (result, r) = ProcessUploadResult recv drv s_ota content_len r;
          (reply, restart) = ProcessUploadReply result
      in (result, reply, restart, r))"

lemmas ProcessUpload_unfold = ProcessUpload_def ProcessUploadResult_def ProcessUploadReply_def

text \<open>
  \<open>ScheduleRestart\<close> after a successful upload, whose restart the flag of \<open>ProcessUpload\<close> asks for: with a timer the restart comes
  \<open>FW_RESTART_DELAY_MS\<close> later, from \<open>HandleRestartTimer\<close>; without one it comes at once.
\<close>

datatype restart_outcome = RESTART_AFTER_DELAY | RESTART_NOW

definition ScheduleRestart :: "bool \<Rightarrow> bool \<Rightarrow> restart_outcome" where
  "ScheduleRestart has_timer is_timer_started =
     (if \<not> has_timer \<or> \<not> is_timer_started then RESTART_NOW else RESTART_AFTER_DELAY)"

subsection \<open>The server task's side of an upload\<close>

definition ClaimUpload :: "upload_shared \<Rightarrow> bool \<times> upload_shared" where
  "ClaimUpload sh =
     (let is_busy = (us_state sh = UPLOAD_STATE_UPLOADING \<or> us_state sh = UPLOAD_STATE_DONE)
      in (is_busy, if \<not> is_busy then sh\<lparr>us_state := UPLOAD_STATE_UPLOADING\<rparr> else sh))"

text \<open>
  The one-item queue holds the content length of the waiting request. A handler returns the reply
  it sent itself (if any) and its return value; \<open>begin_result\<close> is what
  \<open>httpd_req_async_handler_begin\<close> returns.
\<close>

definition xQueueSend :: "nat \<Rightarrow> nat option \<Rightarrow> bool \<times> nat option" where
  "xQueueSend item queue = (case queue of None \<Rightarrow> (True, Some item) | Some x \<Rightarrow> (False, Some x))"

interpretation hand_off: bounded_queue 1 "\<lambda>queue. case queue of None \<Rightarrow> [] | Some x \<Rightarrow> [x]" xQueueSend
  by unfold_locales (auto simp: xQueueSend_def split: option.splits)

definition HandleUpload :: "'d ota_drv option \<Rightarrow> esp_err \<Rightarrow> nat \<Rightarrow> upload_shared \<Rightarrow> nat option \<Rightarrow>
    (http_reply option \<times> esp_err) \<times> upload_shared \<times> nat option" where
  "HandleUpload s_ota begin_result content_len sh queue =
     (let (is_busy, sh) = ClaimUpload sh in
      if is_busy then ((Some (SendTextClose ''409 Conflict'' ''Upload in progress''), ESP_FAIL), sh, queue)
      else if (case s_ota of None \<Rightarrow> True
               | Some ota \<Rightarrow> content_len = 0 \<or> unat (od_size ota) < content_len)
      then ((Some (case s_upload_replies UPLOAD_REJECT_SIZE of (status, body) \<Rightarrow> SendTextClose status body), ESP_FAIL),
            SetUploadState UPLOAD_STATE_ERROR sh, queue)
      else if begin_result \<noteq> ESP_OK
      then ((Some (case s_upload_replies UPLOAD_REJECT_FLASH of (status, body) \<Rightarrow> SendTextClose status body), ESP_FAIL),
            SetUploadState UPLOAD_STATE_ERROR sh, queue)
      else case xQueueSend content_len queue of
             (True, queue) \<Rightarrow> ((None, ESP_OK), sh, queue)
           | (False, queue) \<Rightarrow>
               ((Some (http_500 []), ESP_OK), SetUploadState UPLOAD_STATE_ERROR sh, queue))"

text \<open>
  \<open>StartUploadWorker\<close> creates the mutex, the queue and the task once; a failed task
  creation forgets the queue. The arguments are whether each exists and the results of the creations.
\<close>

definition StartUploadWorker :: "bool \<Rightarrow> bool \<Rightarrow> bool \<Rightarrow> bool \<Rightarrow> bool \<Rightarrow> bool \<times> bool \<times> bool" where
  "StartUploadWorker has_mutex has_queue mutex_ok queue_ok task_ok =
     (let has_mutex = has_mutex \<or> mutex_ok;
          has_queue = (if \<not> has_queue then queue_ok \<and> task_ok else has_queue)
      in (has_mutex \<and> has_queue, has_mutex, has_queue))"

text \<open>
  The initial shared state, and what \<open>StartUpdaterHttp\<close> does with it. The handlers are registered
  until one registration fails.
\<close>

record http_env =
  he_mutex :: bool
  he_queue :: bool
  he_task :: bool
  he_start :: esp_err
  he_handlers :: "esp_err list"
  he_err_handler :: esp_err

definition initial_shared :: upload_shared where
  "initial_shared = \<lparr>us_installed_version = replicate FW_VERSION_FIELD_LEN 0, us_state = UPLOAD_STATE_IDLE,
     us_received_bytes = 0, us_total_bytes = 0\<rparr>"

definition StartUpdaterHttp :: "http_env \<Rightarrow> byte list option \<Rightarrow> upload_shared \<Rightarrow> bool \<times> upload_shared" where
  "StartUpdaterHttp env installed_version sh =
     (let (is_started, _, _) = StartUploadWorker False False (he_mutex env) (he_queue env) (he_task env) in
      if \<not> is_started then (False, sh)
      else let sh = SetInstalledVersion installed_version sh in
      if he_start env \<noteq> ESP_OK then (False, sh)
      else (list_all (\<lambda>err. err = ESP_OK) (take 3 (he_handlers env)) \<and> he_err_handler env = ESP_OK, sh))"

subsection \<open>What the receive loop guarantees\<close>

definition head_ok :: "byte list \<Rightarrow> nat \<Rightarrow> byte list \<Rightarrow> bool" where
  "head_ok body head_len head \<longleftrightarrow> length head = 304 \<and> head_len = min 304 (length body) \<and>
     take head_len head = take head_len body \<and> (head_len = 304 \<longrightarrow> CheckImageHead head 304 = UPLOAD_OK)"

lemma CollectHead_ok:
  assumes "head_ok body head_len head" "CollectHead head_len chunk head = (head_len', head', UPLOAD_OK)"
  shows "head_ok (body @ chunk) head_len' head'"
  using assms
  by (auto simp: head_ok_def CollectHead_def Let_def overwrite_def min_def not_less split: if_splits)

lemma CollectHead_length:
  "length head = 304 \<Longrightarrow> head_len \<le> 304 \<Longrightarrow> CollectHead head_len chunk head = (head_len', head', res) \<Longrightarrow>
   length head' = 304 \<and> head_len' \<le> 304"
  by (auto simp: CollectHead_def Let_def overwrite_def split: if_splits)


text \<open>
  One round of the loop: the loop is done, stops with a result, or goes on. The proofs about the
  loop are inductions (\<open>ReceiveLoop_rounds\<close>) over these cases.
\<close>

lemma ReceiveLoop_cases:
  assumes "ReceiveLoop recv ota h n hl rc t r = (res, r')"
  obtains (finished) "n \<le> rc" "r' = r" "res = (if hl < 304 then CheckImageHead (ur_head r) hl else UPLOAD_OK)"
  | (stop) net where "rc < n" "res = UPLOAD_REJECT_INTERRUPTED" "r' = r\<lparr>ur_net := net\<rparr>"
  | (retry) net where "rc < n" "t < 5" "ReceiveLoop recv ota h n hl rc (t + 1) (r\<lparr>ur_net := net\<rparr>) = (res, r')"
      "\<exists>w. recv w (ur_net r) = (RECV_TIMEOUT, net)"
  | (bad_head) chunk hl' head net where "rc < n" "CollectHead hl chunk (ur_head r) = (hl', head, res)"
      "res \<noteq> UPLOAD_OK" "r' = r\<lparr>ur_head := head, ur_net := net\<rparr>"
  | (write_failed) chunk hl' head err d net where "rc < n" "CollectHead hl chunk (ur_head r) = (hl', head, UPLOAD_OK)"
      "od_write ota h chunk (ur_dev r) = (err, d)" "err \<noteq> ESP_OK"
      "res = (if err = ESP_ERR_OTA_VALIDATE_FAILED then UPLOAD_REJECT_IMAGE else UPLOAD_REJECT_FLASH)"
      "r' = r\<lparr>ur_head := head, ur_dev := d, ur_net := net\<rparr>"
  | (more) w chunk hl' head d net where "rc < n" "w \<le> n - rc" "recv w (ur_net r) = (RECV_BYTES chunk, net)"
      "chunk \<noteq> []" "CollectHead hl chunk (ur_head r) = (hl', head, UPLOAD_OK)"
      "od_write ota h chunk (ur_dev r) = (ESP_OK, d)"
      "ReceiveLoop recv ota h n hl' (rc + length chunk) 0
         (r\<lparr>ur_head := head, ur_dev := d, ur_net := net,
            ur_shared := (ur_shared r)\<lparr>us_received_bytes := rc + length chunk\<rparr>\<rparr>) = (res, r')"
proof (cases "rc < n")
  case False
  then show thesis using assms finished by (subst (asm) ReceiveLoop.simps) auto
next
  case rc: True
  define w where "w = (if 4096 < n - rc then 4096 else n - rc)"
  obtain answer net where a: "recv w (ur_net r) = (answer, net)" by (metis prod.exhaust)
  note loop = assms [unfolded ReceiveLoop.simps [of recv ota h n hl rc t r] Let_def, folded w_def, unfolded a]
  show thesis
  proof (cases answer)
    case RECV_TIMEOUT
    then show thesis using rc loop stop [of net] retry [of net] a by (auto split: if_splits)
  next
    case RECV_FAILED
    then show thesis using rc loop stop [of net] by auto
  next
    case (RECV_BYTES chunk)
    show thesis
    proof (cases "chunk = []")
      case True
      then show thesis using RECV_BYTES rc loop stop [of net] by auto
    next
      case False
      obtain hl' head res0 where c: "CollectHead hl chunk (ur_head r) = (hl', head, res0)"
        by (metis prod.exhaust)
      obtain err d where o: "od_write ota h chunk (ur_dev r) = (err, d)" by (metis prod.exhaust)
      have "w \<le> n - rc" by (simp add: w_def)
      then show thesis
        using False RECV_BYTES rc loop c o a bad_head [of chunk hl' head] write_failed [of chunk hl' head err d] more [of w chunk net hl' head d]
        by (auto split: if_splits)
    qed
  qed
qed

text \<open>
  The bytes that a sequence of calls of \<open>httpd_req_recv\<close> delivers, in their order; a timeout delivers none.
\<close>

inductive received :: "'n recv \<Rightarrow> 'n \<Rightarrow> byte list \<Rightarrow> 'n \<Rightarrow> bool" for recv where
  received_nothing: "received recv net [] net"
| received_bytes: "recv w net = (RECV_BYTES chunk, net1) \<Longrightarrow> received recv net1 bs net2 \<Longrightarrow> received recv net (chunk @ bs) net2"
| received_timeout: "recv w net = (RECV_TIMEOUT, net1) \<Longrightarrow> received recv net1 bs net2 \<Longrightarrow> received recv net bs net2"

lemma ReceiveLoop_done:
  "n \<le> rc \<Longrightarrow> ReceiveLoop recv ota h n hl rc t r =
     (if hl < 304 then CheckImageHead (ur_head r) hl else UPLOAD_OK, r)"
  by (subst ReceiveLoop.simps) simp

lemma ReceiveLoop_rounds:
  fixes P :: "nat \<Rightarrow> nat \<Rightarrow> nat \<Rightarrow> 'r \<Rightarrow> bool"
  assumes "\<And>hl rc t r. (\<And>hl' rc' t' r'. rc < n \<Longrightarrow> rc < rc' \<or> rc' = rc \<and> t < 5 \<and> t' = t + 1 \<Longrightarrow> P hl' rc' t' r')
    \<Longrightarrow> P hl rc t r"
  shows "P hl rc t r"
proof (induction "(n - rc, 6 - t)" arbitrary: hl rc t r rule: wf_induct_rule [OF wf_lex_prod [OF wf_less_than wf_less_than]])
  case (1 rc t hl r)
  show ?case by (rule assms, rule 1) auto
qed

lemma ReceiveLoop_not_size:
  "ReceiveLoop recv ota h n hl rc t r = (res, r') \<Longrightarrow> res \<noteq> UPLOAD_REJECT_SIZE"
proof (induction hl rc t r rule: ReceiveLoop_rounds [of n])
  case (1 hl rc t r)
  have check: "CheckImageHead head k \<noteq> UPLOAD_REJECT_SIZE" for head k
    by (simp add: CheckImageHead_def split: fw_meta_check.splits)
  from 1(2) show ?case
  proof (cases rule: ReceiveLoop_cases)
    case (retry net)
    with 1(1) [of rc "t + 1" hl "r\<lparr>ur_net := net\<rparr>"] show ?thesis by simp
  next
    case (more w chunk hl' head d net)
    then have "rc < rc + length chunk" by simp
    with more 1(1) [OF more(1) disjI1 more(7)] show ?thesis by simp
  qed (auto simp: check CollectHead_def Let_def split: if_splits)
qed

context box_flash
begin

lemma ReceiveLoop_frame:
  "ReceiveLoop recv ota h n hl rc t r = (res, r') \<Longrightarrow>
   pd_mem drv (ur_dev r') = pd_mem drv (ur_dev r) \<and> us_state (ur_shared r') = us_state (ur_shared r) \<and>
   us_installed_version (ur_shared r') = us_installed_version (ur_shared r)"
proof (induction hl rc t r rule: ReceiveLoop_rounds [of n])
  case (1 hl rc t r)
  from 1(2) show ?case
  proof (cases rule: ReceiveLoop_cases)
    case (retry net)
    with 1(1) [of rc "t + 1" hl "r\<lparr>ur_net := net\<rparr>"] show ?thesis by simp
  next
    case (more w chunk hl' head d net)
    then have "rc < rc + length chunk" by simp
    with more 1(1) [OF more(1) disjI1 more(7)] show ?thesis by (simp add: ota_write_law(1))
  qed (auto dest: ota_write_law(1))
qed

lemma ReceiveLoop_ok:
  assumes "recv_laws recv"
  shows "ReceiveLoop recv ota h n hl rc t r = (UPLOAD_OK, r') \<Longrightarrow>
   length (od_written ota (ur_dev r)) = rc \<Longrightarrow> rc \<le> n \<Longrightarrow> head_ok (od_written ota (ur_dev r)) hl (ur_head r) \<Longrightarrow>
   length (od_written ota (ur_dev r')) = n \<and> head_ok (od_written ota (ur_dev r')) 304 (ur_head r') \<and>
   (\<exists>bs. received recv (ur_net r) bs (ur_net r') \<and> od_written ota (ur_dev r') = od_written ota (ur_dev r) @ bs)"
proof (induction hl rc t r rule: ReceiveLoop_rounds [of n])
  case (1 hl rc t r)
  from 1(2) show ?case
  proof (cases rule: ReceiveLoop_cases)
    case finished
    have "CheckImageHead (ur_head r) hl \<noteq> UPLOAD_OK" if "hl < 304"
      using that by (simp add: CheckImageHead_def CheckFwEmbeddedMeta_def)
    with finished have "\<not> hl < 304" by (auto split: if_splits)
    with 1(3-5) finished have "hl = 304" by (simp add: head_ok_def)
    with 1(3-5) finished received_nothing [of recv "ur_net r"] show ?thesis by auto
  next
    case (retry net)
    then obtain w where w: "recv w (ur_net r) = (RECV_TIMEOUT, net)" by blast
    have "received recv (ur_net r) bs net'" if "received recv net bs net'" for bs net'
      using received_timeout [of recv w] w that by blast
    with retry 1(1) [of rc "t + 1" hl "r\<lparr>ur_net := net\<rparr>"] 1(3-5) show ?thesis by auto
  next
    case (more w chunk hl' head d net)
    have l: "length chunk \<le> n - rc"
      using assms more(2,3) unfolding recv_laws_def by (meson le_trans)
    have lt: "rc < rc + length chunk" using more(4) by simp
    have w: "od_written ota d = od_written ota (ur_dev r) @ chunk"
      by (rule ota_write_law(2) [OF more(6)]) simp
    have "length (od_written ota (ur_dev r')) = n \<and> head_ok (od_written ota (ur_dev r')) 304 (ur_head r') \<and>
        (\<exists>bs. received recv net bs (ur_net r') \<and> od_written ota (ur_dev r') = od_written ota d @ bs)"
      using 1(1) [OF more(1) disjI1 more(7)] lt l more(1) 1(3) w CollectHead_ok [OF 1(5) more(5)] by simp
    moreover have "received recv (ur_net r) (chunk @ bs) net'" if "received recv net bs net'" for bs net'
      using received_bytes [of recv w] more(3) that by blast
    ultimately show ?thesis using w by auto
  qed (simp_all split: if_splits)
qed

lemma ReceiveImage_ok:
  assumes "recv_laws recv" "ReceiveImage recv ota h n r = (UPLOAD_OK, r')"
    and "od_written ota (ur_dev r) = []" "length (ur_head r) = 304"
  shows "length (od_written ota (ur_dev r')) = n"
    and "length (ur_head r') = 304" "ur_head r' = take 304 (od_written ota (ur_dev r'))" "304 \<le> n"
    and "CheckFwEmbeddedMeta (ur_head r') 304 = FW_META_CHECK_OK"
    and "received recv (ur_net r) (od_written ota (ur_dev r')) (ur_net r')"
proof -
  have "head_ok (od_written ota (ur_dev r)) 0 (ur_head r)"
    using assms(3,4) by (simp add: head_ok_def)
  then have *: "length (od_written ota (ur_dev r')) = n \<and> head_ok (od_written ota (ur_dev r')) 304 (ur_head r') \<and>
      (\<exists>bs. received recv (ur_net r) bs (ur_net r') \<and> od_written ota (ur_dev r') = od_written ota (ur_dev r) @ bs)"
    using ReceiveLoop_ok [OF assms(1), of h n 0 0 0 r r'] assms(2,3) by (simp add: ReceiveImage_def)
  then show "length (od_written ota (ur_dev r')) = n" "length (ur_head r') = 304"
    "ur_head r' = take 304 (od_written ota (ur_dev r'))" "304 \<le> n"
    by (auto simp: head_ok_def)
  show "received recv (ur_net r) (od_written ota (ur_dev r')) (ur_net r')" using * assms(3) by auto
  from * have "CheckImageHead (ur_head r') 304 = UPLOAD_OK"
    by (simp add: head_ok_def)
  then show "CheckFwEmbeddedMeta (ur_head r') 304 = FW_META_CHECK_OK"
    by (simp add: CheckImageHead_def split: fw_meta_check.splits)
qed

lemma ClearCrashCount_meta: "stored_meta drv (ClearCrashCount drv d) = stored_meta drv d"
proof -
  obtain x d1 where r: "ReadFwCtrlRecord drv d = (x, d1)" by (metis prod.exhaust)
  have "stored_meta drv d1 = stored_meta drv d" using read_ctrl_frame [OF r] by simp
  moreover have "stored_meta drv (snd (WriteFwCtrlRecord drv (BuildFwCtrlRecord c b) d1)) = stored_meta drv d1" for c b
    by (metis write_ctrl_meta wf_BuildFwCtrlRecord prod.exhaust snd_conv)
  ultimately show ?thesis using r by (auto simp: ClearCrashCount_def split: prod.splits)
qed

lemma ClearCrashCount_ota: "od_mem ota (ClearCrashCount drv d) = od_mem ota d"
  by (auto simp: ClearCrashCount_def Let_def split: prod.splits dest!: meta_ops_keep_ota(4))
     (metis meta_ops_keep_ota(5) prod.exhaust snd_conv)

lemma WriteAndVerifyMeta_ok:
  assumes "WriteAndVerifyMeta drv size' record d = Inr d'" "wf_meta record" "meta_erased drv d"
  shows "stored_meta drv d' = record" "IsFwMetaRecordValid record size'" "od_mem ota d' = od_mem ota d"
proof -
  obtain d1 rb where w: "WriteFwMetaRecord drv record d = (ESP_OK, d1)"
    and r: "ReadFwMetaRecord drv d1 = ((ESP_OK, rb), d')" and v: "IsFwMetaRecordValid rb size'"
    using assms(1) by (auto simp: WriteAndVerifyMeta_def Let_def split: prod.splits if_splits)
  have 1: "stored_meta drv d1 = record" by (rule write_meta_ok [OF assms(2,3) w])
  have 2: "stored_meta drv d' = stored_meta drv d1" "rb = stored_meta drv d1"
    using read_meta_frame [OF r] read_meta_ok [OF r] by auto
  show "stored_meta drv d' = record" "IsFwMetaRecordValid record size'" "od_mem ota d' = od_mem ota d"
    using 1 2 v meta_ops_keep_ota(3) [OF w] meta_ops_keep_ota(1) [OF r] by auto
qed

end

context box_flash
begin

lemma CommitMetaRecord_ok:
  assumes "CommitMetaRecord drv ota n r = (UPLOAD_OK, r')" "meta_erased drv (ur_dev r)" "length (ur_head r) = 304"
  shows "stored_meta drv (ur_dev r') = BuildFwMetaRecord (drop 292 (ur_head r)) (of_nat n) (od_digest ota (od_mem ota (ur_dev r)))"
    and "IsFwMetaRecordValid (stored_meta drv (ur_dev r')) (od_size ota)"
    and "od_mem ota (ur_dev r') = od_mem ota (ur_dev r)"
    and "us_installed_version (ur_shared r') = take 8 (drop 292 (ur_head r)) @ [0]"
    and "ur_net r' = ur_net r"
proof -
  obtain sha d d2 where s: "ComputeFwImageSha256 ota (ur_dev r) = ((ESP_OK, sha), d)"
    and wv: "WriteAndVerifyMeta drv (od_size ota) (BuildFwMetaRecord (drop 292 (ur_head r)) (of_nat n) sha) d = Inr d2"
    and r': "r' = r\<lparr>ur_shared := SetInstalledVersion
        (Some (mr_version (BuildFwMetaRecord (drop 292 (ur_head r)) (of_nat n) sha))) (ur_shared r),
        ur_dev := ClearCrashCount drv d2\<rparr>"
    using assms(1) by (auto simp: CommitMetaRecord_def Let_def split: prod.splits if_splits sum.splits)
  have sha: "sha = od_digest ota (od_mem ota (ur_dev r))" using ota_sha_law(4) [OF s] by simp
  have wf: "wf_meta (BuildFwMetaRecord (drop 292 (ur_head r)) (of_nat n) sha)"
    using assms(3) by (simp add: sha digest_length)
  have er: "meta_erased drv d" using assms(2) stored_cong(4) [OF ota_sha_law(1) [OF s]] by simp
  note c = WriteAndVerifyMeta_ok [OF wv wf er]
  show "stored_meta drv (ur_dev r') = BuildFwMetaRecord (drop 292 (ur_head r)) (of_nat n) (od_digest ota (od_mem ota (ur_dev r)))"
    and "IsFwMetaRecordValid (stored_meta drv (ur_dev r')) (od_size ota)"
    and "od_mem ota (ur_dev r') = od_mem ota (ur_dev r)"
    using c sha ota_sha_law(2) [OF s] by (simp_all add: r' ClearCrashCount_meta ClearCrashCount_ota)
  show "us_installed_version (ur_shared r') = take 8 (drop 292 (ur_head r)) @ [0]" "ur_net r' = ur_net r"
    by (simp_all add: r' SetInstalledVersion_def)
qed

lemma CommitMetaRecord_failed:
  assumes "CommitMetaRecord drv ota n r = (res, r')" "res \<noteq> UPLOAD_OK" "meta_erased drv (ur_dev r)"
  shows "res = UPLOAD_REJECT_FLASH \<and>
    (meta_erased drv (ur_dev r') \<or> (\<exists>d e. EraseFwMetaRecord drv d = (e, ur_dev r') \<and> e \<noteq> ESP_OK))"
proof -
  obtain e sha d where s: "ComputeFwImageSha256 ota (ur_dev r) = ((e, sha), d)" by (metis prod.exhaust)
  have er: "meta_erased drv d" using assms(3) stored_cong(4) [OF ota_sha_law(1) [OF s]] by simp
  have fin: "meta_erased drv (snd (EraseFwMetaRecord drv d2)) \<or>
      (\<exists>d e. EraseFwMetaRecord drv d = (e, snd (EraseFwMetaRecord drv d2)) \<and> e \<noteq> ESP_OK)" for d2
    by (metis erase_meta_ok prod.collapse)
  have "res = UPLOAD_REJECT_FLASH \<and> (ur_dev r' = d \<or> (\<exists>d2. ur_dev r' = snd (EraseFwMetaRecord drv d2)))"
    using assms(1,2) s by (auto simp: CommitMetaRecord_def Let_def split: if_splits sum.splits)
  then show ?thesis using er fin by metis
qed

text \<open>The stages of an upload that is not refused for its size.\<close>

lemma RunUpload_stages:
  assumes "RunUpload recv drv (Some ota) n r = (res, oh, r')"
  obtains (refused) "res = UPLOAD_REJECT_SIZE" "r' = r" "oh = None" "n = 0 \<or> unat (od_size ota) < n"
  | (erase_failed) e where "res = UPLOAD_REJECT_FLASH" "EraseFwMetaRecord drv (ur_dev r) = (e, ur_dev r')" "e \<noteq> ESP_OK"
      "oh = None" "0 < n" "n \<le> unat (od_size ota)"
  | (before_commit) "res \<noteq> UPLOAD_OK" "res \<noteq> UPLOAD_REJECT_SIZE" "meta_erased drv (ur_dev r')" "0 < n" "n \<le> unat (od_size ota)"
  | (commit) r1 h r2 d where "0 < n" "n \<le> unat (od_size ota)"
      "od_written ota (ur_dev r1) = []" "ur_head r1 = ur_head r \<and> ur_net r1 = ur_net r"
      "ReceiveImage recv ota h n r1 = (UPLOAD_OK, r2)" "od_end ota h (ur_dev r2) = (ESP_OK, d)" "oh = None"
      "meta_erased drv d" "CommitMetaRecord drv ota n (r2\<lparr>ur_dev := d\<rparr>) = (res, r')"
proof (cases "n = 0 \<or> unat (od_size ota) < n")
  case True
  then show thesis using assms refused by (auto simp: RunUpload_def)
next
  case False
  then have n: "0 < n" "n \<le> unat (od_size ota)" by auto
  obtain e d where er: "EraseFwMetaRecord drv (ur_dev r) = (e, d)" by (metis prod.exhaust)
  show thesis
  proof (cases "e = ESP_OK")
    case False
    then show thesis using assms er n erase_failed [of e] by (auto simp: RunUpload_def)
  next
    case True
    have m: "meta_erased drv d" using erase_meta_ok er True by simp
    obtain e2 h d2 where b: "od_begin ota n d = ((e2, h), d2)" by (metis prod.exhaust)
    have m2: "meta_erased drv d2" using m stored_cong(4) [OF ota_begin_law(1) [OF b]] by simp
    let ?r1 = "r\<lparr>ur_shared := SetInstalledVersion None (ur_shared r), ur_dev := d2\<rparr>"
    obtain res2 r2 where rc: "ReceiveImage recv ota h n ?r1 = (res2, r2)" by (metis prod.exhaust)
    have m3: "meta_erased drv (ur_dev r2)"
      using m2 ReceiveLoop_frame [OF rc [unfolded ReceiveImage_def]] stored_cong(4) [of drv "ur_dev r2" d2] by simp
    obtain e3 d3 where en: "od_end ota h (ur_dev r2) = (e3, d3)" by (metis prod.exhaust)
    have m4: "meta_erased drv d3" using m3 stored_cong(4) [OF ota_end_law(1) [OF en]] by simp
    note run = assms [unfolded RunUpload_def] er True b rc en n
    consider "e2 \<noteq> ESP_OK" | "e2 = ESP_OK" "res2 \<noteq> UPLOAD_OK" | "e2 = ESP_OK" "res2 = UPLOAD_OK" "e3 \<noteq> ESP_OK"
      | "e2 = ESP_OK" "res2 = UPLOAD_OK" "e3 = ESP_OK" by blast
    then show thesis
    proof cases
      case 4
      have "od_written ota d2 = []" by (rule ota_begin_law(2) [OF b]) (use 4 in simp)
      with 4 run m4 show thesis
        by (intro commit [of ?r1 h r2 d3]) (auto simp: Let_def split: prod.splits)
    qed (use run m2 m3 m4 before_commit ReceiveLoop_not_size [OF rc [unfolded ReceiveImage_def]] in \<open>auto simp: Let_def\<close>)
  qed
qed

end

subsection \<open>What an installed image is\<close>

text \<open>
  The first \<open>n\<close> bytes of ota_0 are an accepted image and the stored record describes exactly that
  image: its version, size and digest.
\<close>

definition image_installed :: "'d partition_drv \<Rightarrow> 'd ota_drv \<Rightarrow> 'd \<Rightarrow> nat \<Rightarrow> bool" where
  "image_installed drv ota d n \<longleftrightarrow>
     (let image = mem_range (od_mem ota d) 0 n in
      304 \<le> n \<and> n \<le> unat (od_size ota) \<and>
      CheckFwEmbeddedMeta image 304 = FW_META_CHECK_OK \<and>
      stored_meta drv d = BuildFwMetaRecord (drop 292 image) (of_nat n) (od_digest ota (od_mem ota d)) \<and>
      IsFwMetaRecordValid (stored_meta drv d) (od_size ota))"

text \<open>The flash as a call of \<open>EraseFwMetaRecord\<close> that reported a failure left it.\<close>

definition left_by_failed_erase :: "'d partition_drv \<Rightarrow> 'd \<Rightarrow> bool" where
  "left_by_failed_erase drv d \<longleftrightarrow> (\<exists>d1 e d2. EraseFwMetaRecord drv d1 = (e, d2) \<and> e \<noteq> ESP_OK \<and> pd_mem drv d = pd_mem drv d2)"

lemma ReadLe_take:
  "2 \<le> n \<Longrightarrow> ReadLe16 (take n bs) = ReadLe16 bs" "4 \<le> n \<Longrightarrow> ReadLe32 (take n bs) = ReadLe32 bs"
  by (simp_all add: ReadLe16_def ReadLe32_def)

lemma CheckFwEmbeddedMeta_take: "CheckFwEmbeddedMeta (take 304 h) 304 = CheckFwEmbeddedMeta h 304"
  by (simp add: CheckFwEmbeddedMeta_def Let_def drop_take ReadLe_take IsValidFwVersion_def upt_rec)

lemma BuildFwMetaRecord_take: "9 \<le> k \<Longrightarrow> BuildFwMetaRecord (take k v) n sha = BuildFwMetaRecord v n sha"
  by (simp add: BuildFwMetaRecord_def min_def)

context box_flash
begin

lemma RunUpload_installs:
  assumes "recv_laws recv" "RunUpload recv drv (Some ota) n r = (UPLOAD_OK, oh, r')" "length (ur_head r) = 304"
  shows "image_installed drv ota (ur_dev r') n"
    and "us_installed_version (ur_shared r') = take 8 (mr_version (stored_meta drv (ur_dev r'))) @ [0]"
    and "received recv (ur_net r) (mem_range (od_mem ota (ur_dev r')) 0 n) (ur_net r')"
proof -
  from assms(2) have "image_installed drv ota (ur_dev r') n \<and>
    received recv (ur_net r) (mem_range (od_mem ota (ur_dev r')) 0 n) (ur_net r') \<and>
    us_installed_version (ur_shared r') = take 8 (mr_version (stored_meta drv (ur_dev r'))) @ [0]"
  proof (cases rule: RunUpload_stages)
    case (commit r1 h r2 d)
    note i = ReceiveImage_ok [OF assms(1) commit(5,3)]
    have h: "length (ur_head r1) = 304" using commit(4) assms(3) by simp
    have im: "mem_range (od_mem ota d) 0 n = od_written ota (ur_dev r2)"
      using ota_end_law(3) [OF commit(6)] i(1) [OF h] by simp
    have l: "length (ur_head (r2\<lparr>ur_dev := d\<rparr>)) = 304" "meta_erased drv (ur_dev (r2\<lparr>ur_dev := d\<rparr>))"
      using i(2) [OF h] commit(8) by simp_all
    note c = CommitMetaRecord_ok [OF commit(9) l(2) l(1)]
    have head: "ur_head r2 = take 304 (mem_range (od_mem ota (ur_dev r')) 0 n)"
      using i(3) [OF h] im c(3) by simp
    then have v: "drop 292 (ur_head r2) = take 12 (drop 292 (mem_range (od_mem ota (ur_dev r')) 0 n))"
      by (simp add: drop_take)
    have rec: "stored_meta drv (ur_dev r') = BuildFwMetaRecord (drop 292 (mem_range (od_mem ota (ur_dev r')) 0 n))
        (of_nat n) (od_digest ota (od_mem ota (ur_dev r')))"
      using c(1,3) by (simp add: v BuildFwMetaRecord_take)
    have "CheckFwEmbeddedMeta (mem_range (od_mem ota (ur_dev r')) 0 n) 304 = FW_META_CHECK_OK"
      using i(5) [OF h] head CheckFwEmbeddedMeta_take by metis
    moreover have "us_installed_version (ur_shared r') = take 8 (mr_version (stored_meta drv (ur_dev r'))) @ [0]"
      using c(4) by (simp add: rec v)
    moreover have "received recv (ur_net r) (mem_range (od_mem ota (ur_dev r')) 0 n) (ur_net r')"
      using i(6) [OF h] commit(4) im c(3,5) by simp
    ultimately show ?thesis
      using commit(2) i(4) [OF h] c(2) rec by (simp add: image_installed_def Let_def)
  qed auto
  then show "image_installed drv ota (ur_dev r') n"
    and "us_installed_version (ur_shared r') = take 8 (mr_version (stored_meta drv (ur_dev r'))) @ [0]"
    and "received recv (ur_net r) (mem_range (od_mem ota (ur_dev r')) 0 n) (ur_net r')" by auto
qed

lemma RunUpload_rejects:
  assumes "RunUpload recv drv (Some ota) n r = (res, oh, r')" "res \<noteq> UPLOAD_OK"
  shows "res = UPLOAD_REJECT_SIZE \<Longrightarrow> r' = r \<and> oh = None"
    and "res \<noteq> UPLOAD_REJECT_SIZE \<Longrightarrow> res \<noteq> UPLOAD_REJECT_FLASH \<Longrightarrow> meta_erased drv (ur_dev r')"
    and "res = UPLOAD_REJECT_FLASH \<Longrightarrow> meta_erased drv (ur_dev r') \<or>
      (\<exists>d e. EraseFwMetaRecord drv d = (e, ur_dev r') \<and> e \<noteq> ESP_OK)"
proof -
  have "(res = UPLOAD_REJECT_SIZE \<longrightarrow> r' = r \<and> oh = None) \<and>
    (res \<noteq> UPLOAD_REJECT_SIZE \<longrightarrow> res \<noteq> UPLOAD_REJECT_FLASH \<longrightarrow> meta_erased drv (ur_dev r')) \<and>
    (res = UPLOAD_REJECT_FLASH \<longrightarrow> meta_erased drv (ur_dev r') \<or>
      (\<exists>d e. EraseFwMetaRecord drv d = (e, ur_dev r') \<and> e \<noteq> ESP_OK))"
    using assms(1)
  proof (cases rule: RunUpload_stages)
    case (commit r1 h r2 d)
    then show ?thesis using CommitMetaRecord_failed [OF commit(9) assms(2)] by auto
  qed auto
  then show "res = UPLOAD_REJECT_SIZE \<Longrightarrow> r' = r \<and> oh = None"
    and "res \<noteq> UPLOAD_REJECT_SIZE \<Longrightarrow> res \<noteq> UPLOAD_REJECT_FLASH \<Longrightarrow> meta_erased drv (ur_dev r')"
    and "res = UPLOAD_REJECT_FLASH \<Longrightarrow> meta_erased drv (ur_dev r') \<or>
      (\<exists>d e. EraseFwMetaRecord drv d = (e, ur_dev r') \<and> e \<noteq> ESP_OK)" by auto
qed

end

subsection \<open>An example upload\<close>

text \<open>A connection that delivers the bytes it holds, and an image with nothing but the checked fields.\<close>

definition stream_recv :: "byte list recv" where
  "stream_recv w bs = (if bs = [] then (RECV_FAILED, []) else (RECV_BYTES (take w bs), drop w bs))"

lemma stream_recv_laws: "recv_laws stream_recv"
  by (auto simp: recv_laws_def stream_recv_def split: if_splits)

definition example_head :: "byte list" where
  "example_head = FW_IMAGE_MAGIC # replicate 11 0 @ le16 FW_IMAGE_CHIP_ID_ESP32C3 @ replicate 18 0 @
     le32 FW_APP_DESC_MAGIC @ replicate 252 0 @ le32 FW_META_MAGIC @ ascii ''01.00.00'' @ replicate 4 0"

lemma example_head_length [simp]: "length example_head = 304"
  by (simp add: example_head_def)

lemma example_head_ok: "CheckFwEmbeddedMeta example_head 304 = FW_META_CHECK_OK"
proof -
  have "drop 12 example_head = le16 FW_IMAGE_CHIP_ID_ESP32C3 @ replicate 18 0 @
     le32 FW_APP_DESC_MAGIC @ replicate 252 0 @ le32 FW_META_MAGIC @ ascii ''01.00.00'' @ replicate 4 0"
    and "drop 32 example_head = le32 FW_APP_DESC_MAGIC @ replicate 252 0 @ le32 FW_META_MAGIC @ ascii ''01.00.00'' @ replicate 4 0"
    and "drop 288 example_head = le32 FW_META_MAGIC @ ascii ''01.00.00'' @ replicate 4 0"
    and "drop 292 example_head = ascii ''01.00.00'' @ replicate 4 0"
    by (simp_all add: example_head_def)
  moreover have "ascii ''01.00.00'' @ replicate 4 0 = [0x30, 0x31, 0x2E, 0x30, 0x30, 0x2E, 0x30, 0x30, 0, 0, 0, 0]"
    by (simp add: ascii_def numeral_eq_Suc)
  moreover have "IsValidFwVersion [0x30, 0x31, 0x2E, 0x30, 0x30, 0x2E, 0x30, 0x30, 0, 0, 0, 0]"
    using IsValidFwVersion_take [of "[0x30, 0x31, 0x2E, 0x30, 0x30, 0x2E, 0x30, 0x30, 0, 0, 0, 0]"]
    by (simp add: IsValidFwVersion_field is_version_digit_def)
  moreover have "example_head ! 0 = FW_IMAGE_MAGIC" by (simp add: example_head_def)
  ultimately show ?thesis by (simp add: CheckFwEmbeddedMeta_def Let_def)
qed


subsection \<open>Uploads that succeed\<close>

text \<open>
  A connection that delivers a body: every receive returns the next bytes of it, or times out, with
  at most five timeouts in a row. \<open>served t rest net\<close> holds when \<open>rest\<close> is still to come after \<open>t\<close>
  timeouts in a row.
\<close>

definition delivers :: "'n recv \<Rightarrow> (nat \<Rightarrow> byte list \<Rightarrow> 'n \<Rightarrow> bool) \<Rightarrow> bool" where
  "delivers recv served \<longleftrightarrow> (\<forall>t rest net w. served t rest net \<and> rest \<noteq> [] \<and> 0 < w \<longrightarrow>
     (\<exists>k net'. 0 < k \<and> k \<le> w \<and> k \<le> length rest \<and> recv w net = (RECV_BYTES (take k rest), net') \<and>
        served 0 (drop k rest) net') \<or>
     (\<exists>net'. t < 5 \<and> recv w net = (RECV_TIMEOUT, net') \<and> served (t + 1) rest net'))"

lemma CollectHead_valid:
  assumes "head_ok (take rc img) hl head" "CheckFwEmbeddedMeta img 304 = FW_META_CHECK_OK"
    and "304 \<le> length img" "rc + k \<le> length img"
  shows "\<exists>hl' head'. CollectHead hl (take k (drop rc img)) head = (hl', head', UPLOAD_OK) \<and>
    head_ok (take (rc + k) img) hl' head'"
proof -
  let ?chunk = "take k (drop rc img)"
  obtain hl' head' res where c: "CollectHead hl ?chunk head = (hl', head', res)" by (metis prod.exhaust)
  have "res = UPLOAD_OK"
  proof (cases "hl < 304 \<and> hl' = 304")
    case True
    then have hl: "hl = rc" using assms by (auto simp: head_ok_def)
    have "head' = take 304 img"
      using True c assms hl
      by (auto simp: head_ok_def CollectHead_def Let_def overwrite_def min_def take_add [symmetric] split: if_splits)
    then have "CheckImageHead head' 304 = UPLOAD_OK"
      using assms(2) by (simp add: CheckImageHead_def CheckFwEmbeddedMeta_take)
    then show ?thesis using True c by (auto simp: CollectHead_def Let_def split: if_splits)
  next
    case False
    then show ?thesis using c by (auto simp: CollectHead_def Let_def split: if_splits)
  qed
  then show ?thesis
    using c CollectHead_ok [OF assms(1), of ?chunk hl' head'] by (simp add: take_add)
qed

context box_flash
begin

lemma ReceiveLoop_delivers:
  assumes rel: "reliable_box drv ota ok" and del: "delivers recv served"
    and img: "CheckFwEmbeddedMeta img 304 = FW_META_CHECK_OK" "304 \<le> length img"
  shows "ok (ur_dev r) \<Longrightarrow> od_written ota (ur_dev r) = take rc img \<Longrightarrow> served t (drop rc img) (ur_net r) \<Longrightarrow> rc \<le> length img \<Longrightarrow>
    head_ok (take rc img) hl (ur_head r) \<Longrightarrow>
    \<exists>r'. ReceiveLoop recv ota h (length img) hl rc t r = (UPLOAD_OK, r') \<and> ok (ur_dev r') \<and> od_written ota (ur_dev r') = img"
proof (induction hl rc t r rule: ReceiveLoop_rounds [of "length img"])
  case (1 hl rc t r)
  show ?case
  proof (cases "rc < length img")
    case False
    then have "hl = 304" using 1(5,6) img by (auto simp: head_ok_def)
    then show ?thesis using False 1(2,3) by (simp add: ReceiveLoop_done)
  next
    case rc: True
    define w where "w = (if 4096 < length img - rc then 4096 else length img - rc)"
    have w: "0 < w" using rc by (simp add: w_def)
    from rc w 1(4) consider
        (data) k net where "0 < k" "k \<le> length img - rc" "recv w (ur_net r) = (RECV_BYTES (take k (drop rc img)), net)"
          "served 0 (drop k (drop rc img)) net"
      | (timeout) net where "t < 5" "recv w (ur_net r) = (RECV_TIMEOUT, net)" "served (t + 1) (drop rc img) net"
      using del [unfolded delivers_def, rule_format, of t "drop rc img" "ur_net r" w] by auto
    then show ?thesis
    proof cases
      case data
      let ?chunk = "take k (drop rc img)"
      have len: "length ?chunk = k" "?chunk \<noteq> []" using data rc by auto
      obtain hl' head' where c: "CollectHead hl ?chunk (ur_head r) = (hl', head', UPLOAD_OK)"
        and h': "head_ok (take (rc + k) img) hl' head'"
        using CollectHead_valid [OF 1(6) img, of k] data(2) rc le_diff_conv2 [of rc "length img" k] by (auto simp: add.commute)
      obtain d where o: "od_write ota h ?chunk (ur_dev r) = (ESP_OK, d)" "ok d"
        using reliable_box_calls(4) [OF rel 1(2)] by blast
      have "od_written ota d = take (rc + k) img"
        using ota_write_law(2) [OF o(1)] 1(3) by (simp add: take_add)
      note o = o this
      let ?r = "r\<lparr>ur_head := head', ur_dev := d, ur_net := net,
        ur_shared := (ur_shared r)\<lparr>us_received_bytes := rc + k\<rparr>\<rparr>"
      have "ReceiveLoop recv ota h (length img) hl rc t r = ReceiveLoop recv ota h (length img) hl' (rc + k) 0 ?r"
        by (subst ReceiveLoop.simps) (use rc data(3) c o len in \<open>simp add: w_def [symmetric]\<close>)
      moreover have "\<exists>r'. ReceiveLoop recv ota h (length img) hl' (rc + k) 0 ?r = (UPLOAD_OK, r') \<and> ok (ur_dev r') \<and> od_written ota (ur_dev r') = img"
        by (rule 1(1) [OF rc]) (use data h' o rc in \<open>simp_all add: add.commute\<close>)
      ultimately show ?thesis by simp
    next
      case timeout
      have "ReceiveLoop recv ota h (length img) hl rc t r = ReceiveLoop recv ota h (length img) hl rc (t + 1) (r\<lparr>ur_net := net\<rparr>)"
        by (subst ReceiveLoop.simps) (use rc timeout in \<open>simp add: w_def [symmetric]\<close>)
      moreover have "\<exists>r'. ReceiveLoop recv ota h (length img) hl rc (t + 1) (r\<lparr>ur_net := net\<rparr>) = (UPLOAD_OK, r') \<and> ok (ur_dev r') \<and> od_written ota (ur_dev r') = img"
        by (rule 1(1) [OF rc]) (use timeout 1 in simp_all)
      ultimately show ?thesis by simp
    qed
  qed
qed

end

lemma of_nat_le_size:
  assumes "304 \<le> n" "n \<le> unat (m :: u32)"
  shows "(304 :: u32) \<le> of_nat n" "(of_nat n :: u32) \<le> m"
proof -
  have n: "unat (of_nat n :: u32) = n"
    using assms(2) unsigned_less [where 'a = nat and w = m] by (simp add: unat_of_nat)
  show "(304 :: u32) \<le> of_nat n" "(of_nat n :: u32) \<le> m"
    using assms n by (simp_all add: word_le_nat_alt)
qed

context box_flash
begin

lemma reliable_meta_ops:
  assumes "reliable drv ok" "ok d"
  shows "\<exists>d'. EraseFwMetaRecord drv d = (ESP_OK, d') \<and> ok d'"
    and "\<exists>d'. WriteFwMetaRecord drv rec d = (ESP_OK, d') \<and> ok d'"
proof -
  obtain e d1 where p: "pd_erase drv 0 4096 d = (e, d1)" by (metis prod.exhaust)
  show "\<exists>d'. EraseFwMetaRecord drv d = (ESP_OK, d') \<and> ok d'"
    using p reliable_calls(3) [OF assms p] reliable_found [OF assms(1)] by (simp add: EraseFwMetaRecord_def)
  obtain e d1 where w: "pd_write drv 0 (meta_bytes rec) d = (e, d1)" by (metis prod.exhaust)
  show "\<exists>d'. WriteFwMetaRecord drv rec d = (ESP_OK, d') \<and> ok d'"
    using w reliable_calls(2) [OF assms w] reliable_found [OF assms(1)] by (simp add: WriteFwMetaRecord_def)
qed

lemma ClearCrashCount_reliable:
  assumes "reliable drv ok" "ok d"
  shows "ok (ClearCrashCount drv d) \<and> cr_crash_count (effective_ctrl drv (ClearCrashCount drv d)) = 0"
proof -
  obtain d1 where r: "ReadFwCtrlRecord drv d = ((ESP_OK, effective_ctrl drv d), d1)" "ok d1"
    "pd_mem drv d1 = pd_mem drv d" by (rule reliable_read_ctrl [OF assms])
  obtain d2 where w: "WriteFwCtrlRecord drv (BuildFwCtrlRecord 0 (cr_boot_attempts (effective_ctrl drv d))) d1 = (ESP_OK, d2)"
    "ok d2" "effective_ctrl drv d2 = BuildFwCtrlRecord 0 (cr_boot_attempts (effective_ctrl drv d))"
    by (rule reliable_write_ctrl [OF assms(1) r(2)])
  show ?thesis using r w stored_cong(3) [OF r(3)] by (simp add: ClearCrashCount_def)
qed

lemma CommitMetaRecord_succeeds:
  assumes rel: "reliable_box drv ota ok" and ok: "ok (ur_dev r)" and er: "meta_erased drv (ur_dev r)"
    and head: "length (ur_head r) = 304" "CheckFwEmbeddedMeta (ur_head r) 304 = FW_META_CHECK_OK"
    and n: "304 \<le> n" "n \<le> unat (od_size ota)"
  shows "\<exists>r'. CommitMetaRecord drv ota n r = (UPLOAD_OK, r') \<and> ok (ur_dev r') \<and>
    cr_crash_count (effective_ctrl drv (ur_dev r')) = 0"
proof -
  obtain sha d where s: "ComputeFwImageSha256 ota (ur_dev r) = ((ESP_OK, sha), d)" "ok d"
    using reliable_box_calls(2) [OF rel ok] by blast
  have sha: "length sha = 32" using ota_sha_law(4) [OF s(1)] by (simp add: digest_length)
  let ?rec = "BuildFwMetaRecord (drop 292 (ur_head r)) (of_nat n) sha"
  have wf: "wf_meta ?rec" using head(1) sha by simp
  have valid: "IsFwMetaRecordValid ?rec (od_size ota)"
    using head of_nat_le_size [OF n] sha
    by (subst BuildFwMetaRecord_valid_iff) (simp_all add: CheckFwEmbeddedMeta_OK_iff)
  obtain d1 where w: "WriteFwMetaRecord drv ?rec d = (ESP_OK, d1)" "ok d1"
    using reliable_meta_ops(2) [OF reliable_boxD [OF rel] s(2)] by blast
  have "meta_erased drv d" using er stored_cong(4) [OF ota_sha_law(1) [OF s(1)]] by simp
  then have st: "stored_meta drv d1 = ?rec" using write_meta_ok [OF wf _ w(1)] by simp
  obtain d2 where rb: "ReadFwMetaRecord drv d1 = ((ESP_OK, stored_meta drv d1), d2)" "ok d2"
    by (rule reliable_read_meta [OF reliable_boxD [OF rel] w(2)])
  then have "WriteAndVerifyMeta drv (od_size ota) ?rec d = Inr d2"
    using w st valid by (simp add: WriteAndVerifyMeta_def)
  then show ?thesis using s ClearCrashCount_reliable [OF reliable_boxD [OF rel] rb(2)]
    by (simp add: CommitMetaRecord_def Let_def)
qed

lemma RunUpload_succeeds:
  assumes rel: "reliable_box drv ota ok" and del: "delivers recv served" and laws: "recv_laws recv"
    and img: "CheckFwEmbeddedMeta img 304 = FW_META_CHECK_OK" "304 \<le> length img" "length img \<le> unat (od_size ota)"
    and r: "ok (ur_dev r)" "served 0 img (ur_net r)" "length (ur_head r) = 304"
  shows "\<exists>oh r'. RunUpload recv drv (Some ota) (length img) r = (UPLOAD_OK, oh, r') \<and>
    mem_range (od_mem ota (ur_dev r')) 0 (length img) = img \<and> ok (ur_dev r') \<and>
    cr_crash_count (effective_ctrl drv (ur_dev r')) = 0"
proof -
  obtain d where e: "EraseFwMetaRecord drv (ur_dev r) = (ESP_OK, d)" "ok d"
    using reliable_meta_ops(1) [OF reliable_boxD [OF rel] r(1)] by blast
  obtain h d2 where b: "od_begin ota (length img) d = ((ESP_OK, h), d2)" "ok d2"
    using reliable_box_calls(3) [OF rel e(2)] by blast
  have er: "meta_erased drv d2"
    using erase_meta_ok [OF e(1)] stored_cong(4) [OF ota_begin_law(1) [OF b(1)]] by simp
  let ?r = "r\<lparr>ur_shared := SetInstalledVersion None (ur_shared r), ur_dev := d2\<rparr>"
  obtain r2 where rl: "ReceiveLoop recv ota h (length img) 0 0 0 ?r = (UPLOAD_OK, r2)" "ok (ur_dev r2)"
    "od_written ota (ur_dev r2) = img"
    using ReceiveLoop_delivers [OF rel del img(1,2), of ?r 0 0 0 h] b(2) r(2,3) ota_begin_law(2) [OF b(1)]
    by (auto simp: head_ok_def)
  then have ri: "ReceiveImage recv ota h (length img) ?r = (UPLOAD_OK, r2)" by (simp add: ReceiveImage_def)
  have wr: "od_written ota (ur_dev ?r) = []" "length (ur_head ?r) = 304"
    using ota_begin_law(2) [OF b(1)] r(3) by simp_all
  note i = ReceiveImage_ok [OF laws ri wr]
  obtain d3 where en: "od_end ota h (ur_dev r2) = (ESP_OK, d3)" "ok d3"
    using reliable_box_calls(5) [OF rel rl(2)] by blast
  have "pd_mem drv (ur_dev r2) = pd_mem drv d2" using ReceiveLoop_frame [OF rl(1)] by simp
  then have "meta_erased drv d3"
    using er stored_cong(4) [of drv d3 d2] ota_end_law(1) [OF en(1)] by simp
  then obtain r3 where c: "CommitMetaRecord drv ota (length img) (r2\<lparr>ur_dev := d3\<rparr>) = (UPLOAD_OK, r3)"
    "ok (ur_dev r3)" "cr_crash_count (effective_ctrl drv (ur_dev r3)) = 0"
    using CommitMetaRecord_succeeds [OF rel, of "r2\<lparr>ur_dev := d3\<rparr>" "length img"] en i img by auto
  moreover have "mem_range (od_mem ota (ur_dev r3)) 0 (length img) = img"
    using CommitMetaRecord_ok(3) [OF c(1)] \<open>meta_erased drv d3\<close> i(2) ota_end_law(3) [OF en(1)] rl(3) by simp
  moreover have "img \<noteq> []" using img(2) by auto
  ultimately show ?thesis using e b ri en img(3) c(2,3) by (simp add: RunUpload_def Let_def)
qed

end

subsection \<open>The two tasks\<close>

text \<open>
  The server task runs the handlers, the worker (\<open>RunUploadWorker\<close>) takes a request from the queue and
  processes it; \<open>hs_worker\<close> says where it is: waiting at the queue, inside \<open>ProcessUpload\<close> up to \<open>SetUploadState\<close>, or
  after it, replying with the given result, scheduling the restart and completing the request. Between any two of the steps
  \<open>dequeue\<close>, \<open>process\<close> and \<open>complete\<close> any number of requests may be served; in particular one may claim and queue the next
  upload while the worker is still replying. That \<open>ProcessUploadResult\<close> is one step loses nothing: while it runs the state
  is \<open>UPLOADING\<close>, in which no handler changes what it uses (\<open>HandleUpload_busy\<close>). A new request
  arrives on a connection of its own (\<open>connect\<close>).
\<close>

datatype upload_worker = WORKER_WAITING | WORKER_UPLOADING nat | WORKER_REPLYING upload_result

record ('d, 'n) http_sys =
  hs_run :: "('d, 'n) upload_run"
  hs_queue :: "nat option"
  hs_worker :: upload_worker

inductive http_step :: "'n recv \<Rightarrow> 'd partition_drv \<Rightarrow> 'd ota_drv option \<Rightarrow> ('d, 'n) http_sys \<Rightarrow> ('d, 'n) http_sys \<Rightarrow> bool"
  for recv drv s_ota where
    post: "HandleUpload s_ota begin_result len (ur_shared (hs_run s)) (hs_queue s) = (answer, sh, q) \<Longrightarrow>
      http_step recv drv s_ota s (s\<lparr>hs_run := (hs_run s)\<lparr>ur_shared := sh\<rparr>, hs_queue := q\<rparr>)"
  | connect: "http_step recv drv s_ota s (s\<lparr>hs_run := (hs_run s)\<lparr>ur_net := net\<rparr>\<rparr>)"
  | dequeue: "hs_worker s = WORKER_WAITING \<Longrightarrow> hs_queue s = Some len \<Longrightarrow>
      http_step recv drv s_ota s (s\<lparr>hs_queue := None, hs_worker := WORKER_UPLOADING len\<rparr>)"
  | process: "hs_worker s = WORKER_UPLOADING len \<Longrightarrow> ProcessUploadResult recv drv s_ota len (hs_run s) = (res, r) \<Longrightarrow>
      http_step recv drv s_ota s (s\<lparr>hs_run := r, hs_worker := WORKER_REPLYING res\<rparr>)"
  | complete: "hs_worker s = WORKER_REPLYING res \<Longrightarrow> ProcessUploadReply res = (reply, restart) \<Longrightarrow>
      http_step recv drv s_ota s (s\<lparr>hs_worker := WORKER_WAITING\<rparr>)"

inductive http_reach :: "'n recv \<Rightarrow> 'd partition_drv \<Rightarrow> 'd ota_drv option \<Rightarrow> ('d, 'n) http_sys \<Rightarrow> bool"
  for recv drv s_ota where
    start: "ur_shared r = SetInstalledVersion v initial_shared \<Longrightarrow> length (ur_head r) = 304 \<Longrightarrow>
      http_reach recv drv s_ota \<lparr>hs_run = r, hs_queue = None, hs_worker = WORKER_WAITING\<rparr>"
  | step: "http_reach recv drv s_ota s \<Longrightarrow> http_step recv drv s_ota s s' \<Longrightarrow> http_reach recv drv s_ota s'"

text \<open>An upload that has been claimed and has no result yet, and the invariant of the two tasks.\<close>

definition http_busy :: "('d, 'n) http_sys \<Rightarrow> bool" where
  "http_busy s \<longleftrightarrow> hs_queue s \<noteq> None \<or> (\<exists>len. hs_worker s = WORKER_UPLOADING len)"

definition http_inv :: "('d, 'n) http_sys \<Rightarrow> bool" where
  "http_inv s \<longleftrightarrow> \<not> (hs_queue s \<noteq> None \<and> (\<exists>len. hs_worker s = WORKER_UPLOADING len)) \<and>
     (us_state (ur_shared (hs_run s)) = UPLOAD_STATE_UPLOADING \<longleftrightarrow> http_busy s) \<and>
     (hs_worker s = WORKER_REPLYING UPLOAD_OK \<longrightarrow> us_state (ur_shared (hs_run s)) = UPLOAD_STATE_DONE)"

lemma HandleUpload_busy:
  "us_state sh = UPLOAD_STATE_UPLOADING \<or> us_state sh = UPLOAD_STATE_DONE \<Longrightarrow>
   HandleUpload s_ota b len sh q = ((Some (SendTextClose ''409 Conflict'' ''Upload in progress''), ESP_FAIL), sh, q)"
  by (auto simp: HandleUpload_def ClaimUpload_def Let_def)

lemma HandleUpload_free:
  assumes "us_state sh \<noteq> UPLOAD_STATE_UPLOADING" "us_state sh \<noteq> UPLOAD_STATE_DONE"
    and "HandleUpload s_ota b len sh None = (answer, sh', q')"
  shows "(q' = Some len \<and> answer = (None, ESP_OK) \<and> sh' = sh\<lparr>us_state := UPLOAD_STATE_UPLOADING\<rparr> \<and>
      (\<exists>ota. s_ota = Some ota \<and> 0 < len \<and> len \<le> unat (od_size ota))) \<or>
    (q' = None \<and> sh' = sh\<lparr>us_state := UPLOAD_STATE_ERROR\<rparr> \<and> snd answer = ESP_FAIL)"
  using assms
  by (auto simp: HandleUpload_def ClaimUpload_def SetUploadState_def xQueueSend_def Let_def not_less
      split: option.splits if_splits prod.splits)

lemma ProcessUpload_state:
  "ProcessUpload recv drv s_ota len r = (res, reply, restart, r') \<Longrightarrow>
   us_state (ur_shared r') = (if res = UPLOAD_OK then UPLOAD_STATE_DONE else UPLOAD_STATE_ERROR) \<and>
   restart = (res = UPLOAD_OK) \<and> hr_status reply = fst (s_upload_replies res) \<and> hr_body reply = snd (s_upload_replies res)"
  by (auto simp: ProcessUpload_unfold Let_def SetUploadState_def SendText_def split: prod.splits if_splits)

lemma ProcessUploadResult_whole:
  "ProcessUploadResult recv drv s_ota len r = (res, r') \<Longrightarrow>
   ProcessUpload recv drv s_ota len r = (res, fst (ProcessUploadReply res), res = UPLOAD_OK, r')"
  by (simp add: ProcessUpload_def ProcessUploadReply_def split: prod.splits)

inductive_cases http_stepE: "http_step recv drv s_ota s s'"

lemma http_inv_step:
  assumes "http_step recv drv s_ota s s'" "http_inv s"
  shows "http_inv s'"
  using assms(1)
proof cases
  case (post b len answer sh q)
  show ?thesis
  proof (cases "us_state (ur_shared (hs_run s)) = UPLOAD_STATE_UPLOADING \<or> us_state (ur_shared (hs_run s)) = UPLOAD_STATE_DONE")
    case True
    then show ?thesis using assms(2) post by (simp add: HandleUpload_busy http_inv_def http_busy_def)
  next
    case False
    then have "hs_queue s = None" "\<nexists>len. hs_worker s = WORKER_UPLOADING len" "hs_worker s \<noteq> WORKER_REPLYING UPLOAD_OK"
      using assms(2) by (auto simp: http_inv_def http_busy_def)
    with False post show ?thesis
      using HandleUpload_free [of "ur_shared (hs_run s)" s_ota b len answer sh q]
      by (auto simp: http_inv_def http_busy_def)
  qed
next
  case (process len res r)
  then show ?thesis
    using assms(2) ProcessUpload_state [OF ProcessUploadResult_whole [OF process(3)]] by (auto simp: http_inv_def http_busy_def)
qed (use assms(2) in \<open>auto simp: http_inv_def http_busy_def\<close>)

lemma http_reach_inv: "http_reach recv drv s_ota s \<Longrightarrow> http_inv s"
proof (induction rule: http_reach.induct)
  case (start r v)
  then show ?case by (simp add: http_inv_def http_busy_def SetInstalledVersion_def initial_shared_def)
next
  case (step s s')
  then show ?case by (rule_tac http_inv_step)
qed

lemma ReceiveLoop_head:
  "ReceiveLoop recv ota h n hl rc t r = (res, r') \<Longrightarrow> length (ur_head r) = 304 \<Longrightarrow> hl \<le> 304 \<Longrightarrow> length (ur_head r') = 304"
proof (induction hl rc t r rule: ReceiveLoop_rounds [of n])
  case (1 hl rc t r)
  from 1(2) show ?case
  proof (cases rule: ReceiveLoop_cases)
    case (retry net)
    with 1(1) [of rc "t + 1" hl "r\<lparr>ur_net := net\<rparr>"] 1(3,4) show ?thesis by simp
  next
    case (more w chunk hl' head d net)
    then have "rc < rc + length chunk" by simp
    with more 1(1) [OF more(1) disjI1 more(7)] CollectHead_length [OF 1(3,4) more(5)] show ?thesis by simp
  next
    case (bad_head chunk hl' head net)
    with CollectHead_length [OF 1(3,4) bad_head(2)] show ?thesis by simp
  next
    case (write_failed chunk hl' head err d net)
    with CollectHead_length [OF 1(3,4) write_failed(2)] show ?thesis by simp
  qed (simp_all add: 1)
qed

lemma ProcessUpload_head:
  assumes "ProcessUpload recv drv s_ota n r = (res, reply, restart, r')" "length (ur_head r) = 304"
  shows "length (ur_head r') = 304"
proof -
  have rl: "length (ur_head r2) = 304"
    if "ReceiveImage recv ota h n r1 = (x, r2)" "length (ur_head r1) = 304" for ota h r1 x r2
    using that ReceiveLoop_head unfolding ReceiveImage_def by blast
  have cm: "ur_head r2 = ur_head r1" if "CommitMetaRecord drv ota n r1 = (x, r2)" for ota x r1 r2
    using that by (auto simp: CommitMetaRecord_def Let_def split: prod.splits if_splits sum.splits)
  have ru: "length (ur_head r2) = 304" if "RunUpload recv drv s_ota n r1 = (x, oh, r2)" "length (ur_head r1) = 304" for x oh r1 r2
    using that
    by (auto simp: RunUpload_def Let_def split: prod.splits if_splits option.splits dest!: rl cm)
  show ?thesis
    using assms ru by (auto simp: ProcessUpload_unfold Let_def split: prod.splits if_splits)
qed

lemma ProcessUpload_run:
  assumes "ProcessUpload recv drv s_ota n r = (res, reply, restart, r')"
  obtains oh r1 where "RunUpload recv drv s_ota n
      (r\<lparr>ur_shared := (ur_shared r)\<lparr>us_received_bytes := 0, us_total_bytes := n\<rparr>\<rparr>) = (res, oh, r1)"
    "us_installed_version (ur_shared r') = us_installed_version (ur_shared r1)"
    "ur_dev r' = (if res = UPLOAD_OK then ur_dev r1 else case (s_ota, oh) of
        (Some ota, Some h) \<Rightarrow> snd (od_abort ota h (ur_dev r1)) | _ \<Rightarrow> ur_dev r1)"
    "ur_net r' = ur_net r1"
proof -
  obtain oh r1 where run: "RunUpload recv drv s_ota n
      (r\<lparr>ur_shared := (ur_shared r)\<lparr>us_received_bytes := 0, us_total_bytes := n\<rparr>\<rparr>) = (res, oh, r1)"
    using assms by (auto simp: ProcessUpload_unfold Let_def split: prod.splits if_splits)
  show thesis
    by (rule that [OF run]) (use assms run in \<open>auto simp: ProcessUpload_unfold Let_def SetUploadState_def
        split: prod.splits if_splits\<close>)
qed

context box_flash
begin

lemma ProcessUpload_installs:
  assumes "recv_laws recv" "length (ur_head r) = 304"
    and "ProcessUpload recv drv (Some ota) n r = (UPLOAD_OK, reply, restart, r')"
  shows "image_installed drv ota (ur_dev r') n"
    and "us_installed_version (ur_shared r') = take 8 (mr_version (stored_meta drv (ur_dev r'))) @ [0]"
    and "received recv (ur_net r) (mem_range (od_mem ota (ur_dev r')) 0 n) (ur_net r')"
proof -
  let ?r = "r\<lparr>ur_shared := (ur_shared r)\<lparr>us_received_bytes := 0, us_total_bytes := n\<rparr>\<rparr>"
  obtain oh r1 where run: "RunUpload recv drv (Some ota) n ?r = (UPLOAD_OK, oh, r1)"
    and u: "us_installed_version (ur_shared r') = us_installed_version (ur_shared r1)" "ur_dev r' = ur_dev r1" "ur_net r' = ur_net r1"
    by (rule ProcessUpload_run [OF assms(3)]) simp
  have "length (ur_head ?r) = 304" using assms(2) by simp
  note i = RunUpload_installs [OF assms(1) run this]
  show "image_installed drv ota (ur_dev r') n"
    and "us_installed_version (ur_shared r') = take 8 (mr_version (stored_meta drv (ur_dev r'))) @ [0]"
    and "received recv (ur_net r) (mem_range (od_mem ota (ur_dev r')) 0 n) (ur_net r')"
    using i unfolding u by (simp_all only: upload_run.select_convs upload_run.update_convs) simp
qed

lemma ProcessUpload_rejects:
  assumes "ProcessUpload recv drv (Some ota) n r = (res, reply, restart, r')" "res \<noteq> UPLOAD_OK"
  shows "res = UPLOAD_REJECT_SIZE \<and> ur_dev r' = ur_dev r \<or> res \<noteq> UPLOAD_REJECT_SIZE \<and> meta_erased drv (ur_dev r') \<or>
    res = UPLOAD_REJECT_FLASH \<and> left_by_failed_erase drv (ur_dev r')"
proof -
  obtain oh r1 where run: "RunUpload recv drv (Some ota) n
      (r\<lparr>ur_shared := (ur_shared r)\<lparr>us_received_bytes := 0, us_total_bytes := n\<rparr>\<rparr>) = (res, oh, r1)"
    and d: "ur_dev r' = (case oh of Some h \<Rightarrow> snd (od_abort ota h (ur_dev r1)) | None \<Rightarrow> ur_dev r1)"
    by (rule ProcessUpload_run [OF assms(1)]) (use assms(2) in \<open>auto split: option.splits\<close>)
  have m: "pd_mem drv (ur_dev r') = pd_mem drv (ur_dev r1)"
    using d ota_abort_law by (auto split: option.splits) (metis prod.collapse)
  have "res = UPLOAD_REJECT_SIZE \<and> ur_dev r' = ur_dev r \<or> res \<noteq> UPLOAD_REJECT_SIZE \<and> meta_erased drv (ur_dev r1) \<or>
      res = UPLOAD_REJECT_FLASH \<and> (\<exists>d e. EraseFwMetaRecord drv d = (e, ur_dev r1) \<and> e \<noteq> ESP_OK)"
    using RunUpload_rejects [OF run assms(2)] d by (cases "res = UPLOAD_REJECT_SIZE"; cases "res = UPLOAD_REJECT_FLASH") auto
  then show ?thesis using m stored_cong(4) [OF m] unfolding left_by_failed_erase_def by metis
qed

end

lemma http_done_installed:
  assumes "recv_laws recv" "box_flash drv ota" "http_reach recv drv (Some ota) s"
  shows "length (ur_head (hs_run s)) = 304 \<and>
    (us_state (ur_shared (hs_run s)) = UPLOAD_STATE_DONE \<longrightarrow> (\<exists>n. image_installed drv ota (ur_dev (hs_run s)) n))"
  using assms(3)
proof (induction rule: http_reach.induct)
  case (start r v)
  then show ?case by (simp add: SetInstalledVersion_def initial_shared_def)
next
  case (step s s')
  note inv = http_reach_inv [OF step(1)]
  from step(2) show ?case
  proof cases
    case (post b len answer sh q)
    show ?thesis
    proof (cases "us_state (ur_shared (hs_run s)) = UPLOAD_STATE_UPLOADING \<or> us_state (ur_shared (hs_run s)) = UPLOAD_STATE_DONE")
      case True
      then show ?thesis using step(3) post by (simp add: HandleUpload_busy)
    next
      case False
      then have "hs_queue s = None" using inv by (auto simp: http_inv_def http_busy_def)
      with False post show ?thesis
        using HandleUpload_free [of "ur_shared (hs_run s)" "Some ota" b len answer sh q] step(3) by auto
    qed
  next
    case (process len res r)
    note p = ProcessUploadResult_whole [OF process(3)]
    show ?thesis
      using process step(3) ProcessUpload_head [OF p] ProcessUpload_state [OF p] p
        box_flash.ProcessUpload_installs(1) [OF assms(2,1), of "hs_run s" len _ _ r]
      by (cases "res = UPLOAD_OK") auto
  qed (use step(3) in auto)
qed

lemma http_done_stays:
  assumes "http_reach recv drv s_ota s"
  shows "us_state (ur_shared (hs_run s)) = UPLOAD_STATE_DONE \<longrightarrow>
    (\<forall>s'. http_step recv drv s_ota s s' \<longrightarrow> us_state (ur_shared (hs_run s')) = UPLOAD_STATE_DONE)"
proof (intro impI allI)
  fix s' assume done_: "us_state (ur_shared (hs_run s)) = UPLOAD_STATE_DONE" and "http_step recv drv s_ota s s'"
  from this(2) show "us_state (ur_shared (hs_run s')) = UPLOAD_STATE_DONE"
  proof cases
    case (post b len answer sh q)
    with done_ show ?thesis by (simp add: HandleUpload_busy)
  next
    case (process len res r)
    with done_ http_reach_inv [OF assms] show ?thesis by (auto simp: http_inv_def http_busy_def)
  qed (use done_ in simp_all)
qed

text \<open>An upload on a device whose flash calls succeed.\<close>

lemma ProcessUpload_reliable:
  assumes "box_laws drv ota" and "reliable_box drv ota ok" and "recv_laws recv" and "delivers recv served"
    and "CheckFwEmbeddedMeta img 304 = FW_META_CHECK_OK" and "304 \<le> length img" and "length img \<le> unat (od_size ota)"
    and "ok (ur_dev r)" and "served 0 img (ur_net r)" and "length (ur_head r) = 304"
  obtains reply r' where "ProcessUpload recv drv (Some ota) (length img) r = (UPLOAD_OK, reply, True, r')"
    "mem_range (od_mem ota (ur_dev r')) 0 (length img) = img" "ok (ur_dev r')" "cr_crash_count (effective_ctrl drv (ur_dev r')) = 0"
proof -
  obtain oh r1 where "RunUpload recv drv (Some ota) (length img)
      (r\<lparr>ur_shared := (ur_shared r)\<lparr>us_received_bytes := 0, us_total_bytes := length img\<rparr>\<rparr>) = (UPLOAD_OK, oh, r1)"
    "mem_range (od_mem ota (ur_dev r1)) 0 (length img) = img" "ok (ur_dev r1)"
    "cr_crash_count (effective_ctrl drv (ur_dev r1)) = 0"
    using box_flash.RunUpload_succeeds [OF assms(1) [unfolded box_laws_iff] assms(2,4,3,5-7), of
      "r\<lparr>ur_shared := (ur_shared r)\<lparr>us_received_bytes := 0, us_total_bytes := length img\<rparr>\<rparr>"] assms(8-10)
    by auto
  then show thesis using that by (simp add: ProcessUpload_unfold Let_def)
qed

subsection \<open>Properties\<close>

definition example_run :: "byte list \<Rightarrow> (box_dev, byte list) upload_run" where
  "example_run body = \<lparr>ur_shared = SetInstalledVersion None initial_shared, ur_head = replicate 304 0,
     ur_dev = \<lparr>nd_mem = (\<lambda>_. 0), nd_script = [], bx_mem = (\<lambda>_. 0), bx_written = []\<rparr>, ur_net = body\<rparr>"

lemma stream_delivers: "delivers stream_recv (\<lambda>t rest net. net = rest)"
proof -
  have "stream_recv w bs = (RECV_BYTES (take (min w (length bs)) bs), drop (min w (length bs)) bs)"
    if "bs \<noteq> []" "0 < w" for w bs
    using that by (cases "w \<le> length bs") (auto simp: stream_recv_def min_def)
  then show ?thesis unfolding delivers_def
    by (intro allI impI disjI1) (metis length_greater_0_conv min.cobounded1 min.cobounded2 min_less_iff_conj)
qed

lemma ProcessUpload_of_run:
  assumes "RunUpload recv drv s_ota n
      (r\<lparr>ur_shared := (ur_shared r)\<lparr>us_received_bytes := 0, us_total_bytes := n\<rparr>\<rparr>) = (UPLOAD_OK, oh, r1)"
  shows "\<exists>reply r'. ProcessUpload recv drv s_ota n r = (UPLOAD_OK, reply, True, r') \<and> ur_dev r' = ur_dev r1"
  using assms by (simp add: ProcessUpload_unfold Let_def)

lemma example_upload:
  obtains reply r' where "ProcessUpload stream_recv nor_drv (Some (box_ota 4096)) 304 (example_run example_head) =
    (UPLOAD_OK, reply, True, r')"
proof -
  let ?r = "(example_run example_head)\<lparr>ur_shared := (ur_shared (example_run example_head))\<lparr>us_received_bytes := 0,
    us_total_bytes := 304\<rparr>\<rparr>"
  have "\<exists>oh r1. RunUpload stream_recv nor_drv (Some (box_ota 4096)) (length example_head) ?r = (UPLOAD_OK, oh, r1) \<and>
    mem_range (od_mem (box_ota 4096) (ur_dev r1)) 0 (length example_head) = example_head \<and>
    nd_script (ur_dev r1) = [] \<and> cr_crash_count (effective_ctrl nor_drv (ur_dev r1)) = 0"
    by (rule box.RunUpload_succeeds [OF box_reliable stream_delivers stream_recv_laws example_head_ok])
       (simp_all add: example_run_def box_ota_def)
  then show thesis using that ProcessUpload_of_run [of stream_recv nor_drv "Some (box_ota 4096)" 304] by force
qed

lemma example_interrupted:
  obtains reply restart r' where "ProcessUpload stream_recv nor_drv (Some (box_ota 4096)) 304 (example_run []) =
    (UPLOAD_REJECT_INTERRUPTED, reply, restart, r')"
proof -
  have "fst (ProcessUpload stream_recv nor_drv (Some (box_ota 4096)) 304 (example_run [])) = UPLOAD_REJECT_INTERRUPTED"
    by (simp add: ProcessUpload_unfold RunUpload_def example_run_def EraseFwMetaRecord_def nor_drv_def nor_erase_def
        nor_next_quiet ReceiveImage_def ReceiveLoop.simps stream_recv_def box_ota_def split: prod.splits)
  then show thesis using that by (metis prod.collapse)
qed

text \<open>
  C2: an upload that reports success has installed exactly the bytes received. Whatever the
  connection and the flash did, after the reply 200 the \<open>n\<close> bytes that the calls of \<open>httpd_req_recv\<close> delivered, in their
  order, are the first \<open>n\<close> bytes of ota_0; that image passes the head check and fits the partition; the record in sector 0
  is valid and is the record of that image: its embedded version, its size and its digest; the restart is scheduled, the
  state is done, and the version shown is the record's.
\<close>

theorem ProcessUpload_ok_installed:
  assumes "box_laws drv ota" and "recv_laws recv" and "length (ur_head r) = 304"
    and "ProcessUpload recv drv (Some ota) n r = (UPLOAD_OK, reply, restart, r')"
  shows "\<exists>image. received recv (ur_net r) image (ur_net r') \<and> length image = n \<and> mem_range (od_mem ota (ur_dev r')) 0 n = image \<and>
    304 \<le> n \<and> n \<le> unat (od_size ota) \<and> CheckFwEmbeddedMeta image 304 = FW_META_CHECK_OK \<and>
    stored_meta drv (ur_dev r') = BuildFwMetaRecord (drop 292 image) (of_nat n) (od_digest ota (od_mem ota (ur_dev r'))) \<and>
    IsFwMetaRecordValid (stored_meta drv (ur_dev r')) (od_size ota) \<and>
    restart \<and> hr_status reply = ''200 OK'' \<and> us_state (ur_shared r') = UPLOAD_STATE_DONE \<and>
    us_installed_version (ur_shared r') = take 8 (mr_version (stored_meta drv (ur_dev r'))) @ [0]"
proof -
  note i = box_flash.ProcessUpload_installs [OF assms(1) [unfolded box_laws_iff] assms(2-4)]
  have "length (mem_range (od_mem ota (ur_dev r')) 0 n) = n" by simp
  then show ?thesis using i(1) [unfolded image_installed_def Let_def] i(2,3) ProcessUpload_state [OF assms(4)] by auto
qed

theorem ProcessUpload_ok_installed_witness:
  "\<exists>reply r'. ProcessUpload stream_recv nor_drv (Some (box_ota 4096)) 304 (example_run example_head) =
     (UPLOAD_OK, reply, True, r') \<and> received stream_recv example_head (mem_range (bx_mem (ur_dev r')) 0 304) (ur_net r')"
proof -
  obtain reply r' where u: "ProcessUpload stream_recv nor_drv (Some (box_ota 4096)) 304 (example_run example_head) =
    (UPLOAD_OK, reply, True, r')" by (rule example_upload)
  have h: "length (ur_head (example_run example_head)) = 304" by (simp add: example_run_def)
  from ProcessUpload_ok_installed [OF box_box_laws stream_recv_laws h u]
  have "received stream_recv (ur_net (example_run example_head)) (mem_range (bx_mem (ur_dev r')) 0 304) (ur_net r')" by auto
  then show ?thesis using u by (auto simp: example_run_def)
qed



text \<open>
  C4: a valid image that arrives is installed. If the connection delivers the whole body (in pieces of any
  size, with up to five receive timeouts in a row), the image passes the head check and fits, and the flash calls
  succeed, then the upload ends with success and ota_0 starts with exactly the bytes sent. In
  particular the receive loop ends, and the crash count is cleared.
\<close>

theorem ProcessUpload_succeeds:
  assumes "box_laws drv ota" and "reliable_box drv ota ok" and "recv_laws recv" and "delivers recv served"
    and "CheckFwEmbeddedMeta img 304 = FW_META_CHECK_OK" and "304 \<le> length img" and "length img \<le> unat (od_size ota)"
    and "ok (ur_dev r)" and "served 0 img (ur_net r)" and "length (ur_head r) = 304"
  shows "\<exists>reply r'. ProcessUpload recv drv (Some ota) (length img) r = (UPLOAD_OK, reply, True, r') \<and>
    mem_range (od_mem ota (ur_dev r')) 0 (length img) = img \<and> ok (ur_dev r') \<and>
    cr_crash_count (effective_ctrl drv (ur_dev r')) = 0"
  by (rule ProcessUpload_reliable [OF assms]) blast

theorem ProcessUpload_succeeds_witness:
  "\<exists>reply r'. ProcessUpload stream_recv nor_drv (Some (box_ota 4096)) (length example_head) (example_run example_head) =
     (UPLOAD_OK, reply, True, r') \<and> mem_range (bx_mem (ur_dev r')) 0 304 = example_head"
proof -
  have len: "304 \<le> length example_head" "length example_head \<le> unat (od_size (box_ota 4096))" by simp_all
  have run: "nd_script (ur_dev (example_run example_head)) = []" "ur_net (example_run example_head) = example_head"
    "length (ur_head (example_run example_head)) = 304" by (simp_all add: example_run_def)
  from ProcessUpload_succeeds [OF box_box_laws box_reliable stream_recv_laws stream_delivers example_head_ok
      len run] show ?thesis by auto
qed

text \<open>
  C18: at most one upload at a time, and none once one is done. In every reachable state of server task and worker at most one
  upload is claimed and without a result: it is either queued or being run by the worker up to its result, never both, and the
  state is uploading exactly then. Meanwhile another POST is answered 409 and changes nothing. The claim ends when the worker
  sets the result: after a failed upload the next one may be claimed and queued while the worker is still sending the reply, and
  the hand-off cannot fail even then (the source says "Not reachable"), because the queue is empty whenever nothing is claimed.
  After a successful upload, from the moment its result is set, the state stays done and every POST is answered 409.
\<close>

theorem http_single_upload:
  assumes "http_reach recv drv s_ota s"
  shows "\<not> (hs_queue s \<noteq> None \<and> (\<exists>n. hs_worker s = WORKER_UPLOADING n)) \<and>
    (us_state (ur_shared (hs_run s)) = UPLOAD_STATE_UPLOADING) = http_busy s \<and>
    (let (answer, sh, q) = HandleUpload s_ota begin_result len (ur_shared (hs_run s)) (hs_queue s) in
      if http_busy s \<or> us_state (ur_shared (hs_run s)) = UPLOAD_STATE_DONE
      then answer = (Some (SendTextClose ''409 Conflict'' ''Upload in progress''), ESP_FAIL) \<and>
        sh = ur_shared (hs_run s) \<and> q = hs_queue s
      else (answer = (None, ESP_OK) \<and> q = Some len) \<or>
        (snd answer = ESP_FAIL \<and> q = None \<and> us_state sh = UPLOAD_STATE_ERROR)) \<and>
    (hs_worker s = WORKER_REPLYING UPLOAD_OK \<longrightarrow> us_state (ur_shared (hs_run s)) = UPLOAD_STATE_DONE) \<and>
    (us_state (ur_shared (hs_run s)) = UPLOAD_STATE_DONE \<longrightarrow>
      (\<forall>s'. http_step recv drv s_ota s s' \<longrightarrow> us_state (ur_shared (hs_run s')) = UPLOAD_STATE_DONE))"
proof -
  note inv = http_reach_inv [OF assms]
  obtain answer sh q where h: "HandleUpload s_ota begin_result len (ur_shared (hs_run s)) (hs_queue s) = (answer, sh, q)"
    by (metis prod.exhaust)
  have "let (answer, sh, q) = HandleUpload s_ota begin_result len (ur_shared (hs_run s)) (hs_queue s) in
      if http_busy s \<or> us_state (ur_shared (hs_run s)) = UPLOAD_STATE_DONE
      then answer = (Some (SendTextClose ''409 Conflict'' ''Upload in progress''), ESP_FAIL) \<and>
        sh = ur_shared (hs_run s) \<and> q = hs_queue s
      else (answer = (None, ESP_OK) \<and> q = Some len) \<or>
        (snd answer = ESP_FAIL \<and> q = None \<and> us_state sh = UPLOAD_STATE_ERROR)"
  proof (cases "us_state (ur_shared (hs_run s)) = UPLOAD_STATE_UPLOADING \<or> us_state (ur_shared (hs_run s)) = UPLOAD_STATE_DONE")
    case True
    then have "answer = (Some (SendTextClose ''409 Conflict'' ''Upload in progress''), ESP_FAIL) \<and>
        sh = ur_shared (hs_run s) \<and> q = hs_queue s"
      using h HandleUpload_busy [of "ur_shared (hs_run s)" s_ota begin_result len "hs_queue s"] by simp
    with True show ?thesis using inv h by (auto simp: http_inv_def)
  next
    case False
    then have "hs_queue s = None" "\<not> http_busy s" using inv by (auto simp: http_inv_def http_busy_def)
    with False inv h show ?thesis
      using HandleUpload_free [of "ur_shared (hs_run s)" s_ota begin_result len answer sh q]
      by (auto simp: http_inv_def)
  qed
  then show ?thesis using inv http_done_stays [OF assms] unfolding http_inv_def by blast
qed

text \<open>
  The example upload as a run of the two tasks: posted, taken from the queue, processed; and the next upload queued
  while the worker is still replying to one that failed.
\<close>

definition example_claimed :: "byte list \<Rightarrow> (box_dev, byte list) upload_run" where
  "example_claimed b = (example_run b)\<lparr>ur_shared := (ur_shared (example_run b))\<lparr>us_state := UPLOAD_STATE_UPLOADING\<rparr>\<rparr>"

lemma example_queued:
  "http_reach stream_recv nor_drv (Some (box_ota 4096)) \<lparr>hs_run = example_claimed b, hs_queue = Some 304, hs_worker = WORKER_WAITING\<rparr>"
proof -
  have 0: "http_reach stream_recv nor_drv (Some (box_ota 4096)) \<lparr>hs_run = example_run b, hs_queue = None, hs_worker = WORKER_WAITING\<rparr>"
    by (rule http_reach.start) (simp_all add: example_run_def)
  have "HandleUpload (Some (box_ota 4096)) ESP_OK 304 (ur_shared (example_run b)) None =
      ((None, ESP_OK), (ur_shared (example_run b))\<lparr>us_state := UPLOAD_STATE_UPLOADING\<rparr>, Some 304)"
    by (simp add: HandleUpload_def ClaimUpload_def example_run_def initial_shared_def SetInstalledVersion_def
        xQueueSend_def box_ota_def)
  from http_reach.step [OF 0 http_step.post, simplified, OF this] show ?thesis by (simp add: example_claimed_def)
qed

lemma example_processed:
  assumes "ProcessUploadResult stream_recv nor_drv (Some (box_ota 4096)) 304 (example_claimed b) = (res, r)"
  shows "http_reach stream_recv nor_drv (Some (box_ota 4096)) \<lparr>hs_run = r, hs_queue = None, hs_worker = WORKER_REPLYING res\<rparr>"
proof -
  have "http_reach stream_recv nor_drv (Some (box_ota 4096)) \<lparr>hs_run = example_claimed b, hs_queue = None, hs_worker = WORKER_UPLOADING 304\<rparr>"
    using http_reach.step [OF example_queued http_step.dequeue, simplified] by simp
  from http_reach.step [OF this http_step.process, simplified, OF HOL.refl assms] show ?thesis by simp
qed

lemma example_done:
  obtains s where "http_reach stream_recv nor_drv (Some (box_ota 4096)) s"
    "us_state (ur_shared (hs_run s)) = UPLOAD_STATE_DONE"
proof -
  let ?r = "example_claimed example_head"
  have "\<exists>oh r1. RunUpload stream_recv nor_drv (Some (box_ota 4096)) (length example_head)
      (?r\<lparr>ur_shared := (ur_shared ?r)\<lparr>us_received_bytes := 0, us_total_bytes := 304\<rparr>\<rparr>) = (UPLOAD_OK, oh, r1) \<and>
    mem_range (od_mem (box_ota 4096) (ur_dev r1)) 0 (length example_head) = example_head \<and>
    nd_script (ur_dev r1) = [] \<and> cr_crash_count (effective_ctrl nor_drv (ur_dev r1)) = 0"
    by (rule box.RunUpload_succeeds [OF box_reliable stream_delivers stream_recv_laws example_head_ok])
       (simp_all add: example_claimed_def example_run_def box_ota_def)
  then obtain r1 where "ProcessUploadResult stream_recv nor_drv (Some (box_ota 4096)) 304 ?r =
      (UPLOAD_OK, r1\<lparr>ur_shared := SetUploadState UPLOAD_STATE_DONE (ur_shared r1)\<rparr>)"
    by (auto simp: ProcessUploadResult_def)
  from that [OF example_processed [OF this]] show thesis by (simp add: SetUploadState_def)
qed

lemma example_queued_while_replying:
  obtains r where "http_reach stream_recv nor_drv (Some (box_ota 4096))
    \<lparr>hs_run = r, hs_queue = Some 304, hs_worker = WORKER_REPLYING UPLOAD_REJECT_INTERRUPTED\<rparr>"
proof -
  have "fst (ProcessUploadResult stream_recv nor_drv (Some (box_ota 4096)) 304 (example_claimed [])) = UPLOAD_REJECT_INTERRUPTED"
    by (simp add: ProcessUploadResult_def RunUpload_def example_claimed_def example_run_def EraseFwMetaRecord_def nor_drv_def nor_erase_def
        nor_next_quiet ReceiveImage_def ReceiveLoop.simps stream_recv_def box_ota_def split: prod.splits)
  then obtain r where p: "ProcessUploadResult stream_recv nor_drv (Some (box_ota 4096)) 304 (example_claimed []) = (UPLOAD_REJECT_INTERRUPTED, r)"
    by (metis prod.collapse)
  have "us_state (ur_shared r) = UPLOAD_STATE_ERROR" using ProcessUpload_state [OF ProcessUploadResult_whole [OF p]] by simp
  then have "HandleUpload (Some (box_ota 4096)) ESP_OK 304 (ur_shared r) None =
      ((None, ESP_OK), (ur_shared r)\<lparr>us_state := UPLOAD_STATE_UPLOADING\<rparr>, Some 304)"
    by (simp add: HandleUpload_def ClaimUpload_def xQueueSend_def box_ota_def)
  from that http_reach.step [OF example_processed [OF p] http_step.post, simplified, OF this] show thesis by blast
qed

theorem http_single_upload_witness:
  "\<exists>s. http_reach stream_recv nor_drv (Some (box_ota 4096)) s \<and> hs_worker s = WORKER_REPLYING UPLOAD_REJECT_INTERRUPTED \<and>
     http_busy s \<and> fst (HandleUpload (Some (box_ota 4096)) ESP_OK 100 (ur_shared (hs_run s)) (hs_queue s)) =
       (Some (SendTextClose ''409 Conflict'' ''Upload in progress''), ESP_FAIL)"
proof -
  obtain r where r: "http_reach stream_recv nor_drv (Some (box_ota 4096))
    \<lparr>hs_run = r, hs_queue = Some 304, hs_worker = WORKER_REPLYING UPLOAD_REJECT_INTERRUPTED\<rparr>"
    by (rule example_queued_while_replying)
  show ?thesis by (intro exI conjI, rule r)
    (use http_single_upload [OF r, where begin_result = ESP_OK and len = 100] in \<open>auto simp: http_busy_def split: prod.splits\<close>)
qed

text \<open>
  The state "done" is only reported with an installed image: in every reachable state of
  the two tasks in which it holds, ota_0 holds an accepted image that the stored record describes.
\<close>

theorem http_done_means_installed:
  assumes "box_laws drv ota" and "recv_laws recv" and "http_reach recv drv (Some ota) s"
    and "us_state (ur_shared (hs_run s)) = UPLOAD_STATE_DONE"
  shows "\<exists>n. image_installed drv ota (ur_dev (hs_run s)) n"
  using http_done_installed [OF assms(2) assms(1) [unfolded box_laws_iff] assms(3)] assms(4) by blast

theorem http_done_means_installed_witness:
  "\<exists>s n. http_reach stream_recv nor_drv (Some (box_ota 4096)) s \<and> us_state (ur_shared (hs_run s)) = UPLOAD_STATE_DONE \<and>
     image_installed nor_drv (box_ota 4096) (ur_dev (hs_run s)) n"
proof -
  obtain s where s: "http_reach stream_recv nor_drv (Some (box_ota 4096)) s"
    "us_state (ur_shared (hs_run s)) = UPLOAD_STATE_DONE" by (rule example_done)
  from http_done_means_installed [OF box_box_laws stream_recv_laws s] s show ?thesis by blast
qed

text \<open>
  The status reply is complete. For counts that fit 32 bits the status text is shorter than the
  buffer it is printed into, so it is never truncated, whatever the state and version are.
\<close>

theorem HandleStatus_complete:
  assumes "us_received_bytes sh < 2 ^ 32" and "us_total_bytes sh < 2 ^ 32"
  shows "hr_body (HandleStatus sh) = status_text sh \<and> length (status_text sh) < 96"
proof -
  have "length (s_upload_state_names (us_state sh)) \<le> 9" by (cases "us_state sh") simp_all
  moreover have "length (CopyInstalledVersion 9 sh) \<le> 8"
    by (simp add: CopyInstalledVersion_def snprintf_def)
  ultimately have "length (status_text sh) < 96"
    using length_dec_u32 [OF assms(1)] length_dec_u32 [OF assms(2)] by (simp add: status_text_def)
  then show ?thesis by (simp add: HandleStatus_def SendText_def snprintf_fits)
qed

theorem HandleStatus_complete_witness:
  "length (hr_body (HandleStatus (initial_shared\<lparr>us_total_bytes := 1000\<rparr>))) < 96"
  using HandleStatus_complete [of "initial_shared\<lparr>us_total_bytes := 1000\<rparr>"] by (simp add: initial_shared_def)

text \<open>
  The page fits its budget: whatever the reason and the installed version, what GET / sends is at most
  \<open>GetUpdaterPageMaxBytes\<close> long, which is within the 3,072 bytes of \<open>UPDATER_PAGE_MAX_BYTES\<close>.
\<close>

theorem HandlePage_size:
  "length (hr_body (fst (HandlePage reason sent sh))) \<le> GetUpdaterPageMaxBytes \<and> GetUpdaterPageMaxBytes \<le> 3072"
proof -
  have part: "length (concat (fst (SendPageParts parts sent))) \<le> length (concat parts)" for parts sent
  proof (induction parts arbitrary: sent)
    case (Cons p ps)
    then show ?case using Cons [of "tl sent"] by (cases "SendPageParts ps (tl sent)") auto
  qed simp
  have "length (CopyInstalledVersion 9 sh) \<le> 8"
    by (simp add: CopyInstalledVersion_def snprintf_def)
  then have "length (concat [g_updater_page_head, CopyInstalledVersion 9 sh, g_updater_page_middle,
      GetUpdaterReasonText reason, g_updater_page_tail]) \<le> GetUpdaterPageMaxBytes"
    using reason_text_le [of reason] by (simp add: GetUpdaterPageMaxBytes_def)
  note le_trans [OF part this]
  then show ?thesis
    by (simp add: HandlePage_def Let_def page_max case_prod_unfold del: concat.simps SendPageParts.simps)
qed

end
