(* ===== verification/UpdaterAp.thy ===== *)
theory UpdaterAp
  imports Prelude
begin

section \<open>The updater's access point\<close>

text \<open>
  Model of updater/main/updater_ap.c: the SoftAP address, lease range and configuration. The
  answers of the ESP-IDF calls are the fields of \<open>env\<close>; the configuration the code passes to them
  is what the functions return.
\<close>

record ap_env =
  ae_netif_init :: esp_err
  ae_event_loop :: esp_err
  ae_netif :: bool
  ae_dhcps_stop :: esp_err
  ae_set_ip_info :: esp_err
  ae_dhcps_option :: esp_err
  ae_dhcps_start :: esp_err
  ae_wifi_init :: esp_err
  ae_set_storage :: esp_err
  ae_set_mode :: esp_err
  ae_set_config :: esp_err
  ae_start :: esp_err

type_synonym ip4 = "nat \<times> nat \<times> nat \<times> nat"

record ap_address =
  aa_ip :: ip4
  aa_gw :: ip4
  aa_netmask :: ip4
  aa_start_ip :: ip4
  aa_end_ip :: ip4

record updater_ap_config =
  uc_channel :: nat
  uc_max_connection :: nat
  uc_open :: bool
  uc_ssid :: string
  uc_ssid_len :: nat

abbreviation (input) AP_LEASE_COUNT :: nat where "AP_LEASE_COUNT \<equiv> 10"
abbreviation (input) UPDATER_AP_CHANNEL :: nat where "UPDATER_AP_CHANNEL \<equiv> 1"
abbreviation (input) UPDATER_AP_MAX_CLIENTS :: nat where "UPDATER_AP_MAX_CLIENTS \<equiv> 2"
abbreviation (input) AP_SSID_FIELD :: nat where "AP_SSID_FIELD \<equiv> 32"

definition updater_ap_address :: ap_address where
  "updater_ap_address = \<lparr>aa_ip = (192, 168, 0, 1), aa_gw = (192, 168, 0, 1), aa_netmask = (255, 255, 255, 0),
     aa_start_ip = (192, 168, 0, 2), aa_end_ip = (192, 168, 0, 2 + AP_LEASE_COUNT - 1)\<rparr>"

definition ConfigureApAddress :: "ap_env \<Rightarrow> ap_address option" where
  "ConfigureApAddress env =
     (if ae_dhcps_stop env \<noteq> ESP_OK \<and> ae_dhcps_stop env \<noteq> ESP_ERR_ESP_NETIF_DHCP_ALREADY_STOPPED then None
      else if ae_set_ip_info env = ESP_OK \<and> ae_dhcps_option env = ESP_OK \<and> ae_dhcps_start env = ESP_OK
      then Some updater_ap_address else None)"

definition updater_ap_ssid :: "byte list \<Rightarrow> string" where
  "updater_ap_ssid mac = ''RGB-LED-Updater-'' @ hex2 (mac ! 4) @ hex2 (mac ! 5)"

definition StartUpdaterAp :: "ap_env \<Rightarrow> byte list \<Rightarrow> (ap_address \<times> updater_ap_config) option" where
  "StartUpdaterAp env mac =
     (if ae_netif_init env \<noteq> ESP_OK \<or> ae_event_loop env \<noteq> ESP_OK then None
      else case (if ae_netif env then ConfigureApAddress env else None) of
        None \<Rightarrow> None
      | Some address \<Rightarrow>
          if ae_wifi_init env \<noteq> ESP_OK \<or> ae_set_storage env \<noteq> ESP_OK then None
          else let config = \<lparr>uc_channel = UPDATER_AP_CHANNEL, uc_max_connection = UPDATER_AP_MAX_CLIENTS,
                     uc_open = True, uc_ssid = snprintf AP_SSID_FIELD (updater_ap_ssid mac),
                     uc_ssid_len = length (updater_ap_ssid mac)\<rparr>
               in if ae_set_mode env \<noteq> ESP_OK \<or> ae_set_config env \<noteq> ESP_OK \<or> ae_start env \<noteq> ESP_OK then None
                  else Some (address, config))"

text \<open>
  The length \<open>snprintf\<close> returns is that of the untruncated text; the name fits, so the
  length field is the length of the stored name.
\<close>

lemma StartUpdaterAp_ssid:
  "StartUpdaterAp env mac = Some (address, config) \<Longrightarrow>
   uc_ssid config = updater_ap_ssid mac \<and> uc_ssid_len config = length (uc_ssid config) \<and> uc_ssid_len config = 20"
  by (auto simp: StartUpdaterAp_def Let_def snprintf_def updater_ap_ssid_def split: if_splits option.splits)

end
