(* ===== verification/UpdaterMain.thy ===== *)
theory UpdaterMain
  imports UpdaterHttp UpdaterAp
begin

section \<open>The updater's start\<close>

text \<open>
  Model of updater/main/updater_main.c: what the updater does at every reset. \<open>main_env\<close> holds the
  answers of the ESP-IDF calls that do not touch the flash: the reset reason, what the
  bootloader's RTC retain memory holds after it was updated, and the results of arming the wakeup,
  of the access point and of the HTTP server. A start ends in the deep sleep that
  jumps to the firmware, with the stored boot partition, or in updater mode.
\<close>

record main_env =
  me_reset_reason :: reset_reason
  me_retained :: "u32 \<times> u32 \<Rightarrow> (u32 \<times> u32) option"
  me_enable_wakeup :: esp_err
  me_ap :: ap_env
  me_mac :: "byte list"
  me_http :: http_env

datatype start_outcome =
    JumpedToFirmware "u32 \<times> u32"
  | UpdaterMode updater_reason "byte list option" bool

subsection \<open>Operations\<close>

definition IsOtaMatchingRecord :: "'d ota_drv \<Rightarrow> fw_meta_record \<Rightarrow> 'd \<Rightarrow> bool \<times> 'd" where
  "IsOtaMatchingRecord ota record d =
     (let ((err, head), d) = od_read ota 0 FW_IMAGE_HEAD_LEN d in
      if err \<noteq> ESP_OK \<or> head ! 0 \<noteq> FW_IMAGE_MAGIC then (False, d)
      else let embedded = embedded_of_bytes (take 16 (drop FW_EMBEDDED_META_OFFSET head)) in
      if em_magic embedded \<noteq> mr_magic record \<or> em_version embedded \<noteq> mr_version record then (False, d)
      else let ((err, sha256), d) = ComputeFwImageSha256 ota d in
      (err = ESP_OK \<and> sha256 = mr_image_sha256 record, d))"

definition SaveCrashCount :: "'d partition_drv \<Rightarrow> fw_ctrl_record \<Rightarrow> byte \<Rightarrow> 'd \<Rightarrow> 'd" where
  "SaveCrashCount drv stored crash_count d =
     (if crash_count = cr_crash_count stored then d
      else snd (WriteFwCtrlRecord drv (BuildFwCtrlRecord crash_count (cr_boot_attempts stored)) d))"

text \<open>The result is the record with its flag cleared, which the caller keeps, and whether all went well.\<close>

definition ClearForceFlag :: "'d partition_drv \<Rightarrow> fw_meta_record \<Rightarrow> 'd \<Rightarrow> (esp_err \<times> fw_meta_record) \<times> 'd" where
  "ClearForceFlag drv record d =
     (let record = record\<lparr>mr_force_bootloader := FW_FORCE_BOOTLOADER_CLEAR\<rparr>;
          (err, d) = EraseFwMetaRecord drv d;
          (err, d) = (if err = ESP_OK then WriteFwMetaRecord drv record d else (err, d));
          ((err, read_back), d) = (if err = ESP_OK then ReadFwMetaRecord drv d else ((err, zero_meta), d));
          err = (if err = ESP_OK \<and> meta_bytes record \<noteq> meta_bytes read_back then ESP_ERR_INVALID_CRC else err)
      in ((err, record), d))"

definition JumpToFirmware :: "main_env \<Rightarrow> 'd ota_drv \<Rightarrow> (u32 \<times> u32) option" where
  "JumpToFirmware env ota =
     (let boot_partition = (od_address ota, od_size ota);
          stored = me_retained env boot_partition
      in if stored = None \<or> fst (the stored) \<noteq> fst boot_partition \<or> snd (the stored) \<noteq> snd boot_partition then None
         else if me_enable_wakeup env \<noteq> ESP_OK then None
         else Some boot_partition)"

fun GetUpdaterReason :: "fw_boot_mode \<Rightarrow> updater_reason" where
  "GetUpdaterReason FW_BOOT_UPDATER_REQUESTED = UPDATER_REASON_REQUESTED"
| "GetUpdaterReason FW_BOOT_UPDATER_CRASH_LOOP = UPDATER_REASON_CRASH_LOOP"
| "GetUpdaterReason FW_BOOT_UPDATER_BOOT_SELECT_FAILED = UPDATER_REASON_BOOT_SELECT_FAILED"
| "GetUpdaterReason _ = UPDATER_REASON_NO_FIRMWARE"

text \<open>Whether updater mode is running: the access point and then the HTTP server.\<close>

definition StartUpdaterMode :: "main_env \<Rightarrow> byte list option \<Rightarrow> bool" where
  "StartUpdaterMode env installed_version =
     (StartUpdaterAp (me_ap env) (me_mac env) \<noteq> None \<and>
      fst (StartUpdaterHttp (me_http env) installed_version initial_shared))"

definition boot_inputs :: "main_env \<Rightarrow> 'd ota_drv option \<Rightarrow> fw_meta_record \<Rightarrow> fw_ctrl_record \<Rightarrow> 'd \<Rightarrow>
    fw_boot_inputs \<times> 'd" where
  "boot_inputs env ota record ctrl d =
     (let is_record_valid = (case ota of None \<Rightarrow> False | Some ota \<Rightarrow> IsFwMetaRecordValid record (od_size ota));
          (is_ota_match, d) = (case ota of None \<Rightarrow> (False, d)
             | Some ota \<Rightarrow> if is_record_valid then IsOtaMatchingRecord ota record d else (False, d))
      in (\<lparr>bi_is_force_requested = IsFwForceRequested record, bi_is_record_valid = is_record_valid,
           bi_is_ota_match = is_ota_match, bi_crash_count = cr_crash_count ctrl,
           bi_boot_attempts = cr_boot_attempts ctrl, bi_reset_reason = me_reset_reason env\<rparr>, d))"

definition app_main :: "main_env \<Rightarrow> 'd partition_drv \<Rightarrow> 'd ota_drv option \<Rightarrow> 'd \<Rightarrow> start_outcome \<times> 'd" where
  "app_main env drv ota d =
     (let ((_, record), d) = ReadFwMetaRecord drv d;
          ((_, ctrl), d) = ReadFwCtrlRecord drv d;
          (inputs, d) = boot_inputs env ota record ctrl d;
          decision = DecideFwBoot inputs;
          (jumped, reason, ctrl, d) =
            (if bd_mode decision = FW_BOOT_FIRMWARE
             then (JumpToFirmware env (the ota), UPDATER_REASON_BOOT_SELECT_FAILED,
                   ctrl\<lparr>cr_crash_count := bd_crash_count decision\<rparr>, SaveCrashCount drv ctrl (bd_crash_count decision) d)
             else (None, GetUpdaterReason (bd_mode decision), ctrl, d))
      in case jumped of
           Some boot_partition \<Rightarrow> (JumpedToFirmware boot_partition, d)
         | None \<Rightarrow>
             let d = (if bi_is_force_requested inputs then snd (ClearForceFlag drv record d) else d);
                 crash_count = (if bd_mode decision = FW_BOOT_UPDATER_CRASH_LOOP then 0 else bd_crash_count decision);
                 d = SaveCrashCount drv ctrl crash_count d;
                 version = (if bi_is_ota_match inputs then Some (mr_version record) else None)
             in (UpdaterMode reason version (StartUpdaterMode env version), d))"

subsection \<open>Effects on the flash\<close>

definition record_matches :: "'d ota_drv \<Rightarrow> 'd \<Rightarrow> fw_meta_record \<Rightarrow> bool" where
  "record_matches ota d record \<longleftrightarrow>
     od_mem ota d 0 = FW_IMAGE_MAGIC \<and> of_le32 (mem_range (od_mem ota d) 288 4) = mr_magic record \<and>
     mem_range (od_mem ota d) 292 9 = mr_version record \<and>
     od_digest ota (od_mem ota d) = mr_image_sha256 record"

lemma mem_range_sub: "off + k \<le> n \<Longrightarrow> take k (drop off (mem_range m 0 n)) = mem_range m off k"
  by (rule nth_equalityI) simp_all

lemma embedded_head:
  "em_magic (embedded_of_bytes (drop 288 (mem_range m 0 304))) = of_le32 (mem_range m 288 4)"
  "em_version (embedded_of_bytes (drop 288 (mem_range m 0 304))) = mem_range m 292 9"
  using mem_range_sub [of 288 4 304 m] mem_range_sub [of 292 9 304 m]
  by (simp_all add: embedded_of_bytes_def drop_take min_def)

context box_flash
begin

lemma IsOtaMatchingRecord_frame:
  "IsOtaMatchingRecord ota record d = (b, d') \<Longrightarrow> pd_mem drv d' = pd_mem drv d \<and> od_mem ota d' = od_mem ota d"
  by (auto simp: IsOtaMatchingRecord_def Let_def ota_read_law(1,2) ota_sha_law(1,2) split: prod.splits if_splits)

lemma IsOtaMatchingRecord_true:
  assumes "IsOtaMatchingRecord ota record d = (True, d')"
  shows "record_matches ota d record"
proof -
  obtain head d1 where h: "od_read ota 0 304 d = ((ESP_OK, head), d1)"
    and m: "head ! 0 = FW_IMAGE_MAGIC" "em_magic (embedded_of_bytes (take 16 (drop 288 head))) = mr_magic record"
      "em_version (embedded_of_bytes (take 16 (drop 288 head))) = mr_version record"
    and s: "ComputeFwImageSha256 ota d1 = ((ESP_OK, mr_image_sha256 record), d')"
    using assms by (auto simp: IsOtaMatchingRecord_def Let_def split: prod.splits if_splits)
  have head: "head = mem_range (od_mem ota d) 0 304" using ota_read_law(4) [OF h] by simp
  have "mr_image_sha256 record = od_digest ota (od_mem ota d)"
    using ota_sha_law(4) [OF s] ota_read_law(2) [OF h] by simp
  then show ?thesis
    using m by (simp add: record_matches_def head embedded_head)
qed

lemma IsOtaMatchingRecord_reliable:
  assumes "reliable_box drv ota ok" "ok d"
  shows "\<exists>d'. IsOtaMatchingRecord ota record d = (record_matches ota d record, d') \<and> ok d'"
proof -
  obtain head d1 where h: "od_read ota 0 304 d = ((ESP_OK, head), d1)" "ok d1"
    using reliable_box_calls(1) [OF assms] by blast
  obtain sha d2 where s: "ComputeFwImageSha256 ota d1 = ((ESP_OK, sha), d2)" "ok d2"
    using reliable_box_calls(2) [OF assms(1) h(2)] by blast
  have head: "head = mem_range (od_mem ota d) 0 304" using ota_read_law(4) [OF h(1)] by simp
  have sha: "sha = od_digest ota (od_mem ota d)"
    using ota_sha_law(4) [OF s(1)] ota_read_law(2) [OF h(1)] by simp
  show ?thesis
    using h s by (auto simp: IsOtaMatchingRecord_def record_matches_def head embedded_head sha Let_def)
qed

lemma SaveCrashCount_frame:
  "stored_meta drv (SaveCrashCount drv c n d) = stored_meta drv d"
  "od_mem ota (SaveCrashCount drv c n d) = od_mem ota d"
proof -
  obtain e d1 where w: "WriteFwCtrlRecord drv (BuildFwCtrlRecord n (cr_boot_attempts c)) d = (e, d1)"
    by (metis prod.exhaust)
  show "stored_meta drv (SaveCrashCount drv c n d) = stored_meta drv d"
    "od_mem ota (SaveCrashCount drv c n d) = od_mem ota d"
    using w write_ctrl_meta [OF _ w] meta_ops_keep_ota(5) [OF w] by (simp_all add: SaveCrashCount_def)
qed

lemma SaveCrashCount_reliable:
  assumes "reliable drv ok" "ok d" "cr_crash_count c = cr_crash_count (effective_ctrl drv d)"
  shows "ok (SaveCrashCount drv c n d)"
    and "cr_crash_count (effective_ctrl drv (SaveCrashCount drv c n d)) = n"
proof -
  obtain d1 where w: "WriteFwCtrlRecord drv (BuildFwCtrlRecord n (cr_boot_attempts c)) d = (ESP_OK, d1)" "ok d1"
    "effective_ctrl drv d1 = BuildFwCtrlRecord n (cr_boot_attempts c)"
    by (rule reliable_write_ctrl [OF assms(1,2)])
  show "ok (SaveCrashCount drv c n d)"
    and "cr_crash_count (effective_ctrl drv (SaveCrashCount drv c n d)) = n"
    using w assms by (auto simp: SaveCrashCount_def)
qed

lemma ClearForceFlag_ok:
  assumes "ClearForceFlag drv record d = ((ESP_OK, record'), d')" "wf_meta record"
  shows "stored_meta drv d' = record\<lparr>mr_force_bootloader := FW_FORCE_BOOTLOADER_CLEAR\<rparr>"
proof -
  let ?rec = "record\<lparr>mr_force_bootloader := FW_FORCE_BOOTLOADER_CLEAR\<rparr>"
  have wf: "wf_meta ?rec" using assms(2) by (simp add: wf_meta_def)
  obtain d1 d2 where e: "EraseFwMetaRecord drv d = (ESP_OK, d1)" and w: "WriteFwMetaRecord drv ?rec d1 = (ESP_OK, d2)"
    and r: "\<exists>x. ReadFwMetaRecord drv d2 = (x, d')"
    using assms(1) by (auto simp: ClearForceFlag_def Let_def split: prod.splits if_splits)
  show ?thesis
    using write_meta_ok [OF wf erase_meta_ok [OF e] w] r read_meta_frame by metis
qed

lemma ClearForceFlag_frame:
  assumes "ClearForceFlag drv record d = ((e, record'), d')" "wf_meta record"
  shows "effective_ctrl drv d' = effective_ctrl drv d" "od_mem ota d' = od_mem ota d"
proof -
  have wf: "wf_meta (record\<lparr>mr_force_bootloader := FW_FORCE_BOOTLOADER_CLEAR\<rparr>)"
    using assms(2) by (simp add: wf_meta_def)
  show "effective_ctrl drv d' = effective_ctrl drv d"
    using assms(1) by (auto simp: ClearForceFlag_def Let_def split: prod.splits if_splits
        dest!: erase_meta_ctrl write_meta_ctrl [OF wf] read_meta_frame)
  show "od_mem ota d' = od_mem ota d"
    using assms(1) by (auto simp: ClearForceFlag_def Let_def split: prod.splits if_splits dest!: meta_ops_keep_ota(1-3))
qed

lemma ClearForceFlag_reliable:
  assumes "reliable drv ok" "ok d" "wf_meta record"
  shows "\<exists>record' d'. ClearForceFlag drv record d = ((ESP_OK, record'), d') \<and> ok d'"
proof -
  let ?rec = "record\<lparr>mr_force_bootloader := FW_FORCE_BOOTLOADER_CLEAR\<rparr>"
  have wf: "wf_meta ?rec" using assms(3) by (simp add: wf_meta_def)
  obtain d1 where e: "EraseFwMetaRecord drv d = (ESP_OK, d1)" "ok d1"
    using reliable_meta_ops(1) [OF assms(1,2)] by blast
  obtain d2 where w: "WriteFwMetaRecord drv ?rec d1 = (ESP_OK, d2)" "ok d2"
    using reliable_meta_ops(2) [OF assms(1) e(2)] by blast
  obtain d3 where r: "ReadFwMetaRecord drv d2 = ((ESP_OK, stored_meta drv d2), d3)" "ok d3"
    by (rule reliable_read_meta [OF assms(1) w(2)])
  have "stored_meta drv d2 = ?rec" by (rule write_meta_ok [OF wf erase_meta_ok [OF e(1)] w(1)])
  then show ?thesis using e w r by (simp add: ClearForceFlag_def Let_def)
qed

end

context box_flash
begin

lemma boot_inputs_facts:
  assumes "boot_inputs env (Some ota) record ctrl d = (inputs, d')"
  shows "pd_mem drv d' = pd_mem drv d" "od_mem ota d' = od_mem ota d"
    and "bi_is_force_requested inputs = IsFwForceRequested record"
    and "bi_is_record_valid inputs = IsFwMetaRecordValid record (od_size ota)"
    and "bi_is_ota_match inputs \<Longrightarrow> record_matches ota d record"
    and "bi_crash_count inputs = cr_crash_count ctrl" "bi_reset_reason inputs = me_reset_reason env"
  using assms
  by (auto simp: boot_inputs_def Let_def split: prod.splits if_splits
      dest: IsOtaMatchingRecord_frame IsOtaMatchingRecord_true)

lemma boot_inputs_reliable:
  assumes "reliable_box drv ota ok" "ok d"
  shows "\<exists>inputs d'. boot_inputs env (Some ota) record ctrl d = (inputs, d') \<and> ok d' \<and>
    bi_is_ota_match inputs = (IsFwMetaRecordValid record (od_size ota) \<and> record_matches ota d record)"
  using IsOtaMatchingRecord_reliable [OF assms, of "record"] assms(2) by (auto simp: boot_inputs_def Let_def)

text \<open>A start that jumps: what was read, decided and written.\<close>

lemma app_main_jump:
  assumes "app_main env drv ota' d = (JumpedToFirmware bp, d')"
  obtains o1 d1 d2 d3 "record" ctrl inputs e1 e2 where "ota' = Some o1"
    "ReadFwMetaRecord drv d = ((e1, record), d1)" "ReadFwCtrlRecord drv d1 = ((e2, ctrl), d2)"
    "boot_inputs env ota' record ctrl d2 = (inputs, d3)"
    "bd_mode (DecideFwBoot inputs) = FW_BOOT_FIRMWARE" "JumpToFirmware env o1 = Some bp"
    "d' = SaveCrashCount drv ctrl (bd_crash_count (DecideFwBoot inputs)) d3"
proof -
  obtain e1 "record" d1 where m: "ReadFwMetaRecord drv d = ((e1, record), d1)" by (metis prod.exhaust)
  obtain e2 ctrl d2 where c: "ReadFwCtrlRecord drv d1 = ((e2, ctrl), d2)" by (metis prod.exhaust)
  obtain inputs d3 where i: "boot_inputs env ota' record ctrl d2 = (inputs, d3)" by (metis prod.exhaust)
  have mode: "bd_mode (DecideFwBoot inputs) = FW_BOOT_FIRMWARE"
    using assms m c i by (auto simp: app_main_def Let_def split: if_splits option.splits)
  have some: "ota' \<noteq> None"
  proof
    assume "ota' = None"
    then have "\<not> bi_is_record_valid inputs" using i by (auto simp: boot_inputs_def Let_def)
    then show False using mode by (auto simp: DecideFwBoot_def Let_def split: if_splits)
  qed
  then obtain o1 where so: "ota' = Some o1" by blast
  show thesis
    by (rule that [OF so m c i mode]) (use assms m c i mode so in \<open>auto simp: app_main_def Let_def split: option.splits\<close>)
qed

end

lemma JumpToFirmware_Some: "JumpToFirmware env ota = Some bp \<Longrightarrow> bp = (od_address ota, od_size ota)"
  by (auto simp: JumpToFirmware_def Let_def split: if_splits)

definition jump_works :: "main_env \<Rightarrow> 'd ota_drv \<Rightarrow> bool" where
  "jump_works env ota \<longleftrightarrow> JumpToFirmware env ota = Some (od_address ota, od_size ota)"

context box_flash
begin

lemma app_main_jump_facts:
  assumes "app_main env drv (Some ota) d = (JumpedToFirmware bp, d')"
  shows "bp = (od_address ota, od_size ota)"
    and "IsFwMetaRecordValid (stored_meta drv d) (od_size ota)" "\<not> IsFwForceRequested (stored_meta drv d)"
    and "record_matches ota d (stored_meta drv d)"
    and "me_reset_reason env \<noteq> ESP_RST_DEEPSLEEP"
    and "stored_meta drv d' = stored_meta drv d" "od_mem ota d' = od_mem ota d"
    and "\<not> IsCrashReset (me_reset_reason env) \<Longrightarrow> pd_mem drv d' = pd_mem drv d"
proof -
  from assms obtain d1 d2 d3 "record" ctrl inputs e1 e2 where
    m: "ReadFwMetaRecord drv d = ((e1, record), d1)" and c: "ReadFwCtrlRecord drv d1 = ((e2, ctrl), d2)"
    and i: "boot_inputs env (Some ota) record ctrl d2 = (inputs, d3)"
    and mode: "bd_mode (DecideFwBoot inputs) = FW_BOOT_FIRMWARE" and j: "JumpToFirmware env ota = Some bp"
    and d': "d' = SaveCrashCount drv ctrl (bd_crash_count (DecideFwBoot inputs)) d3"
    by (rule app_main_jump) auto
  note f = boot_inputs_facts [OF i]
  from mode have dec: "\<not> bi_is_force_requested inputs" "bi_reset_reason inputs \<noteq> ESP_RST_DEEPSLEEP"
    "bi_is_record_valid inputs" "bi_is_ota_match inputs"
    by (auto simp: DecideFwBoot_def Let_def split: if_splits)
  have "e1 = ESP_OK"
    using dec(3) ReadFwMetaRecord_fail [OF m] f(4) erased_meta(1) by metis
  then have rec: "record = stored_meta drv d" using m read_meta_ok by simp
  have mem: "pd_mem drv d3 = pd_mem drv d" "od_mem ota d3 = od_mem ota d"
    using f(1,2) ReadFwMetaRecord_frame [OF m] ReadFwCtrlRecord_frame [OF c]
      meta_ops_keep_ota(1) [OF m] meta_ops_keep_ota(4) [OF c] by simp_all
  have "od_mem ota d2 = od_mem ota d"
    using meta_ops_keep_ota(1) [OF m] meta_ops_keep_ota(4) [OF c] by simp
  then show "record_matches ota d (stored_meta drv d)"
    using f(5) [OF dec(4)] rec by (simp add: record_matches_def)
  show "bp = (od_address ota, od_size ota)" using JumpToFirmware_Some [OF j] .
  show "IsFwMetaRecordValid (stored_meta drv d) (od_size ota)" "\<not> IsFwForceRequested (stored_meta drv d)"
    "me_reset_reason env \<noteq> ESP_RST_DEEPSLEEP"
    using dec f(3,4,7) rec by auto
  show "stored_meta drv d' = stored_meta drv d" "od_mem ota d' = od_mem ota d"
    using SaveCrashCount_frame stored_cong(1) [OF mem(1)] mem(2) by (simp_all add: d')
  assume "\<not> IsCrashReset (me_reset_reason env)"
  then have "bd_crash_count (DecideFwBoot inputs) = cr_crash_count ctrl"
    using dec f(6,7) by (simp add: DecideFwBoot_def Let_def)
  then show "pd_mem drv d' = pd_mem drv d" using mem by (simp add: d' SaveCrashCount_def)
qed

end

text \<open>A start on a device whose calls succeed, as a function of what the flash holds.\<close>

definition stored_inputs :: "main_env \<Rightarrow> 'd partition_drv \<Rightarrow> 'd ota_drv \<Rightarrow> 'd \<Rightarrow> fw_boot_inputs" where
  "stored_inputs env drv ota d =
     (let r = stored_meta drv d; c = effective_ctrl drv d; valid = IsFwMetaRecordValid r (od_size ota) in
      \<lparr>bi_is_force_requested = IsFwForceRequested r, bi_is_record_valid = valid,
       bi_is_ota_match = (valid \<and> record_matches ota d r), bi_crash_count = cr_crash_count c,
       bi_boot_attempts = cr_boot_attempts c, bi_reset_reason = me_reset_reason env\<rparr>)"

context box_flash
begin

lemma app_main_reads:
  assumes "reliable_box drv ota ok" "ok d"
  obtains d1 d2 d3 where "ReadFwMetaRecord drv d = ((ESP_OK, stored_meta drv d), d1)"
    "ReadFwCtrlRecord drv d1 = ((ESP_OK, effective_ctrl drv d), d2)"
    "boot_inputs env (Some ota) (stored_meta drv d) (effective_ctrl drv d) d2 = (stored_inputs env drv ota d, d3)"
    "ok d3" "pd_mem drv d3 = pd_mem drv d" "od_mem ota d3 = od_mem ota d"
proof -
  note rel = reliable_boxD [OF assms(1)]
  obtain d1 where m: "ReadFwMetaRecord drv d = ((ESP_OK, stored_meta drv d), d1)" "ok d1" "pd_mem drv d1 = pd_mem drv d"
    by (rule reliable_read_meta [OF rel assms(2)])
  obtain d2 where c: "ReadFwCtrlRecord drv d1 = ((ESP_OK, effective_ctrl drv d1), d2)" "ok d2" "pd_mem drv d2 = pd_mem drv d1"
    by (rule reliable_read_ctrl [OF rel m(2)])
  have e: "effective_ctrl drv d1 = effective_ctrl drv d" by (rule stored_cong(3) [OF m(3)])
  obtain inputs d3 where i: "boot_inputs env (Some ota) (stored_meta drv d) (effective_ctrl drv d) d2 = (inputs, d3)" "ok d3"
    "bi_is_ota_match inputs = (IsFwMetaRecordValid (stored_meta drv d) (od_size ota) \<and> record_matches ota d2 (stored_meta drv d))"
    using boot_inputs_reliable [OF assms(1) c(2)] by blast
  note f = boot_inputs_facts [OF i(1)]
  have mem: "pd_mem drv d3 = pd_mem drv d" "od_mem ota d3 = od_mem ota d" "od_mem ota d2 = od_mem ota d"
    using f(1,2) m c meta_ops_keep_ota(1) [OF m(1)] meta_ops_keep_ota(4) [OF c(1)] by simp_all
  have b: "bi_boot_attempts inputs = cr_boot_attempts (effective_ctrl drv d)"
    using i(1) by (auto simp: boot_inputs_def Let_def split: prod.splits if_splits)
  have match: "record_matches ota d2 x = record_matches ota d x" for x
    by (simp add: record_matches_def mem(3))
  have "inputs = stored_inputs env drv ota d"
    by (rule fw_boot_inputs.equality)
      (simp_all add: stored_inputs_def Let_def b f(3,4,6,7) i(3) match)
  then show thesis using that [of d1 d2 d3] m(1) c(1) i(1,2) mem(1,2) e by simp
qed

lemma SaveCrashCount_same:
  "cr_crash_count c = n \<Longrightarrow> SaveCrashCount drv c n d = d"
  by (simp add: SaveCrashCount_def)

lemma app_main_starts:
  assumes rel: "reliable_box drv ota ok" and ok: "ok d" and works: "jump_works env ota"
    and mode: "bd_mode (DecideFwBoot (stored_inputs env drv ota d)) = FW_BOOT_FIRMWARE"
  obtains d' where "app_main env drv (Some ota) d = (JumpedToFirmware (od_address ota, od_size ota), d')" "ok d'"
    "cr_crash_count (effective_ctrl drv d') = bd_crash_count (DecideFwBoot (stored_inputs env drv ota d))"
proof -
  obtain d1 d2 d3 where r: "ReadFwMetaRecord drv d = ((ESP_OK, stored_meta drv d), d1)"
    "ReadFwCtrlRecord drv d1 = ((ESP_OK, effective_ctrl drv d), d2)"
    "boot_inputs env (Some ota) (stored_meta drv d) (effective_ctrl drv d) d2 = (stored_inputs env drv ota d, d3)"
    "ok d3" "pd_mem drv d3 = pd_mem drv d" by (rule app_main_reads [OF rel ok])
  let ?n = "bd_crash_count (DecideFwBoot (stored_inputs env drv ota d))"
  have c: "cr_crash_count (effective_ctrl drv d) = cr_crash_count (effective_ctrl drv d3)"
    by (simp add: stored_cong(3) [OF r(5)])
  have "app_main env drv (Some ota) d =
    (JumpedToFirmware (od_address ota, od_size ota), SaveCrashCount drv (effective_ctrl drv d) ?n d3)"
    using r(1-3) mode works by (simp add: app_main_def jump_works_def Let_def)
  then show thesis
    using that SaveCrashCount_reliable [OF reliable_boxD [OF rel] r(4) c] by blast
qed

lemma app_main_updater:
  assumes rel: "reliable_box drv ota ok" and ok: "ok d"
    and mode: "bd_mode (DecideFwBoot (stored_inputs env drv ota d)) \<noteq> FW_BOOT_FIRMWARE"
  defines "i \<equiv> stored_inputs env drv ota d"
  obtains d' where "app_main env drv (Some ota) d =
      (UpdaterMode (GetUpdaterReason (bd_mode (DecideFwBoot i)))
        (if bi_is_ota_match i then Some (mr_version (stored_meta drv d)) else None)
        (StartUpdaterMode env (if bi_is_ota_match i then Some (mr_version (stored_meta drv d)) else None)), d')"
    "ok d'" "od_mem ota d' = od_mem ota d"
    "stored_meta drv d' = (if IsFwForceRequested (stored_meta drv d)
      then (stored_meta drv d)\<lparr>mr_force_bootloader := FW_FORCE_BOOTLOADER_CLEAR\<rparr> else stored_meta drv d)"
    "cr_crash_count (effective_ctrl drv d') =
      (if bd_mode (DecideFwBoot i) = FW_BOOT_UPDATER_CRASH_LOOP then 0 else bd_crash_count (DecideFwBoot i))"
proof -
  obtain d1 d2 d3 where r: "ReadFwMetaRecord drv d = ((ESP_OK, stored_meta drv d), d1)"
    "ReadFwCtrlRecord drv d1 = ((ESP_OK, effective_ctrl drv d), d2)"
    "boot_inputs env (Some ota) (stored_meta drv d) (effective_ctrl drv d) d2 = (i, d3)"
    "ok d3" "pd_mem drv d3 = pd_mem drv d" "od_mem ota d3 = od_mem ota d"
    unfolding i_def by (rule app_main_reads [OF rel ok])
  have force: "bi_is_force_requested i = IsFwForceRequested (stored_meta drv d)"
    by (simp add: i_def stored_inputs_def Let_def)
  obtain rec d4 where k: "ClearForceFlag drv (stored_meta drv d) d3 = ((ESP_OK, rec), d4)" "ok d4"
    using ClearForceFlag_reliable [OF reliable_boxD [OF rel] r(4) wf_stored_meta [of drv d]] by blast
  let ?d4 = "if IsFwForceRequested (stored_meta drv d) then d4 else d3"
  let ?n = "if bd_mode (DecideFwBoot i) = FW_BOOT_UPDATER_CRASH_LOOP then 0 else bd_crash_count (DecideFwBoot i)"
  have d4: "ok ?d4" "od_mem ota ?d4 = od_mem ota d" "effective_ctrl drv ?d4 = effective_ctrl drv d"
    "stored_meta drv ?d4 = (if IsFwForceRequested (stored_meta drv d)
      then (stored_meta drv d)\<lparr>mr_force_bootloader := FW_FORCE_BOOTLOADER_CLEAR\<rparr> else stored_meta drv d)"
    using r k ClearForceFlag_frame [OF k(1)] ClearForceFlag_ok [OF k(1)] stored_cong [OF r(5)] by auto
  have "app_main env drv (Some ota) d =
    (UpdaterMode (GetUpdaterReason (bd_mode (DecideFwBoot i)))
        (if bi_is_ota_match i then Some (mr_version (stored_meta drv d)) else None)
        (StartUpdaterMode env (if bi_is_ota_match i then Some (mr_version (stored_meta drv d)) else None)),
     SaveCrashCount drv (effective_ctrl drv d) ?n ?d4)"
    using r(1-3) k mode by (simp add: app_main_def Let_def force i_def [symmetric])
  moreover have "cr_crash_count (effective_ctrl drv d) = cr_crash_count (effective_ctrl drv ?d4)"
    using d4(3) by simp
  note s = SaveCrashCount_reliable [OF reliable_boxD [OF rel] d4(1) this, of ?n]
  ultimately show thesis
    using that [of "SaveCrashCount drv (effective_ctrl drv d) ?n ?d4"] s d4(2,4) SaveCrashCount_frame by simp
qed

end

lemma image_installed_matches:
  assumes "image_installed drv ota d n" "\<And>m. length (od_digest ota m) = 32"
  shows "IsFwMetaRecordValid (stored_meta drv d) (od_size ota)" "\<not> IsFwForceRequested (stored_meta drv d)"
    "record_matches ota d (stored_meta drv d)"
proof -
  let ?img = "mem_range (od_mem ota d) 0 n"
  have n: "304 \<le> n" and chk: "CheckFwEmbeddedMeta ?img 304 = FW_META_CHECK_OK"
    and rec: "stored_meta drv d = BuildFwMetaRecord (drop 292 ?img) (of_nat n) (od_digest ota (od_mem ota d))"
    and valid: "IsFwMetaRecordValid (stored_meta drv d) (od_size ota)"
    using assms(1) unfolding image_installed_def Let_def by blast+
  show "IsFwMetaRecordValid (stored_meta drv d) (od_size ota)" by (rule valid)
  show "\<not> IsFwForceRequested (stored_meta drv d)"
    by (simp add: rec IsFwForceRequested_def)
  have sub: "take 4 (drop 288 ?img) = mem_range (od_mem ota d) 288 4" "take 9 (drop 292 ?img) = mem_range (od_mem ota d) 292 9"
    using n by (simp_all add: mem_range_sub)
  have "ReadLe32 (drop 288 ?img) = FW_META_MAGIC" "?img ! 0 = FW_IMAGE_MAGIC"
    using chk by (auto simp: CheckFwEmbeddedMeta_OK_iff)
  then show "record_matches ota d (stored_meta drv d)"
    using sub n assms(2) by (simp add: rec record_matches_def ReadLe32_take)
qed

subsection \<open>An example device\<close>

text \<open>A device with the example image in ota_0 and its record; \<open>force\<close> and \<open>count\<close> are free.\<close>

definition example_ota :: "nat \<Rightarrow> byte" where
  "example_ota i = (if i < 304 then example_head ! i else 0)"

definition example_record :: fw_meta_record where
  "example_record = BuildFwMetaRecord (drop 292 example_head) 304 (map example_ota [0..<32])"

definition example_box :: "u32 \<Rightarrow> byte \<Rightarrow> box_dev" where
  "example_box force count = \<lparr>nd_mem = nd_mem (nor_holding (example_record\<lparr>mr_force_bootloader := force\<rparr>)
       (BuildFwCtrlRecord count 0)), nd_script = [], bx_mem = example_ota, bx_written = []\<rparr>"

definition example_env :: "reset_reason \<Rightarrow> main_env" where
  "example_env reason = \<lparr>me_reset_reason = reason, me_retained = (\<lambda>p. Some p), me_enable_wakeup = ESP_OK,
     me_ap = \<lparr>ae_netif_init = ESP_OK, ae_event_loop = ESP_OK, ae_netif = True, ae_dhcps_stop = ESP_OK,
       ae_set_ip_info = ESP_OK, ae_dhcps_option = ESP_OK, ae_dhcps_start = ESP_OK, ae_wifi_init = ESP_OK,
       ae_set_storage = ESP_OK, ae_set_mode = ESP_OK, ae_set_config = ESP_OK, ae_start = ESP_OK\<rparr>,
     me_mac = [0, 0, 0, 0, 0xAB, 0x01],
     me_http = \<lparr>he_mutex = True, he_queue = True, he_task = True, he_start = ESP_OK,
       he_handlers = [ESP_OK, ESP_OK, ESP_OK], he_err_handler = ESP_OK\<rparr>\<rparr>"

lemma example_env_simps [simp]:
  "me_reset_reason (example_env r) = r" "jump_works (example_env r) (box_ota n)"
  by (simp_all add: example_env_def jump_works_def JumpToFirmware_def)

lemma wf_example_record [simp]: "wf_meta example_record"
  by (simp add: example_record_def)

lemma example_box_simps [simp]:
  "nd_script (example_box f c) = []" "bx_mem (example_box f c) = example_ota"
  "stored_meta nor_drv (example_box f c) = example_record\<lparr>mr_force_bootloader := f\<rparr>"
  "effective_ctrl nor_drv (example_box f c) = BuildFwCtrlRecord c 0"
proof -
  let ?n = "nor_holding (example_record\<lparr>mr_force_bootloader := f\<rparr>) (BuildFwCtrlRecord c 0)"
  show "nd_script (example_box f c) = []" "bx_mem (example_box f c) = example_ota"
    by (simp_all add: example_box_def)
  have wf: "wf_meta (example_record\<lparr>mr_force_bootloader := f\<rparr>)"
    using wf_example_record by (simp add: wf_meta_def)
  have mem: "pd_mem nor_drv (example_box f c) = pd_mem nor_drv ?n"
    by (simp add: nor_drv_def example_box_def)
  show "stored_meta nor_drv (example_box f c) = example_record\<lparr>mr_force_bootloader := f\<rparr>"
    using nor_holding_stored(1) [OF wf] by (simp add: stored_meta_def mem)
  have "stored_ctrl nor_drv (example_box f c) = BuildFwCtrlRecord c 0"
    using nor_holding_stored(2) [OF wf_BuildFwCtrlRecord] by (simp add: stored_ctrl_def mem)
  then show "effective_ctrl nor_drv (example_box f c) = BuildFwCtrlRecord c 0"
    by (simp add: effective_ctrl_def)
qed

lemma example_ota_range: "off + k \<le> 304 \<Longrightarrow> mem_range example_ota off k = take k (drop off example_head)"
  by (rule mem_range_eqI) (simp_all add: example_ota_def)

lemma example_installed:
  "image_installed nor_drv (box_ota 4096) (example_box FW_FORCE_BOOTLOADER_CLEAR c) 304"
proof -
  have img: "mem_range example_ota 0 304 = example_head"
    by (simp add: example_ota_range)
  have rec: "example_record\<lparr>mr_force_bootloader := FW_FORCE_BOOTLOADER_CLEAR\<rparr> = example_record"
    by (simp add: example_record_def)
  have "IsValidFwVersion (drop 292 example_head)"
    using example_head_ok by (simp add: CheckFwEmbeddedMeta_OK_iff)
  then have "IsFwMetaRecordValid example_record 4096"
    by (simp add: example_record_def BuildFwMetaRecord_valid_iff)
  then show ?thesis
    using example_head_ok rec
    by (simp add: image_installed_def img example_record_def box_ota_def)
qed

lemma example_matches:
  "IsFwMetaRecordValid (example_record\<lparr>mr_force_bootloader := f\<rparr>) 4096"
  "record_matches (box_ota 4096) (example_box f c) (example_record\<lparr>mr_force_bootloader := f\<rparr>)"
proof -
  note m = image_installed_matches [OF example_installed [of c] box.digest_length]
  show "IsFwMetaRecordValid (example_record\<lparr>mr_force_bootloader := f\<rparr>) 4096"
    using m(1) by simp
  show "record_matches (box_ota 4096) (example_box f c) (example_record\<lparr>mr_force_bootloader := f\<rparr>)"
    using m(3) by (simp add: record_matches_def)
qed

subsection \<open>Properties\<close>

text \<open>
  C1: only a verified firmware is started. If a start ends in the jump, then the bootloader is given exactly ota_0;
  the stored record is valid for it and does not request the updater; ota_0 begins with an image whose embedded
  version is the record's, and its digest is the recorded one; and the reset is not the wakeup
  of a failed jump. The start does not change the record or ota_0, and unless the reset was a crash it
  writes nothing to the metadata partition.
\<close>

theorem app_main_starts_only_verified:
  assumes "box_laws drv ota" and "app_main env drv (Some ota) d = (JumpedToFirmware bp, d')"
  shows "bp = (od_address ota, od_size ota) \<and>
    IsFwMetaRecordValid (stored_meta drv d) (od_size ota) \<and> \<not> IsFwForceRequested (stored_meta drv d) \<and>
    record_matches ota d (stored_meta drv d) \<and> me_reset_reason env \<noteq> ESP_RST_DEEPSLEEP \<and>
    stored_meta drv d' = stored_meta drv d \<and> od_mem ota d' = od_mem ota d \<and>
    (IsCrashReset (me_reset_reason env) \<or> pd_mem drv d' = pd_mem drv d)"
  using box_flash.app_main_jump_facts [OF assms(1) [unfolded box_laws_iff] assms(2)] by blast

theorem app_main_starts_only_verified_witness:
  "\<exists>d'. app_main (example_env (ESP_RST_OTHER 1)) nor_drv (Some (box_ota 4096)) (example_box FW_FORCE_BOOTLOADER_CLEAR 0) =
      (JumpedToFirmware (0x100000, 4096), d') \<and> bx_mem d' = example_ota"
proof -
  let ?d = "example_box FW_FORCE_BOOTLOADER_CLEAR 0"
  have "bd_mode (DecideFwBoot (stored_inputs (example_env (ESP_RST_OTHER 1)) nor_drv (box_ota 4096) ?d)) = FW_BOOT_FIRMWARE"
    using example_matches(1) [of FW_FORCE_BOOTLOADER_CLEAR] example_matches(2) [of FW_FORCE_BOOTLOADER_CLEAR 0]
    by (simp add: stored_inputs_def DecideFwBoot_def Let_def IsFwForceRequested_def IsCrashReset_def)
  then obtain d' where a: "app_main (example_env (ESP_RST_OTHER 1)) nor_drv (Some (box_ota 4096)) ?d =
      (JumpedToFirmware (0x100000, 4096), d')"
    using box.app_main_starts [OF box_reliable, of ?d "example_env (ESP_RST_OTHER 1)" 4096] by auto
  from app_main_starts_only_verified [OF box_box_laws a] a show ?thesis by auto
qed

text \<open>
  An installed image is started. On a device whose flash calls succeed, and with a jump that can be prepared,
  a start with an installed image and a reset that is neither a crash nor the wakeup of a failed jump jumps to ota_0.
\<close>

theorem app_main_starts_installed:
  assumes "box_laws drv ota" and "reliable_box drv ota ok" and "ok d" and "jump_works env ota"
    and "image_installed drv ota d n"
    and "\<not> IsCrashReset (me_reset_reason env)" and "me_reset_reason env \<noteq> ESP_RST_DEEPSLEEP"
  shows "fst (app_main env drv (Some ota) d) = JumpedToFirmware (od_address ota, od_size ota)"
proof -
  have bx: "box_flash drv ota" using assms(1) by (simp add: box_laws_iff)
  note m = image_installed_matches [OF assms(5) box_flash.digest_length [OF bx]]
  have "bd_mode (DecideFwBoot (stored_inputs env drv ota d)) = FW_BOOT_FIRMWARE"
    using m assms(6,7) by (simp add: stored_inputs_def DecideFwBoot_def Let_def)
  from box_flash.app_main_starts [OF bx assms(2-4) this] show ?thesis by (metis fst_conv)
qed

theorem app_main_starts_installed_witness:
  "fst (app_main (example_env (ESP_RST_OTHER 1)) nor_drv (Some (box_ota 4096)) (example_box FW_FORCE_BOOTLOADER_CLEAR 0)) =
     JumpedToFirmware (0x100000, 4096)"
  using app_main_starts_installed [OF box_box_laws box_reliable _ _ example_installed [of 0], of "example_env (ESP_RST_OTHER 1)"]
  by (simp add: IsCrashReset_def)

text \<open>
  C12: a firmware that keeps crashing is stopped, and the stop is not forever. With a valid, matching, unforced
  record, a working jump and a count that starts at 0, the first two starts after crash resets jump to the
  firmware and count 1 and 2; the third enters updater mode with reason crash loop and sets the count back to 0. The
  record and ota_0 are unchanged throughout.
\<close>

theorem three_crashes_stop_the_firmware:
  assumes "box_laws drv ota" and "reliable_box drv ota ok" and "ok d0" and "jump_works env ota"
    and "IsCrashReset (me_reset_reason env)"
    and "IsFwMetaRecordValid (stored_meta drv d0) (od_size ota)" and "\<not> IsFwForceRequested (stored_meta drv d0)"
    and "record_matches ota d0 (stored_meta drv d0)"
    and "cr_crash_count (effective_ctrl drv d0) = 0"
    and "app_main env drv (Some ota) d0 = (o1, d1)" and "app_main env drv (Some ota) d1 = (o2, d2)"
    and "app_main env drv (Some ota) d2 = (o3, d3)"
  shows "o1 = JumpedToFirmware (od_address ota, od_size ota) \<and> cr_crash_count (effective_ctrl drv d1) = 1 \<and>
    o2 = JumpedToFirmware (od_address ota, od_size ota) \<and> cr_crash_count (effective_ctrl drv d2) = 2 \<and>
    (\<exists>v b. o3 = UpdaterMode UPDATER_REASON_CRASH_LOOP v b) \<and> cr_crash_count (effective_ctrl drv d3) = 0 \<and>
    stored_meta drv d3 = stored_meta drv d0 \<and> od_mem ota d3 = od_mem ota d0"
proof -
  have bx: "box_flash drv ota" using assms(1) by (simp add: box_laws_iff)
  let ?good = "\<lambda>d. ok d \<and> stored_meta drv d = stored_meta drv d0 \<and> od_mem ota d = od_mem ota d0"
  have inputs: "stored_inputs env drv ota d = \<lparr>bi_is_force_requested = False, bi_is_record_valid = True,
      bi_is_ota_match = True, bi_crash_count = cr_crash_count (effective_ctrl drv d),
      bi_boot_attempts = cr_boot_attempts (effective_ctrl drv d), bi_reset_reason = me_reset_reason env\<rparr>"
    if "?good d" for d
    using that assms(6-8) by (simp add: stored_inputs_def Let_def record_matches_def)
  have not_sleep: "me_reset_reason env \<noteq> ESP_RST_DEEPSLEEP" using assms(5) by (auto simp: IsCrashReset_def)
  have dec: "DecideFwBoot (stored_inputs env drv ota d) =
      \<lparr>bd_mode = (if 3 \<le> c + 1 then FW_BOOT_UPDATER_CRASH_LOOP else FW_BOOT_FIRMWARE), bd_crash_count = c + 1\<rparr>"
    if "?good d" "c = cr_crash_count (effective_ctrl drv d)" "c < 255" for d c
    using inputs [OF that(1)] that(2,3) assms(5) not_sleep
    by (simp add: DecideFwBoot_def Let_def FW_CRASH_RESET_LIMIT_def)
  have jump: "oc = JumpedToFirmware (od_address ota, od_size ota) \<and> ?good d' \<and> cr_crash_count (effective_ctrl drv d') = c + 1"
    if "app_main env drv (Some ota) d = (oc, d')" "?good d" "c = cr_crash_count (effective_ctrl drv d)" "c + 1 < 3" "c < 255" for d oc d' c
  proof -
    have "bd_mode (DecideFwBoot (stored_inputs env drv ota d)) = FW_BOOT_FIRMWARE"
      "bd_crash_count (DecideFwBoot (stored_inputs env drv ota d)) = c + 1"
      using dec [OF that(2,3,5)] that(4) by (simp_all add: not_le [symmetric])
    then show ?thesis
      using box_flash.app_main_starts [OF bx assms(2) _ assms(4), of d] that(1,2)
        box_flash.app_main_jump_facts(6,7) [OF bx, of env d] by (metis Pair_inject)
  qed
  have 1: "o1 = JumpedToFirmware (od_address ota, od_size ota) \<and> ?good d1 \<and> cr_crash_count (effective_ctrl drv d1) = 1"
    using jump [OF assms(10), of 0] assms(3,9) by simp
  have 2: "o2 = JumpedToFirmware (od_address ota, od_size ota) \<and> ?good d2 \<and> cr_crash_count (effective_ctrl drv d2) = 2"
    using jump [OF assms(11), of 1] 1 by simp
  have mode: "bd_mode (DecideFwBoot (stored_inputs env drv ota d2)) = FW_BOOT_UPDATER_CRASH_LOOP"
    using dec [of d2 2] 2 by simp
  have "(\<exists>v b. o3 = UpdaterMode UPDATER_REASON_CRASH_LOOP v b) \<and> cr_crash_count (effective_ctrl drv d3) = 0 \<and>
    stored_meta drv d3 = stored_meta drv d0 \<and> od_mem ota d3 = od_mem ota d0"
    by (rule box_flash.app_main_updater [OF bx assms(2), of d2 env])
      (use 2 mode assms(7,12) in auto)
  with 1 2 show ?thesis by simp
qed

theorem three_crashes_stop_the_firmware_witness:
  "let start = app_main (example_env ESP_RST_PANIC) nor_drv (Some (box_ota 4096));
       d3 = snd (start (snd (start (snd (start (example_box FW_FORCE_BOOTLOADER_CLEAR 0)))))) in
   cr_crash_count (effective_ctrl nor_drv d3) = 0 \<and> stored_meta nor_drv d3 = example_record"
proof -
  let ?d = "example_box FW_FORCE_BOOTLOADER_CLEAR 0"
  let ?start = "app_main (example_env ESP_RST_PANIC) nor_drv (Some (box_ota 4096))"
  obtain o1 d1 o2 d2 o3 d3 where s: "?start ?d = (o1, d1)" "?start d1 = (o2, d2)" "?start d2 = (o3, d3)"
    by (metis prod.exhaust)
  have rec: "example_record\<lparr>mr_force_bootloader := FW_FORCE_BOOTLOADER_CLEAR\<rparr> = example_record"
    by (simp add: example_record_def)
  have h: "nd_script ?d = []" "jump_works (example_env ESP_RST_PANIC) (box_ota 4096)"
    "IsCrashReset (me_reset_reason (example_env ESP_RST_PANIC))"
    "IsFwMetaRecordValid (stored_meta nor_drv ?d) (od_size (box_ota 4096))" "\<not> IsFwForceRequested (stored_meta nor_drv ?d)"
    "record_matches (box_ota 4096) ?d (stored_meta nor_drv ?d)" "cr_crash_count (effective_ctrl nor_drv ?d) = 0"
    using example_matches by (simp_all add: IsCrashReset_def IsFwForceRequested_def)
  from three_crashes_stop_the_firmware [OF box_box_laws box_reliable h s] s show ?thesis by (simp add: rec)
qed

text \<open>
  An update request is served once. On a device whose flash calls succeed, a start with a record that requests the
  updater enters updater mode with reason "requested" and leaves the record as it was with the
  request cleared, and the crash count as it was; so the next start is not requested any more.
\<close>

theorem update_request_served_once:
  assumes "box_laws drv ota" and "reliable_box drv ota ok" and "ok d"
    and "IsFwForceRequested (stored_meta drv d)" and "app_main env drv (Some ota) d = (out, d')"
  shows "ok d' \<and> (\<exists>v b. out = UpdaterMode UPDATER_REASON_REQUESTED v b) \<and>
    stored_meta drv d' = (stored_meta drv d)\<lparr>mr_force_bootloader := FW_FORCE_BOOTLOADER_CLEAR\<rparr> \<and>
    IsFwMetaRecordValid (stored_meta drv d') n = IsFwMetaRecordValid (stored_meta drv d) n \<and>
    \<not> IsFwForceRequested (stored_meta drv d') \<and>
    cr_crash_count (effective_ctrl drv d') = cr_crash_count (effective_ctrl drv d)"
proof -
  have bx: "box_flash drv ota" using assms(1) by (simp add: box_laws_iff)
  have dec: "DecideFwBoot (stored_inputs env drv ota d) =
    \<lparr>bd_mode = FW_BOOT_UPDATER_REQUESTED, bd_crash_count = cr_crash_count (effective_ctrl drv d)\<rparr>"
    using assms(4) by (simp add: stored_inputs_def Let_def DecideFwBoot_def)
  show ?thesis
    by (rule box_flash.app_main_updater [OF bx assms(2,3), of env])
      (use dec assms(4,5) in \<open>auto simp: IsFwForceRequested_def\<close>)
qed

theorem update_request_served_once_witness:
  "\<not> IsFwForceRequested (stored_meta nor_drv (snd (app_main (example_env (ESP_RST_OTHER 1)) nor_drv (Some (box_ota 4096))
     (example_box FW_FORCE_BOOTLOADER_SET 0))))"
proof -
  let ?d = "example_box FW_FORCE_BOOTLOADER_SET 0"
  obtain out d' where a: "app_main (example_env (ESP_RST_OTHER 1)) nor_drv (Some (box_ota 4096)) ?d = (out, d')"
    by (metis prod.exhaust)
  have h: "nd_script ?d = []" "IsFwForceRequested (stored_meta nor_drv ?d)"
    by (simp_all add: IsFwForceRequested_def fw_consts)
  have "\<not> IsFwForceRequested (stored_meta nor_drv d')"
    using update_request_served_once [OF box_box_laws box_reliable h a] by blast
  then show ?thesis using a by simp
qed

text \<open>
  A failed jump does not loop. After the wakeup from a jump that did not land (reset reason deep sleep) and without an
  update request, a start enters updater mode with reason "could not start" and changes neither the record,
  nor ota_0, nor the crash count.
\<close>

theorem failed_jump_enters_updater:
  assumes "box_laws drv ota" and "reliable_box drv ota ok" and "ok d"
    and "me_reset_reason env = ESP_RST_DEEPSLEEP" and "\<not> IsFwForceRequested (stored_meta drv d)"
    and "app_main env drv (Some ota) d = (out, d')"
  shows "(\<exists>v b. out = UpdaterMode UPDATER_REASON_BOOT_SELECT_FAILED v b) \<and>
    stored_meta drv d' = stored_meta drv d \<and> od_mem ota d' = od_mem ota d \<and>
    cr_crash_count (effective_ctrl drv d') = cr_crash_count (effective_ctrl drv d)"
proof -
  have bx: "box_flash drv ota" using assms(1) by (simp add: box_laws_iff)
  have dec: "DecideFwBoot (stored_inputs env drv ota d) =
    \<lparr>bd_mode = FW_BOOT_UPDATER_BOOT_SELECT_FAILED, bd_crash_count = cr_crash_count (effective_ctrl drv d)\<rparr>"
    using assms(4,5) by (simp add: stored_inputs_def Let_def DecideFwBoot_def)
  show ?thesis
    by (rule box_flash.app_main_updater [OF bx assms(2,3), of env]) (use dec assms(5,6) in auto)
qed

theorem failed_jump_enters_updater_witness:
  "stored_meta nor_drv (snd (app_main (example_env ESP_RST_DEEPSLEEP) nor_drv (Some (box_ota 4096))
     (example_box FW_FORCE_BOOTLOADER_CLEAR 1))) = example_record"
proof -
  let ?d = "example_box FW_FORCE_BOOTLOADER_CLEAR 1"
  obtain out d' where a: "app_main (example_env ESP_RST_DEEPSLEEP) nor_drv (Some (box_ota 4096)) ?d = (out, d')"
    by (metis prod.exhaust)
  have rec: "example_record\<lparr>mr_force_bootloader := FW_FORCE_BOOTLOADER_CLEAR\<rparr> = example_record"
    by (simp add: example_record_def)
  have h: "nd_script ?d = []" "me_reset_reason (example_env ESP_RST_DEEPSLEEP) = ESP_RST_DEEPSLEEP"
    "\<not> IsFwForceRequested (stored_meta nor_drv ?d)"
    by (simp_all add: IsFwForceRequested_def)
  from failed_jump_enters_updater [OF box_box_laws box_reliable h a] a show ?thesis by (simp add: rec)
qed

end
