(* ===== verification/Ws2812Timing.thy ===== *)
theory Ws2812Timing
  imports Prelude
begin

section \<open>WS2812 timing values: validation and form parsing\<close>

text \<open>
  Model of main/ws2812_timing/ws2812_timing.c and ws2812_timing.h. A form body is the string before
  its terminator; a pointer into it is the rest of the string from there on. The two log functions
  return the line they print.
\<close>

abbreviation (input) TUNER_STEP_NS :: u16 where "TUNER_STEP_NS \<equiv> 25"
abbreviation (input) TUNER_RST_STEP_US :: u16 where "TUNER_RST_STEP_US \<equiv> 10"
abbreviation (input) TUNER_MIN_LOW_NS :: int where "TUNER_MIN_LOW_NS \<equiv> 100"
abbreviation (input) TUNER_HIGH_MIN_NS :: u16 where "TUNER_HIGH_MIN_NS \<equiv> 100"
abbreviation (input) TUNER_HIGH_MAX_NS :: u16 where "TUNER_HIGH_MAX_NS \<equiv> 1200"
abbreviation (input) TUNER_PERIOD_MIN_NS :: u16 where "TUNER_PERIOD_MIN_NS \<equiv> 800"
abbreviation (input) TUNER_PERIOD_MAX_NS :: u16 where "TUNER_PERIOD_MAX_NS \<equiv> 2000"
abbreviation (input) TUNER_RESET_MIN_US :: u16 where "TUNER_RESET_MIN_US \<equiv> 50"
abbreviation (input) TUNER_RESET_MAX_US :: u16 where "TUNER_RESET_MAX_US \<equiv> 800"
abbreviation (input) TUNER_VALUE_BUF_LEN :: nat where "TUNER_VALUE_BUF_LEN \<equiv> 5"
abbreviation (input) TUNER_VALUE_DIGITS_MAX :: nat where "TUNER_VALUE_DIGITS_MAX \<equiv> 4"

record ws2812_timing =
  wt_bit0_high_ns :: u16
  wt_bit0_period_ns :: u16
  wt_bit1_high_ns :: u16
  wt_bit1_period_ns :: u16
  wt_reset_us :: u16

definition default_timing :: ws2812_timing where
  "default_timing = \<lparr>wt_bit0_high_ns = 400, wt_bit0_period_ns = 1250, wt_bit1_high_ns = 800,
     wt_bit1_period_ns = 1250, wt_reset_us = 280\<rparr>"

datatype ws2812_timing_result =
    WS2812_TIMING_OK
  | WS2812_TIMING_OUT_OF_RANGE
  | WS2812_TIMING_BAD_COMBINATION
  | WS2812_TIMING_BAD_DUTY_ORDER

datatype ws2812_reject_reason =
    WS2812_REJECT_MALFORMED
  | WS2812_REJECT_OUT_OF_RANGE
  | WS2812_REJECT_BAD_COMBINATION
  | WS2812_REJECT_BAD_DUTY_ORDER

datatype ws2812_measurement_state =
    WS2812_MEASUREMENT_DONE
  | WS2812_MEASUREMENT_TIMEOUT
  | WS2812_MEASUREMENT_COUNT_ERROR
  | WS2812_MEASUREMENT_NOT_MEASURED
  | WS2812_MEASUREMENT_READ_DONE

record ws2812_measurement =
  wm_submit_seq :: u32
  wm_state :: ws2812_measurement_state
  wm_bit0_high_avg_ns :: u32
  wm_bit1_high_avg_ns :: u32
  wm_match_count :: u16
  wm_match_available :: bool
  wm_bit0_period_avg_ns :: u32
  wm_bit1_period_avg_ns :: u32

subsection \<open>Validation\<close>

definition IsOnStep :: "u16 \<Rightarrow> u16 \<Rightarrow> u16 \<Rightarrow> u16 \<Rightarrow> bool" where
  "IsOnStep val lo hi step \<longleftrightarrow> lo \<le> val \<and> val \<le> hi \<and> val mod step = 0"

definition ValidateWs2812Timing :: "ws2812_timing \<Rightarrow> ws2812_timing_result" where
  "ValidateWs2812Timing t =
     (let is_in_range =
            (IsOnStep (wt_bit0_high_ns t) TUNER_HIGH_MIN_NS TUNER_HIGH_MAX_NS TUNER_STEP_NS \<and>
             IsOnStep (wt_bit0_period_ns t) TUNER_PERIOD_MIN_NS TUNER_PERIOD_MAX_NS TUNER_STEP_NS \<and>
             IsOnStep (wt_bit1_high_ns t) TUNER_HIGH_MIN_NS TUNER_HIGH_MAX_NS TUNER_STEP_NS \<and>
             IsOnStep (wt_bit1_period_ns t) TUNER_PERIOD_MIN_NS TUNER_PERIOD_MAX_NS TUNER_STEP_NS \<and>
             IsOnStep (wt_reset_us t) TUNER_RESET_MIN_US TUNER_RESET_MAX_US TUNER_RST_STEP_US)
      in if \<not> is_in_range then WS2812_TIMING_OUT_OF_RANGE
         else let bit0_low_ns = uint (wt_bit0_period_ns t) - uint (wt_bit0_high_ns t);
                  bit1_low_ns = uint (wt_bit1_period_ns t) - uint (wt_bit1_high_ns t)
         in if bit0_low_ns < TUNER_MIN_LOW_NS \<or> bit1_low_ns < TUNER_MIN_LOW_NS then WS2812_TIMING_BAD_COMBINATION
         else let bit0_duty_product = (ucast (wt_bit0_high_ns t) :: u32) * ucast (wt_bit1_period_ns t);
                  bit1_duty_product = (ucast (wt_bit1_high_ns t) :: u32) * ucast (wt_bit0_period_ns t)
         in if bit1_duty_product \<le> bit0_duty_product then WS2812_TIMING_BAD_DUTY_ORDER
         else WS2812_TIMING_OK)"

subsection \<open>Form parsing\<close>

definition is_digit :: "char \<Rightarrow> bool" where
  "is_digit c \<longleftrightarrow> of_char (CHR ''0'') \<le> (of_char c :: nat) \<and> (of_char c :: nat) \<le> of_char (CHR ''9'')"

text \<open>The loop over the fields; the result is the digit string, \<open>None\<close> for the value \<open>false\<close>.\<close>

function ExtractDigitField :: "string \<Rightarrow> string \<Rightarrow> nat \<Rightarrow> string option" where
  "ExtractDigitField field key out_size =
     (if field = [] then None
      else let key_len = length key;
               field_len = length (takeWhile (\<lambda>c. c \<noteq> CHR ''&'') field);
               amp = dropWhile (\<lambda>c. c \<noteq> CHR ''&'') field
      in if key_len < field_len \<and> take key_len field = key \<and> field ! key_len = CHR ''=''
         then let value_len = field_len - key_len - 1;
                  val = take value_len (drop (key_len + 1) field)
              in if value_len < 1 \<or> TUNER_VALUE_DIGITS_MAX < value_len \<or> out_size \<le> value_len then None
                 else if \<not> list_all is_digit val then None
                 else Some val
         else if amp = [] then None
         else ExtractDigitField (tl amp) key out_size)"
  by pat_completeness auto
termination
proof (relation "measure (\<lambda>(field, key, out_size). length field)", goal_cases)
  case (2 field key out_size key_len field_len amp)
  then have "length amp \<le> length field" "amp \<noteq> []"
    by (simp_all add: length_dropWhile_le)
  then show ?case by (cases amp) auto
qed simp

declare ExtractDigitField.simps [simp del]

definition DigitsToUint16 :: "string \<Rightarrow> u16" where
  "DigitsToUint16 digits = foldl (\<lambda>v c. v * 10 + (of_char c - of_char (CHR ''0''))) 0 digits"

definition ParseTunerForm :: "string \<Rightarrow> ws2812_timing option" where
  "ParseTunerForm body =
     (case (ExtractDigitField body ''b0h_ns'' TUNER_VALUE_BUF_LEN, ExtractDigitField body ''b0p_ns'' TUNER_VALUE_BUF_LEN,
            ExtractDigitField body ''b1h_ns'' TUNER_VALUE_BUF_LEN, ExtractDigitField body ''b1p_ns'' TUNER_VALUE_BUF_LEN,
            ExtractDigitField body ''rst_us'' TUNER_VALUE_BUF_LEN) of
       (Some bit0_high, Some bit0_period, Some bit1_high, Some bit1_period, Some reset) \<Rightarrow>
         Some \<lparr>wt_bit0_high_ns = DigitsToUint16 bit0_high, wt_bit0_period_ns = DigitsToUint16 bit0_period,
               wt_bit1_high_ns = DigitsToUint16 bit1_high, wt_bit1_period_ns = DigitsToUint16 bit1_period,
               wt_reset_us = DigitsToUint16 reset\<rparr>
     | _ \<Rightarrow> None)"

definition LogWs2812Timing :: "ws2812_timing \<Rightarrow> string" where
  "LogWs2812Timing t = ''tuner received: bit0 high_ns='' @ dec (unat (wt_bit0_high_ns t)) @
     '' period_ns='' @ dec (unat (wt_bit0_period_ns t)) @ ''; bit1 high_ns='' @ dec (unat (wt_bit1_high_ns t)) @
     '' period_ns='' @ dec (unat (wt_bit1_period_ns t)) @ ''; reset_us='' @ dec (unat (wt_reset_us t))"

fun reject_reason_text :: "ws2812_reject_reason \<Rightarrow> string" where
  "reject_reason_text WS2812_REJECT_OUT_OF_RANGE = ''out_of_range''"
| "reject_reason_text WS2812_REJECT_BAD_COMBINATION = ''bad_combination''"
| "reject_reason_text WS2812_REJECT_BAD_DUTY_ORDER = ''bad_duty_order''"
| "reject_reason_text WS2812_REJECT_MALFORMED = ''malformed''"

definition LogWs2812Rejection :: "ws2812_reject_reason \<Rightarrow> string" where
  "LogWs2812Rejection reason = ''tuner request rejected: reason='' @ reject_reason_text reason"

subsection \<open>The validation rules over the numbers\<close>

definition on_step :: "nat \<Rightarrow> nat \<Rightarrow> nat \<Rightarrow> nat \<Rightarrow> bool" where
  "on_step n lo hi k \<longleftrightarrow> lo \<le> n \<and> n \<le> hi \<and> k dvd n"

lemma IsOnStep_iff: "IsOnStep v lo hi k \<longleftrightarrow> on_step (unat v) (unat lo) (unat hi) (unat k)"
  by (simp add: IsOnStep_def on_step_def word_le_nat_alt unat_mod_distrib dvd_eq_mod_eq_0
      flip: unat_eq_0)

lemma u32_product:
  fixes a b :: u16
  shows "unat ((ucast a :: u32) * ucast b) = unat a * unat b"
proof -
  have a: "unat a < 2 ^ 16" and b: "unat b < 2 ^ 16"
    using unsigned_less [where 'a = nat and w = a] unsigned_less [where 'a = nat and w = b] by simp_all
  have "unat a * unat b < 2 ^ 16 * 2 ^ 16"
    by (rule mult_strict_mono [OF a b]) simp_all
  moreover have "unat (ucast a :: u32) = unat a" "unat (ucast b :: u32) = unat b"
    using a b by (simp_all add: unsigned_ucast_eq take_bit_nat_eq_self)
  ultimately show ?thesis by (subst unat_mult_lem [THEN iffD1]) simp_all
qed

text \<open>A timing set that satisfies the rules V1 to V4.\<close>

definition valid_ranges :: "ws2812_timing \<Rightarrow> bool" where
  "valid_ranges t \<longleftrightarrow> on_step (unat (wt_bit0_high_ns t)) 100 1200 25 \<and> on_step (unat (wt_bit0_period_ns t)) 800 2000 25 \<and>
     on_step (unat (wt_bit1_high_ns t)) 100 1200 25 \<and> on_step (unat (wt_bit1_period_ns t)) 800 2000 25 \<and>
     on_step (unat (wt_reset_us t)) 50 800 10"

definition valid_timing :: "ws2812_timing \<Rightarrow> bool" where
  "valid_timing t \<longleftrightarrow> valid_ranges t \<and>
     unat (wt_bit0_high_ns t) + 100 \<le> unat (wt_bit0_period_ns t) \<and>
     unat (wt_bit1_high_ns t) + 100 \<le> unat (wt_bit1_period_ns t) \<and>
     unat (wt_bit0_high_ns t) * unat (wt_bit1_period_ns t) < unat (wt_bit1_high_ns t) * unat (wt_bit0_period_ns t)"

lemma ValidateWs2812Timing_cases:
  "ValidateWs2812Timing t =
    (if \<not> valid_ranges t then WS2812_TIMING_OUT_OF_RANGE
     else if unat (wt_bit0_period_ns t) < unat (wt_bit0_high_ns t) + 100 \<or>
             unat (wt_bit1_period_ns t) < unat (wt_bit1_high_ns t) + 100 then WS2812_TIMING_BAD_COMBINATION
     else if unat (wt_bit1_high_ns t) * unat (wt_bit0_period_ns t) \<le> unat (wt_bit0_high_ns t) * unat (wt_bit1_period_ns t)
     then WS2812_TIMING_BAD_DUTY_ORDER else WS2812_TIMING_OK)"
proof -
  have low: "uint a - uint b < 100 \<longleftrightarrow> unat a < unat b + 100" for a b :: u16
    unfolding uint_nat by linarith
  have literals: "unat (25 :: u16) = 25" "unat (10 :: u16) = 10" "unat (100 :: u16) = 100" "unat (1200 :: u16) = 1200"
    "unat (800 :: u16) = 800" "unat (2000 :: u16) = 2000" "unat (50 :: u16) = 50" by simp_all
  show ?thesis
    unfolding ValidateWs2812Timing_def Let_def IsOnStep_iff valid_ranges_def low word_le_nat_alt u32_product literals
    by (rule refl)
qed

lemma ValidateWs2812Timing_OK: "ValidateWs2812Timing t = WS2812_TIMING_OK \<longleftrightarrow> valid_timing t"
  by (auto simp: ValidateWs2812Timing_cases valid_timing_def not_less not_le split: if_splits)

subsection \<open>The form as a list of fields\<close>

fun fields :: "string \<Rightarrow> string list" where
  "fields [] = [[]]"
| "fields (c # s) = (if c = CHR ''&'' then [] # fields s else (c # hd (fields s)) # tl (fields s))"

lemma fields_nonempty [simp]: "fields s \<noteq> []"
  by (induction s) auto

lemma fields_unfold:
  "fields s = (let rest = dropWhile (\<lambda>c. c \<noteq> CHR ''&'') s in
     takeWhile (\<lambda>c. c \<noteq> CHR ''&'') s # (if rest = [] then [] else fields (tl rest)))"
proof (induction s)
  case (Cons c s)
  have h: "hd (fields s) = takeWhile (\<lambda>c. c \<noteq> CHR ''&'') s"
    by (subst Cons.IH) (simp add: Let_def)
  have t: "tl (fields s) = (if dropWhile (\<lambda>c. c \<noteq> CHR ''&'') s = [] then []
      else fields (tl (dropWhile (\<lambda>c. c \<noteq> CHR ''&'') s)))"
    by (subst Cons.IH) (simp add: Let_def)
  show ?case
    by (cases "dropWhile (\<lambda>c. c \<noteq> CHR ''&'') s = []") (simp_all add: Let_def h t del: dropWhile_eq_Nil_conv)
qed simp

definition has_key :: "string \<Rightarrow> string \<Rightarrow> bool" where
  "has_key key f \<longleftrightarrow> take (length key + 1) f = key @ ''=''"

definition is_value :: "string \<Rightarrow> bool" where
  "is_value v \<longleftrightarrow> 1 \<le> length v \<and> length v \<le> 4 \<and> list_all is_digit v"

text \<open>The value of the first field with a key, if it is one to four digits.\<close>

definition field_value :: "string \<Rightarrow> string \<Rightarrow> string option" where
  "field_value body key = (case find (has_key key) (fields body) of None \<Rightarrow> None
     | Some f \<Rightarrow> let v = drop (length key + 1) f in if is_value v then Some v else None)"

lemma has_key_field:
  fixes s defines "f \<equiv> takeWhile (\<lambda>c. c \<noteq> CHR ''&'') s"
  shows "length key < length f \<and> take (length key) s = key \<and> s ! length key = CHR ''='' \<longleftrightarrow> has_key key f"
proof -
  have s: "s = f @ dropWhile (\<lambda>c. c \<noteq> CHR ''&'') s" by (simp add: f_def)
  show ?thesis
  proof (cases "length key < length f")
    case True
    then have "take (length key) s = take (length key) f" "s ! length key = f ! length key"
      by (subst s, simp add: nth_append)+
    then show ?thesis using True by (auto simp: has_key_def take_Suc_conv_app_nth)
  next
    case False
    then have "length (take (length key + 1) f) \<noteq> length (key @ ''='')" by simp
    then show ?thesis using False by (metis has_key_def)
  qed
qed

lemma ExtractDigitField_spec:
  "ExtractDigitField s key 5 = field_value s key"
proof (induction s key "5 :: nat" rule: ExtractDigitField.induct)
  case (1 s key)
  let ?f = "takeWhile (\<lambda>c. c \<noteq> CHR ''&'') s" and ?rest = "dropWhile (\<lambda>c. c \<noteq> CHR ''&'') s"
  show ?case
  proof (cases "s = []")
    case True
    then show ?thesis by (simp add: ExtractDigitField.simps field_value_def has_key_def)
  next
    case False
    show ?thesis
    proof (cases "has_key key ?f")
      case True
      note k = has_key_field [THEN iffD2, OF True]
      have v: "take (length ?f - length key - 1) (drop (length key + 1) s) = drop (length key + 1) ?f"
        by (metis drop_take diff_diff_left takeWhile_eq_take)
      show ?thesis
        using False k v True by (subst ExtractDigitField.simps)
          (auto simp: field_value_def fields_unfold [of s] Let_def is_value_def)
    next
      case no: False
      then have k: "\<not> (length key < length ?f \<and> take (length key) s = key \<and> s ! length key = CHR ''='')"
        using has_key_field by blast
      have "ExtractDigitField s key 5 = (if ?rest = [] then None else ExtractDigitField (tl ?rest) key 5)"
        using False k by (subst ExtractDigitField.simps) (auto simp: Let_def)
      also have "\<dots> = (if ?rest = [] then None else field_value (tl ?rest) key)"
        using 1 [OF False refl refl refl k] by (simp del: dropWhile_eq_Nil_conv)
      also have "\<dots> = field_value s key"
        using no by (cases "?rest = []") (simp_all add: field_value_def fields_unfold [of s] Let_def del: dropWhile_eq_Nil_conv)
      finally show ?thesis .
    qed
  qed
qed

subsection \<open>Digit strings and numbers\<close>

definition digits_val :: "string \<Rightarrow> nat" where
  "digits_val v = foldl (\<lambda>n c. n * 10 + (of_char c - 48)) 0 v"

lemma is_digit_iff: "is_digit c \<longleftrightarrow> 48 \<le> (of_char c :: nat) \<and> (of_char c :: nat) \<le> 57"
  by (simp add: is_digit_def)

lemma digits_val_less: "list_all is_digit v \<Longrightarrow> digits_val v < 10 ^ length v"
proof (induction v rule: rev_induct)
  case (snoc c v)
  then have "(of_char c :: nat) - 48 \<le> 9" "digits_val v + 1 \<le> 10 ^ length v"
    by (auto simp: is_digit_iff)
  then show ?case by (simp add: digits_val_def)
qed (simp add: digits_val_def)

lemma DigitsToUint16_of_nat: "list_all is_digit v \<Longrightarrow> DigitsToUint16 v = of_nat (digits_val v)"
proof (induction v rule: rev_induct)
  case (snoc c v)
  then have "48 \<le> (of_char c :: nat)" by (simp add: is_digit_iff)
  then have "(of_nat (of_char c - 48) :: u16) = of_char c - 48"
    by (simp add: of_nat_diff of_nat_of_char)
  with snoc show ?case by (simp add: DigitsToUint16_def digits_val_def)
qed (simp add: DigitsToUint16_def digits_val_def)

lemma digits_val_bound:
  assumes "is_value v"
  shows "digits_val v < 10000"
proof -
  have "(10::nat) ^ length v \<le> 10 ^ 4"
    by (rule power_increasing) (use assms in \<open>auto simp: is_value_def\<close>)
  moreover have "digits_val v < 10 ^ length v"
    using assms by (auto simp: is_value_def intro: digits_val_less)
  ultimately show ?thesis by simp
qed

lemma unat_DigitsToUint16: "is_value v \<Longrightarrow> unat (DigitsToUint16 v) = digits_val v"
  using digits_val_bound [of v] by (auto simp: is_value_def DigitsToUint16_of_nat unat_of_nat)

lemma dec_digits: "list_all is_digit (dec n) \<and> digits_val (dec n) = n"
proof (induction n rule: dec.induct)
  case (1 n)
  have d: "is_digit (char_of (48 + k))" if "k < 10" for k :: nat
    using that by (simp add: is_digit_iff)
  have m: "n mod 10 < 10" by simp
  show ?case
    using 1 d [OF m] d [of n] by (subst (1 2) dec.simps) (simp add: digits_val_def)
qed

lemma dec_nonempty [simp]: "dec n \<noteq> []"
  by (subst dec.simps) simp

lemma is_value_dec:
  assumes "n < 10000"
  shows "is_value (dec n)"
proof -
  have "dec n \<noteq> []" by simp
  then have "1 \<le> length (dec n)" by (simp add: Suc_le_eq)
  then show ?thesis
    using assms dec_digits [of n] length_dec_le [of n 3] by (simp add: is_value_def)
qed

lemma fields_last: "CHR ''&'' \<notin> set f \<Longrightarrow> fields f = [f]"
  by (induction f) auto

lemma fields_field: "CHR ''&'' \<notin> set f \<Longrightarrow> fields (f @ CHR ''&'' # s) = f # fields s"
  by (induction f) auto

lemma dec_no_amp: "CHR ''&'' \<notin> set (dec n)"
  using dec_digits [of n] by (auto simp: list_all_iff is_digit_iff)

subsection \<open>Properties\<close>

text \<open>
  Validation decides exactly the rules, in order, for every input. The result is OK iff the five values are in range and on
  step, both low times are at least 100 ns and bit 0 has strictly the smaller duty cycle, where low times
  and cross products are those of the numbers: the 32-bit products never wrap and the low times may be negative.
  Otherwise the first violated rule gives the result.
\<close>

theorem ValidateWs2812Timing_rules:
  "(ValidateWs2812Timing t = WS2812_TIMING_OK) = valid_timing t \<and>
   (ValidateWs2812Timing t = WS2812_TIMING_OUT_OF_RANGE) = (\<not> valid_ranges t) \<and>
   (ValidateWs2812Timing t = WS2812_TIMING_BAD_COMBINATION) =
     (valid_ranges t \<and> (unat (wt_bit0_period_ns t) < unat (wt_bit0_high_ns t) + 100 \<or>
        unat (wt_bit1_period_ns t) < unat (wt_bit1_high_ns t) + 100)) \<and>
   (ValidateWs2812Timing t = WS2812_TIMING_BAD_DUTY_ORDER) =
     (valid_ranges t \<and> \<not> valid_timing t \<and> unat (wt_bit0_high_ns t) + 100 \<le> unat (wt_bit0_period_ns t) \<and>
        unat (wt_bit1_high_ns t) + 100 \<le> unat (wt_bit1_period_ns t))"
  by (auto simp: ValidateWs2812Timing_cases valid_timing_def)

text \<open>
  Parsing a form, on every body. The five values are those of the first field with each key; the form is accepted iff each of these
  is one to four decimal digits, and then the parsed number is the number written, with no wrap-around. Other fields and their order do
  not matter.
\<close>

theorem ParseTunerForm_spec:
  "ParseTunerForm body =
     (case map (field_value body) [''b0h_ns'', ''b0p_ns'', ''b1h_ns'', ''b1p_ns'', ''rst_us''] of
        [Some a, Some b, Some c, Some d, Some e] \<Rightarrow>
          Some \<lparr>wt_bit0_high_ns = of_nat (digits_val a), wt_bit0_period_ns = of_nat (digits_val b),
            wt_bit1_high_ns = of_nat (digits_val c), wt_bit1_period_ns = of_nat (digits_val d),
            wt_reset_us = of_nat (digits_val e)\<rparr>
      | _ \<Rightarrow> None) \<and>
   (\<forall>key. case field_value body key of None \<Rightarrow> True | Some v \<Rightarrow> digits_val v < 10000)"
proof -
  have v: "is_value x" if "field_value body key = Some x" for key x
    using that by (auto simp: field_value_def Let_def split: option.splits if_splits)
  have d: "DigitsToUint16 x = of_nat (digits_val x)" if "field_value body key = Some x" for key x
    using v [OF that] by (simp add: is_value_def DigitsToUint16_of_nat)
  show ?thesis
    using d v digits_val_bound
    by (auto simp: ParseTunerForm_def ExtractDigitField_spec split: option.splits)
qed

text \<open>The form the tuner page sends, with the five values printed in decimal.\<close>

definition tuner_form :: "ws2812_timing \<Rightarrow> string" where
  "tuner_form t = ''b0h_ns='' @ dec (unat (wt_bit0_high_ns t)) @ ''&b0p_ns='' @ dec (unat (wt_bit0_period_ns t)) @
     ''&b1h_ns='' @ dec (unat (wt_bit1_high_ns t)) @ ''&b1p_ns='' @ dec (unat (wt_bit1_period_ns t)) @
     ''&rst_us='' @ dec (unat (wt_reset_us t))"

lemma fields_tuner_form:
  "fields (tuner_form t) = [''b0h_ns='' @ dec (unat (wt_bit0_high_ns t)), ''b0p_ns='' @ dec (unat (wt_bit0_period_ns t)),
     ''b1h_ns='' @ dec (unat (wt_bit1_high_ns t)), ''b1p_ns='' @ dec (unat (wt_bit1_period_ns t)),
     ''rst_us='' @ dec (unat (wt_reset_us t))]"
proof -
  have f: "fields (pre @ dec n @ CHR ''&'' # s) = (pre @ dec n) # fields s" if "CHR ''&'' \<notin> set pre" for pre n s
    using fields_field [of "pre @ dec n" s] that dec_no_amp [of n] by simp
  have l: "fields (pre @ dec n) = [pre @ dec n]" if "CHR ''&'' \<notin> set pre" for pre n
    using that dec_no_amp [of n] by (intro fields_last) simp
  show ?thesis
    using f [of "''b0h_ns=''"] f [of "''b0p_ns=''"] f [of "''b1h_ns=''"] f [of "''b1p_ns=''"] l [of "''rst_us=''"]
    by (simp add: tuner_form_def del: fields.simps)
qed

text \<open>
  What the tuner page sends is read back: the form with the five values printed in decimal parses to these values, for all
  values of at most four digits, and so for every valid timing set.
\<close>

theorem ParseTunerForm_roundtrip:
  assumes "unat (wt_bit0_high_ns t) < 10000" and "unat (wt_bit0_period_ns t) < 10000"
    and "unat (wt_bit1_high_ns t) < 10000" and "unat (wt_bit1_period_ns t) < 10000" and "unat (wt_reset_us t) < 10000"
  shows "ParseTunerForm (tuner_form t) = Some t"
proof -
  have d: "DigitsToUint16 (dec (unat w)) = w" if "unat w < 10000" for w :: u16
    using dec_digits [of "unat w"] by (simp add: DigitsToUint16_of_nat)
  have v: "field_value (tuner_form t) ''b0h_ns'' = Some (dec (unat (wt_bit0_high_ns t)))"
    "field_value (tuner_form t) ''b0p_ns'' = Some (dec (unat (wt_bit0_period_ns t)))"
    "field_value (tuner_form t) ''b1h_ns'' = Some (dec (unat (wt_bit1_high_ns t)))"
    "field_value (tuner_form t) ''b1p_ns'' = Some (dec (unat (wt_bit1_period_ns t)))"
    "field_value (tuner_form t) ''rst_us'' = Some (dec (unat (wt_reset_us t)))"
    unfolding field_value_def fields_tuner_form
    by (simp_all add: has_key_def assms [THEN is_value_dec])
  show ?thesis
    unfolding ParseTunerForm_def ExtractDigitField_spec v
    by (simp add: assms [THEN d])
qed

theorem ParseTunerForm_roundtrip_witness:
  "ParseTunerForm (tuner_form default_timing) = Some default_timing"
  by (rule ParseTunerForm_roundtrip) (simp_all add: default_timing_def)

end
