(* ===== verification/LedController.thy ===== *)
theory LedController
  imports Ws2812Timing
begin

section \<open>The LED controller: pixel pattern, symbols, frames\<close>

text \<open>
  Model of main/led_controller/led_controller.c and led_controller.h. An RMT symbol has two levels
  and two 15-bit durations. The RMT driver is not part of the repository: the results of
  its calls are arguments (\<open>led_env\<close>), its two encoders are the parameters of
  \<open>EncodeWs2812Frame\<close> with the law \<open>sub_encoder\<close>. \<open>arm\<close> is the pulse monitor's
  \<open>ArmPulseCapture\<close> over its state \<open>'p\<close>.
\<close>

record rmt_symbol =
  rs_level0 :: bool
  rs_duration0 :: "15 word"
  rs_level1 :: bool
  rs_duration1 :: "15 word"

abbreviation (input) LED_CONTROLLER_LED_COUNT :: nat where "LED_CONTROLLER_LED_COUNT \<equiv> 6"
abbreviation (input) LED_CONTROLLER_PIXEL_BYTES :: nat where "LED_CONTROLLER_PIXEL_BYTES \<equiv> 18"
abbreviation (input) LED_CONTROLLER_TICK_NS :: u32 where "LED_CONTROLLER_TICK_NS \<equiv> 25"
definition LED_CONTROLLER_CHANNEL_VALUE :: byte where "LED_CONTROLLER_CHANNEL_VALUE = 32"

record led_request =
  lr_timing :: ws2812_timing
  lr_submit_seq :: u32

record bytes_config =
  bc_bit0 :: rmt_symbol
  bc_bit1 :: rmt_symbol

record led_state =
  ls_channel :: bool
  ls_config :: bytes_config
  ls_reset_symbol :: rmt_symbol
  ls_pixel_grb :: "byte list"
  ls_queue :: "led_request option"
  ls_has_queue :: bool
  ls_is_frame_in_flight :: bool
  ls_is_boot_frame :: bool
  ls_boot_done :: bool

subsection \<open>Pure parts\<close>

definition Ws2812NsToTicks :: "u32 \<Rightarrow> u32 \<Rightarrow> u16" where
  "Ws2812NsToTicks duration_ns tick_ns = ucast ((duration_ns + tick_ns div 2) div tick_ns)"

definition BuildLedPixelPattern :: "byte list" where
  "BuildLedPixelPattern =
     [0, LED_CONTROLLER_CHANNEL_VALUE, 0,
      0, LED_CONTROLLER_CHANNEL_VALUE, 0,
      LED_CONTROLLER_CHANNEL_VALUE, 0, 0,
      LED_CONTROLLER_CHANNEL_VALUE, 0, 0,
      0, 0, LED_CONTROLLER_CHANNEL_VALUE,
      0, 0, LED_CONTROLLER_CHANNEL_VALUE]"

text \<open>
  The difference of two \<open>uint16_t\<close> is an \<open>int\<close> in C, converted to \<open>uint32_t\<close>; for a
  period below the high time it wraps modulo \<open>2 ^ 32\<close>, as the word difference does.
\<close>

definition bit_symbol :: "u16 \<Rightarrow> u16 \<Rightarrow> rmt_symbol" where
  "bit_symbol high_ns period_ns =
     \<lparr>rs_level0 = True, rs_duration0 = ucast (Ws2812NsToTicks (ucast high_ns) LED_CONTROLLER_TICK_NS),
      rs_level1 = False,
      rs_duration1 = ucast (Ws2812NsToTicks (ucast period_ns - ucast high_ns) LED_CONTROLLER_TICK_NS)\<rparr>"

definition BuildBytesEncoderConfig :: "ws2812_timing \<Rightarrow> bytes_config" where
  "BuildBytesEncoderConfig t = \<lparr>bc_bit0 = bit_symbol (wt_bit0_high_ns t) (wt_bit0_period_ns t),
     bc_bit1 = bit_symbol (wt_bit1_high_ns t) (wt_bit1_period_ns t)\<rparr>"

definition BuildResetSymbol :: "ws2812_timing \<Rightarrow> rmt_symbol" where
  "BuildResetSymbol t = \<lparr>rs_level0 = False,
     rs_duration0 = ucast (Ws2812NsToTicks (ucast (wt_reset_us t) * 1000) LED_CONTROLLER_TICK_NS),
     rs_level1 = False, rs_duration1 = 0\<rparr>"

subsection \<open>The frame encoder\<close>

text \<open>
  One call of a sub-encoder: with room for \<open>room\<close> symbols it returns the symbols it wrote and the
  flags \<open>RMT_ENCODING_COMPLETE\<close> and \<open>RMT_ENCODING_MEM_FULL\<close>.
\<close>

record sub_answer =
  sa_symbols :: "rmt_symbol list"
  sa_complete :: bool
  sa_mem_full :: bool

type_synonym 'e sub_encoder = "nat \<Rightarrow> 'e \<Rightarrow> sub_answer \<times> 'e"

text \<open>
  The result is what was written and the two flags of \<open>ret_state\<close>, then the new \<open>state\<close> and the
  states of the sub-encoders.
\<close>

definition EncodeWs2812Frame :: "'b sub_encoder \<Rightarrow> 'c sub_encoder \<Rightarrow> nat \<Rightarrow> nat \<times> 'b \<times> 'c \<Rightarrow>
    sub_answer \<times> nat \<times> 'b \<times> 'c" where
  "EncodeWs2812Frame bytes_encode copy_encode room s =
     (let (state, b, c) = s;
          (first, state, b) =
            (if state = 0
             then let (a, b) = bytes_encode room b in (a, if sa_complete a then 1 else 0, b)
             else (\<lparr>sa_symbols = [], sa_complete = False, sa_mem_full = False\<rparr>, state, b))
      in if sa_mem_full first
         then (\<lparr>sa_symbols = sa_symbols first, sa_complete = False, sa_mem_full = True\<rparr>, state, b, c)
         else if state = 1
         then let (a, c) = copy_encode (room - length (sa_symbols first)) c
              in (\<lparr>sa_symbols = sa_symbols first @ sa_symbols a, sa_complete = sa_complete a, sa_mem_full = sa_mem_full a\<rparr>,
                  if sa_complete a then 0 else state, b, c)
         else (\<lparr>sa_symbols = sa_symbols first, sa_complete = False, sa_mem_full = False\<rparr>, state, b, c))"

text \<open>\<open>rmt_encoder_reset\<close> of both sub-encoders and the state 0.\<close>

definition ResetWs2812Encoder :: "('b \<Rightarrow> 'b) \<Rightarrow> ('c \<Rightarrow> 'c) \<Rightarrow> nat \<times> 'b \<times> 'c \<Rightarrow> nat \<times> 'b \<times> 'c" where
  "ResetWs2812Encoder reset_bytes reset_copy s = (case s of (state, b, c) \<Rightarrow> (0, reset_bytes b, reset_copy c))"

text \<open>Deleting the encoder: which sub-encoders exist, and which of them are deleted, in order.\<close>

datatype sub_encoder_handle = BYTES_ENCODER | COPY_ENCODER

definition DeleteWs2812Encoder :: "bool \<times> bool \<Rightarrow> esp_err \<times> sub_encoder_handle list \<times> bool \<times> bool" where
  "DeleteWs2812Encoder s =
     (let (has_bytes, has_copy) = s;
          deleted = (if has_bytes then [BYTES_ENCODER] else []);
          has_bytes = (if has_bytes then False else has_bytes);
          deleted = deleted @ (if has_copy then [COPY_ENCODER] else []);
          has_copy = (if has_copy then False else has_copy)
      in (ESP_OK, deleted, has_bytes, has_copy))"

lemma DeleteWs2812Encoder_once:
  assumes "DeleteWs2812Encoder s = (err, deleted, s')"
  shows "distinct deleted \<and> DeleteWs2812Encoder s' = (ESP_OK, [], s')"
  using assms by (auto simp: DeleteWs2812Encoder_def Let_def split: prod.splits if_splits)

subsection \<open>Frames and the driver task\<close>

record led_env =
  le_wait_previous :: esp_err
  le_update_config :: esp_err
  le_transmit :: esp_err
  le_wait_done :: esp_err

datatype frame_outcome =
    FRAME_SKIPPED
  | FRAME_ENCODER_FAILED
  | FRAME_BUSY
  | FRAME_TRANSMIT_FAILED
  | FRAME_TIMED_OUT
  | FRAME_DRIVEN

definition InitWs2812Encoder :: "esp_err \<Rightarrow> esp_err \<Rightarrow> ws2812_timing \<Rightarrow> led_state \<Rightarrow> bool \<times> led_state" where
  "InitWs2812Encoder new_bytes new_copy t s =
     (if new_bytes \<noteq> ESP_OK then (False, s)
      else let s = s\<lparr>ls_config := BuildBytesEncoderConfig t\<rparr> in
      if new_copy \<noteq> ESP_OK then (False, s)
      else (True, s\<lparr>ls_reset_symbol := BuildResetSymbol t\<rparr>))"

definition UpdateWs2812Encoder :: "led_env \<Rightarrow> ws2812_timing \<Rightarrow> led_state \<Rightarrow> bool \<times> led_state" where
  "UpdateWs2812Encoder env t s =
     (if le_update_config env \<noteq> ESP_OK then (False, s)
      else (True, s\<lparr>ls_config := BuildBytesEncoderConfig t, ls_reset_symbol := BuildResetSymbol t\<rparr>))"

definition WaitForPreviousFrame :: "led_env \<Rightarrow> led_state \<Rightarrow> bool \<times> led_state" where
  "WaitForPreviousFrame env s =
     (if \<not> ls_is_frame_in_flight s then (True, s)
      else if le_wait_previous env \<noteq> ESP_OK then (False, s)
      else (True, s\<lparr>ls_is_frame_in_flight := False\<rparr>))"

definition DriveFrame :: "(ws2812_timing \<Rightarrow> u32 \<Rightarrow> byte list \<Rightarrow> 'p \<Rightarrow> 'p) \<Rightarrow> led_env \<Rightarrow> ws2812_timing \<Rightarrow> u32 \<Rightarrow>
    led_state \<times> 'p \<Rightarrow> frame_outcome \<times> led_state \<times> 'p" where
  "DriveFrame arm env t submit_seq sp =
     (let (s, p) = sp; (ready, s) = WaitForPreviousFrame env s in
      if \<not> ready then (FRAME_SKIPPED, s, p)
      else let (updated, s) = UpdateWs2812Encoder env t s in
      if \<not> updated then (FRAME_ENCODER_FAILED, s, p)
      else let p = arm t submit_seq (ls_pixel_grb s) p in
      if le_transmit env = ESP_ERR_INVALID_STATE then (FRAME_BUSY, s, p)
      else if le_transmit env \<noteq> ESP_OK then (FRAME_TRANSMIT_FAILED, s, p)
      else if le_wait_done env \<noteq> ESP_OK then (FRAME_TIMED_OUT, s\<lparr>ls_is_frame_in_flight := True\<rparr>, p)
      else (FRAME_DRIVEN, s, p))"

text \<open>One round of \<open>RunLedDriverTask\<close>; with an empty queue the task keeps waiting.\<close>

definition RunLedDriverTask :: "(ws2812_timing \<Rightarrow> u32 \<Rightarrow> byte list \<Rightarrow> 'p \<Rightarrow> 'p) \<Rightarrow> led_env \<Rightarrow>
    led_state \<times> 'p \<Rightarrow> led_state \<times> 'p" where
  "RunLedDriverTask arm env sp = (case sp of (s, p) \<Rightarrow> case ls_queue s of
       None \<Rightarrow> (s, p)
     | Some request \<Rightarrow>
         (case DriveFrame arm env (lr_timing request) (lr_submit_seq request) (s\<lparr>ls_queue := None\<rparr>, p) of
            (_, s, p) \<Rightarrow> (if ls_is_boot_frame s then s\<lparr>ls_is_boot_frame := False, ls_boot_done := True\<rparr> else s, p)))"

definition ApplyWs2812Timing :: "ws2812_timing option \<Rightarrow> u32 \<Rightarrow> led_state \<Rightarrow> led_state" where
  "ApplyWs2812Timing timing submit_seq s =
     (case timing of None \<Rightarrow> s
      | Some t \<Rightarrow> if \<not> ls_has_queue s then s
                  else s\<lparr>ls_queue := Some \<lparr>lr_timing = t, lr_submit_seq = submit_seq\<rparr>\<rparr>)"

record led_start_env =
  se_new_channel :: esp_err
  se_new_bytes :: esp_err
  se_new_copy :: esp_err
  se_enable :: esp_err
  se_task :: bool

text \<open>
  \<open>StartLedController\<close> up to the queueing of the boot frame; the bounded wait for it only logs.
\<close>

definition StartLedController :: "led_start_env \<Rightarrow> led_state \<Rightarrow> bool \<times> led_state" where
  "StartLedController env s =
     (let s = s\<lparr>ls_pixel_grb := BuildLedPixelPattern\<rparr> in
      if se_new_channel env \<noteq> ESP_OK then (False, s\<lparr>ls_channel := False\<rparr>)
      else let s = s\<lparr>ls_channel := True\<rparr>;
               (is_ok, s) = InitWs2812Encoder (se_new_bytes env) (se_new_copy env) default_timing s in
      if \<not> is_ok then (False, s\<lparr>ls_channel := False\<rparr>)
      else if se_enable env \<noteq> ESP_OK then (False, s\<lparr>ls_channel := False\<rparr>)
      else let s = s\<lparr>ls_has_queue := True, ls_queue := None, ls_boot_done := False\<rparr> in
      if \<not> se_task env then (False, s\<lparr>ls_channel := False\<rparr>)
      else (True, ApplyWs2812Timing (Some default_timing) 0 (s\<lparr>ls_is_boot_frame := True\<rparr>)))"

subsection \<open>Ticks of valid timing sets\<close>

lemma unat_ticks:
  assumes "unat d = 25 * k" "k < 2 ^ 16"
  shows "unat (Ws2812NsToTicks d 25) = k"
proof -
  have half: "(25 :: u32) div 2 = 12" by simp
  have "unat (d + 12) = 25 * k + 12"
    using assms by (simp add: unat_word_ariths)
  then have "unat ((d + 12) div 25) = (25 * k + 12) div 25"
    by (simp add: unat_div_distrib)
  also have "\<dots> = k" by simp
  finally show ?thesis
    using assms(2) unfolding Ws2812NsToTicks_def half
    by (simp add: unsigned_ucast_eq take_bit_nat_eq_self)
qed

lemma unat_ucast_u16: "unat (ucast (w :: u16) :: u32) = unat w"
proof -
  have "unat w < 2 ^ 16" using unsigned_less [where 'a = nat and w = w] by simp
  then show ?thesis by (simp add: unsigned_ucast_eq take_bit_nat_eq_self)
qed

lemma symbol_ticks:
  assumes "unat d = 25 * k" "k < 2 ^ 15"
  shows "unat (ucast (Ws2812NsToTicks d 25) :: 15 word) = k"
  using assms unat_ticks [OF assms(1)] by (simp add: unsigned_ucast_eq take_bit_nat_eq_self)

definition exact_symbol :: "rmt_symbol \<Rightarrow> nat \<Rightarrow> nat \<Rightarrow> bool" where
  "exact_symbol s high low \<longleftrightarrow> rs_level0 s \<and> \<not> rs_level1 s \<and>
     25 * unat (rs_duration0 s) = high \<and> 25 * unat (rs_duration1 s) = low \<and>
     0 < unat (rs_duration0 s) \<and> 0 < unat (rs_duration1 s)"

lemma bit_symbol_exact:
  assumes "on_step (unat high) 100 1200 25" "on_step (unat period) 800 2000 25" "unat high + 100 \<le> unat period"
  shows "exact_symbol (bit_symbol high period) (unat high) (unat period - unat high)"
proof -
  obtain h where h: "unat high = 25 * h" using assms(1) by (auto simp: on_step_def)
  obtain p where p: "unat period = 25 * p" using assms(2) by (auto simp: on_step_def)
  have b: "4 \<le> h" "h + 4 \<le> p" "p \<le> 80" using assms h p by (auto simp: on_step_def)
  have d0: "unat (ucast high :: u32) = 25 * h" by (simp add: unat_ucast_u16 h)
  have "(ucast high :: u32) \<le> ucast period" using b by (simp add: word_le_nat_alt unat_ucast_u16 h p)
  then have d1: "unat (ucast period - ucast high :: u32) = 25 * (p - h)"
    by (simp add: unat_sub unat_ucast_u16 h p diff_mult_distrib2)
  show ?thesis
    using symbol_ticks [OF d0] symbol_ticks [OF d1] b h p
    by (simp add: exact_symbol_def bit_symbol_def diff_mult_distrib2)
qed

lemma reset_symbol_exact:
  assumes "on_step (unat (wt_reset_us t)) 50 800 10"
  shows "25 * unat (rs_duration0 (BuildResetSymbol t)) = 1000 * unat (wt_reset_us t)"
proof -
  have r: "unat (wt_reset_us t) \<le> 800" using assms by (simp add: on_step_def)
  have "unat ((ucast (wt_reset_us t) :: u32) * 1000) = 25 * (40 * unat (wt_reset_us t))"
    using r by (simp add: unat_word_ariths unat_ucast_u16)
  then show ?thesis using r symbol_ticks [of _ "40 * unat (wt_reset_us t)"] by (simp add: BuildResetSymbol_def)
qed

subsection \<open>Encoding sessions\<close>

text \<open>
  The documented behaviour of a sub-encoder with \<open>rest\<close> still to write: it writes what fits, is complete when
  everything is written, and reports a full memory when it is not.
\<close>

definition sub_encoder :: "'e sub_encoder \<Rightarrow> ('e \<Rightarrow> rmt_symbol list) \<Rightarrow> bool" where
  "sub_encoder enc rest \<longleftrightarrow> (\<forall>room e. case enc room e of (a, e') \<Rightarrow>
     sa_symbols a = take room (rest e) \<and> rest e' = drop room (rest e) \<and>
     sa_complete a = (length (rest e) \<le> room) \<and> (sa_complete a \<or> sa_mem_full a))"

text \<open>
  The driver calls the encoder each time channel memory is free, until it reports that the
  frame is complete: \<open>rooms\<close> is the room of each call.
\<close>

fun encode_session :: "'b sub_encoder \<Rightarrow> 'c sub_encoder \<Rightarrow> nat list \<Rightarrow> nat \<times> 'b \<times> 'c \<Rightarrow> (rmt_symbol list \<times> bool) \<times> nat \<times> 'b \<times> 'c" where
  "encode_session be ce [] s = (([], False), s)"
| "encode_session be ce (room # rooms) s =
     (let (a, s) = EncodeWs2812Frame be ce room s in
      if sa_complete a then ((sa_symbols a, True), s)
      else let ((symbols, done), s) = encode_session be ce rooms s in ((sa_symbols a @ symbols, done), s))"

definition data_symbols :: "bytes_config \<Rightarrow> byte list \<Rightarrow> rmt_symbol list" where
  "data_symbols cfg pixels = concat (map (\<lambda>b. map (\<lambda>i. if bit b i then bc_bit1 cfg else bc_bit0 cfg) (rev [0..<8])) pixels)"

definition frame_rest :: "('b \<Rightarrow> rmt_symbol list) \<Rightarrow> ('c \<Rightarrow> rmt_symbol list) \<Rightarrow> nat \<times> 'b \<times> 'c \<Rightarrow> rmt_symbol list" where
  "frame_rest restb restc s = (case s of (state, b, c) \<Rightarrow> (if state = 0 then restb b else []) @ restc c)"

definition frame_ok :: "('b \<Rightarrow> rmt_symbol list) \<Rightarrow> ('c \<Rightarrow> rmt_symbol list) \<Rightarrow> nat \<times> 'b \<times> 'c \<Rightarrow> bool" where
  "frame_ok restb restc s \<longleftrightarrow> (case s of (state, b, c) \<Rightarrow> (state = 0 \<and> restb b \<noteq> [] \<or> state = 1 \<and> restb b = []) \<and> length (restc c) = 1)"

text \<open>One call writes a non-empty prefix of what is left, and all of it when it reports completion.\<close>

lemma EncodeWs2812Frame_step:
  assumes be: "sub_encoder be restb" and ce: "sub_encoder ce restc" and ok: "frame_ok restb restc s" and room: "0 < room"
    and enc: "EncodeWs2812Frame be ce room s = (a, s')"
  shows "if sa_complete a then sa_symbols a = frame_rest restb restc s \<and> fst s' = 0
    else \<exists>n. 0 < n \<and> n \<le> length (frame_rest restb restc s) \<and> sa_symbols a = take n (frame_rest restb restc s) \<and>
      frame_rest restb restc s' = drop n (frame_rest restb restc s) \<and> frame_ok restb restc s'"
proof -
  obtain state b c where s: "s = (state, b, c)" by (cases s)
  obtain ab b' where b: "be room b = (ab, b')" by (metis prod.exhaust)
  note lb = be [unfolded sub_encoder_def, rule_format, of room b, unfolded b split_conv]
  define k where "k = (if state = 0 then length (restb b) else 0)"
  obtain ac c' where c: "ce (room - k) c = (ac, c')" by (metis prod.exhaust)
  note lc = ce [unfolded sub_encoder_def, rule_format, of "room - k" c, unfolded c split_conv]
  have one: "length (restc c) = 1" using ok s by (simp add: frame_ok_def)
  show ?thesis
  proof (cases "state = 0")
    case True
    then have ne: "restb b \<noteq> []" using ok s by (auto simp: frame_ok_def)
    have k: "k = length (restb b)" using True by (simp add: k_def)
    consider "\<not> sa_complete ab" | "sa_complete ab" "sa_mem_full ab" | "sa_complete ab" "\<not> sa_mem_full ab" by blast
    then show ?thesis
    proof cases
      case 1
      then have a: "a = \<lparr>sa_symbols = take room (restb b), sa_complete = False, sa_mem_full = True\<rparr>" "s' = (0, b', c)"
        using enc s b lb True by (auto simp: EncodeWs2812Frame_def)
      have "room < length (restb b)" using 1 lb by auto
      then show ?thesis using a room lb one s True
        by (intro if_not_P [THEN iffD2] exI [of _ room]) (auto simp: frame_rest_def frame_ok_def)
    next
      case 2
      then have a: "a = \<lparr>sa_symbols = restb b, sa_complete = False, sa_mem_full = True\<rparr>" "s' = (1, b', c)"
        using enc s b lb True by (auto simp: EncodeWs2812Frame_def)
      then show ?thesis using lb one ne s True 2
        by (intro if_not_P [THEN iffD2] exI [of _ "length (restb b)"]) (auto simp: frame_rest_def frame_ok_def)
    next
      case 3
      then have l: "sa_symbols ab = restb b" "restb b' = []" using lb by auto
      have e: "a = \<lparr>sa_symbols = restb b @ sa_symbols ac, sa_complete = sa_complete ac, sa_mem_full = sa_mem_full ac\<rparr>"
        "s' = (if sa_complete ac then 0 else 1, b', c')"
        using enc s b l True 3 c k by (auto simp: EncodeWs2812Frame_def)
      show ?thesis
      proof (cases "sa_complete ac")
        case True
        then show ?thesis using e lc s \<open>state = 0\<close> by (simp add: frame_rest_def)
      next
        case False
        then have "room - k = 0" using lc one by auto
        then have "sa_symbols ac = []" "restc c' = restc c" using lc by auto
        then show ?thesis using e l one ne s \<open>state = 0\<close> False
          by (intro if_not_P [THEN iffD2] exI [of _ "length (restb b)"]) (auto simp: frame_rest_def frame_ok_def)
      qed
    qed
  next
    case False
    then have st: "state = 1" "k = 0" using ok s by (auto simp: frame_ok_def k_def)
    have "a = \<lparr>sa_symbols = sa_symbols ac, sa_complete = sa_complete ac, sa_mem_full = sa_mem_full ac\<rparr>"
      "s' = (if sa_complete ac then 0 else 1, b, c')"
      using enc s st c by (auto simp: EncodeWs2812Frame_def)
    moreover have "sa_complete ac" "sa_symbols ac = restc c" using lc one room st by auto
    ultimately show ?thesis using s st by (simp add: frame_rest_def)
  qed
qed

lemma encode_session_complete:
  assumes "sub_encoder be restb" "sub_encoder ce restc"
  shows "frame_ok restb restc s \<Longrightarrow> list_all (\<lambda>room. 0 < room) rooms \<Longrightarrow>
    length (frame_rest restb restc s) \<le> length rooms \<Longrightarrow>
    fst (encode_session be ce rooms s) = (frame_rest restb restc s, True) \<and>
    fst (snd (encode_session be ce rooms s)) = 0"
proof (induction rooms arbitrary: s)
  case Nil
  then have "frame_rest restb restc s = []" by simp
  then have False using Nil(1) by (auto simp: frame_rest_def frame_ok_def split: prod.splits)
  then show ?case ..
next
  case (Cons room rooms)
  obtain a s' where e: "EncodeWs2812Frame be ce room s = (a, s')" by (metis prod.exhaust)
  have "0 < room" using Cons(3) by simp
  note step = EncodeWs2812Frame_step [OF assms Cons(2) this e]
  show ?case
  proof (cases "sa_complete a")
    case True
    then show ?thesis using e step by (simp add: Let_def)
  next
    case False
    with step obtain n where n: "0 < n" "n \<le> length (frame_rest restb restc s)" "sa_symbols a = take n (frame_rest restb restc s)"
      "frame_rest restb restc s' = drop n (frame_rest restb restc s)" "frame_ok restb restc s'" by auto
    then have "length (frame_rest restb restc s') \<le> length rooms" using Cons(4) by auto
    from Cons.IH [OF n(5) _ this] Cons(3) have "fst (encode_session be ce rooms s') = (frame_rest restb restc s', True)"
      "fst (snd (encode_session be ce rooms s')) = 0" by auto
    then show ?thesis using e False n(3,4) by (auto simp: Let_def split: prod.splits)
  qed
qed

lemma length_data_symbols: "length (data_symbols cfg pixels) = 8 * length pixels"
  by (induction pixels) (simp_all add: data_symbols_def)

subsection \<open>Properties\<close>

text \<open>
  A valid timing set is reproduced exactly. For every timing set that passes validation the two bit symbols are high
  then low for exactly the commanded high time and the rest of the period, in ticks of 25 ns, with no
  rounding, no truncation to the 15-bit fields and no zero duration (the RMT end marker), and the reset symbol
  lasts exactly the reset time.
\<close>

theorem valid_timing_symbols_exact:
  assumes "ValidateWs2812Timing t = WS2812_TIMING_OK"
  shows "exact_symbol (bc_bit0 (BuildBytesEncoderConfig t)) (unat (wt_bit0_high_ns t))
      (unat (wt_bit0_period_ns t) - unat (wt_bit0_high_ns t)) \<and>
    exact_symbol (bc_bit1 (BuildBytesEncoderConfig t)) (unat (wt_bit1_high_ns t))
      (unat (wt_bit1_period_ns t) - unat (wt_bit1_high_ns t)) \<and>
    25 * unat (rs_duration0 (BuildResetSymbol t)) = 1000 * unat (wt_reset_us t)"
  using assms unfolding ValidateWs2812Timing_OK
  by (simp add: valid_timing_def valid_ranges_def BuildBytesEncoderConfig_def bit_symbol_exact reset_symbol_exact)

lemma default_timing_valid: "ValidateWs2812Timing default_timing = WS2812_TIMING_OK"
  unfolding ValidateWs2812Timing_OK by (simp add: valid_timing_def valid_ranges_def on_step_def default_timing_def)

theorem valid_timing_symbols_exact_witness:
  "exact_symbol (bc_bit0 (BuildBytesEncoderConfig default_timing)) 400 850"
  using valid_timing_symbols_exact [OF default_timing_valid] by (simp add: default_timing_def)

text \<open>
  C25: a frame on the wire is the pixel bits followed by one reset symbol, however the channel memory is refilled. If the two
  sub-encoders behave as documented and every call has room for at least one symbol, then the session completes within one call per
  symbol, has written exactly the data symbols, most significant bit first, and the reset symbol, and leaves the encoder ready
  for the next frame. For the pixel pattern these are 144 data symbols.
\<close>

theorem frame_encoding:
  assumes "sub_encoder be restb" and "sub_encoder ce restc"
    and "restb b = data_symbols cfg pixels" and "pixels \<noteq> []" and "restc c = [reset]"
    and "list_all (\<lambda>room. 0 < room) rooms" and "8 * length pixels + 1 \<le> length rooms"
  shows "fst (encode_session be ce rooms (0, b, c)) = (data_symbols cfg pixels @ [reset], True) \<and>
    fst (snd (encode_session be ce rooms (0, b, c))) = 0 \<and> length (data_symbols cfg BuildLedPixelPattern) = 144"
proof -
  have "data_symbols cfg pixels \<noteq> []"
    using assms(4) length_data_symbols [of cfg pixels] by auto
  then have "frame_ok restb restc (0, b, c)" using assms(3,5) by (simp add: frame_ok_def)
  moreover have "frame_rest restb restc (0, b, c) = data_symbols cfg pixels @ [reset]"
    using assms(3,5) by (simp add: frame_rest_def)
  ultimately show ?thesis
    using encode_session_complete [OF assms(1,2), of "(0, b, c)" rooms] assms(6,7)
    by (simp add: length_data_symbols BuildLedPixelPattern_def)
qed

definition list_encoder :: "rmt_symbol list sub_encoder" where
  "list_encoder room xs = (\<lparr>sa_symbols = take room xs, sa_complete = (length xs \<le> room),
     sa_mem_full = (room \<le> length xs)\<rparr>, drop room xs)"

lemma list_encoder_law: "sub_encoder list_encoder (\<lambda>xs. xs)"
  by (auto simp: sub_encoder_def list_encoder_def)

theorem frame_encoding_witness:
  "fst (encode_session list_encoder list_encoder (replicate 145 24)
     (0, data_symbols (BuildBytesEncoderConfig default_timing) BuildLedPixelPattern, [BuildResetSymbol default_timing])) =
   (data_symbols (BuildBytesEncoderConfig default_timing) BuildLedPixelPattern @ [BuildResetSymbol default_timing], True)"
  using frame_encoding [OF list_encoder_law list_encoder_law refl _ refl, of BuildLedPixelPattern "replicate 145 24"]
  by (simp add: BuildLedPixelPattern_def list_all_iff)

text \<open>
  The driver never touches the encoder while an earlier frame may still be encoding. While a frame is in flight and has not
  finished, a new frame is skipped and neither the encoder nor the pulse monitor nor the flag changes. A frame that is handed to the
  channel was preceded by exactly one arming of the pulse monitor with its timing, number and pixels, and by the
  encoder update for its timing; the flag is set afterwards iff its completion timed out.
\<close>

theorem DriveFrame_safe:
  "case DriveFrame arm env t seq (s, p) of (out, s', p') \<Rightarrow>
     (out = FRAME_SKIPPED) = (ls_is_frame_in_flight s \<and> le_wait_previous env \<noteq> ESP_OK) \<and>
     (if out = FRAME_SKIPPED then s' = s \<and> p' = p
      else ls_is_frame_in_flight s' = (out = FRAME_TIMED_OUT) \<and>
        (if out = FRAME_ENCODER_FAILED then p' = p \<and> ls_config s' = ls_config s
         else p' = arm t seq (ls_pixel_grb s) p \<and> ls_config s' = BuildBytesEncoderConfig t \<and>
           ls_reset_symbol s' = BuildResetSymbol t))"
  by (simp add: DriveFrame_def WaitForPreviousFrame_def UpdateWs2812Encoder_def Let_def)

text \<open>
  The last request wins. However many timing sets are applied before the driver task runs, its next round drives exactly the last
  of them and empties the queue; applying one never changes anything but the queue.
\<close>

theorem last_timing_wins:
  assumes "ls_has_queue s" and "reqs \<noteq> []"
  shows "let s1 = foldl (\<lambda>s (t, seq). ApplyWs2812Timing (Some t) seq s) s reqs in
    s1 = s\<lparr>ls_queue := Some \<lparr>lr_timing = fst (last reqs), lr_submit_seq = snd (last reqs)\<rparr>\<rparr> \<and>
    ls_queue (fst (RunLedDriverTask arm env (s1, p))) = None \<and>
    snd (RunLedDriverTask arm env (s1, p)) =
      snd (snd (DriveFrame arm env (fst (last reqs)) (snd (last reqs)) (s\<lparr>ls_queue := None\<rparr>, p)))"
proof -
  have 1: "foldl (\<lambda>s (t, seq). ApplyWs2812Timing (Some t) seq s) s reqs =
      s\<lparr>ls_queue := Some \<lparr>lr_timing = fst (last reqs), lr_submit_seq = snd (last reqs)\<rparr>\<rparr>"
    using assms(2)
  proof (induction reqs rule: rev_induct)
    case (snoc r rs)
    then show ?case using assms(1)
      by (cases "rs = []") (auto simp: ApplyWs2812Timing_def split: prod.splits)
  qed simp
  have "ls_queue s' = ls_queue s1" if "DriveFrame arm env t seq (s1, p) = (out, s', p')" for t seq s1 out s' p'
    using that by (auto simp: DriveFrame_def WaitForPreviousFrame_def UpdateWs2812Encoder_def Let_def split: if_splits)
  then show ?thesis
    unfolding 1 Let_def by (auto simp: RunLedDriverTask_def split: prod.splits)
qed

theorem last_timing_wins_witness:
  "snd (RunLedDriverTask (\<lambda>t seq px n. n + unat seq) \<lparr>le_wait_previous = ESP_OK, le_update_config = ESP_OK, le_transmit = ESP_OK, le_wait_done = ESP_OK\<rparr>
     (foldl (\<lambda>s (t, seq). ApplyWs2812Timing (Some t) seq s)
       \<lparr>ls_channel = True, ls_config = BuildBytesEncoderConfig default_timing, ls_reset_symbol = BuildResetSymbol default_timing,
        ls_pixel_grb = BuildLedPixelPattern, ls_queue = None, ls_has_queue = True, ls_is_frame_in_flight = False,
        ls_is_boot_frame = False, ls_boot_done = True\<rparr> [(default_timing, 1), (default_timing, 7)], 0)) = (7 :: nat)"
  by (subst last_timing_wins [unfolded Let_def, THEN conjunct2, THEN conjunct2])
    (simp_all add: DriveFrame_def WaitForPreviousFrame_def UpdateWs2812Encoder_def)

end
