(* ===== verification/RmtPulseMonitor.thy ===== *)
theory RmtPulseMonitor
  imports LedController
begin

section \<open>The pulse monitor: decoding and measuring captures\<close>

text \<open>
  Model of the pure part of main/rmt_pulse_monitor/rmt_pulse_monitor.c (the capture pairing of its two
  tasks and the interrupt is in theory PulseCapture). A capture buffer is the list of its symbols;
  the pointer arguments the callers never pass as NULL are plain arguments. The local
  variables of the bit-0 and of the bit-1 branch of \<open>AggregateWs2812Pulses\<close> are the two records
  \<open>pulse_class\<close>: the two branches of the source are the same code on either set.
\<close>

abbreviation (input) RMT_PULSE_MONITOR_TICK_NS :: u32 where "RMT_PULSE_MONITOR_TICK_NS \<equiv> 25"
abbreviation (input) RMT_PULSE_MONITOR_DATA_SYMBOLS :: nat where "RMT_PULSE_MONITOR_DATA_SYMBOLS \<equiv> 144"
abbreviation (input) RMT_PULSE_MONITOR_SYMBOL_CAPACITY :: nat where "RMT_PULSE_MONITOR_SYMBOL_CAPACITY \<equiv> 144"
abbreviation (input) RMT_PULSE_MONITOR_EXPECTED_PIXEL_MAX_BYTES :: nat where "RMT_PULSE_MONITOR_EXPECTED_PIXEL_MAX_BYTES \<equiv> 18"
abbreviation (input) RMT_PULSE_MONITOR_READ_MIN_BITS :: u32 where "RMT_PULSE_MONITOR_READ_MIN_BITS \<equiv> 8"
abbreviation (input) RMT_PULSE_MONITOR_READ_SPLIT_MIN_NS :: u32 where "RMT_PULSE_MONITOR_READ_SPLIT_MIN_NS \<equiv> 100"
abbreviation (input) RMT_PULSE_MONITOR_READ_SINGLE_SPLIT_NS :: u32 where "RMT_PULSE_MONITOR_READ_SINGLE_SPLIT_NS \<equiv> 625"
abbreviation (input) UINT32_MAX :: u32 where "UINT32_MAX \<equiv> 0xFFFFFFFF"

datatype ws2812_symbol_class = WS2812_SYMBOL_BIT0 | WS2812_SYMBOL_BIT1 | WS2812_SYMBOL_INVALID

definition Ws2812TicksToNs :: "u32 \<Rightarrow> u32 \<Rightarrow> u32" where
  "Ws2812TicksToNs ticks tick_ns = ticks * tick_ns"

definition DecodeWs2812Symbol :: "rmt_symbol \<Rightarrow> u32 \<Rightarrow> u32 \<Rightarrow> u32 \<Rightarrow> ws2812_symbol_class" where
  "DecodeWs2812Symbol symbol bit0_high_ns bit1_high_ns tick_ns =
     (if \<not> rs_level0 symbol then WS2812_SYMBOL_INVALID
      else let high_ns = Ws2812TicksToNs (ucast (rs_duration0 symbol)) tick_ns;
               bit0_distance_ns = (if bit0_high_ns < high_ns then high_ns - bit0_high_ns else bit0_high_ns - high_ns);
               bit1_distance_ns = (if bit1_high_ns < high_ns then high_ns - bit1_high_ns else bit1_high_ns - high_ns)
           in if bit0_distance_ns \<le> bit1_distance_ns then WS2812_SYMBOL_BIT0 else WS2812_SYMBOL_BIT1)"

subsection \<open>A full capture\<close>

record ws2812_pulse_stats =
  st_bit0_first_high_ns :: u32
  st_bit0_first_low_ns :: u32
  st_bit1_first_high_ns :: u32
  st_bit1_first_low_ns :: u32
  st_bit0_high_min_ns :: u32
  st_bit0_high_max_ns :: u32
  st_bit0_high_avg_ns :: u32
  st_bit1_high_min_ns :: u32
  st_bit1_high_max_ns :: u32
  st_bit1_high_avg_ns :: u32
  st_match_count :: u32
  st_match_available :: bool

record pulse_class =
  pc_has_example :: bool
  pc_first_high :: u32
  pc_first_low :: u32
  pc_sum :: u64
  pc_count :: u32
  pc_min :: u32
  pc_max :: u32

definition empty_class :: pulse_class where
  "empty_class = \<lparr>pc_has_example = False, pc_first_high = 0, pc_first_low = 0, pc_sum = 0, pc_count = 0,
     pc_min = UINT32_MAX, pc_max = 0\<rparr>"

definition add_pulse :: "u32 \<Rightarrow> u32 \<Rightarrow> bool \<Rightarrow> pulse_class \<Rightarrow> pulse_class" where
  "add_pulse high_ns low_ns has_low_time c =
     (let c = (if \<not> pc_has_example c \<and> has_low_time
               then c\<lparr>pc_first_high := high_ns, pc_first_low := low_ns, pc_has_example := True\<rparr> else c);
          c = c\<lparr>pc_sum := pc_sum c + ucast high_ns, pc_count := pc_count c + 1\<rparr>;
          c = (if high_ns < pc_min c then c\<lparr>pc_min := high_ns\<rparr> else c)
      in if pc_max c < high_ns then c\<lparr>pc_max := high_ns\<rparr> else c)"

definition class_avg :: "pulse_class \<Rightarrow> u32" where
  "class_avg c = (if 0 < pc_count c then ucast ((pc_sum c + ucast (pc_count c div 2)) div ucast (pc_count c)) else 0)"

definition class_min :: "pulse_class \<Rightarrow> u32" where
  "class_min c = (if 0 < pc_count c then pc_min c else 0)"

text \<open>The bit of the transmitted pattern at a symbol's place; bytes past the end count as 0.\<close>

definition expected_bit :: "byte list \<Rightarrow> nat \<Rightarrow> nat \<Rightarrow> bool" where
  "expected_bit pixel_grb pixel_len index = (index div 8 < pixel_len \<and> bit (pixel_grb ! (index div 8)) (7 - index mod 8))"

text \<open>The body of the loop: the classes of bit 0 and of bit 1 and the match count.\<close>

definition aggregate_step :: "rmt_symbol list \<Rightarrow> ws2812_timing \<Rightarrow> byte list \<Rightarrow> nat \<Rightarrow> u32 \<Rightarrow> bool \<Rightarrow>
    pulse_class \<times> pulse_class \<times> u32 \<Rightarrow> nat \<Rightarrow> pulse_class \<times> pulse_class \<times> u32" where
  "aggregate_step symbols t pixel_grb pixel_len tick_ns match_available acc index =
     (let (bit0, bit1, match_count) = acc;
          symbol = symbols ! index;
          symbol_class = DecodeWs2812Symbol symbol (ucast (wt_bit0_high_ns t)) (ucast (wt_bit1_high_ns t)) tick_ns;
          expected = expected_bit pixel_grb pixel_len index
      in if symbol_class = WS2812_SYMBOL_INVALID then (bit0, bit1, match_count)
         else let high_ns = Ws2812TicksToNs (ucast (rs_duration0 symbol)) tick_ns;
                  low_ns = Ws2812TicksToNs (ucast (rs_duration1 symbol)) tick_ns;
                  has_low_time = index + 1 < RMT_PULSE_MONITOR_DATA_SYMBOLS;
                  decoded_bit = (symbol_class = WS2812_SYMBOL_BIT1);
                  match_count = (if match_available \<and> decoded_bit = expected then match_count + 1 else match_count);
                  stats_bit = (if match_available then decoded_bit else expected)
              in if \<not> stats_bit then (add_pulse high_ns low_ns has_low_time bit0, bit1, match_count)
                 else (bit0, add_pulse high_ns low_ns has_low_time bit1, match_count))"

definition AggregateWs2812Pulses :: "rmt_symbol list \<Rightarrow> nat \<Rightarrow> ws2812_timing \<Rightarrow> byte list \<Rightarrow> nat \<Rightarrow> u32 \<Rightarrow>
    ws2812_pulse_stats option" where
  "AggregateWs2812Pulses symbols symbol_count t pixel_grb pixel_len tick_ns =
     (if symbol_count \<noteq> RMT_PULSE_MONITOR_DATA_SYMBOLS then None
      else let match_available = (wt_bit0_high_ns t \<noteq> wt_bit1_high_ns t);
               (bit0, bit1, match_count) =
                 foldl (aggregate_step symbols t pixel_grb pixel_len tick_ns match_available)
                   (empty_class, empty_class, 0) [0..<RMT_PULSE_MONITOR_DATA_SYMBOLS]
           in Some \<lparr>st_bit0_first_high_ns = pc_first_high bit0, st_bit0_first_low_ns = pc_first_low bit0,
                st_bit1_first_high_ns = pc_first_high bit1, st_bit1_first_low_ns = pc_first_low bit1,
                st_bit0_high_min_ns = class_min bit0, st_bit0_high_max_ns = pc_max bit0, st_bit0_high_avg_ns = class_avg bit0,
                st_bit1_high_min_ns = class_min bit1, st_bit1_high_max_ns = pc_max bit1, st_bit1_high_avg_ns = class_avg bit1,
                st_match_count = match_count, st_match_available = match_available\<rparr>)"

subsection \<open>A read capture\<close>

record ws2812_read_stats =
  rd_usable_count :: u32
  rd_bit0_count :: u32
  rd_bit0_high_avg_ns :: u32
  rd_bit0_period_avg_ns :: u32
  rd_bit1_count :: u32
  rd_bit1_high_avg_ns :: u32
  rd_bit1_period_avg_ns :: u32

definition IsReadSymbolUsable :: "rmt_symbol \<Rightarrow> nat \<Rightarrow> nat \<Rightarrow> bool" where
  "IsReadSymbolUsable symbol index symbol_count \<longleftrightarrow> index + 1 < symbol_count \<and> rs_level0 symbol \<and> \<not> rs_level1 symbol \<and>
     0 < rs_duration0 symbol \<and> 0 < rs_duration1 symbol"

definition GetRoundedAverage :: "u32 \<Rightarrow> u32 \<Rightarrow> u32" where
  "GetRoundedAverage acc count = (if 0 < count then (acc + count div 2) div count else 0)"

definition high_ns_of :: "u32 \<Rightarrow> rmt_symbol \<Rightarrow> u32" where
  "high_ns_of tick_ns symbol = Ws2812TicksToNs (ucast (rs_duration0 symbol)) tick_ns"

definition period_ns_of :: "u32 \<Rightarrow> rmt_symbol \<Rightarrow> u32" where
  "period_ns_of tick_ns symbol = Ws2812TicksToNs (ucast (rs_duration0 symbol) + ucast (rs_duration1 symbol)) tick_ns"

text \<open>The first loop: shortest and longest high time and the number of usable symbols.\<close>

definition read_range_step :: "rmt_symbol list \<Rightarrow> nat \<Rightarrow> u32 \<Rightarrow> u32 \<times> u32 \<times> u32 \<Rightarrow> nat \<Rightarrow> u32 \<times> u32 \<times> u32" where
  "read_range_step symbols symbol_count tick_ns acc index =
     (let (min_ns, max_ns, usable) = acc in
      if \<not> IsReadSymbolUsable (symbols ! index) index symbol_count then acc
      else let high_ns = high_ns_of tick_ns (symbols ! index)
           in (if high_ns < min_ns then high_ns else min_ns, if max_ns < high_ns then high_ns else max_ns, usable + 1))"

text \<open>The second loop: for each class the sums of high times and periods and the count.\<close>

definition read_sum_step :: "rmt_symbol list \<Rightarrow> nat \<Rightarrow> u32 \<Rightarrow> (u32 \<Rightarrow> bool) \<Rightarrow> (u32 \<times> u32 \<times> u32) \<times> (u32 \<times> u32 \<times> u32) \<Rightarrow> nat \<Rightarrow>
    (u32 \<times> u32 \<times> u32) \<times> (u32 \<times> u32 \<times> u32)" where
  "read_sum_step symbols symbol_count tick_ns is_bit0 acc index =
     (let ((h0, p0, n0), (h1, p1, n1)) = acc; symbol = symbols ! index in
      if \<not> IsReadSymbolUsable symbol index symbol_count then acc
      else let high_ns = high_ns_of tick_ns symbol; period_ns = period_ns_of tick_ns symbol
           in if is_bit0 high_ns then ((h0 + high_ns, p0 + period_ns, n0 + 1), (h1, p1, n1))
              else ((h0, p0, n0), (h1 + high_ns, p1 + period_ns, n1 + 1)))"

definition zero_read_stats :: ws2812_read_stats where
  "zero_read_stats = \<lparr>rd_usable_count = 0, rd_bit0_count = 0, rd_bit0_high_avg_ns = 0, rd_bit0_period_avg_ns = 0,
     rd_bit1_count = 0, rd_bit1_high_avg_ns = 0, rd_bit1_period_avg_ns = 0\<rparr>"

definition read_is_bit0 :: "u32 \<Rightarrow> u32 \<Rightarrow> u32 \<Rightarrow> bool" where
  "read_is_bit0 min_ns max_ns high_ns =
     (let is_split = RMT_PULSE_MONITOR_READ_SPLIT_MIN_NS \<le> max_ns - min_ns;
          is_single_bit0 = min_ns + max_ns \<le> 2 * RMT_PULSE_MONITOR_READ_SINGLE_SPLIT_NS
      in if is_split then 2 * high_ns \<le> min_ns + max_ns else is_single_bit0)"

definition AnalyzeWs2812Read :: "rmt_symbol list \<Rightarrow> nat \<Rightarrow> u32 \<Rightarrow> bool \<times> ws2812_read_stats" where
  "AnalyzeWs2812Read symbols symbol_count tick_ns =
     (let (min_ns, max_ns, usable) = foldl (read_range_step symbols symbol_count tick_ns) (UINT32_MAX, 0, 0) [0..<symbol_count]
      in if usable = 0 then (False, zero_read_stats)
         else let ((h0, p0, n0), (h1, p1, n1)) =
                foldl (read_sum_step symbols symbol_count tick_ns (read_is_bit0 min_ns max_ns)) ((0, 0, 0), (0, 0, 0)) [0..<symbol_count]
              in (RMT_PULSE_MONITOR_READ_MIN_BITS \<le> usable,
                  \<lparr>rd_usable_count = usable, rd_bit0_count = n0, rd_bit0_high_avg_ns = GetRoundedAverage h0 n0,
                   rd_bit0_period_avg_ns = GetRoundedAverage p0 n0, rd_bit1_count = n1,
                   rd_bit1_high_avg_ns = GetRoundedAverage h1 n1, rd_bit1_period_avg_ns = GetRoundedAverage p1 n1\<rparr>))"

subsection \<open>The accumulators\<close>

lemma unat_TicksToNs15: "unat (Ws2812TicksToNs (ucast (d :: 15 word)) 25) = 25 * unat d"
proof -
  have d: "unat d < 2 ^ 15" using unsigned_less [where 'a = nat and w = d] by simp
  then have "unat (ucast d :: u32) = unat d" by (simp add: unsigned_ucast_eq take_bit_nat_eq_self)
  then show ?thesis using d by (simp add: Ws2812TicksToNs_def unat_word_ariths)
qed

definition high_of :: "rmt_symbol \<Rightarrow> nat" where
  "high_of s = 25 * unat (rs_duration0 s)"

lemma high_of_bound: "high_of s \<le> 819175"
proof -
  have "unat (rs_duration0 s) < 2 ^ 15"
    using unsigned_less [where 'a = nat and w = "rs_duration0 s"] by simp
  then show ?thesis by (simp add: high_of_def)
qed

text \<open>The running minimum and maximum of the values \<open>hs\<close>, and a class that has seen the high
  times \<open>hs\<close>, in nanoseconds.\<close>

definition minmax_rel :: "u32 \<Rightarrow> u32 \<Rightarrow> nat list \<Rightarrow> bool" where
  "minmax_rel mn mx hs \<longleftrightarrow> (if hs = [] then mn = 0xFFFFFFFF \<and> mx = 0 else unat mn = Min (set hs) \<and> unat mx = Max (set hs))"

definition class_rel :: "pulse_class \<Rightarrow> nat list \<Rightarrow> bool" where
  "class_rel c hs \<longleftrightarrow> unat (pc_sum c) = sum_list hs \<and> unat (pc_count c) = length hs \<and> minmax_rel (pc_min c) (pc_max c) hs"

lemma minmax_add:
  assumes rel: "minmax_rel mn mx hs" and h: "unat high = h" "h \<le> 819175"
  shows "minmax_rel (if high < mn then high else mn) (if mx < high then high else mx) (hs @ [h])"
proof (cases "hs = []")
  case False
  have ins: "Min (insert h (set hs)) = min h (Min (set hs))" "Max (insert h (set hs)) = max h (Max (set hs))"
    using False by (simp_all add: Min_insert Max_insert)
  then show ?thesis
    using False rel h by (cases "high < mn"; cases "mn < high"; cases "mx < high"; cases "high < mx")
      (simp_all del: Min_less_iff Min_gr_iff Max_less_iff Max_gr_iff Min_le_iff Min_ge_iff Max_le_iff Max_ge_iff
          add: minmax_rel_def min_def max_def word_less_nat_alt)
qed (use rel h in \<open>auto simp: minmax_rel_def word_less_nat_alt\<close>)

lemma class_rel_empty [simp]: "class_rel empty_class []"
  by (simp add: class_rel_def minmax_rel_def empty_class_def)

lemma sum_list_bound: "\<forall>h\<in>set hs. h \<le> (b :: nat) \<Longrightarrow> sum_list hs \<le> b * length hs"
  by (induction hs) auto

lemma unat_ucast_u64: "unat (ucast (w :: u32) :: u64) = unat w"
proof -
  have "unat w < 2 ^ 32" using unsigned_less [where 'a = nat and w = w] by simp
  then show ?thesis by (simp add: unsigned_ucast_eq take_bit_nat_eq_self)
qed

lemma class_rel_add:
  assumes rel: "class_rel c hs" and h: "unat high = h" "h \<le> 819175"
    and hs: "\<forall>x\<in>set hs. x \<le> 819175" "length hs < 144"
  shows "class_rel (add_pulse high low has_low c) (hs @ [h])"
proof -
  have s: "sum_list hs \<le> 819175 * 144"
    using sum_list_bound [OF hs(1)] hs(2) by (meson le_trans less_imp_le mult_le_mono2)
  have sum: "unat (pc_sum c + ucast high) = sum_list hs + h"
    using rel s h by (simp add: class_rel_def unat_word_ariths unat_ucast_u64)
  have count: "unat (pc_count c + 1) = length hs + 1"
    using rel hs(2) by (simp add: class_rel_def unat_word_ariths)
  have "minmax_rel (if high < pc_min c then high else pc_min c) (if pc_max c < high then high else pc_max c) (hs @ [h])"
    using rel h by (simp add: class_rel_def minmax_add)
  then show ?thesis
    using sum count by (simp add: class_rel_def add_pulse_def Let_def split: if_splits)
qed

text \<open>The rounded average over the numbers.\<close>

definition rounded_avg :: "nat list \<Rightarrow> nat" where
  "rounded_avg hs = (if hs = [] then 0 else (sum_list hs + length hs div 2) div length hs)"

lemma rounded_avg_bounds:
  assumes "hs \<noteq> []"
  shows "Min (set hs) \<le> rounded_avg hs" "rounded_avg hs \<le> Max (set hs)"
proof -
  have n: "0 < length hs" using assms by simp
  have "sum_list (map (\<lambda>_. Min (set hs)) hs) \<le> sum_list (map (\<lambda>h. h) hs)"
    by (rule sum_list_mono) simp
  then have lo: "Min (set hs) * length hs \<le> sum_list hs" by (simp add: sum_list_triv mult.commute)
  have hi: "sum_list hs \<le> Max (set hs) * length hs" by (rule sum_list_bound) simp
  show "Min (set hs) \<le> rounded_avg hs"
    using lo n assms by (simp add: rounded_avg_def less_eq_div_iff_mult_less_eq)
  have half: "length hs div 2 < length hs" using n by simp
  have "(Max (set hs) + 1) * length hs = Max (set hs) * length hs + length hs" by simp
  then have "sum_list hs + length hs div 2 < (Max (set hs) + 1) * length hs"
    using hi half by linarith
  then show "rounded_avg hs \<le> Max (set hs)"
    using n assms by (simp add: rounded_avg_def less_mult_imp_div_less flip: less_Suc_eq_le)
qed

lemma class_rel_results:
  assumes rel: "class_rel c hs" and hs: "\<forall>x\<in>set hs. x \<le> 819175" "length hs \<le> 144"
  shows "unat (class_avg c) = rounded_avg hs"
    and "unat (class_min c) = (if hs = [] then 0 else Min (set hs))"
    and "unat (pc_max c) = (if hs = [] then 0 else Max (set hs))"
proof -
  have pos: "0 < pc_count c \<longleftrightarrow> hs \<noteq> []"
    using rel by (auto simp: class_rel_def word_less_nat_alt)
  have s: "sum_list hs \<le> 819175 * 144"
    using sum_list_bound [OF hs(1)] hs(2) by (meson le_trans mult_le_mono2)
  have half: "unat (pc_count c div 2) = length hs div 2"
    using rel by (simp add: class_rel_def unat_div_distrib)
  have "unat (pc_sum c + ucast (pc_count c div 2)) = sum_list hs + length hs div 2"
    using rel s hs(2) half by (simp add: class_rel_def unat_word_ariths unat_ucast_u64)
  then have q: "unat ((pc_sum c + ucast (pc_count c div 2)) div ucast (pc_count c)) = (sum_list hs + length hs div 2) div length hs"
    using rel by (simp add: unat_div_distrib unat_ucast_u64 class_rel_def)
  have "sum_list hs + length hs div 2 < 2 ^ 32" using s hs(2) by simp
  with div_le_dividend have small: "(sum_list hs + length hs div 2) div length hs < 2 ^ 32" by (rule le_less_trans)
  then show "unat (class_avg c) = rounded_avg hs"
    using q pos by (simp add: class_avg_def rounded_avg_def unsigned_ucast_eq take_bit_nat_eq_self)
  show "unat (class_min c) = (if hs = [] then 0 else Min (set hs))"
    "unat (pc_max c) = (if hs = [] then 0 else Max (set hs))"
    using rel pos by (auto simp: class_min_def class_rel_def minmax_rel_def split: if_splits)
qed

subsection \<open>Decoding a symbol\<close>

lemma abs_diff_u32:
  assumes "unat (x :: u32) = m" "unat y = n"
  shows "int (unat (if y < x then x - y else y - x)) = \<bar>int m - int n\<bar>"
proof (cases "y < x")
  case True
  then have "unat (x - y) = m - n" "n < m" using assms by (simp_all add: unat_sub word_less_nat_alt word_le_nat_alt)
  then show ?thesis using True by simp
next
  case False
  then have "unat (y - x) = n - m" "m \<le> n"
    using assms unat_sub [of x y] by (simp_all add: not_less word_le_nat_alt)
  then show ?thesis using False by simp
qed

lemma Decode_nearest:
  assumes "rs_level0 s"
  shows "DecodeWs2812Symbol s (ucast (b0 :: u16)) (ucast (b1 :: u16)) 25 =
    (if \<bar>int (high_of s) - int (unat b0)\<bar> \<le> \<bar>int (high_of s) - int (unat b1)\<bar> then WS2812_SYMBOL_BIT0 else WS2812_SYMBOL_BIT1)"
proof -
  have h: "unat (Ws2812TicksToNs (ucast (rs_duration0 s)) 25) = high_of s" by (simp add: unat_TicksToNs15 high_of_def)
  define d where "d b = (let x = Ws2812TicksToNs (ucast (rs_duration0 s)) 25; y = ucast (b :: u16) in if y < x then x - y else y - x)" for b
  have d: "int (unat (d b)) = \<bar>int (high_of s) - int (unat b)\<bar>" for b
    unfolding d_def Let_def by (rule abs_diff_u32 [OF h unat_ucast_u16])
  have "DecodeWs2812Symbol s (ucast b0) (ucast b1) 25 = (if d b0 \<le> d b1 then WS2812_SYMBOL_BIT0 else WS2812_SYMBOL_BIT1)"
    using assms by (simp add: DecodeWs2812Symbol_def Let_def d_def)
  also have "d b0 \<le> d b1 \<longleftrightarrow> int (unat (d b0)) \<le> int (unat (d b1))"
    unfolding word_le_nat_alt by (rule of_nat_le_iff [symmetric])
  finally show ?thesis unfolding d .
qed

text \<open>The statistics' bit of a symbol: the decoded one, or the expected one where the two commanded
  high times are the same; a symbol that starts low has none.\<close>

definition stats_bit :: "rmt_symbol list \<Rightarrow> ws2812_timing \<Rightarrow> byte list \<Rightarrow> nat \<Rightarrow> nat \<Rightarrow> bool option" where
  "stats_bit symbols t px len i =
     (if \<not> rs_level0 (symbols ! i) then None
      else if wt_bit0_high_ns t = wt_bit1_high_ns t then Some (expected_bit px len i)
      else Some (\<bar>int (high_of (symbols ! i)) - int (unat (wt_bit1_high_ns t))\<bar> < \<bar>int (high_of (symbols ! i)) - int (unat (wt_bit0_high_ns t))\<bar>))"

definition class_indices :: "rmt_symbol list \<Rightarrow> ws2812_timing \<Rightarrow> byte list \<Rightarrow> nat \<Rightarrow> bool \<Rightarrow> nat \<Rightarrow> nat list" where
  "class_indices symbols t px len b n = filter (\<lambda>i. stats_bit symbols t px len i = Some b) [0..<n]"

definition class_highs :: "rmt_symbol list \<Rightarrow> ws2812_timing \<Rightarrow> byte list \<Rightarrow> nat \<Rightarrow> bool \<Rightarrow> nat \<Rightarrow> nat list" where
  "class_highs symbols t px len b n = map (\<lambda>i. high_of (symbols ! i)) (class_indices symbols t px len b n)"

definition match_indices :: "rmt_symbol list \<Rightarrow> ws2812_timing \<Rightarrow> byte list \<Rightarrow> nat \<Rightarrow> nat \<Rightarrow> nat list" where
  "match_indices symbols t px len n =
     filter (\<lambda>i. wt_bit0_high_ns t \<noteq> wt_bit1_high_ns t \<and> stats_bit symbols t px len i = Some (expected_bit px len i)) [0..<n]"

lemma class_highs_bound: "\<forall>h\<in>set (class_highs symbols t px len b n). h \<le> 819175"
  by (auto simp: class_highs_def high_of_bound)

lemma length_class_highs: "length (class_highs symbols t px len b n) \<le> n"
  unfolding class_highs_def class_indices_def using length_filter_le [of _ "[0..<n]"] by simp

text \<open>What a class remembers of its first complete symbol.\<close>

definition example_rel :: "rmt_symbol list \<Rightarrow> pulse_class \<Rightarrow> nat list \<Rightarrow> bool" where
  "example_rel symbols c idx = (case filter (\<lambda>i. i < 143) idx of
     [] \<Rightarrow> \<not> pc_has_example c \<and> pc_first_high c = 0 \<and> pc_first_low c = 0
   | i # _ \<Rightarrow> pc_has_example c \<and> unat (pc_first_high c) = high_of (symbols ! i) \<and> unat (pc_first_low c) = 25 * unat (rs_duration1 (symbols ! i)))"

lemma example_rel_empty [simp]: "example_rel symbols empty_class []"
  by (simp add: example_rel_def empty_class_def)

lemma example_rel_add:
  assumes "example_rel symbols c idx"
  shows "example_rel symbols (add_pulse (Ws2812TicksToNs (ucast (rs_duration0 (symbols ! i))) 25)
    (Ws2812TicksToNs (ucast (rs_duration1 (symbols ! i))) 25) (i < 143) c) (idx @ [i])"
  using assms
  by (auto simp: example_rel_def add_pulse_def Let_def unat_TicksToNs15 high_of_def split: list.splits)

text \<open>One iteration of the loop, read at the statistics' bit of its symbol.\<close>

lemma aggregate_step_cases:
  defines "st \<equiv> \<lambda>symbols t px len i. aggregate_step symbols t px len 25 (wt_bit0_high_ns t \<noteq> wt_bit1_high_ns t)"
    and "add \<equiv> \<lambda>symbols i. add_pulse (Ws2812TicksToNs (ucast (rs_duration0 (symbols ! i))) 25)
      (Ws2812TicksToNs (ucast (rs_duration1 (symbols ! i))) 25) (i + 1 < RMT_PULSE_MONITOR_DATA_SYMBOLS)"
  shows "st symbols t px len i (c0, c1, m) i = (case stats_bit symbols t px len i of
     None \<Rightarrow> (c0, c1, m)
   | Some b \<Rightarrow> (if b then c0 else add symbols i c0, if b then add symbols i c1 else c1,
       if wt_bit0_high_ns t \<noteq> wt_bit1_high_ns t \<and> b = expected_bit px len i then m + 1 else m))"
proof (cases "rs_level0 (symbols ! i)")
  case False
  then show ?thesis by (simp add: st_def aggregate_step_def stats_bit_def DecodeWs2812Symbol_def)
next
  case True
  define near0 where "near0 \<longleftrightarrow> \<bar>int (high_of (symbols ! i)) - int (unat (wt_bit0_high_ns t))\<bar> \<le> \<bar>int (high_of (symbols ! i)) - int (unat (wt_bit1_high_ns t))\<bar>"
  have dec: "DecodeWs2812Symbol (symbols ! i) (ucast (wt_bit0_high_ns t)) (ucast (wt_bit1_high_ns t)) 25
      = (if near0 then WS2812_SYMBOL_BIT0 else WS2812_SYMBOL_BIT1)"
    unfolding near0_def by (rule Decode_nearest [OF True])
  have bit: "stats_bit symbols t px len i =
      Some (if wt_bit0_high_ns t = wt_bit1_high_ns t then expected_bit px len i else \<not> near0)"
    using True by (auto simp: stats_bit_def near0_def)
  show ?thesis
    unfolding st_def add_def aggregate_step_def dec bit Let_def prod.case by simp
qed

text \<open>The loop invariant after the first \<open>n\<close> symbols.\<close>

definition aggregate_rel :: "rmt_symbol list \<Rightarrow> ws2812_timing \<Rightarrow> byte list \<Rightarrow> nat \<Rightarrow> nat \<Rightarrow> pulse_class \<times> pulse_class \<times> u32 \<Rightarrow> bool" where
  "aggregate_rel symbols t px len n acc \<longleftrightarrow> (case acc of (c0, c1, m) \<Rightarrow>
     class_rel c0 (class_highs symbols t px len False n) \<and> example_rel symbols c0 (class_indices symbols t px len False n) \<and>
     class_rel c1 (class_highs symbols t px len True n) \<and> example_rel symbols c1 (class_indices symbols t px len True n) \<and>
     unat m = length (match_indices symbols t px len n))"

lemma class_indices_Suc:
  "class_indices symbols t px len b (Suc n) =
     class_indices symbols t px len b n @ (if stats_bit symbols t px len n = Some b then [n] else [])"
  by (simp add: class_indices_def)

lemma class_highs_Suc:
  "class_highs symbols t px len b (Suc n) =
     class_highs symbols t px len b n @ (if stats_bit symbols t px len n = Some b then [high_of (symbols ! n)] else [])"
  by (simp add: class_highs_def class_indices_Suc)

lemma match_indices_Suc:
  "match_indices symbols t px len (Suc n) = match_indices symbols t px len n @
     (if wt_bit0_high_ns t \<noteq> wt_bit1_high_ns t \<and> stats_bit symbols t px len n = Some (expected_bit px len n) then [n] else [])"
  by (simp add: match_indices_def)

lemma class_rel_add_symbol:
  assumes "class_rel c (class_highs symbols t px len b n)" "n < 144"
  shows "class_rel (add_pulse (Ws2812TicksToNs (ucast (rs_duration0 (symbols ! n))) 25) low has_low c)
    (class_highs symbols t px len b n @ [high_of (symbols ! n)])"
proof (rule class_rel_add [OF assms(1) _ high_of_bound class_highs_bound])
  show "unat (Ws2812TicksToNs (ucast (rs_duration0 (symbols ! n))) 25) = high_of (symbols ! n)"
    by (simp add: unat_TicksToNs15 high_of_def)
  show "length (class_highs symbols t px len b n) < 144"
    using length_class_highs assms(2) by (rule le_less_trans)
qed

lemma length_match_indices: "length (match_indices symbols t px len n) \<le> n"
  unfolding match_indices_def using length_filter_le [of _ "[0..<n]"] by simp

lemma aggregate_loop:
  "n \<le> 144 \<Longrightarrow> aggregate_rel symbols t px len n
     (foldl (aggregate_step symbols t px len 25 (wt_bit0_high_ns t \<noteq> wt_bit1_high_ns t)) (empty_class, empty_class, 0) [0..<n])"
proof (induction n)
  case 0
  then show ?case by (simp add: aggregate_rel_def class_highs_def class_indices_def match_indices_def)
next
  case (Suc n)
  then obtain c0 c1 m where acc: "foldl (aggregate_step symbols t px len 25 (wt_bit0_high_ns t \<noteq> wt_bit1_high_ns t))
      (empty_class, empty_class, 0) [0..<n] = (c0, c1, m)" and ih: "aggregate_rel symbols t px len n (c0, c1, m)"
    by (metis Suc_leD prod_cases3)
  have n: "n < 144" using Suc.prems by simp
  have m: "unat (m + 1) = unat m + 1"
    using ih length_match_indices [of symbols t px len n] n by (simp add: aggregate_rel_def unat_word_ariths)
  show ?case
    using ih n m unfolding upt_Suc_append [OF le0] foldl_append acc foldl_Cons foldl_Nil aggregate_step_cases
    by (auto simp: aggregate_rel_def class_indices_Suc class_highs_Suc match_indices_Suc class_rel_add_symbol example_rel_add
        split: option.splits)
qed

subsection \<open>What the statistics say\<close>

definition least :: "nat list \<Rightarrow> nat" where
  "least hs = (if hs = [] then 0 else Min (set hs))"

definition greatest :: "nat list \<Rightarrow> nat" where
  "greatest hs = (if hs = [] then 0 else Max (set hs))"

lemma aggregate_result:
  obtains bit0 bit1 m where
    "aggregate_rel symbols t px len 144 (bit0, bit1, m)"
    "AggregateWs2812Pulses symbols 144 t px len 25 = Some
       \<lparr>st_bit0_first_high_ns = pc_first_high bit0, st_bit0_first_low_ns = pc_first_low bit0,
        st_bit1_first_high_ns = pc_first_high bit1, st_bit1_first_low_ns = pc_first_low bit1,
        st_bit0_high_min_ns = class_min bit0, st_bit0_high_max_ns = pc_max bit0, st_bit0_high_avg_ns = class_avg bit0,
        st_bit1_high_min_ns = class_min bit1, st_bit1_high_max_ns = pc_max bit1, st_bit1_high_avg_ns = class_avg bit1,
        st_match_count = m, st_match_available = (wt_bit0_high_ns t \<noteq> wt_bit1_high_ns t)\<rparr>"
proof -
  obtain c0 c1 m where acc: "foldl (aggregate_step symbols t px len 25 (wt_bit0_high_ns t \<noteq> wt_bit1_high_ns t))
      (empty_class, empty_class, 0) [0..<144] = (c0, c1, m)" using prod_cases3 by blast
  have "aggregate_rel symbols t px len 144 (c0, c1, m)"
    using aggregate_loop [of 144 symbols t px len] unfolding acc by simp
  then show thesis
    by (rule that) (simp only: AggregateWs2812Pulses_def acc Let_def prod.case simp_thms if_False)
qed

lemma AggregateWs2812Pulses_stats_aux:
  "case AggregateWs2812Pulses symbols n t px len 25 of
     None \<Rightarrow> n \<noteq> 144
   | Some st \<Rightarrow> n = 144 \<and>
       unat (st_bit0_high_avg_ns st) = rounded_avg (class_highs symbols t px len False 144) \<and>
       unat (st_bit0_high_min_ns st) = least (class_highs symbols t px len False 144) \<and>
       unat (st_bit0_high_max_ns st) = greatest (class_highs symbols t px len False 144) \<and>
       unat (st_bit1_high_avg_ns st) = rounded_avg (class_highs symbols t px len True 144) \<and>
       unat (st_bit1_high_min_ns st) = least (class_highs symbols t px len True 144) \<and>
       unat (st_bit1_high_max_ns st) = greatest (class_highs symbols t px len True 144) \<and>
       unat (st_match_count st) = length (match_indices symbols t px len 144) \<and>
       st_match_available st = (wt_bit0_high_ns t \<noteq> wt_bit1_high_ns t)"
proof (cases "n = 144")
  case False
  then show ?thesis by (simp add: AggregateWs2812Pulses_def)
next
  case True
  obtain c0 c1 m where rel: "aggregate_rel symbols t px len 144 (c0, c1, m)"
    and res: "AggregateWs2812Pulses symbols 144 t px len 25 = Some
       \<lparr>st_bit0_first_high_ns = pc_first_high c0, st_bit0_first_low_ns = pc_first_low c0,
        st_bit1_first_high_ns = pc_first_high c1, st_bit1_first_low_ns = pc_first_low c1,
        st_bit0_high_min_ns = class_min c0, st_bit0_high_max_ns = pc_max c0, st_bit0_high_avg_ns = class_avg c0,
        st_bit1_high_min_ns = class_min c1, st_bit1_high_max_ns = pc_max c1, st_bit1_high_avg_ns = class_avg c1,
        st_match_count = m, st_match_available = (wt_bit0_high_ns t \<noteq> wt_bit1_high_ns t)\<rparr>"
    by (rule aggregate_result)
  have r0: "class_rel c0 (class_highs symbols t px len False 144)" and r1: "class_rel c1 (class_highs symbols t px len True 144)"
    and m: "unat m = length (match_indices symbols t px len 144)"
    using rel by (simp_all add: aggregate_rel_def)
  note b0 = class_rel_results [OF r0 class_highs_bound length_class_highs]
    and b1 = class_rel_results [OF r1 class_highs_bound length_class_highs]
  show ?thesis using True m unfolding True res by (simp add: b0 b1 least_def greatest_def)
qed

text \<open>C23: Which statistics a capture gives. Only a capture of exactly 144 symbols has any. Then, for the
  symbols of each class (decoded by the nearest commanded high time, a tie counting as bit 0, or by the expected
  bit where the two commanded times are the same), the minimum, the maximum and the average of the measured
  high times are those of the list of all the class's pulses, the average rounded to nearest (half up) and 0 for a
  class with no pulse; nothing overflows; and the match count is the number of symbols that
  decode to the transmitted bit.\<close>

theorem AggregateWs2812Pulses_stats:
  "case AggregateWs2812Pulses symbols n t px len 25 of
     None \<Rightarrow> n \<noteq> 144
   | Some st \<Rightarrow> n = 144 \<and>
       unat (st_bit0_high_avg_ns st) = rounded_avg (class_highs symbols t px len False 144) \<and>
       unat (st_bit0_high_min_ns st) = least (class_highs symbols t px len False 144) \<and>
       unat (st_bit0_high_max_ns st) = greatest (class_highs symbols t px len False 144) \<and>
       unat (st_bit1_high_avg_ns st) = rounded_avg (class_highs symbols t px len True 144) \<and>
       unat (st_bit1_high_min_ns st) = least (class_highs symbols t px len True 144) \<and>
       unat (st_bit1_high_max_ns st) = greatest (class_highs symbols t px len True 144) \<and>
       unat (st_match_count st) = length (match_indices symbols t px len 144) \<and>
       st_match_available st = (wt_bit0_high_ns t \<noteq> wt_bit1_high_ns t)"
  by (rule AggregateWs2812Pulses_stats_aux)

subsection \<open>The driver's own frame, captured\<close>

lemma nth_data_symbols:
  "i < 8 * length px \<Longrightarrow> data_symbols cfg px ! i = (if expected_bit px (length px) i then bc_bit1 cfg else bc_bit0 cfg)"
proof (induction px arbitrary: i)
  case (Cons b px)
  show ?case
  proof (cases "i < 8")
    case True
    then show ?thesis
      by (simp add: data_symbols_def expected_bit_def nth_append rev_nth)
  next
    case False
    then have "i - 8 < 8 * length px" using Cons.prems by simp
    then have "data_symbols cfg px ! (i - 8) = (if expected_bit px (length px) (i - 8) then bc_bit1 cfg else bc_bit0 cfg)"
      by (rule Cons.IH)
    moreover have "expected_bit (b # px) (length (b # px)) i = expected_bit px (length px) (i - 8)"
      using False by (simp add: expected_bit_def le_div_geq le_mod_geq)
    moreover have "data_symbols cfg (b # px) ! i = data_symbols cfg px ! (i - 8)"
      using False by (simp add: data_symbols_def nth_append)
    ultimately show ?thesis by simp
  qed
qed simp

lemma constant_class:
  assumes "\<forall>h\<in>set hs. h = x"
  shows "rounded_avg hs = (if hs = [] then 0 else x)" "least hs = (if hs = [] then 0 else x)"
    "greatest hs = (if hs = [] then 0 else x)"
proof -
  have eq: "set hs = {x}" if "hs \<noteq> []" using assms that by (cases hs) auto
  show "least hs = (if hs = [] then 0 else x)" "greatest hs = (if hs = [] then 0 else x)"
    using eq by (auto simp: least_def greatest_def)
  show "rounded_avg hs = (if hs = [] then 0 else x)"
    using eq rounded_avg_bounds [of hs] by (cases "hs = []") (auto simp: rounded_avg_def)
qed

lemma loopback_symbols:
  assumes valid: "ValidateWs2812Timing t = WS2812_TIMING_OK" and px: "length px = 18"
    and wire: "map (\<lambda>s. (rs_level0 s, rs_duration0 s)) symbols
      = map (\<lambda>s. (rs_level0 s, rs_duration0 s)) (data_symbols (BuildBytesEncoderConfig t) px)"
    and i: "i < 144"
  shows "high_of (symbols ! i) = unat (if expected_bit px 18 i then wt_bit1_high_ns t else wt_bit0_high_ns t)"
    and "stats_bit symbols t px 18 i = Some (expected_bit px 18 i)"
proof -
  define cfg where "cfg = BuildBytesEncoderConfig t"
  have len: "length (data_symbols cfg px) = 144" by (simp add: length_data_symbols px)
  then have len': "length symbols = 144"
    using arg_cong [OF wire, of length] unfolding length_map cfg_def by simp
  have "(rs_level0 (symbols ! i), rs_duration0 (symbols ! i)) = (rs_level0 (data_symbols cfg px ! i), rs_duration0 (data_symbols cfg px ! i))"
    using arg_cong [OF wire [folded cfg_def], of "\<lambda>xs. xs ! i"] i by (simp only: nth_map len len')
  moreover have "data_symbols cfg px ! i = (if expected_bit px 18 i then bc_bit1 cfg else bc_bit0 cfg)"
    using nth_data_symbols [of i px cfg] i px by simp
  moreover have "valid_timing t" using valid by (simp add: ValidateWs2812Timing_OK)
  then have "exact_symbol (bc_bit0 cfg) (unat (wt_bit0_high_ns t)) (unat (wt_bit0_period_ns t) - unat (wt_bit0_high_ns t))"
    "exact_symbol (bc_bit1 cfg) (unat (wt_bit1_high_ns t)) (unat (wt_bit1_period_ns t) - unat (wt_bit1_high_ns t))"
    by (simp_all add: cfg_def valid_timing_def valid_ranges_def BuildBytesEncoderConfig_def bit_symbol_exact)
  ultimately have lv: "rs_level0 (symbols ! i)"
    and h: "high_of (symbols ! i) = unat (if expected_bit px 18 i then wt_bit1_high_ns t else wt_bit0_high_ns t)"
    by (cases "expected_bit px 18 i"; simp add: high_of_def exact_symbol_def)+
  show "high_of (symbols ! i) = unat (if expected_bit px 18 i then wt_bit1_high_ns t else wt_bit0_high_ns t)" by (rule h)
  have "wt_bit0_high_ns t \<noteq> wt_bit1_high_ns t \<longleftrightarrow> uint (wt_bit0_high_ns t) \<noteq> uint (wt_bit1_high_ns t)"
    by (simp add: word_uint_eq_iff)
  moreover have "0 < \<bar>int x - int y\<bar> \<longleftrightarrow> x \<noteq> y" for x y :: nat by auto
  ultimately show "stats_bit symbols t px 18 i = Some (expected_bit px 18 i)"
    using lv h by (cases "expected_bit px 18 i"; cases "wt_bit0_high_ns t = wt_bit1_high_ns t"; simp add: stats_bit_def)
qed

lemma filter_upt_eq_Nil: "filter P [0..<n] = [] \<longleftrightarrow> \<not> (\<exists>i<n. P i)"
  by (auto simp: filter_empty_conv)

lemma loopback_stats:
  assumes "ValidateWs2812Timing t = WS2812_TIMING_OK" and "length px = 18"
    and "map (\<lambda>s. (rs_level0 s, rs_duration0 s)) symbols
      = map (\<lambda>s. (rs_level0 s, rs_duration0 s)) (data_symbols (BuildBytesEncoderConfig t) px)"
  shows "case AggregateWs2812Pulses symbols (length symbols) t px 18 25 of
     None \<Rightarrow> False
   | Some st \<Rightarrow>
       (\<forall>avg\<in>{st_bit0_high_avg_ns st, st_bit0_high_min_ns st, st_bit0_high_max_ns st}.
          unat avg = (if \<exists>i<144. \<not> expected_bit px 18 i then unat (wt_bit0_high_ns t) else 0)) \<and>
       (\<forall>avg\<in>{st_bit1_high_avg_ns st, st_bit1_high_min_ns st, st_bit1_high_max_ns st}.
          unat avg = (if \<exists>i<144. expected_bit px 18 i then unat (wt_bit1_high_ns t) else 0)) \<and>
       st_match_available st = (wt_bit0_high_ns t \<noteq> wt_bit1_high_ns t) \<and>
       unat (st_match_count st) = (if wt_bit0_high_ns t \<noteq> wt_bit1_high_ns t then 144 else 0)"
proof -
  note sym = loopback_symbols [OF assms]
  have len: "length symbols = 144"
    using arg_cong [OF assms(3), of length] by (simp add: length_data_symbols assms(2))
  have idx: "class_indices symbols t px 18 b 144 = filter (\<lambda>i. expected_bit px 18 i = b) [0..<144]" for b
    unfolding class_indices_def by (rule filter_cong) (auto simp: sym(2))
  have empty: "class_highs symbols t px 18 b 144 = [] \<longleftrightarrow> \<not> (\<exists>i<144. expected_bit px 18 i = b)" for b
    unfolding class_highs_def idx by (simp add: filter_upt_eq_Nil)
  have const: "\<forall>h\<in>set (class_highs symbols t px 18 b 144). h = unat (if b then wt_bit1_high_ns t else wt_bit0_high_ns t)" for b
    unfolding class_highs_def idx by (auto simp: sym(1))
  have m: "match_indices symbols t px 18 144 = (if wt_bit0_high_ns t \<noteq> wt_bit1_high_ns t then [0..<144] else [])"
    unfolding match_indices_def by (auto simp: filter_id_conv sym(2))
  note c = constant_class [OF const [of False]] constant_class [OF const [of True]]
  have "case AggregateWs2812Pulses symbols 144 t px 18 25 of None \<Rightarrow> False | Some st \<Rightarrow>
       (\<forall>avg\<in>{st_bit0_high_avg_ns st, st_bit0_high_min_ns st, st_bit0_high_max_ns st}.
          unat avg = (if class_highs symbols t px 18 False 144 \<noteq> [] then unat (wt_bit0_high_ns t) else 0)) \<and>
       (\<forall>avg\<in>{st_bit1_high_avg_ns st, st_bit1_high_min_ns st, st_bit1_high_max_ns st}.
          unat avg = (if class_highs symbols t px 18 True 144 \<noteq> [] then unat (wt_bit1_high_ns t) else 0)) \<and>
       st_match_available st = (wt_bit0_high_ns t \<noteq> wt_bit1_high_ns t) \<and>
       unat (st_match_count st) = length (match_indices symbols t px 18 144)"
    using AggregateWs2812Pulses_stats_aux [where symbols = symbols and n = 144 and t = t and px = px and len = 18]
    by (simp add: c split: option.splits)
  moreover have "class_highs symbols t px 18 False 144 \<noteq> [] \<longleftrightarrow> (\<exists>i<144. \<not> expected_bit px 18 i)"
    "class_highs symbols t px 18 True 144 \<noteq> [] \<longleftrightarrow> (\<exists>i<144. expected_bit px 18 i)"
    unfolding empty by blast+
  moreover have "length (match_indices symbols t px 18 144) = (if wt_bit0_high_ns t \<noteq> wt_bit1_high_ns t then 144 else 0)"
    unfolding m by simp
  ultimately show ?thesis by (simp only: len)
qed

text \<open>C22: The monitor measures the driver's own frame exactly. Take a valid timing set, any 18 pixel bytes and a capture of 144
  symbols whose high pulses are those the encoder writes for these bytes (nothing is assumed of the low times, so the last
  one may be the end marker). Then the statistics exist and the average, minimum and maximum high time of bit 0 and of bit 1
  are the commanded times where the bytes contain such a bit and 0 where they do not; and all 144 bits match, unless the two commanded
  high times are the same, when the match is reported as not available.\<close>

theorem loopback_measured_exactly:
  assumes "ValidateWs2812Timing t = WS2812_TIMING_OK" and "length px = 18"
    and "map (\<lambda>s. (rs_level0 s, rs_duration0 s)) symbols
      = map (\<lambda>s. (rs_level0 s, rs_duration0 s)) (data_symbols (BuildBytesEncoderConfig t) px)"
  shows "case AggregateWs2812Pulses symbols (length symbols) t px 18 25 of
     None \<Rightarrow> False
   | Some st \<Rightarrow>
       (\<forall>avg\<in>{st_bit0_high_avg_ns st, st_bit0_high_min_ns st, st_bit0_high_max_ns st}.
          unat avg = (if \<exists>i<144. \<not> expected_bit px 18 i then unat (wt_bit0_high_ns t) else 0)) \<and>
       (\<forall>avg\<in>{st_bit1_high_avg_ns st, st_bit1_high_min_ns st, st_bit1_high_max_ns st}.
          unat avg = (if \<exists>i<144. expected_bit px 18 i then unat (wt_bit1_high_ns t) else 0)) \<and>
       st_match_available st = (wt_bit0_high_ns t \<noteq> wt_bit1_high_ns t) \<and>
       unat (st_match_count st) = (if wt_bit0_high_ns t \<noteq> wt_bit1_high_ns t then 144 else 0)"
  by (rule loopback_stats [OF assms])

theorem loopback_measured_exactly_witness:
  "case AggregateWs2812Pulses (data_symbols (BuildBytesEncoderConfig default_timing) BuildLedPixelPattern) 144
     default_timing BuildLedPixelPattern 18 25 of
     None \<Rightarrow> False
   | Some st \<Rightarrow> unat (st_match_count st) = 144 \<and> unat (st_bit0_high_avg_ns st) = 400"
proof -
  have "length BuildLedPixelPattern = 18" by (simp add: BuildLedPixelPattern_def)
  moreover have "\<exists>i<144. \<not> expected_bit BuildLedPixelPattern 18 i"
    by (rule exI [of _ 0]) (simp add: expected_bit_def BuildLedPixelPattern_def LED_CONTROLLER_CHANNEL_VALUE_def bit_word_iff_drop_bit_and)
  ultimately show ?thesis
    using loopback_measured_exactly [OF default_timing_valid, of BuildLedPixelPattern
        "data_symbols (BuildBytesEncoderConfig default_timing) BuildLedPixelPattern"]
    by (auto simp: length_data_symbols default_timing_def split: option.splits)
qed

subsection \<open>The read analysis\<close>

definition usable :: "rmt_symbol list \<Rightarrow> nat \<Rightarrow> nat \<Rightarrow> nat list" where
  "usable symbols n m = filter (\<lambda>i. IsReadSymbolUsable (symbols ! i) i n) [0..<m]"

definition period_of :: "rmt_symbol \<Rightarrow> nat" where
  "period_of s = 25 * (unat (rs_duration0 s) + unat (rs_duration1 s))"

definition highs :: "rmt_symbol list \<Rightarrow> nat list \<Rightarrow> nat list" where
  "highs symbols idx = map (\<lambda>i. high_of (symbols ! i)) idx"

definition periods :: "rmt_symbol list \<Rightarrow> nat list \<Rightarrow> nat list" where
  "periods symbols idx = map (\<lambda>i. period_of (symbols ! i)) idx"

text \<open>The class of a high time given the least and the greatest one.\<close>

definition read_bit0 :: "nat \<Rightarrow> nat \<Rightarrow> nat \<Rightarrow> bool" where
  "read_bit0 mn mx h = (if mn + 100 \<le> mx then 2 * h \<le> mn + mx else mn + mx \<le> 1250)"

lemma unat_high_ns_of: "unat (high_ns_of 25 s) = high_of s"
  by (simp add: high_ns_of_def unat_TicksToNs15 high_of_def)

lemma unat_period_ns_of: "unat (period_ns_of 25 s) = period_of s"
proof -
  have b: "unat (rs_duration0 s) < 2 ^ 15" "unat (rs_duration1 s) < 2 ^ 15"
    using unsigned_less [where 'a = nat and w = "rs_duration0 s"] unsigned_less [where 'a = nat and w = "rs_duration1 s"] by simp_all
  then have "unat (ucast (rs_duration0 s) :: u32) = unat (rs_duration0 s)" "unat (ucast (rs_duration1 s) :: u32) = unat (rs_duration1 s)"
    by (simp_all add: unsigned_ucast_eq take_bit_nat_eq_self)
  then show ?thesis using b by (simp add: period_ns_of_def Ws2812TicksToNs_def period_of_def unat_word_ariths)
qed

lemma period_of_bound: "period_of s \<le> 1638350"
proof -
  have "unat (rs_duration0 s) < 2 ^ 15" "unat (rs_duration1 s) < 2 ^ 15"
    using unsigned_less [where 'a = nat and w = "rs_duration0 s"] unsigned_less [where 'a = nat and w = "rs_duration1 s"] by simp_all
  then show ?thesis by (simp add: period_of_def)
qed

lemma usable_Suc:
  "usable symbols n (Suc m) = usable symbols n m @ (if IsReadSymbolUsable (symbols ! m) m n then [m] else [])"
  by (simp add: usable_def)

lemma length_usable: "length (usable symbols n m) \<le> m"
  unfolding usable_def using length_filter_le [of _ "[0..<m]"] by simp

lemma read_range_loop:
  "m \<le> 144 \<Longrightarrow> case foldl (read_range_step symbols n 25) (UINT32_MAX, 0, 0) [0..<m] of
     (mn, mx, c) \<Rightarrow> minmax_rel mn mx (highs symbols (usable symbols n m)) \<and> unat c = length (usable symbols n m)"
proof (induction m)
  case 0
  then show ?case by (simp add: usable_def highs_def minmax_rel_def)
next
  case (Suc m)
  obtain mn mx c where acc: "foldl (read_range_step symbols n 25) (UINT32_MAX, 0, 0) [0..<m] = (mn, mx, c)"
    using prod_cases3 by blast
  have ih: "minmax_rel mn mx (highs symbols (usable symbols n m))" "unat c = length (usable symbols n m)"
    using Suc acc by simp_all
  have c: "unat (c + 1) = Suc (length (usable symbols n m))"
    using ih(2) Suc.prems length_usable [of symbols n m] by (simp add: unat_word_ariths)
  have mm: "minmax_rel (if high_ns_of 25 (symbols ! m) < mn then high_ns_of 25 (symbols ! m) else mn)
      (if mx < high_ns_of 25 (symbols ! m) then high_ns_of 25 (symbols ! m) else mx)
      (highs symbols (usable symbols n m) @ [high_of (symbols ! m)])"
    by (rule minmax_add [OF ih(1) unat_high_ns_of high_of_bound])
  show ?case
    using ih c mm unfolding upt_Suc_append [OF le0] foldl_append acc foldl_Cons foldl_Nil
    by (simp add: read_range_step_def usable_Suc highs_def Let_def)
qed

text \<open>The sums of a class.\<close>

definition sums_rel :: "rmt_symbol list \<Rightarrow> u32 \<times> u32 \<times> u32 \<Rightarrow> nat list \<Rightarrow> bool" where
  "sums_rel symbols acc idx \<longleftrightarrow> (case acc of (h, p, c) \<Rightarrow> unat h = sum_list (highs symbols idx) \<and>
     unat p = sum_list (periods symbols idx) \<and> unat c = length idx)"

lemma sums_rel_add:
  assumes "sums_rel symbols (h, p, c) idx" "length idx < 144"
  shows "sums_rel symbols (h + high_ns_of 25 (symbols ! i), p + period_ns_of 25 (symbols ! i), c + 1) (idx @ [i])"
proof -
  have hs: "sum_list (highs symbols idx) \<le> 819175 * length idx"
    using sum_list_bound [of "highs symbols idx" 819175] by (simp add: highs_def high_of_bound)
  have ps: "sum_list (periods symbols idx) \<le> 1638350 * length idx"
    using sum_list_bound [of "periods symbols idx" 1638350] by (simp add: periods_def period_of_bound)
  have "sum_list (highs symbols idx) + high_of (symbols ! i) < 2 ^ 32" "sum_list (periods symbols idx) + period_of (symbols ! i) < 2 ^ 32"
    using hs ps assms(2) high_of_bound [of "symbols ! i"] period_of_bound [of "symbols ! i"] by simp_all
  then show ?thesis
    using assms by (simp add: sums_rel_def unat_word_ariths unat_high_ns_of unat_period_ns_of highs_def periods_def)
qed

lemma read_sum_loop:
  assumes "\<And>s. pw (high_ns_of 25 s) = pn (high_of s)"
  shows "m \<le> 144 \<Longrightarrow> case foldl (read_sum_step symbols n 25 pw) ((0, 0, 0), (0, 0, 0)) [0..<m] of
     (acc0, acc1) \<Rightarrow> sums_rel symbols acc0 (filter (\<lambda>i. pn (high_of (symbols ! i))) (usable symbols n m)) \<and>
       sums_rel symbols acc1 (filter (\<lambda>i. \<not> pn (high_of (symbols ! i))) (usable symbols n m))"
proof (induction m)
  case 0
  then show ?case by (simp add: usable_def sums_rel_def highs_def periods_def)
next
  case (Suc m)
  let ?U = "usable symbols n m" and ?is0 = "\<lambda>i. pn (high_of (symbols ! i))"
  obtain h0 p0 n0 h1 p1 n1 where acc: "foldl (read_sum_step symbols n 25 pw) ((0, 0, 0), (0, 0, 0)) [0..<m] = ((h0, p0, n0), (h1, p1, n1))"
    by (metis prod.exhaust)
  have ih: "sums_rel symbols (h0, p0, n0) (filter ?is0 ?U)" "sums_rel symbols (h1, p1, n1) (filter (\<lambda>i. \<not> ?is0 i) ?U)"
    using Suc acc by simp_all
  have len: "length (filter P ?U) < 144" for P
    using length_filter_le [of P ?U] length_usable [of symbols n m] Suc.prems by linarith
  note add = sums_rel_add [OF ih(1) len] sums_rel_add [OF ih(2) len]
  show ?case
    using ih add unfolding upt_Suc_append [OF le0] foldl_append acc foldl_Cons foldl_Nil
    by (simp add: read_sum_step_def usable_Suc Let_def assms)
qed

lemma read_split:
  assumes mm: "minmax_rel mn mx hs" and hs: "hs \<noteq> []" "\<forall>h\<in>set hs. h \<le> 819175"
  shows "read_is_bit0 mn mx (high_ns_of 25 s) = read_bit0 (Min (set hs)) (Max (set hs)) (high_of s)"
proof -
  have mn: "unat mn = Min (set hs)" and mx: "unat mx = Max (set hs)" using mm hs(1) by (simp_all add: minmax_rel_def)
  have le: "Min (set hs) \<le> Max (set hs)" "Max (set hs) \<le> 819175"
    using hs by (auto simp del: Max_le_iff intro: Max.boundedI Min_le_iff [THEN iffD2])
  have diff: "unat (mx - mn) = Max (set hs) - Min (set hs)" using mn mx le by (simp add: unat_sub word_le_nat_alt)
  have add: "unat (mn + mx) = Min (set hs) + Max (set hs)" using mn mx le by (simp add: unat_word_ariths)
  have dbl: "unat (2 * high_ns_of 25 s) = 2 * high_of s"
    using high_of_bound [of s] by (simp add: unat_word_ariths unat_high_ns_of)
  show ?thesis
    unfolding read_is_bit0_def read_bit0_def Let_def word_le_nat_alt diff add dbl using le
    by (simp add: le_diff_conv2)
qed

lemma unat_GetRoundedAverage:
  assumes "unat acc = sum_list hs" "unat c = length hs" "length hs \<le> 144" "\<forall>h\<in>set hs. h \<le> 1638350"
  shows "unat (GetRoundedAverage acc c) = rounded_avg hs"
proof -
  have s: "sum_list hs \<le> 1638350 * 144"
    using sum_list_bound [OF assms(4)] assms(3) by (meson le_trans mult_le_mono2)
  have "unat (acc + c div 2) = sum_list hs + length hs div 2"
    using s assms by (simp add: unat_word_ariths unat_div_distrib)
  moreover have "0 < c \<longleftrightarrow> hs \<noteq> []" using assms(2) by (auto simp: word_less_nat_alt)
  ultimately show ?thesis
    using assms(2) by (simp add: GetRoundedAverage_def rounded_avg_def unat_div_distrib)
qed

lemma sums_rel_results:
  assumes "sums_rel symbols (h, p, c) idx" "length idx \<le> 144"
  shows "unat (GetRoundedAverage h c) = rounded_avg (highs symbols idx)"
    and "unat (GetRoundedAverage p c) = rounded_avg (periods symbols idx)" and "unat c = length idx"
proof -
  have b: "high_of s \<le> 1638350" for s using high_of_bound [of s] by simp
  show "unat (GetRoundedAverage h c) = rounded_avg (highs symbols idx)"
    by (rule unat_GetRoundedAverage) (use assms b in \<open>simp_all add: sums_rel_def highs_def\<close>)
  show "unat (GetRoundedAverage p c) = rounded_avg (periods symbols idx)"
    by (rule unat_GetRoundedAverage) (use assms period_of_bound in \<open>simp_all add: sums_rel_def periods_def\<close>)
  show "unat c = length idx" using assms by (simp add: sums_rel_def)
qed

definition read_class :: "rmt_symbol list \<Rightarrow> nat \<Rightarrow> bool \<Rightarrow> nat list" where
  "read_class symbols n b = (let U = usable symbols n n in
     filter (\<lambda>i. read_bit0 (least (highs symbols U)) (greatest (highs symbols U)) (high_of (symbols ! i)) = (\<not> b)) U)"

lemma AnalyzeWs2812Read_spec:
  assumes n: "n \<le> 144"
  shows "case AnalyzeWs2812Read symbols n 25 of (ok, st) \<Rightarrow>
    ok = (8 \<le> length (usable symbols n n)) \<and> unat (rd_usable_count st) = length (usable symbols n n) \<and>
    unat (rd_bit0_count st) = length (read_class symbols n False) \<and>
    unat (rd_bit0_high_avg_ns st) = rounded_avg (highs symbols (read_class symbols n False)) \<and>
    unat (rd_bit0_period_avg_ns st) = rounded_avg (periods symbols (read_class symbols n False)) \<and>
    unat (rd_bit1_count st) = length (read_class symbols n True) \<and>
    unat (rd_bit1_high_avg_ns st) = rounded_avg (highs symbols (read_class symbols n True)) \<and>
    unat (rd_bit1_period_avg_ns st) = rounded_avg (periods symbols (read_class symbols n True))"
proof -
  obtain mn mx c where acc: "foldl (read_range_step symbols n 25) (UINT32_MAX, 0, 0) [0..<n] = (mn, mx, c)"
    using prod_cases3 by blast
  have mm: "minmax_rel mn mx (highs symbols (usable symbols n n))" and c: "unat c = length (usable symbols n n)"
    using read_range_loop [OF n, of symbols n] acc by simp_all
  show ?thesis
  proof (cases "usable symbols n n = []")
    case True
    then have "c = 0" using c by (simp add: unat_eq_zero)
    then show ?thesis
      unfolding AnalyzeWs2812Read_def acc using True
      by (simp add: zero_read_stats_def read_class_def rounded_avg_def highs_def periods_def)
  next
    case False
    let ?is0 = "read_bit0 (least (highs symbols (usable symbols n n))) (greatest (highs symbols (usable symbols n n)))"
    obtain h0 p0 n0 h1 p1 n1 where sums: "foldl (read_sum_step symbols n 25 (read_is_bit0 mn mx)) ((0, 0, 0), (0, 0, 0)) [0..<n]
        = ((h0, p0, n0), (h1, p1, n1))"
      by (metis prod.exhaust)
    have hs: "highs symbols (usable symbols n n) \<noteq> []" "\<forall>h\<in>set (highs symbols (usable symbols n n)). h \<le> 819175"
      using False by (auto simp: highs_def high_of_bound)
    have is0: "read_is_bit0 mn mx (high_ns_of 25 s) = ?is0 (high_of s)" for s
      using read_split [OF mm hs] hs(1) by (simp add: least_def greatest_def)
    have "sums_rel symbols (h0, p0, n0) (read_class symbols n False)" "sums_rel symbols (h1, p1, n1) (read_class symbols n True)"
      using read_sum_loop [where pw = "read_is_bit0 mn mx" and pn = ?is0 and m = n, OF is0 n, of symbols n] unfolding sums prod.case read_class_def Let_def by simp_all
    moreover have "length (read_class symbols n b) \<le> 144" for b
      unfolding read_class_def Let_def using length_filter_le length_usable [of symbols n n] n by (meson le_trans)
    moreover have "c \<noteq> 0" using c False by auto
    moreover have "8 \<le> c \<longleftrightarrow> 8 \<le> length (usable symbols n n)" using c by (simp add: word_le_nat_alt)
    ultimately show ?thesis
      unfolding AnalyzeWs2812Read_def acc prod.case Let_def sums by (simp add: sums_rel_results c)
  qed
qed

text \<open>C24: The read analysis, on every capture that fits the buffer. Usable are the symbols before the last one that are a positive high
  followed by a positive low; each is in one of the two classes, by the midpoint of the shortest and the longest high time
  or, where these are less than 100 ns apart, all in one class by the fixed 625 ns threshold. The counts and the average
  high time and period of each class are those of the class's symbols, without overflow, the averages rounded to nearest
  and 0 for an empty class; and the capture is accepted iff at least 8 symbols are usable.\<close>

theorem AnalyzeWs2812Read_stats:
  assumes "n \<le> 144"
  shows "case AnalyzeWs2812Read symbols n 25 of (ok, st) \<Rightarrow>
    ok = (8 \<le> length (usable symbols n n)) \<and> unat (rd_usable_count st) = length (usable symbols n n) \<and>
    unat (rd_bit0_count st) = length (read_class symbols n False) \<and>
    unat (rd_bit0_high_avg_ns st) = rounded_avg (highs symbols (read_class symbols n False)) \<and>
    unat (rd_bit0_period_avg_ns st) = rounded_avg (periods symbols (read_class symbols n False)) \<and>
    unat (rd_bit1_count st) = length (read_class symbols n True) \<and>
    unat (rd_bit1_high_avg_ns st) = rounded_avg (highs symbols (read_class symbols n True)) \<and>
    unat (rd_bit1_period_avg_ns st) = rounded_avg (periods symbols (read_class symbols n True))"
  using assms by (rule AnalyzeWs2812Read_spec)

theorem AnalyzeWs2812Read_stats_witness:
  "length (usable (replicate 10 \<lparr>rs_level0 = True, rs_duration0 = 16, rs_level1 = False, rs_duration1 = 34\<rparr>) 10 10) = 9 \<and>
   unat (rd_usable_count (snd (AnalyzeWs2812Read
     (replicate 10 \<lparr>rs_level0 = True, rs_duration0 = 16, rs_level1 = False, rs_duration1 = 34\<rparr>) 10 25))) = 9"
  using AnalyzeWs2812Read_stats [of 10 "replicate 10 \<lparr>rs_level0 = True, rs_duration0 = 16, rs_level1 = False, rs_duration1 = 34\<rparr>"]
  by (simp add: case_prod_beta usable_def IsReadSymbolUsable_def upt_rec)

lemma two_values_extremes:
  assumes "set hs = {a, b :: nat}" "a < b"
  shows "least hs = a" "greatest hs = b"
  using assms by (auto simp: least_def greatest_def min_def max_def)

text \<open>An external source that keeps to two pulse shapes is read exactly. If every usable symbol has either the high time and period
  \<open>h0\<close>, \<open>p0\<close> or the high time and period \<open>h1\<close>, \<open>p1\<close>, both occur and the high times are at
  least 100 ns apart, then the shorter one is bit 0 and the longer one bit 1, each with its own high time and period as
  the average and its number of symbols as the count.\<close>

theorem two_shape_source_read_exactly:
  assumes "n \<le> 144" and "h0 + 100 \<le> h1"
    and "set (map (\<lambda>i. (high_of (symbols ! i), period_of (symbols ! i))) (usable symbols n n)) = {(h0, p0), (h1, p1)}"
  shows "case AnalyzeWs2812Read symbols n 25 of (ok, st) \<Rightarrow>
    unat (rd_bit0_high_avg_ns st) = h0 \<and> unat (rd_bit0_period_avg_ns st) = p0 \<and>
    unat (rd_bit1_high_avg_ns st) = h1 \<and> unat (rd_bit1_period_avg_ns st) = p1 \<and>
    unat (rd_bit0_count st) = length (filter (\<lambda>i. high_of (symbols ! i) = h0) (usable symbols n n)) \<and>
    unat (rd_bit1_count st) = length (filter (\<lambda>i. high_of (symbols ! i) = h1) (usable symbols n n))"
proof -
  let ?U = "usable symbols n n"
  have shape: "(high_of (symbols ! i), period_of (symbols ! i)) \<in> {(h0, p0), (h1, p1)}" if "i \<in> set ?U" for i
    using that assms(3) [symmetric] by auto
  have occ: "\<exists>i\<in>set ?U. (high_of (symbols ! i), period_of (symbols ! i)) = hp" if "hp \<in> {(h0, p0), (h1, p1)}" for hp
    using that unfolding assms(3) [symmetric] by auto
  have "set (highs symbols ?U) = fst ` set (map (\<lambda>i. (high_of (symbols ! i), period_of (symbols ! i))) ?U)"
    by (simp add: highs_def image_image)
  then have "set (highs symbols ?U) = {h0, h1}" unfolding assms(3) by simp
  then have ext: "least (highs symbols ?U) = h0" "greatest (highs symbols ?U) = h1"
    using assms(2) by (simp_all add: two_values_extremes)
  have cls: "read_class symbols n b = filter (\<lambda>i. high_of (symbols ! i) = (if b then h1 else h0)) ?U" for b
    unfolding read_class_def Let_def ext
  proof (rule filter_cong [OF refl])
    fix i assume "i \<in> set ?U"
    then show "(read_bit0 h0 h1 (high_of (symbols ! i)) = (\<not> b)) = (high_of (symbols ! i) = (if b then h1 else h0))"
      using shape [of i] assms(2) by (auto simp: read_bit0_def)
  qed
  have ne: "read_class symbols n b \<noteq> []" for b
    using occ [of "if b then (h1, p1) else (h0, p0)"] by (auto simp: cls filter_empty_conv split: if_splits)
  have const: "\<forall>h\<in>set (highs symbols (read_class symbols n b)). h = (if b then h1 else h0)"
    "\<forall>p\<in>set (periods symbols (read_class symbols n b)). p = (if b then p1 else p0)" for b
    unfolding cls highs_def periods_def using shape assms(2) by fastforce+
  show ?thesis
    using AnalyzeWs2812Read_spec [OF assms(1), of symbols] ne [of False] ne [of True]
      constant_class(1) [OF const(1) [of False]] constant_class(1) [OF const(2) [of False]]
      constant_class(1) [OF const(1) [of True]] constant_class(1) [OF const(2) [of True]]
    by (simp add: case_prod_beta cls highs_def periods_def)
qed

theorem two_shape_source_read_exactly_witness:
  "\<exists>symbols. unat (rd_bit0_high_avg_ns (snd (AnalyzeWs2812Read symbols 3 25))) = 400 \<and>
     unat (rd_bit1_period_avg_ns (snd (AnalyzeWs2812Read symbols 3 25))) = 1250"
proof -
  let ?symbols = "[\<lparr>rs_level0 = True, rs_duration0 = 16, rs_level1 = False, rs_duration1 = 34\<rparr>,
    \<lparr>rs_level0 = True, rs_duration0 = 32, rs_level1 = False, rs_duration1 = 18\<rparr>,
    \<lparr>rs_level0 = True, rs_duration0 = 16, rs_level1 = False, rs_duration1 = 0\<rparr>]"
  have "set (map (\<lambda>i. (high_of (?symbols ! i), period_of (?symbols ! i))) (usable ?symbols 3 3)) = {(400, 1250), (800, 1250)}"
    by (simp add: usable_def IsReadSymbolUsable_def upt_rec high_of_def period_of_def)
  from two_shape_source_read_exactly [OF _ _ this] show ?thesis by (intro exI [of _ ?symbols]) (simp add: case_prod_beta)
qed

end
