(* ===== verification/PulseCapture.thy ===== *)
theory PulseCapture
  imports RmtPulseMonitor
begin

section \<open>The pulse monitor: arming, capturing and publishing\<close>

text \<open>
  Model of the stateful part of main/rmt_pulse_monitor/rmt_pulse_monitor.c: the static variables are one record,
  each function of the source one definition, and the decode task, the arming tasks and the
  receive-done interrupt the interleaved steps of \<open>pulse_step\<close>. A section of code that holds
  \<open>s_rx_lock\<close> is one step, except the arming section, in which the interrupt of the receive being
  started may run; the steps show this at its three parts. An arming task that finds the lock taken may
  do so at any time. The RMT receive driver is third-party: it is the parameter \<open>rx_drv\<close>, and
  \<open>rx_laws\<close> states the documented behaviour the code relies on. Log lines whose text is computed are
  modelled as strings; the other log calls are left out.
\<close>

subsection \<open>State\<close>

datatype pulse_capture_mode = PULSE_CAPTURE_SEND | PULSE_CAPTURE_READ

record capture_done_event =
  ce_symbol_count :: nat
  ce_arm_seq :: u32

record 'h rx_drv =
  rx_receive :: "'h \<Rightarrow> esp_err \<times> 'h"
  rx_enable :: "'h \<Rightarrow> esp_err \<times> 'h"
  rx_disable :: "'h \<Rightarrow> esp_err \<times> 'h"
  rx_finish :: "'h \<Rightarrow> 'h"
  rx_busy :: "'h \<Rightarrow> bool"

record 'h pulse =
  ps_rx_channel :: bool
  ps_hw :: 'h
  ps_symbol_buffer :: "rmt_symbol list"
  ps_armed_timing :: ws2812_timing
  ps_armed_pixel_grb :: "byte list"
  ps_armed_pixel_len :: nat
  ps_armed_submit_seq :: u32
  ps_armed_mode :: pulse_capture_mode
  ps_armed_seq :: u32
  ps_capture_seq :: u32
  ps_is_receive_pending :: bool
  ps_decode_symbols :: "rmt_symbol list"
  ps_decode_timing :: ws2812_timing
  ps_decode_pixel_grb :: "byte list"
  ps_decode_pixel_len :: nat
  ps_decode_submit_seq :: u32
  ps_decode_mode :: pulse_capture_mode
  ps_result_cb :: bool
  ps_capture_queue :: "capture_done_event option"
  ps_armed_sem :: bool
  ps_published :: "ws2812_measurement list"

subsection \<open>The interrupt\<close>

definition HandleRxDone :: "nat \<Rightarrow> 'h pulse \<Rightarrow> 'h pulse" where
  "HandleRxDone num_symbols s =
     (let event = \<lparr>ce_symbol_count = num_symbols, ce_arm_seq = ps_capture_seq s\<rparr>
      in s\<lparr>ps_is_receive_pending := False, ps_capture_queue := Some event\<rparr>)"

subsection \<open>Publication\<close>

text \<open>The registered callback is not part of this component: \<open>ps_published\<close> lists the records handed to it.\<close>

definition SetPulseResultCallback :: "bool \<Rightarrow> 'h pulse \<Rightarrow> 'h pulse" where
  "SetPulseResultCallback callback s = s\<lparr>ps_result_cb := callback\<rparr>"

definition PublishMeasurement :: "ws2812_measurement \<Rightarrow> 'h pulse \<Rightarrow> 'h pulse" where
  "PublishMeasurement m s = (if ps_result_cb s then s\<lparr>ps_published := ps_published s @ [m]\<rparr> else s)"

definition pulse_result :: "u32 \<Rightarrow> ws2812_measurement_state \<Rightarrow> ws2812_pulse_stats option \<Rightarrow> ws2812_measurement" where
  "pulse_result submit_seq state stats =
     (let m = \<lparr>wm_submit_seq = submit_seq, wm_state = state, wm_bit0_high_avg_ns = 0, wm_bit1_high_avg_ns = 0,
                wm_match_count = 0, wm_match_available = False, wm_bit0_period_avg_ns = 0, wm_bit1_period_avg_ns = 0\<rparr>
      in case stats of None \<Rightarrow> m
         | Some st \<Rightarrow> m\<lparr>wm_bit0_high_avg_ns := st_bit0_high_avg_ns st, wm_bit1_high_avg_ns := st_bit1_high_avg_ns st,
             wm_match_count := ucast (st_match_count st), wm_match_available := st_match_available st\<rparr>)"

definition PublishPulseResult :: "u32 \<Rightarrow> ws2812_measurement_state \<Rightarrow> ws2812_pulse_stats option \<Rightarrow> 'h pulse \<Rightarrow> 'h pulse" where
  "PublishPulseResult submit_seq state stats s = PublishMeasurement (pulse_result submit_seq state stats) s"

definition read_result :: "u32 \<Rightarrow> ws2812_read_stats \<Rightarrow> ws2812_measurement" where
  "read_result submit_seq stats =
     \<lparr>wm_submit_seq = submit_seq, wm_state = WS2812_MEASUREMENT_READ_DONE,
      wm_bit0_high_avg_ns = rd_bit0_high_avg_ns stats, wm_bit1_high_avg_ns = rd_bit1_high_avg_ns stats,
      wm_match_count = 0, wm_match_available = False,
      wm_bit0_period_avg_ns = rd_bit0_period_avg_ns stats, wm_bit1_period_avg_ns = rd_bit1_period_avg_ns stats\<rparr>"

definition PublishReadResult :: "u32 \<Rightarrow> ws2812_read_stats \<Rightarrow> 'h pulse \<Rightarrow> 'h pulse" where
  "PublishReadResult submit_seq stats s = PublishMeasurement (read_result submit_seq stats) s"

subsection \<open>Log lines\<close>

abbreviation (input) PULSE_READ_VALUE_TEXT_MAX :: nat where "PULSE_READ_VALUE_TEXT_MAX \<equiv> 11"

definition FormatReadValue :: "u32 \<Rightarrow> u32 \<Rightarrow> string" where
  "FormatReadValue value_ns count = (if count = 0 then ''n/a'' else snprintf PULSE_READ_VALUE_TEXT_MAX (dec (unat value_ns)))"

definition LogReadStats :: "ws2812_read_stats \<Rightarrow> string" where
  "LogReadStats stats =
     ''pulse read: bit0 high_ns='' @ FormatReadValue (rd_bit0_high_avg_ns stats) (rd_bit0_count stats) @
     '' period_ns='' @ FormatReadValue (rd_bit0_period_avg_ns stats) (rd_bit0_count stats) @
     ''; bit1 high_ns='' @ FormatReadValue (rd_bit1_high_avg_ns stats) (rd_bit1_count stats) @
     '' period_ns='' @ FormatReadValue (rd_bit1_period_avg_ns stats) (rd_bit1_count stats) @
     ''; bits='' @ dec (unat (rd_usable_count stats))"

definition LogBadSymbolsIfAny :: "'h pulse \<Rightarrow> string list" where
  "LogBadSymbolsIfAny s = concat (map (\<lambda>index.
     if DecodeWs2812Symbol (ps_decode_symbols s ! index) (ucast (wt_bit0_high_ns (ps_decode_timing s)))
          (ucast (wt_bit1_high_ns (ps_decode_timing s))) RMT_PULSE_MONITOR_TICK_NS = WS2812_SYMBOL_INVALID
     then [''pulse monitor: symbol decode error (reason=bad_symbol index='' @ dec index @ '')''] else [])
       [0..<RMT_PULSE_MONITOR_DATA_SYMBOLS])"

definition LogPulseStats :: "ws2812_pulse_stats \<Rightarrow> string list" where
  "LogPulseStats stats =
     [''pulse: bit0 first high_ns='' @ dec (unat (st_bit0_first_high_ns stats)) @ '' low_ns='' @ dec (unat (st_bit0_first_low_ns stats)) @
      ''; bit1 first high_ns='' @ dec (unat (st_bit1_first_high_ns stats)) @ '' low_ns='' @ dec (unat (st_bit1_first_low_ns stats)),
      ''pulse: bit0 high_ns min='' @ dec (unat (st_bit0_high_min_ns stats)) @ '' max='' @ dec (unat (st_bit0_high_max_ns stats)) @
      '' avg='' @ dec (unat (st_bit0_high_avg_ns stats)) @ ''; bit1 high_ns min='' @ dec (unat (st_bit1_high_min_ns stats)) @
      '' max='' @ dec (unat (st_bit1_high_max_ns stats)) @ '' avg='' @ dec (unat (st_bit1_high_avg_ns stats)),
      (if st_match_available stats
       then ''pulse: grb match='' @ dec (unat (st_match_count stats)) @ ''/'' @ dec RMT_PULSE_MONITOR_DATA_SYMBOLS
       else ''pulse: grb match=n/a'')]"

subsection \<open>The decode task\<close>

text \<open>\<open>ClearPendingArmSignal\<close>: a binary semaphore with count 0 is left as it is.\<close>

definition ClearPendingArmSignal :: "'h pulse \<Rightarrow> 'h pulse" where
  "ClearPendingArmSignal s = (if ps_armed_sem s then s\<lparr>ps_armed_sem := False\<rparr> else s)"

text \<open>The sequence number waited on, the submit number and the mode of that arm.\<close>

definition GetArmedSeq :: "'h pulse \<Rightarrow> u32 \<times> u32 \<times> pulse_capture_mode" where
  "GetArmedSeq s = (ps_armed_seq s, ps_armed_submit_seq s, ps_armed_mode s)"

abbreviation (input) RMT_PULSE_MONITOR_CAPTURE_TIMEOUT_MS :: nat where "RMT_PULSE_MONITOR_CAPTURE_TIMEOUT_MS \<equiv> 20"
abbreviation (input) RMT_PULSE_MONITOR_READ_TIMEOUT_MS :: nat where "RMT_PULSE_MONITOR_READ_TIMEOUT_MS \<equiv> 1000"

text \<open>\<open>pdMS_TO_TICKS\<close> at the tick rate of \<open>hz\<close>.\<close>

definition GetCaptureTimeoutTicks :: "nat \<Rightarrow> pulse_capture_mode \<Rightarrow> nat" where
  "GetCaptureTimeoutTicks hz mode =
     (if mode = PULSE_CAPTURE_READ then RMT_PULSE_MONITOR_READ_TIMEOUT_MS * hz div 1000
      else RMT_PULSE_MONITOR_CAPTURE_TIMEOUT_MS * hz div 1000)"

definition RestartRxChannel :: "'h rx_drv \<Rightarrow> u32 \<Rightarrow> 'h pulse \<Rightarrow> 'h pulse" where
  "RestartRxChannel drv timed_out_seq s =
     (if ps_armed_seq s \<noteq> timed_out_seq then s
      else let s = ClearPendingArmSignal s;
               (result, hw) = rx_disable drv (ps_hw s);
               (result, hw) = (if result = ESP_OK then rx_enable drv hw else (result, hw))
           in s\<lparr>ps_hw := hw, ps_is_receive_pending := False\<rparr>)"

text \<open>Whether the event is current, and what the task waits for if not.\<close>

definition TakeCurrentCapture :: "capture_done_event \<Rightarrow> u32 \<times> u32 \<times> pulse_capture_mode \<Rightarrow> 'h pulse \<Rightarrow>
    bool \<times> (u32 \<times> u32 \<times> pulse_capture_mode) \<times> 'h pulse" where
  "TakeCurrentCapture event wait s =
     (if ce_arm_seq event = ps_armed_seq s
      then (True, wait, ClearPendingArmSignal
        (s\<lparr>ps_decode_symbols := ps_symbol_buffer s, ps_decode_timing := ps_armed_timing s,
           ps_decode_pixel_grb := overwrite 0 (take (ps_armed_pixel_len s) (ps_armed_pixel_grb s)) (ps_decode_pixel_grb s),
           ps_decode_pixel_len := ps_armed_pixel_len s, ps_decode_submit_seq := ps_armed_submit_seq s,
           ps_decode_mode := ps_armed_mode s\<rparr>))
      else (False, (ps_armed_seq s, ps_armed_submit_seq s, ps_armed_mode s), s))"

definition DecodeCapture :: "capture_done_event \<Rightarrow> 'h pulse \<Rightarrow> 'h pulse" where
  "DecodeCapture event s =
     (if ce_symbol_count event \<noteq> RMT_PULSE_MONITOR_DATA_SYMBOLS
      then PublishPulseResult (ps_decode_submit_seq s) WS2812_MEASUREMENT_COUNT_ERROR None s
      else case AggregateWs2812Pulses (ps_decode_symbols s) RMT_PULSE_MONITOR_DATA_SYMBOLS (ps_decode_timing s)
                  (ps_decode_pixel_grb s) (ps_decode_pixel_len s) RMT_PULSE_MONITOR_TICK_NS of
             None \<Rightarrow> s
           | Some stats \<Rightarrow> PublishPulseResult (ps_decode_submit_seq s) WS2812_MEASUREMENT_DONE (Some stats) s)"

definition AnalyzeReadCapture :: "capture_done_event \<Rightarrow> 'h pulse \<Rightarrow> 'h pulse" where
  "AnalyzeReadCapture event s =
     (let symbol_count = ce_symbol_count event;
          symbol_count = (if RMT_PULSE_MONITOR_SYMBOL_CAPACITY < symbol_count then RMT_PULSE_MONITOR_SYMBOL_CAPACITY else symbol_count)
      in case AnalyzeWs2812Read (ps_decode_symbols s) symbol_count RMT_PULSE_MONITOR_TICK_NS of
           (is_ok, stats) \<Rightarrow>
             if \<not> is_ok then PublishPulseResult (ps_decode_submit_seq s) WS2812_MEASUREMENT_COUNT_ERROR None s
             else PublishReadResult (ps_decode_submit_seq s) stats s)"

definition HandleCapture :: "capture_done_event \<Rightarrow> 'h pulse \<Rightarrow> 'h pulse" where
  "HandleCapture event s = (if ps_decode_mode s = PULSE_CAPTURE_READ then AnalyzeReadCapture event s else DecodeCapture event s)"

record pulse_start_env =
  pe_new_channel :: esp_err
  pe_register :: esp_err
  pe_task :: bool

definition StartPulseMonitor :: "'h rx_drv \<Rightarrow> pulse_start_env \<Rightarrow> 'h pulse \<Rightarrow> bool \<times> 'h pulse" where
  "StartPulseMonitor drv env s =
     (let s = s\<lparr>ps_capture_queue := None, ps_armed_sem := False\<rparr> in
      if pe_new_channel env \<noteq> ESP_OK then (False, s\<lparr>ps_rx_channel := False\<rparr>)
      else let s = s\<lparr>ps_rx_channel := True\<rparr> in
      if pe_register env \<noteq> ESP_OK then (False, s\<lparr>ps_rx_channel := False\<rparr>)
      else let (result, hw) = rx_enable drv (ps_hw s); s = s\<lparr>ps_hw := hw\<rparr> in
      if result \<noteq> ESP_OK then (False, s\<lparr>ps_rx_channel := False\<rparr>)
      else if \<not> pe_task env
      then (False, s\<lparr>ps_hw := snd (rx_disable drv (ps_hw s)), ps_rx_channel := False\<rparr>)
      else (True, s))"

subsection \<open>Arming\<close>

text \<open>
  \<open>StartTaggedReceive\<close> in its two parts: the tag and the flag are set, then the driver is called. The interrupt of the
  receive may run between the second part and the rest of the caller.
\<close>

definition TagReceive :: "'h pulse \<Rightarrow> u32 \<times> 'h pulse" where
  "TagReceive s = (let arm_seq = ps_armed_seq s + 1
     in (arm_seq, s\<lparr>ps_capture_seq := arm_seq, ps_is_receive_pending := True\<rparr>))"

definition IssueReceive :: "'h rx_drv \<Rightarrow> 'h pulse \<Rightarrow> esp_err \<times> 'h pulse" where
  "IssueReceive drv s =
     (let (result, hw) = rx_receive drv (ps_hw s);
          (result, hw) =
            (if result = ESP_ERR_INVALID_STATE
             then let (enabled, hw) = rx_enable drv hw
                  in if enabled = ESP_OK then rx_receive drv hw else (result, hw)
             else (result, hw));
          s = s\<lparr>ps_hw := hw\<rparr>
      in (result, if result \<noteq> ESP_OK then s\<lparr>ps_capture_seq := ps_armed_seq s, ps_is_receive_pending := False\<rparr> else s))"

definition StartTaggedReceive :: "'h rx_drv \<Rightarrow> 'h pulse \<Rightarrow> esp_err \<times> u32 \<times> 'h pulse" where
  "StartTaggedReceive drv s =
     (if ps_is_receive_pending s then (ESP_ERR_INVALID_STATE, 0, s)
      else let (arm_seq, s) = TagReceive s; (result, s) = IssueReceive drv s in (result, arm_seq, s))"

text \<open>What the two arming functions store after a successful receive, under the lock.\<close>

definition CommitSend :: "ws2812_timing \<Rightarrow> u32 \<Rightarrow> byte list \<Rightarrow> u32 \<Rightarrow> 'h pulse \<Rightarrow> 'h pulse" where
  "CommitSend applied_timing submit_seq expected_pixel_grb arm_seq s =
     s\<lparr>ps_armed_timing := applied_timing, ps_armed_pixel_grb := overwrite 0 expected_pixel_grb (ps_armed_pixel_grb s),
       ps_armed_pixel_len := length expected_pixel_grb, ps_armed_submit_seq := submit_seq, ps_armed_mode := PULSE_CAPTURE_SEND,
       ps_armed_seq := arm_seq, ps_armed_sem := True\<rparr>"

definition CommitRead :: "u32 \<Rightarrow> u32 \<Rightarrow> 'h pulse \<Rightarrow> 'h pulse" where
  "CommitRead submit_seq arm_seq s =
     s\<lparr>ps_armed_submit_seq := submit_seq, ps_armed_mode := PULSE_CAPTURE_READ, ps_armed_seq := arm_seq, ps_armed_sem := True\<rparr>"

text \<open>
  The two arming functions as calls that are not interrupted: \<open>lock_free\<close> is the result of the zero-timeout
  take. A NULL argument is \<open>None\<close>.
\<close>

definition ArmPulseCapture :: "'h rx_drv \<Rightarrow> bool \<Rightarrow> ws2812_timing option \<Rightarrow> u32 \<Rightarrow> byte list option \<Rightarrow> 'h pulse \<Rightarrow> 'h pulse" where
  "ArmPulseCapture drv lock_free applied_timing submit_seq expected_pixel_grb s =
     (case (applied_timing, expected_pixel_grb) of
        (Some t, Some px) \<Rightarrow>
          if \<not> ps_rx_channel s then PublishPulseResult submit_seq WS2812_MEASUREMENT_NOT_MEASURED None s
          else if RMT_PULSE_MONITOR_EXPECTED_PIXEL_MAX_BYTES < length px
          then PublishPulseResult submit_seq WS2812_MEASUREMENT_NOT_MEASURED None s
          else if \<not> lock_free then PublishPulseResult submit_seq WS2812_MEASUREMENT_NOT_MEASURED None s
          else (case StartTaggedReceive drv s of (result, arm_seq, s) \<Rightarrow>
                  if result \<noteq> ESP_OK then PublishPulseResult submit_seq WS2812_MEASUREMENT_NOT_MEASURED None s
                  else CommitSend t submit_seq px arm_seq s)
      | _ \<Rightarrow> PublishPulseResult submit_seq WS2812_MEASUREMENT_NOT_MEASURED None s)"

definition ArmPulseRead :: "'h rx_drv \<Rightarrow> bool \<Rightarrow> u32 \<Rightarrow> 'h pulse \<Rightarrow> 'h pulse" where
  "ArmPulseRead drv lock_free submit_seq s =
     (if \<not> ps_rx_channel s then PublishPulseResult submit_seq WS2812_MEASUREMENT_NOT_MEASURED None s
      else if \<not> lock_free then PublishPulseResult submit_seq WS2812_MEASUREMENT_NOT_MEASURED None s
      else (case StartTaggedReceive drv s of (result, arm_seq, s) \<Rightarrow>
              if result \<noteq> ESP_OK then PublishPulseResult submit_seq WS2812_MEASUREMENT_NOT_MEASURED None s
              else CommitRead submit_seq arm_seq s))"

subsection \<open>The interleaved system\<close>

text \<open>
  A request to arm is a frame with its timing set and pixel bytes, or a read. The arming section is idle, or it
  has tagged a receive, or started it and not yet stored the request. The decode task waits for the
  arm signal, has taken it, waits for an event, has one, or has timed out; \<open>TASK_DECODE\<close> has copied the
  capture and \<open>TASK_TIMEOUT\<close> restarted the channel.
\<close>

datatype arm_request = Send_request u32 ws2812_timing "byte list" | Read_request u32

datatype arm_phase = ARM_IDLE | ARM_TAGGED arm_request u32 | ARM_STARTED arm_request u32

type_synonym wait = "u32 \<times> u32 \<times> pulse_capture_mode"

datatype decode_task =
    TASK_IDLE
  | TASK_WOKEN
  | TASK_WAIT wait
  | TASK_EVENT capture_done_event wait
  | TASK_TIMED_OUT wait
  | TASK_DECODE capture_done_event
  | TASK_TIMEOUT wait

text \<open>
  The ghost part: the requests armed so far (the arm with number \<open>k\<close> is element \<open>k - 1\<close>), the symbols and the count each receive has
  captured, the number of the last receive started, of the queued event, of the arm the task handles and of the event it holds, and for every published
  record the arm it is for (\<open>None\<close> for a request that was not armed).
\<close>

record 'h pulse_sys =
  py_pulse :: "'h pulse"
  py_arm :: arm_phase
  py_task :: decode_task
  py_requests :: "arm_request list"
  py_captures :: "nat \<Rightarrow> (rmt_symbol list \<times> nat) option"
  py_receive :: nat
  py_queued :: nat
  py_handled :: nat
  py_event :: nat
  py_outcomes :: "nat option list"

fun request_submit_seq :: "arm_request \<Rightarrow> u32" where
  "request_submit_seq (Send_request q t px) = q"
| "request_submit_seq (Read_request q) = q"

fun Commit :: "arm_request \<Rightarrow> u32 \<Rightarrow> 'h pulse \<Rightarrow> 'h pulse" where
  "Commit (Send_request q t px) arm_seq s = CommitSend t q px arm_seq s"
| "Commit (Read_request q) arm_seq s = CommitRead q arm_seq s"

fun request_fits :: "arm_request \<Rightarrow> bool" where
  "request_fits (Send_request q t px) = (length px \<le> RMT_PULSE_MONITOR_EXPECTED_PIXEL_MAX_BYTES)"
| "request_fits (Read_request q) = True"

definition NotMeasured :: "arm_request \<Rightarrow> 'h pulse \<Rightarrow> 'h pulse" where
  "NotMeasured req s = PublishPulseResult (request_submit_seq req) WS2812_MEASUREMENT_NOT_MEASURED None s"

inductive pulse_step :: "'h rx_drv \<Rightarrow> 'h pulse_sys \<Rightarrow> 'h pulse_sys \<Rightarrow> bool" for drv where
    refuse: "pulse_step drv y (y\<lparr>py_pulse := NotMeasured req (py_pulse y), py_outcomes := py_outcomes y @ [None]\<rparr>)"
  | tag: "py_arm y = ARM_IDLE \<Longrightarrow> ps_rx_channel (py_pulse y) \<Longrightarrow> request_fits req \<Longrightarrow> \<not> ps_is_receive_pending (py_pulse y) \<Longrightarrow>
      TagReceive (py_pulse y) = (arm_seq, s) \<Longrightarrow>
      pulse_step drv y (y\<lparr>py_pulse := s, py_arm := ARM_TAGGED req arm_seq\<rparr>)"
  | start_receive: "py_arm y = ARM_TAGGED req arm_seq \<Longrightarrow> IssueReceive drv (py_pulse y) = (ESP_OK, s) \<Longrightarrow>
      pulse_step drv y (y\<lparr>py_pulse := s, py_arm := ARM_STARTED req arm_seq,
        py_receive := length (py_requests y) + 1\<rparr>)"
  | fail_receive: "py_arm y = ARM_TAGGED req arm_seq \<Longrightarrow> IssueReceive drv (py_pulse y) = (result, s) \<Longrightarrow> result \<noteq> ESP_OK \<Longrightarrow>
      pulse_step drv y (y\<lparr>py_pulse := NotMeasured req s, py_arm := ARM_IDLE, py_outcomes := py_outcomes y @ [None]\<rparr>)"
  | commit: "py_arm y = ARM_STARTED req arm_seq \<Longrightarrow>
      pulse_step drv y (y\<lparr>py_pulse := Commit req arm_seq (py_pulse y), py_arm := ARM_IDLE, py_requests := py_requests y @ [req]\<rparr>)"
  | hw_write: "rx_busy drv (ps_hw (py_pulse y)) \<Longrightarrow>
      pulse_step drv y (y\<lparr>py_pulse := (py_pulse y)\<lparr>ps_symbol_buffer := symbols\<rparr>\<rparr>)"
  | interrupt: "rx_busy drv (ps_hw (py_pulse y)) \<Longrightarrow>
      s = HandleRxDone n ((py_pulse y)\<lparr>ps_hw := rx_finish drv (ps_hw (py_pulse y)), ps_symbol_buffer := symbols\<rparr>) \<Longrightarrow>
      pulse_step drv y (y\<lparr>py_pulse := s, py_captures := (py_captures y)(py_receive y := Some (symbols, n)), py_queued := py_receive y\<rparr>)"
  | take_signal: "py_task y = TASK_IDLE \<Longrightarrow> ps_armed_sem (py_pulse y) \<Longrightarrow>
      pulse_step drv y (y\<lparr>py_pulse := (py_pulse y)\<lparr>ps_armed_sem := False\<rparr>, py_task := TASK_WOKEN\<rparr>)"
  | get_armed: "py_task y = TASK_WOKEN \<Longrightarrow> py_arm y = ARM_IDLE \<Longrightarrow>
      pulse_step drv y (y\<lparr>py_task := TASK_WAIT (GetArmedSeq (py_pulse y)), py_handled := length (py_requests y)\<rparr>)"
  | get_event: "py_task y = TASK_WAIT w \<Longrightarrow> ps_capture_queue (py_pulse y) = Some event \<Longrightarrow>
      pulse_step drv y (y\<lparr>py_pulse := (py_pulse y)\<lparr>ps_capture_queue := None\<rparr>, py_task := TASK_EVENT event w, py_event := py_queued y\<rparr>)"
  | time_out: "py_task y = TASK_WAIT w \<Longrightarrow> ps_capture_queue (py_pulse y) = None \<Longrightarrow>
      pulse_step drv y (y\<lparr>py_task := TASK_TIMED_OUT w\<rparr>)"
  | take_current: "py_task y = TASK_EVENT event w \<Longrightarrow> py_arm y = ARM_IDLE \<Longrightarrow> TakeCurrentCapture event w (py_pulse y) = (True, w', s) \<Longrightarrow>
      pulse_step drv y (y\<lparr>py_pulse := s, py_task := TASK_DECODE event, py_handled := length (py_requests y)\<rparr>)"
  | discard_stale: "py_task y = TASK_EVENT event w \<Longrightarrow> py_arm y = ARM_IDLE \<Longrightarrow> TakeCurrentCapture event w (py_pulse y) = (False, w', s) \<Longrightarrow>
      pulse_step drv y (y\<lparr>py_pulse := s, py_task := TASK_WAIT w', py_handled := length (py_requests y)\<rparr>)"
  | restart_rx: "py_task y = TASK_TIMED_OUT w \<Longrightarrow> py_arm y = ARM_IDLE \<Longrightarrow>
      pulse_step drv y (y\<lparr>py_pulse := RestartRxChannel drv (fst w) (py_pulse y), py_task := TASK_TIMEOUT w\<rparr>)"
  | publish_timeout: "py_task y = TASK_TIMEOUT w \<Longrightarrow>
      pulse_step drv y (y\<lparr>py_pulse := PublishPulseResult (fst (snd w)) WS2812_MEASUREMENT_TIMEOUT None (py_pulse y), py_task := TASK_IDLE,
        py_outcomes := py_outcomes y @ [Some (py_handled y)]\<rparr>)"
  | decode: "py_task y = TASK_DECODE event \<Longrightarrow>
      pulse_step drv y (y\<lparr>py_pulse := HandleCapture event (py_pulse y), py_task := TASK_IDLE,
        py_outcomes := py_outcomes y @ [Some (py_handled y)]\<rparr>)"

text \<open>Runs start when \<open>StartPulseMonitor\<close> has succeeded from the zeroed statics, with the callback registered.\<close>

definition pulse_initial :: "'h rx_drv \<Rightarrow> 'h pulse \<Rightarrow> bool" where
  "pulse_initial drv s \<longleftrightarrow> ps_rx_channel s \<and> \<not> rx_busy drv (ps_hw s) \<and> ps_armed_seq s = 0 \<and> ps_capture_seq s = 0 \<and>
     \<not> ps_is_receive_pending s \<and> ps_result_cb s \<and> ps_capture_queue s = None \<and> \<not> ps_armed_sem s \<and> ps_published s = [] \<and>
     length (ps_armed_pixel_grb s) = RMT_PULSE_MONITOR_EXPECTED_PIXEL_MAX_BYTES \<and>
     length (ps_decode_pixel_grb s) = RMT_PULSE_MONITOR_EXPECTED_PIXEL_MAX_BYTES"

inductive pulse_reach :: "'h rx_drv \<Rightarrow> 'h pulse_sys \<Rightarrow> bool" for drv where
    start: "pulse_initial drv s \<Longrightarrow> pulse_reach drv
      \<lparr>py_pulse = s, py_arm = ARM_IDLE, py_task = TASK_IDLE, py_requests = [], py_captures = (\<lambda>_. None), py_receive = 0,
       py_queued = 0, py_handled = 0, py_event = 0, py_outcomes = []\<rparr>"
  | step: "pulse_reach drv y \<Longrightarrow> pulse_step drv y y' \<Longrightarrow> pulse_reach drv y'"

text \<open>
  The documented behaviour of the receive driver: a receive that is started on an idle channel makes it busy exactly when it
  reports success, enabling neither starts nor ends a receive, a disable that reports success ends it, and a finished receive
  is over. Nothing is known of a disable that fails: the receive may go on.
\<close>

definition rx_laws :: "'h rx_drv \<Rightarrow> bool" where
  "rx_laws drv \<longleftrightarrow>
     (\<forall>h r h'. rx_receive drv h = (r, h') \<longrightarrow> \<not> rx_busy drv h \<longrightarrow> rx_busy drv h' = (r = ESP_OK)) \<and>
     (\<forall>h r h'. rx_enable drv h = (r, h') \<longrightarrow> rx_busy drv h' = rx_busy drv h) \<and>
     (\<forall>h h'. rx_disable drv h = (ESP_OK, h') \<longrightarrow> \<not> rx_busy drv h') \<and>
     (\<forall>h. \<not> rx_busy drv (rx_finish drv h))"

text \<open>
  A restart whose \<open>rmt_disable\<close> failed clears the flag although the receive may go on; \<open>survives\<close> says that a step is such a restart.
  The runs of \<open>stopped_reach\<close> are those in which no receive survives its restart.
\<close>

definition survives :: "'h rx_drv \<Rightarrow> 'h pulse_sys \<Rightarrow> 'h pulse_sys \<Rightarrow> bool" where
  "survives drv y y' \<longleftrightarrow> (\<exists>w. py_task y = TASK_TIMED_OUT w \<and> py_task y' = TASK_TIMEOUT w) \<and>
     \<not> ps_is_receive_pending (py_pulse y') \<and> rx_busy drv (ps_hw (py_pulse y'))"

inductive stopped_reach :: "'h rx_drv \<Rightarrow> 'h pulse_sys \<Rightarrow> bool" for drv where
    stopped_start: "pulse_initial drv s \<Longrightarrow> stopped_reach drv
      \<lparr>py_pulse = s, py_arm = ARM_IDLE, py_task = TASK_IDLE, py_requests = [], py_captures = (\<lambda>_. None), py_receive = 0,
       py_queued = 0, py_handled = 0, py_event = 0, py_outcomes = []\<rparr>"
  | stopped_step: "stopped_reach drv y \<Longrightarrow> pulse_step drv y y' \<Longrightarrow> \<not> survives drv y y' \<Longrightarrow> stopped_reach drv y'"

subsection \<open>The invariant\<close>

definition current_receive :: "'h pulse_sys \<Rightarrow> nat" where
  "current_receive y = (case py_arm y of ARM_STARTED req q \<Rightarrow> length (py_requests y) + 1 | _ \<Rightarrow> length (py_requests y))"

abbreviation "busy drv y \<equiv> rx_busy drv (ps_hw (py_pulse y))"
abbreviation "arms y \<equiv> length (py_requests y)"

definition hw_inv :: "'h rx_drv \<Rightarrow> 'h pulse_sys \<Rightarrow> bool" where
  "hw_inv drv y \<longleftrightarrow>
     ps_armed_seq (py_pulse y) = of_nat (arms y) \<and>
     (case py_arm y of ARM_IDLE \<Rightarrow> ps_capture_seq (py_pulse y) = of_nat (arms y)
      | ARM_TAGGED req q \<Rightarrow> q = of_nat (arms y + 1) \<and> ps_capture_seq (py_pulse y) = q \<and> request_fits req \<and>
          ps_is_receive_pending (py_pulse y) \<and> \<not> busy drv y
      | ARM_STARTED req q \<Rightarrow> q = of_nat (arms y + 1) \<and> ps_capture_seq (py_pulse y) = q \<and> request_fits req) \<and>
     (\<not> ps_is_receive_pending (py_pulse y) \<longrightarrow> \<not> busy drv y) \<and>
     py_receive y = current_receive y \<and>
     (busy drv y \<longrightarrow> 1 \<le> current_receive y \<and> py_captures y (current_receive y) = None) \<and>
     py_captures y 0 = None \<and> (\<forall>k>current_receive y. py_captures y k = None) \<and>
     (\<not> busy drv y \<longrightarrow> (\<forall>syms n. py_captures y (current_receive y) = Some (syms, n) \<longrightarrow> ps_symbol_buffer (py_pulse y) = syms))"

definition event_of :: "'h pulse_sys \<Rightarrow> nat \<Rightarrow> capture_done_event \<Rightarrow> bool" where
  "event_of y e event \<longleftrightarrow> ce_arm_seq event = of_nat e \<and> 1 \<le> e \<and> e \<le> current_receive y \<and>
     (\<exists>syms. py_captures y e = Some (syms, ce_symbol_count event))"

definition queue_inv :: "'h rx_drv \<Rightarrow> 'h pulse_sys \<Rightarrow> bool" where
  "queue_inv drv y \<longleftrightarrow> (\<forall>event. ps_capture_queue (py_pulse y) = Some event \<longrightarrow> event_of y (py_queued y) event \<and>
     (py_queued y = current_receive y \<or> Suc (py_queued y) = current_receive y \<and> busy drv y))"

fun armed_as :: "arm_request \<Rightarrow> 'h pulse \<Rightarrow> bool" where
  "armed_as (Send_request q t px) s = (ps_armed_submit_seq s = q \<and> ps_armed_mode s = PULSE_CAPTURE_SEND \<and> ps_armed_timing s = t \<and>
     length px \<le> 18 \<and> take (ps_armed_pixel_len s) (ps_armed_pixel_grb s) = px \<and> ps_armed_pixel_len s = length px)"
| "armed_as (Read_request q) s = (ps_armed_submit_seq s = q \<and> ps_armed_mode s = PULSE_CAPTURE_READ)"

definition snapshot_inv :: "'h pulse_sys \<Rightarrow> bool" where
  "snapshot_inv y \<longleftrightarrow> length (ps_armed_pixel_grb (py_pulse y)) = 18 \<and> length (ps_decode_pixel_grb (py_pulse y)) = 18 \<and>
     (py_requests y \<noteq> [] \<longrightarrow> armed_as (last (py_requests y)) (py_pulse y))"

text \<open>The record that belongs to a request and a capture.\<close>

fun measure_of :: "arm_request \<Rightarrow> rmt_symbol list \<times> nat \<Rightarrow> ws2812_measurement" where
  "measure_of (Send_request q t px) (symbols, n) =
     (if n \<noteq> 144 then pulse_result q WS2812_MEASUREMENT_COUNT_ERROR None
      else pulse_result q WS2812_MEASUREMENT_DONE (AggregateWs2812Pulses symbols 144 t px (length px) 25))"
| "measure_of (Read_request q) (symbols, n) =
     (case AnalyzeWs2812Read symbols (min n 144) 25 of (is_ok, stats) \<Rightarrow>
        if is_ok then read_result q stats else pulse_result q WS2812_MEASUREMENT_COUNT_ERROR None)"

fun request_mode :: "arm_request \<Rightarrow> pulse_capture_mode" where
  "request_mode (Send_request q t px) = PULSE_CAPTURE_SEND"
| "request_mode (Read_request q) = PULSE_CAPTURE_READ"

definition request_at :: "'h pulse_sys \<Rightarrow> nat \<Rightarrow> arm_request" where
  "request_at y k = py_requests y ! (k - 1)"

definition waiting :: "'h pulse_sys \<Rightarrow> wait \<Rightarrow> bool" where
  "waiting y w \<longleftrightarrow> 1 \<le> py_handled y \<and> py_handled y \<le> arms y \<and>
     w = (of_nat (py_handled y), request_submit_seq (request_at y (py_handled y)), request_mode (request_at y (py_handled y)))"

fun decoded_as :: "arm_request \<Rightarrow> 'h pulse \<Rightarrow> bool" where
  "decoded_as (Send_request q t px) s = (ps_decode_submit_seq s = q \<and> ps_decode_mode s = PULSE_CAPTURE_SEND \<and> ps_decode_timing s = t \<and>
     take (ps_decode_pixel_len s) (ps_decode_pixel_grb s) = px \<and> ps_decode_pixel_len s = length px)"
| "decoded_as (Read_request q) s = (ps_decode_submit_seq s = q \<and> ps_decode_mode s = PULSE_CAPTURE_READ)"

definition task_inv :: "'h pulse_sys \<Rightarrow> bool" where
  "task_inv y \<longleftrightarrow> (case py_task y of
     TASK_IDLE \<Rightarrow> True
   | TASK_WOKEN \<Rightarrow> 1 \<le> arms y
   | TASK_WAIT w \<Rightarrow> waiting y w
   | TASK_EVENT event w \<Rightarrow> waiting y w \<and> event_of y (py_event y) event
   | TASK_TIMED_OUT w \<Rightarrow> waiting y w \<and> (ps_capture_queue (py_pulse y) \<noteq> None \<longrightarrow> py_handled y \<le> py_queued y)
   | TASK_TIMEOUT w \<Rightarrow> waiting y w
   | TASK_DECODE event \<Rightarrow> 1 \<le> py_handled y \<and> py_handled y \<le> arms y \<and>
       py_captures y (py_handled y) = Some (ps_decode_symbols (py_pulse y), ce_symbol_count event) \<and>
       decoded_as (request_at y (py_handled y)) (py_pulse y))"

text \<open>The arm the task is handling, if it handles one.\<close>

definition handling :: "'h pulse_sys \<Rightarrow> nat option" where
  "handling y = (case py_task y of TASK_IDLE \<Rightarrow> None | TASK_WOKEN \<Rightarrow> Some (arms y) | _ \<Rightarrow> Some (py_handled y))"

definition published_arms :: "'h pulse_sys \<Rightarrow> nat list" where
  "published_arms y = map the (filter (\<lambda>k. k \<noteq> None) (py_outcomes y))"

definition order_inv :: "'h pulse_sys \<Rightarrow> bool" where
  "order_inv y \<longleftrightarrow>
     (\<forall>p\<in>set (published_arms y). 1 \<le> p \<and> p \<le> arms y) \<and>
     (ps_armed_sem (py_pulse y) \<longrightarrow> 1 \<le> arms y \<and> (\<forall>p\<in>set (published_arms y). p < arms y)) \<and>
     (\<forall>k. handling y = Some k \<longrightarrow> (\<forall>p\<in>set (published_arms y). p < k)) \<and>
     (case py_task y of TASK_DECODE event \<Rightarrow> ps_armed_sem (py_pulse y) \<longrightarrow> py_handled y < arms y
      | TASK_TIMEOUT w \<Rightarrow> ps_armed_sem (py_pulse y) \<longrightarrow> py_handled y < arms y | _ \<Rightarrow> True) \<and>
     (arms y = 0 \<or> ps_armed_sem (py_pulse y) \<or> arms y \<in> set (published_arms y) \<or> handling y = Some (arms y)) \<and>
     sorted_wrt (<) (published_arms y)"

definition outcome_ok :: "'h pulse_sys \<Rightarrow> nat option \<Rightarrow> ws2812_measurement \<Rightarrow> bool" where
  "outcome_ok y arm m = (case arm of None \<Rightarrow> wm_state m = WS2812_MEASUREMENT_NOT_MEASURED
     | Some k \<Rightarrow> 1 \<le> k \<and> k \<le> arms y \<and>
         (m = pulse_result (request_submit_seq (request_at y k)) WS2812_MEASUREMENT_TIMEOUT None \<or>
          (\<exists>c. py_captures y k = Some c \<and> m = measure_of (request_at y k) c)))"

definition outcome_inv :: "'h pulse_sys \<Rightarrow> bool" where
  "outcome_inv y \<longleftrightarrow> ps_result_cb (py_pulse y) \<and> list_all2 (outcome_ok y) (py_outcomes y) (ps_published (py_pulse y))"

definition pulse_inv :: "'h rx_drv \<Rightarrow> 'h pulse_sys \<Rightarrow> bool" where
  "pulse_inv drv y \<longleftrightarrow> hw_inv drv y \<and> queue_inv drv y \<and> snapshot_inv y \<and> task_inv y \<and> order_inv y \<and> outcome_inv y"

subsection \<open>What the operations do to the state\<close>

lemma Publish_eq [simp]:
  "ps_result_cb s \<Longrightarrow> PublishPulseResult q st r s = s\<lparr>ps_published := ps_published s @ [pulse_result q st r]\<rparr>"
  "ps_result_cb s \<Longrightarrow> PublishReadResult q rd s = s\<lparr>ps_published := ps_published s @ [read_result q rd]\<rparr>"
  by (simp_all add: PublishPulseResult_def PublishReadResult_def PublishMeasurement_def)

lemma NotMeasured_eq [simp]:
  "ps_result_cb s \<Longrightarrow> NotMeasured req s =
     s\<lparr>ps_published := ps_published s @ [pulse_result (request_submit_seq req) WS2812_MEASUREMENT_NOT_MEASURED None]\<rparr>"
  by (simp add: NotMeasured_def)

lemma pulse_result_state [simp]: "wm_state (pulse_result q st r) = st"
  by (simp add: pulse_result_def Let_def split: option.splits)

lemma Clear_eq [simp]: "ClearPendingArmSignal s = s\<lparr>ps_armed_sem := False\<rparr>"
  by (cases s) (simp add: ClearPendingArmSignal_def)

lemma IssueReceive_cases:
  assumes "rx_laws drv" "\<not> rx_busy drv (ps_hw s)" "IssueReceive drv s = (r, s')"
  obtains hw where "rx_busy drv hw = (r = ESP_OK)"
    "s' = (if r = ESP_OK then s\<lparr>ps_hw := hw\<rparr> else s\<lparr>ps_hw := hw, ps_capture_seq := ps_armed_seq s, ps_is_receive_pending := False\<rparr>)"
proof -
  obtain r0 h0 where r0: "rx_receive drv (ps_hw s) = (r0, h0)" by fastforce
  obtain e h1 where e: "rx_enable drv h0 = (e, h1)" by fastforce
  obtain r2 h2 where r2: "rx_receive drv h1 = (r2, h2)" by fastforce
  have b0: "rx_busy drv h0 = (r0 = ESP_OK)" using assms(1,2) r0 unfolding rx_laws_def by blast
  have b1: "rx_busy drv h1 = rx_busy drv h0" using assms(1) e unfolding rx_laws_def by blast
  have b2: "\<not> rx_busy drv h1 \<Longrightarrow> rx_busy drv h2 = (r2 = ESP_OK)" using assms(1) r2 unfolding rx_laws_def by blast
  define hw where "hw = (if r0 = ESP_ERR_INVALID_STATE then if e = ESP_OK then h2 else h1 else h0)"
  show thesis
    by (rule that [of hw]) (use assms(3) b0 b1 b2 in \<open>auto simp: IssueReceive_def hw_def r0 e r2 Let_def\<close>)
qed

lemma IssueReceive_form:
  assumes "IssueReceive drv s = (r, s')"
  obtains hw where "s' = (if r = ESP_OK then s\<lparr>ps_hw := hw\<rparr>
    else s\<lparr>ps_hw := hw, ps_capture_seq := ps_armed_seq s, ps_is_receive_pending := False\<rparr>)"
  using assms that by (auto simp: IssueReceive_def Let_def split: prod.splits if_splits)

lemma RestartRxChannel_cases:
  obtains (skipped) "ps_armed_seq s \<noteq> q" "RestartRxChannel drv q s = s"
  | (restarted) hw where "ps_armed_seq s = q"
      "RestartRxChannel drv q s = s\<lparr>ps_armed_sem := False, ps_hw := hw, ps_is_receive_pending := False\<rparr>"
proof (cases "ps_armed_seq s = q")
  case True
  obtain r hw where d: "rx_disable drv (ps_hw s) = (r, hw)" by fastforce
  obtain r' hw' where e: "rx_enable drv hw = (r', hw')" by fastforce
  from True d e show thesis
    by (intro restarted [of "if r = ESP_OK then hw' else hw"]) (auto simp: RestartRxChannel_def Let_def)
qed (use skipped in \<open>simp add: RestartRxChannel_def\<close>)

text \<open>A disable that works stops the receive.\<close>

lemma RestartRxChannel_stops:
  assumes "rx_laws drv" and "fst (rx_disable drv (ps_hw s)) = ESP_OK" and "ps_armed_seq s = q"
  shows "\<not> rx_busy drv (ps_hw (RestartRxChannel drv q s))"
proof -
  obtain hw where d: "rx_disable drv (ps_hw s) = (ESP_OK, hw)" using assms(2) by (metis prod.collapse)
  obtain r' hw' where e: "rx_enable drv hw = (r', hw')" by fastforce
  have "\<not> rx_busy drv hw'" using d e assms(1) unfolding rx_laws_def by blast
  then show ?thesis using assms(3) d e by (simp add: RestartRxChannel_def Let_def)
qed

lemma TakeCurrent_True:
  "TakeCurrentCapture event w s = (True, w', s') \<Longrightarrow> ce_arm_seq event = ps_armed_seq s \<and>
     s' = s\<lparr>ps_decode_symbols := ps_symbol_buffer s, ps_decode_timing := ps_armed_timing s,
       ps_decode_pixel_grb := overwrite 0 (take (ps_armed_pixel_len s) (ps_armed_pixel_grb s)) (ps_decode_pixel_grb s),
       ps_decode_pixel_len := ps_armed_pixel_len s, ps_decode_submit_seq := ps_armed_submit_seq s,
       ps_decode_mode := ps_armed_mode s, ps_armed_sem := False\<rparr>"
  by (auto simp: TakeCurrentCapture_def split: if_splits)

lemma TakeCurrent_False:
  "TakeCurrentCapture event w s = (False, w', s') \<Longrightarrow> ce_arm_seq event \<noteq> ps_armed_seq s \<and> s' = s \<and>
     w' = (ps_armed_seq s, ps_armed_submit_seq s, ps_armed_mode s)"
  by (auto simp: TakeCurrentCapture_def split: if_splits)

lemma of_nat_u32_inject: "j < 2 ^ 32 \<Longrightarrow> k < 2 ^ 32 \<Longrightarrow> (of_nat j :: u32) = of_nat k \<longleftrightarrow> j = k"
  by (simp add: word_of_nat_eq_iff take_bit_nat_eq_self)

subsection \<open>Every step keeps the invariant\<close>

lemma current_receive_update [simp]:
  "current_receive (y\<lparr>py_pulse := s\<rparr>) = current_receive y"
  "current_receive (y\<lparr>py_task := t\<rparr>) = current_receive y"
  "current_receive (y\<lparr>py_captures := c\<rparr>) = current_receive y"
  "current_receive (y\<lparr>py_receive := n\<rparr>) = current_receive y"
  "current_receive (y\<lparr>py_queued := n\<rparr>) = current_receive y"
  "current_receive (y\<lparr>py_handled := n\<rparr>) = current_receive y"
  "current_receive (y\<lparr>py_event := n\<rparr>) = current_receive y"
  "current_receive (y\<lparr>py_outcomes := os\<rparr>) = current_receive y"
  by (simp_all add: current_receive_def split: arm_phase.split)

lemma hw_inv_update [simp]:
  "hw_inv drv (y\<lparr>py_task := t\<rparr>) = hw_inv drv y"
  "hw_inv drv (y\<lparr>py_queued := n\<rparr>) = hw_inv drv y"
  "hw_inv drv (y\<lparr>py_handled := n\<rparr>) = hw_inv drv y"
  "hw_inv drv (y\<lparr>py_event := n\<rparr>) = hw_inv drv y"
  "hw_inv drv (y\<lparr>py_outcomes := os\<rparr>) = hw_inv drv y"
  by (simp_all add: hw_inv_def split: arm_phase.split)

lemma hw_inv_pulse:
  assumes "hw_inv drv y" "ps_armed_seq s = ps_armed_seq (py_pulse y)" "ps_capture_seq s = ps_capture_seq (py_pulse y)"
    "ps_is_receive_pending s = ps_is_receive_pending (py_pulse y)" "ps_hw s = ps_hw (py_pulse y)"
    "ps_symbol_buffer s = ps_symbol_buffer (py_pulse y)"
  shows "hw_inv drv (y\<lparr>py_pulse := s\<rparr>)"
  using assms by (simp add: hw_inv_def split: arm_phase.splits)

lemma cb: "pulse_inv drv y \<Longrightarrow> ps_result_cb (py_pulse y)"
  by (simp add: pulse_inv_def outcome_inv_def)

lemma DecodeCapture_frame:
  "ps_result_cb s \<Longrightarrow> \<exists>ms. DecodeCapture event s = s\<lparr>ps_published := ps_published s @ ms\<rparr>"
  by (cases "AggregateWs2812Pulses (ps_decode_symbols s) 144 (ps_decode_timing s) (ps_decode_pixel_grb s) (ps_decode_pixel_len s) 25")
     (auto simp: DecodeCapture_def intro: exI [of _ "[]"])

lemma AnalyzeReadCapture_frame:
  "ps_result_cb s \<Longrightarrow> \<exists>ms. AnalyzeReadCapture event s = s\<lparr>ps_published := ps_published s @ ms\<rparr>"
  by (cases "AnalyzeWs2812Read (ps_decode_symbols s) (if 144 < ce_symbol_count event then 144 else ce_symbol_count event) 25")
     (auto simp: AnalyzeReadCapture_def Let_def)

lemma HandleCapture_frame:
  assumes "ps_result_cb s"
  obtains ms where "HandleCapture event s = s\<lparr>ps_published := ps_published s @ ms\<rparr>"
  using DecodeCapture_frame [OF assms, of event] AnalyzeReadCapture_frame [OF assms, of event]
  by (cases "ps_decode_mode s = PULSE_CAPTURE_READ") (auto simp: HandleCapture_def)

lemma hw_inv_step:
  assumes step: "pulse_step drv y y'" and laws: "rx_laws drv" and inv: "pulse_inv drv y" and stopped: "\<not> survives drv y y'"
  shows "hw_inv drv y'"
proof -
  have hw: "hw_inv drv y" and cb: "ps_result_cb (py_pulse y)" using inv by (simp_all add: pulse_inv_def outcome_inv_def)
  from step show ?thesis
  proof cases
    case (tag req arm_seq s)
    then show ?thesis using hw by (auto simp: hw_inv_def current_receive_def TagReceive_def Let_def)
  next
    case (start_receive req arm_seq s)
    then show ?thesis
      using hw by (elim IssueReceive_cases [OF laws, rotated]) (auto simp: hw_inv_def current_receive_def)
  next
    case (fail_receive req arm_seq r s)
    then show ?thesis
      using hw cb by (elim IssueReceive_cases [OF laws, rotated]) (auto simp: hw_inv_def current_receive_def)
  next
    case (commit req arm_seq)
    then show ?thesis
      using hw by (cases req) (auto simp: hw_inv_def current_receive_def CommitSend_def CommitRead_def)
  next
    case (hw_write symbols)
    then show ?thesis using hw by (simp add: hw_inv_def split: arm_phase.splits)
  next
    case (interrupt s n symbols)
    then show ?thesis
      using hw laws by (auto simp: hw_inv_def HandleRxDone_def Let_def rx_laws_def split: arm_phase.splits)
  next
    case (take_current event w w' s)
    from TakeCurrent_True [OF take_current(4)] show ?thesis
      unfolding take_current(1) by (simp add: hw_inv_pulse [OF hw])
  next
    case (discard_stale event w w' s)
    from TakeCurrent_False [OF discard_stale(4)] show ?thesis
      using hw unfolding discard_stale(1) by simp
  next
    case (restart_rx w)
    show ?thesis
    proof (cases rule: RestartRxChannel_cases [of "py_pulse y" "fst w" drv, case_names skipped restarted])
      case skipped
      then show ?thesis using hw restart_rx by simp
    next
      case (restarted hw')
      then have "\<not> rx_busy drv hw'" using stopped restart_rx(1,2) by (cases w) (simp add: survives_def)
      then show ?thesis using hw restart_rx restarted by (auto simp: hw_inv_def)
    qed
  next
    case (decode event)
    moreover obtain ms where "HandleCapture event (py_pulse y) = (py_pulse y)\<lparr>ps_published := ps_published (py_pulse y) @ ms\<rparr>"
      by (rule HandleCapture_frame [OF cb])
    ultimately show ?thesis by (simp add: hw_inv_pulse [OF hw])
  qed (use hw cb in \<open>simp_all add: hw_inv_pulse\<close>)
qed

text \<open>The ghost history only grows.\<close>

definition grows :: "'h pulse_sys \<Rightarrow> 'h pulse_sys \<Rightarrow> bool" where
  "grows y y' \<longleftrightarrow> current_receive y \<le> current_receive y' \<and>
     (\<forall>k c. py_captures y k = Some c \<longrightarrow> py_captures y' k = Some c) \<and>
     (py_requests y' = py_requests y \<or> (\<exists>req. py_requests y' = py_requests y @ [req]))"

lemma grows_step:
  assumes "pulse_step drv y y'" "hw_inv drv y"
  shows "grows y y'"
  using assms
  by (cases rule: pulse_step.cases) (auto simp: grows_def hw_inv_def current_receive_def split: arm_phase.splits)

lemma grows_arms: "grows y y' \<Longrightarrow> arms y \<le> arms y'"
  by (auto simp: grows_def)

lemma grows_request: "grows y y' \<Longrightarrow> 1 \<le> k \<Longrightarrow> k \<le> arms y \<Longrightarrow> request_at y' k = request_at y k"
  by (auto simp: grows_def request_at_def nth_append)

lemma grows_event: "grows y y' \<Longrightarrow> event_of y e event \<Longrightarrow> event_of y' e event"
  by (fastforce simp: grows_def event_of_def)

lemma grows_outcome:
  assumes g: "grows y y'" and ok: "outcome_ok y arm m"
  shows "outcome_ok y' arm m"
proof (cases arm)
  case None
  then show ?thesis using ok by (simp add: outcome_ok_def)
next
  case (Some k)
  then have k: "1 \<le> k" "k \<le> arms y" using ok by (simp_all add: outcome_ok_def)
  have "py_captures y k = Some c \<Longrightarrow> py_captures y' k = Some c" for c using g unfolding grows_def by blast
  then show ?thesis
    using Some ok k grows_arms [OF g] by (auto simp: outcome_ok_def grows_request [OF g k])
qed

lemma queue_inv_step:
  assumes step: "pulse_step drv y y'" and laws: "rx_laws drv" and inv: "pulse_inv drv y" and small: "arms y' < 2 ^ 32"
  shows "queue_inv drv y'"
proof -
  have hw: "hw_inv drv y" and q: "queue_inv drv y" and cb: "ps_result_cb (py_pulse y)" and task: "task_inv y"
    using inv by (simp_all add: pulse_inv_def outcome_inv_def)
  note g = grows_step [OF step hw]
  note ev = grows_event [OF g]
  from step show ?thesis
  proof cases
    case (tag req arm_seq s)
    then show ?thesis using q ev hw by (auto simp: queue_inv_def current_receive_def TagReceive_def Let_def)
  next
    case (start_receive req arm_seq s)
    then show ?thesis
      using q ev hw by (elim IssueReceive_cases [OF laws, rotated]) (auto simp: queue_inv_def current_receive_def hw_inv_def)
  next
    case (fail_receive req arm_seq r s)
    then show ?thesis
      using q ev hw cb by (elim IssueReceive_cases [OF laws, rotated]) (auto simp: queue_inv_def current_receive_def hw_inv_def)
  next
    case (commit req arm_seq)
    then show ?thesis
      using q ev by (cases req) (auto simp: queue_inv_def current_receive_def CommitSend_def CommitRead_def)
  next
    case (interrupt s n symbols)
    have "ps_capture_seq (py_pulse y) = of_nat (current_receive y)" "1 \<le> current_receive y" "py_receive y = current_receive y"
      using hw interrupt(2) by (auto simp: hw_inv_def current_receive_def split: arm_phase.splits)
    then show ?thesis
      using interrupt(1,3) by (auto simp: queue_inv_def event_of_def HandleRxDone_def Let_def)
  next
    case (get_event w event)
    then show ?thesis by (simp add: queue_inv_def)
  next
    case (take_current event w w' s)
    from TakeCurrent_True [OF take_current(4)] show ?thesis
      using q ev unfolding take_current(1) by (simp add: queue_inv_def)
  next
    case (discard_stale event w w' s)
    from TakeCurrent_False [OF discard_stale(4)] show ?thesis
      using q ev unfolding discard_stale(1) by (simp add: queue_inv_def)
  next
    case (restart_rx w)
    have w: "waiting y w" and late: "ps_capture_queue (py_pulse y) \<noteq> None \<Longrightarrow> py_handled y \<le> py_queued y"
      using task restart_rx(2) by (simp_all add: task_inv_def)
    have arms: "ps_armed_seq (py_pulse y) = of_nat (arms y)" "current_receive y = arms y"
      using hw restart_rx(3) by (simp_all add: hw_inv_def current_receive_def)
    show ?thesis
    proof (cases rule: RestartRxChannel_cases [of "py_pulse y" "fst w" drv, case_names skipped restarted])
      case skipped
      then show ?thesis using q ev restart_rx(1) by (simp add: queue_inv_def)
    next
      case (restarted hw)
      have "py_handled y = arms y"
        using restarted(1) w arms small grows_arms [OF g] by (simp add: waiting_def of_nat_u32_inject)
      then show ?thesis
        using q ev late restart_rx(1) restarted(2) arms(2) by (auto simp: queue_inv_def)
    qed
  next
    case (decode event)
    moreover obtain ms where "HandleCapture event (py_pulse y) = (py_pulse y)\<lparr>ps_published := ps_published (py_pulse y) @ ms\<rparr>"
      by (rule HandleCapture_frame [OF cb])
    ultimately show ?thesis using q ev by (simp add: queue_inv_def)
  qed (use q ev cb in \<open>simp_all add: queue_inv_def\<close>)
qed

lemma armed_as_cong:
  assumes "armed_as req s" "ps_armed_submit_seq s' = ps_armed_submit_seq s" "ps_armed_mode s' = ps_armed_mode s"
    "ps_armed_timing s' = ps_armed_timing s" "ps_armed_pixel_grb s' = ps_armed_pixel_grb s" "ps_armed_pixel_len s' = ps_armed_pixel_len s"
  shows "armed_as req s'"
  using assms by (cases req) auto

lemma snapshot_frame:
  assumes "snapshot_inv y" "py_requests y' = py_requests y" "length (ps_decode_pixel_grb (py_pulse y')) = 18"
    "ps_armed_submit_seq (py_pulse y') = ps_armed_submit_seq (py_pulse y)" "ps_armed_mode (py_pulse y') = ps_armed_mode (py_pulse y)"
    "ps_armed_timing (py_pulse y') = ps_armed_timing (py_pulse y)" "ps_armed_pixel_grb (py_pulse y') = ps_armed_pixel_grb (py_pulse y)"
    "ps_armed_pixel_len (py_pulse y') = ps_armed_pixel_len (py_pulse y)"
  shows "snapshot_inv y'"
  using assms unfolding snapshot_inv_def by (auto intro: armed_as_cong)

lemma snapshot_inv_step:
  assumes step: "pulse_step drv y y'" and laws: "rx_laws drv" and inv: "pulse_inv drv y"
  shows "snapshot_inv y'"
proof -
  have hw: "hw_inv drv y" and sn: "snapshot_inv y" and cb: "ps_result_cb (py_pulse y)"
    using inv by (simp_all add: pulse_inv_def outcome_inv_def)
  then have len: "length (ps_armed_pixel_grb (py_pulse y)) = 18" "length (ps_decode_pixel_grb (py_pulse y)) = 18"
    by (simp_all add: snapshot_inv_def)
  from step show ?thesis
  proof cases
    case (tag req arm_seq s)
    then show ?thesis by (intro snapshot_frame [OF sn]) (auto simp: TagReceive_def Let_def len)
  next
    case (start_receive req arm_seq s)
    have "\<not> busy drv y" using hw start_receive(2) by (simp add: hw_inv_def)
    then show ?thesis
      unfolding start_receive(1)
      by (rule IssueReceive_cases [OF laws _ start_receive(3)]) (rule snapshot_frame [OF sn], auto simp: len)
  next
    case (fail_receive req arm_seq r s)
    have "\<not> busy drv y" using hw fail_receive(2) by (simp add: hw_inv_def)
    then show ?thesis
      unfolding fail_receive(1)
      by (rule IssueReceive_cases [OF laws _ fail_receive(3)]) (rule snapshot_frame [OF sn], auto simp: len cb)
  next
    case (commit req arm_seq)
    have "request_fits req" using hw commit(2) by (simp add: hw_inv_def)
    then show ?thesis
      using commit(1) len by (cases req) (auto simp: snapshot_inv_def CommitSend_def CommitRead_def overwrite_def)
  next
    case (interrupt s n symbols)
    then show ?thesis by (intro snapshot_frame [OF sn]) (auto simp: HandleRxDone_def Let_def len)
  next
    case (take_current event w w' s)
    from TakeCurrent_True [OF take_current(4)] show ?thesis
      unfolding take_current(1) by (intro snapshot_frame [OF sn]) (auto simp: len)
  next
    case (discard_stale event w w' s)
    from TakeCurrent_False [OF discard_stale(4)] show ?thesis
      unfolding discard_stale(1) by (intro snapshot_frame [OF sn]) (auto simp: len)
  next
    case (restart_rx w)
    then show ?thesis
      by (cases rule: RestartRxChannel_cases [of "py_pulse y" "fst w" drv]) (auto intro!: snapshot_frame [OF sn] simp: len)
  next
    case (decode event)
    moreover obtain ms where "HandleCapture event (py_pulse y) = (py_pulse y)\<lparr>ps_published := ps_published (py_pulse y) @ ms\<rparr>"
      by (rule HandleCapture_frame [OF cb])
    ultimately show ?thesis by (intro snapshot_frame [OF sn]) (auto simp: len)
  qed (auto intro!: snapshot_frame [OF sn] simp: len cb)
qed

text \<open>The current request, as the task reads it under the lock.\<close>

lemma armed_current:
  assumes "hw_inv drv y" "snapshot_inv y" "1 \<le> arms y"
  shows "GetArmedSeq (py_pulse y) = (of_nat (arms y), request_submit_seq (request_at y (arms y)), request_mode (request_at y (arms y)))"
proof -
  have "request_at y (arms y) = last (py_requests y)" using assms(3) by (cases "py_requests y") (auto simp: request_at_def last_conv_nth)
  moreover have "armed_as (last (py_requests y)) (py_pulse y)" using assms(2,3) by (auto simp: snapshot_inv_def)
  moreover have "ps_armed_seq (py_pulse y) = of_nat (arms y)" using assms(1) by (simp add: hw_inv_def)
  ultimately show ?thesis by (cases "last (py_requests y)") (auto simp: GetArmedSeq_def)
qed

lemma waiting_grows:
  assumes "grows y y'" "waiting y w" "py_handled y' = py_handled y"
  shows "waiting y' w"
proof -
  have "1 \<le> py_handled y" "py_handled y \<le> arms y" using assms(2) by (simp_all add: waiting_def)
  with grows_request [OF assms(1) this] grows_arms [OF assms(1)] show ?thesis
    using assms(2,3) by (simp add: waiting_def)
qed

definition same_decode :: "'h pulse \<Rightarrow> 'h pulse \<Rightarrow> bool" where
  "same_decode s s' \<longleftrightarrow> ps_decode_symbols s' = ps_decode_symbols s \<and> ps_decode_timing s' = ps_decode_timing s \<and>
     ps_decode_pixel_grb s' = ps_decode_pixel_grb s \<and> ps_decode_pixel_len s' = ps_decode_pixel_len s \<and>
     ps_decode_submit_seq s' = ps_decode_submit_seq s \<and> ps_decode_mode s' = ps_decode_mode s"

lemma task_frame:
  assumes inv: "task_inv y" and g: "grows y y'"
    and same: "py_task y' = py_task y" "py_handled y' = py_handled y" "py_event y' = py_event y"
    and dec: "same_decode (py_pulse y) (py_pulse y')"
    and queue: "ps_capture_queue (py_pulse y') = ps_capture_queue (py_pulse y) \<and> py_queued y' = py_queued y \<or> arms y \<le> py_queued y'"
  shows "task_inv y'"
proof (cases "py_task y")
  case (TASK_DECODE event)
  then have d: "1 \<le> py_handled y" "py_handled y \<le> arms y"
      "py_captures y (py_handled y) = Some (ps_decode_symbols (py_pulse y), ce_symbol_count event)"
      "decoded_as (request_at y (py_handled y)) (py_pulse y)"
    using inv by (simp_all add: task_inv_def)
  have "decoded_as (request_at y' (py_handled y)) (py_pulse y')"
    using d(4) dec unfolding grows_request [OF g d(1,2)] by (cases "request_at y (py_handled y)") (auto simp: same_decode_def)
  moreover have "py_captures y' (py_handled y) = Some (ps_decode_symbols (py_pulse y'), ce_symbol_count event)"
    using d(3) dec g by (simp add: same_decode_def grows_def)
  ultimately show ?thesis
    using TASK_DECODE d same grows_arms [OF g] by (simp add: task_inv_def)
next
  case (TASK_TIMED_OUT w)
  then have "waiting y w" "ps_capture_queue (py_pulse y) \<noteq> None \<longrightarrow> py_handled y \<le> py_queued y" using inv by (simp_all add: task_inv_def)
  then show ?thesis
    using TASK_TIMED_OUT waiting_grows [OF g] same queue by (auto simp: task_inv_def waiting_def)
next
  case TASK_WOKEN
  then show ?thesis using inv same grows_arms [OF g] by (simp add: task_inv_def)
qed (use inv same waiting_grows [OF g] grows_event [OF g] in \<open>auto simp: task_inv_def\<close>)

lemma same_decode_refl [simp]: "same_decode s s" by (simp add: same_decode_def)

text \<open>A current event is the event of the latest arm, and its capture is in the buffer.\<close>

lemma current_event:
  assumes inv: "pulse_inv drv y" and small: "arms y < 2 ^ 32" and idle: "py_arm y = ARM_IDLE"
    and task: "py_task y = TASK_EVENT event w" and take: "TakeCurrentCapture event w (py_pulse y) = (True, w', s)"
  shows "1 \<le> arms y" "py_captures y (arms y) = Some (ps_symbol_buffer (py_pulse y), ce_symbol_count event)"
proof -
  have hw: "hw_inv drv y" and ev: "event_of y (py_event y) event" and w: "waiting y w"
    using inv task by (simp_all add: pulse_inv_def task_inv_def)
  have cur: "current_receive y = arms y" using idle by (simp add: current_receive_def)
  have "(of_nat (py_event y) :: u32) = of_nat (arms y)"
    using ev hw TakeCurrent_True [OF take] by (simp add: event_of_def hw_inv_def)
  moreover have "py_event y \<le> arms y" using ev cur by (simp add: event_of_def)
  ultimately have "py_event y = arms y" using small by (simp add: of_nat_u32_inject)
  then obtain syms where syms: "py_captures y (arms y) = Some (syms, ce_symbol_count event)"
    using ev by (auto simp: event_of_def)
  then have "\<not> busy drv y" using hw cur by (auto simp: hw_inv_def)
  then have "ps_symbol_buffer (py_pulse y) = syms" using hw cur syms by (simp add: hw_inv_def)
  with syms show "py_captures y (arms y) = Some (ps_symbol_buffer (py_pulse y), ce_symbol_count event)" by simp
  show "1 \<le> arms y" using w by (simp add: waiting_def)
qed

lemma task_inv_step:
  assumes step: "pulse_step drv y y'" and laws: "rx_laws drv" and inv: "pulse_inv drv y" and small: "arms y' < 2 ^ 32"
  shows "task_inv y'"
proof -
  have hw: "hw_inv drv y" and sn: "snapshot_inv y" and cb: "ps_result_cb (py_pulse y)" and task: "task_inv y"
    and order: "order_inv y" and queue: "queue_inv drv y"
    using inv by (simp_all add: pulse_inv_def outcome_inv_def)
  note g = grows_step [OF step hw]
  from step show ?thesis
  proof cases
    case (tag req arm_seq s)
    then show ?thesis by (intro task_frame [OF task g]) (auto simp: TagReceive_def Let_def same_decode_def)
  next
    case (start_receive req arm_seq s)
    have "\<not> busy drv y" using hw start_receive(2) by (simp add: hw_inv_def)
    then obtain hw where "s = (py_pulse y)\<lparr>ps_hw := hw\<rparr>"
      by (rule IssueReceive_cases [OF laws _ start_receive(3)]) auto
    then show ?thesis by (intro task_frame [OF task g]) (auto simp: start_receive(1) same_decode_def)
  next
    case (fail_receive req arm_seq r s)
    have "\<not> busy drv y" using hw fail_receive(2) by (simp add: hw_inv_def)
    then obtain hw where "s = (py_pulse y)\<lparr>ps_hw := hw, ps_capture_seq := ps_armed_seq (py_pulse y), ps_is_receive_pending := False\<rparr>"
      by (rule IssueReceive_cases [OF laws _ fail_receive(3)]) (use fail_receive(4) in auto)
    then show ?thesis by (intro task_frame [OF task g]) (auto simp: fail_receive(1) same_decode_def cb)
  next
    case (commit req arm_seq)
    then show ?thesis
      by (intro task_frame [OF task g]) (cases req; auto simp: CommitSend_def CommitRead_def same_decode_def)+
  next
    case (interrupt s n symbols)
    have "arms y \<le> py_receive y" using hw by (auto simp: hw_inv_def current_receive_def split: arm_phase.splits)
    then show ?thesis by (intro task_frame [OF task g]) (auto simp: interrupt HandleRxDone_def Let_def same_decode_def)
  next
    case take_signal
    then show ?thesis using order by (simp add: task_inv_def order_inv_def)
  next
    case get_armed
    then have "1 \<le> arms y" using task by (simp add: task_inv_def)
    then show ?thesis
      using get_armed(1) by (simp add: task_inv_def waiting_def armed_current [OF hw sn] request_at_def)
  next
    case (get_event w event)
    then show ?thesis
      using task queue g by (auto simp: task_inv_def queue_inv_def waiting_def request_at_def event_of_def)
  next
    case (time_out w)
    then show ?thesis using task by (simp add: task_inv_def waiting_def request_at_def)
  next
    case (take_current event w w' s)
    have "arms y < 2 ^ 32" using grows_arms [OF g] small by simp
    note cur = current_event [OF inv this take_current(3,2,4)]
    have "request_at y (arms y) = last (py_requests y)" using cur(1) by (cases "py_requests y") (auto simp: request_at_def last_conv_nth)
    moreover have "armed_as (last (py_requests y)) (py_pulse y)" using sn cur(1) by (auto simp: snapshot_inv_def)
    ultimately have "decoded_as (request_at y (arms y)) s"
      using TakeCurrent_True [OF take_current(4)]
      by (cases "last (py_requests y)") (auto simp: overwrite_def)
    moreover have "ps_decode_symbols s = ps_symbol_buffer (py_pulse y)" using TakeCurrent_True [OF take_current(4)] by simp
    ultimately show ?thesis using cur take_current(1) by (simp add: task_inv_def request_at_def)
  next
    case (discard_stale event w w' s)
    have "1 \<le> arms y" using task discard_stale(2) by (auto simp: task_inv_def waiting_def)
    moreover have "w' = GetArmedSeq (py_pulse y)" using TakeCurrent_False [OF discard_stale(4)] by (simp add: GetArmedSeq_def)
    ultimately show ?thesis
      using discard_stale(1) by (simp add: task_inv_def waiting_def armed_current [OF hw sn] request_at_def)
  next
    case (restart_rx w)
    then show ?thesis using task by (simp add: task_inv_def waiting_def request_at_def)
  next
    case (publish_timeout w)
    then show ?thesis by (simp add: task_inv_def)
  next
    case (decode event)
    then show ?thesis by (simp add: task_inv_def)
  qed (intro task_frame [OF task g]; simp add: cb same_decode_def)+
qed

lemma expected_bit_take: "expected_bit (take n px) n = expected_bit px n"
  by (auto simp: expected_bit_def fun_eq_iff)

lemma Aggregate_take:
  "AggregateWs2812Pulses symbols n t (take len px) len tick = AggregateWs2812Pulses symbols n t px len tick"
proof -
  have "aggregate_step symbols t (take len px) len tick a = aggregate_step symbols t px len tick a" for a
    by (intro ext) (simp add: aggregate_step_def expected_bit_take)
  then show ?thesis by (simp add: AggregateWs2812Pulses_def)
qed

lemma Aggregate_Some: "AggregateWs2812Pulses symbols 144 t px len 25 \<noteq> None"
  using AggregateWs2812Pulses_stats_aux [where symbols = symbols and n = 144 and t = t and px = px and len = len]
  by (auto split: option.splits)

lemma HandleCapture_measure:
  assumes cb: "ps_result_cb s" and req: "decoded_as req s"
  shows "HandleCapture event s =
    s\<lparr>ps_published := ps_published s @ [measure_of req (ps_decode_symbols s, ce_symbol_count event)]\<rparr>"
proof (cases req)
  case (Send_request q t px)
  then have px: "take (length px) (ps_decode_pixel_grb s) = px" "ps_decode_pixel_len s = length px"
    using req by auto
  have agg: "AggregateWs2812Pulses (ps_decode_symbols s) 144 t (ps_decode_pixel_grb s) (length px) 25
      = AggregateWs2812Pulses (ps_decode_symbols s) 144 t px (length px) 25"
    using Aggregate_take [of "ps_decode_symbols s" 144 t "length px" "ps_decode_pixel_grb s" 25] unfolding px(1) by simp
  obtain st where st: "AggregateWs2812Pulses (ps_decode_symbols s) 144 t px (length px) 25 = Some st"
    using Aggregate_Some by blast
  show ?thesis
    using Send_request req cb agg st px(2) by (simp add: HandleCapture_def DecodeCapture_def)
next
  case (Read_request q)
  have "(if 144 < ce_symbol_count event then 144 else ce_symbol_count event) = min (ce_symbol_count event) 144" by simp
  then show ?thesis
    using Read_request req cb
    by (cases "AnalyzeWs2812Read (ps_decode_symbols s) (min (ce_symbol_count event) 144) 25")
       (simp add: HandleCapture_def AnalyzeReadCapture_def Let_def)
qed

lemma outcome_inv_grow:
  assumes inv: "outcome_inv y" and g: "grows y y'" and cb: "ps_result_cb (py_pulse y')"
    and new: "py_outcomes y' = py_outcomes y @ os" "ps_published (py_pulse y') = ps_published (py_pulse y) @ ms"
    and ok: "list_all2 (outcome_ok y') os ms"
  shows "outcome_inv y'"
proof -
  have "list_all2 (outcome_ok y') (py_outcomes y) (ps_published (py_pulse y))"
    using inv unfolding outcome_inv_def by (auto elim: list_all2_mono intro: grows_outcome [OF g])
  then show ?thesis using cb new ok by (simp add: outcome_inv_def list_all2_appendI)
qed

lemma outcome_inv_step:
  assumes step: "pulse_step drv y y'" and laws: "rx_laws drv" and inv: "pulse_inv drv y"
  shows "outcome_inv y'"
proof -
  have hw: "hw_inv drv y" and cb: "ps_result_cb (py_pulse y)" and task: "task_inv y" and out: "outcome_inv y"
    using inv by (simp_all add: pulse_inv_def outcome_inv_def)
  note g = grows_step [OF step hw]
  note same = outcome_inv_grow [OF out g, where os = "[]" and ms = "[]"]
  from step show ?thesis
  proof cases
    case (refuse req)
    then show ?thesis
      by (intro outcome_inv_grow [OF out g, where os = "[None]"
            and ms = "[pulse_result (request_submit_seq req) WS2812_MEASUREMENT_NOT_MEASURED None]"]) (simp_all add: cb outcome_ok_def)
  next
    case (tag req arm_seq s)
    then show ?thesis by (intro same) (auto simp: TagReceive_def Let_def cb)
  next
    case (start_receive req arm_seq s)
    have "\<not> busy drv y" using hw start_receive(2) by (simp add: hw_inv_def)
    then obtain hw where "s = (py_pulse y)\<lparr>ps_hw := hw\<rparr>"
      by (rule IssueReceive_cases [OF laws _ start_receive(3)]) auto
    then show ?thesis by (intro same) (auto simp: start_receive(1) cb)
  next
    case (fail_receive req arm_seq r s)
    have "\<not> busy drv y" using hw fail_receive(2) by (simp add: hw_inv_def)
    then obtain hw where "s = (py_pulse y)\<lparr>ps_hw := hw, ps_capture_seq := ps_armed_seq (py_pulse y), ps_is_receive_pending := False\<rparr>"
      by (rule IssueReceive_cases [OF laws _ fail_receive(3)]) (use fail_receive(4) in auto)
    then show ?thesis
      by (intro outcome_inv_grow [OF out g, where os = "[None]"
            and ms = "[pulse_result (request_submit_seq req) WS2812_MEASUREMENT_NOT_MEASURED None]"])
         (simp_all add: cb outcome_ok_def fail_receive(1))
  next
    case (commit req arm_seq)
    then show ?thesis by (intro same) (cases req; auto simp: CommitSend_def CommitRead_def cb)+
  next
    case (interrupt s n symbols)
    then show ?thesis by (intro same) (auto simp: HandleRxDone_def Let_def cb)
  next
    case (take_current event w w' s)
    from TakeCurrent_True [OF take_current(4)] show ?thesis
      unfolding take_current(1) by (intro same [unfolded take_current(1)]) (auto simp: cb)
  next
    case (discard_stale event w w' s)
    from TakeCurrent_False [OF discard_stale(4)] show ?thesis
      unfolding discard_stale(1) by (intro same [unfolded discard_stale(1)]) (auto simp: cb)
  next
    case (restart_rx w)
    show ?thesis
      by (rule same; cases rule: RestartRxChannel_cases [of "py_pulse y" "fst w" drv]) (simp_all add: restart_rx(1) cb)
  next
    case (publish_timeout w)
    then have "waiting y w" using task by (simp add: task_inv_def)
    then show ?thesis
      using publish_timeout(1)
      by (intro outcome_inv_grow [OF out g, where os = "[Some (py_handled y)]"
            and ms = "[pulse_result (fst (snd w)) WS2812_MEASUREMENT_TIMEOUT None]"])
         (simp_all add: cb outcome_ok_def waiting_def request_at_def)
  next
    case (decode event)
    then have d: "1 \<le> py_handled y" "py_handled y \<le> arms y" "decoded_as (request_at y (py_handled y)) (py_pulse y)"
      "py_captures y (py_handled y) = Some (ps_decode_symbols (py_pulse y), ce_symbol_count event)"
      using task by (simp_all add: task_inv_def)
    show ?thesis
      by (rule outcome_inv_grow [OF out g, where os = "[Some (py_handled y)]" and ms = "[measure_of
            (request_at y (py_handled y)) (ps_decode_symbols (py_pulse y), ce_symbol_count event)]"])
         (use d in \<open>simp_all add: decode(1) HandleCapture_measure [OF cb d(3)] cb outcome_ok_def request_at_def\<close>)
  qed (intro same; simp add: cb)+
qed

lemma published_arms_simps [simp]:
  "published_arms (y\<lparr>py_pulse := s\<rparr>) = published_arms y"
  "published_arms (y\<lparr>py_arm := a\<rparr>) = published_arms y"
  "published_arms (y\<lparr>py_task := t\<rparr>) = published_arms y"
  "published_arms (y\<lparr>py_requests := rs\<rparr>) = published_arms y"
  "published_arms (y\<lparr>py_captures := c\<rparr>) = published_arms y"
  "published_arms (y\<lparr>py_receive := n\<rparr>) = published_arms y"
  "published_arms (y\<lparr>py_queued := n\<rparr>) = published_arms y"
  "published_arms (y\<lparr>py_handled := n\<rparr>) = published_arms y"
  "published_arms (y\<lparr>py_event := n\<rparr>) = published_arms y"
  "published_arms (y\<lparr>py_outcomes := py_outcomes y @ [None]\<rparr>) = published_arms y"
  "published_arms (y\<lparr>py_outcomes := py_outcomes y @ [Some k]\<rparr>) = published_arms y @ [k]"
  by (simp_all add: published_arms_def)

lemma order_frame:
  assumes "order_inv y" "published_arms y' = published_arms y" "py_task y' = py_task y" "py_handled y' = py_handled y"
    "ps_armed_sem (py_pulse y') = ps_armed_sem (py_pulse y)" "py_requests y' = py_requests y"
  shows "order_inv y'"
proof -
  have "handling y' = handling y" using assms by (simp add: handling_def split: decode_task.split)
  then show ?thesis using assms by (simp add: order_inv_def split: decode_task.splits)
qed

text \<open>
  What the order of outcomes rests on: the sequence number counts the arms and the task handles one of them. It holds whatever the
  receive driver does.
\<close>

definition seq_inv :: "'h pulse_sys \<Rightarrow> bool" where
  "seq_inv y \<longleftrightarrow> ps_armed_seq (py_pulse y) = of_nat (arms y) \<and>
     (case py_arm y of ARM_IDLE \<Rightarrow> True | ARM_TAGGED req q \<Rightarrow> q = of_nat (arms y + 1) | ARM_STARTED req q \<Rightarrow> q = of_nat (arms y + 1))"

definition wait_inv :: "'h pulse_sys \<Rightarrow> bool" where
  "wait_inv y \<longleftrightarrow> (\<forall>k. handling y = Some k \<longrightarrow> 1 \<le> k \<and> k \<le> arms y) \<and>
     (\<forall>w. (py_task y = TASK_WAIT w \<or> (\<exists>e. py_task y = TASK_EVENT e w) \<or> py_task y = TASK_TIMED_OUT w) \<longrightarrow> fst w = of_nat (py_handled y))"

definition core_inv :: "'h pulse_sys \<Rightarrow> bool" where
  "core_inv y \<longleftrightarrow> ps_result_cb (py_pulse y) \<and> seq_inv y \<and> wait_inv y \<and> order_inv y"

lemma task_handled:
  assumes "wait_inv y" "handling y = Some k"
  shows "1 \<le> k" "k \<le> arms y"
  using assms by (auto simp: wait_inv_def)

lemma pulse_inv_core: "pulse_inv drv y \<Longrightarrow> core_inv y"
  by (auto simp: pulse_inv_def core_inv_def seq_inv_def hw_inv_def wait_inv_def task_inv_def outcome_inv_def handling_def waiting_def
      split: arm_phase.splits decode_task.splits)

lemma order_publish:
  assumes order: "order_inv y" and task: "wait_inv y" and h: "handling y = Some (py_handled y)"
    and late: "ps_armed_sem (py_pulse y) \<Longrightarrow> py_handled y < arms y"
    and s: "ps_armed_sem s = ps_armed_sem (py_pulse y)"
  shows "order_inv (y\<lparr>py_pulse := s, py_task := TASK_IDLE, py_outcomes := py_outcomes y @ [Some (py_handled y)]\<rparr>)"
  using order task_handled [OF task h] late h s
  by (auto simp: order_inv_def handling_def [of "y\<lparr>py_pulse := s, py_task := TASK_IDLE, py_outcomes := os\<rparr>" for os] sorted_wrt_append published_arms_def)

lemma order_commit:
  assumes order: "order_inv y" and task: "wait_inv y"
    and y': "published_arms y' = published_arms y" "py_task y' = py_task y" "py_handled y' = py_handled y"
      "ps_armed_sem (py_pulse y')" "py_requests y' = py_requests y @ [req]"
  shows "order_inv y'"
proof -
  have old: "p \<le> arms y" if "p \<in> set (published_arms y)" for p using order that by (simp add: order_inv_def)
  have held: "(\<forall>p\<in>set (published_arms y). p < k)" "k \<le> arms y" if "handling y = Some k" for k
    using order task_handled [OF task that] that by (simp_all add: order_inv_def)
  have new: "\<forall>p\<in>set (published_arms y). p < k" if "handling y' = Some k" for k
    using that held y' old by (auto simp: handling_def less_Suc_eq_le split: decode_task.splits)
  have dec: "case py_task y of TASK_DECODE event \<Rightarrow> py_handled y < arms y' | TASK_TIMEOUT w \<Rightarrow> py_handled y < arms y' | _ \<Rightarrow> True"
    using held(2) y' by (auto simp: handling_def less_Suc_eq_le split: decode_task.split)
  have sorted: "sorted_wrt (<) (published_arms y)" and range: "\<forall>p\<in>set (published_arms y). 1 \<le> p \<and> p \<le> arms y"
    using order by (simp_all add: order_inv_def)
  show ?thesis
    unfolding order_inv_def y'(1) using y'(2-) new dec sorted range
    by (auto simp: less_Suc_eq_le le_SucI split: decode_task.splits)
qed

lemma order_take:
  assumes order: "order_inv y" and task: "wait_inv y" and h: "handling y = Some k"
    and y': "published_arms y' = published_arms y" "py_requests y' = py_requests y" "handling y' = Some (arms y)"
      "ps_armed_sem (py_pulse y') \<Longrightarrow> ps_armed_sem (py_pulse y)"
      "case py_task y' of TASK_DECODE event \<Rightarrow> \<not> ps_armed_sem (py_pulse y') | TASK_TIMEOUT w \<Rightarrow> \<not> ps_armed_sem (py_pulse y') | _ \<Rightarrow> True"
  shows "order_inv y'"
proof -
  have "\<forall>p\<in>set (published_arms y). p < arms y"
    using order task_handled [OF task h] h by (auto simp: order_inv_def)
  then show ?thesis
    using order y' task_handled [OF task h] by (auto simp: order_inv_def split: decode_task.splits)
qed

lemma step_arms: "pulse_step drv y y' \<Longrightarrow> arms y \<le> arms y'"
  by (cases rule: pulse_step.cases) auto

lemma order_inv_step:
  assumes step: "pulse_step drv y y'" and inv: "core_inv y" and small: "arms y' < 2 ^ 32"
  shows "order_inv y'"
proof -
  have seq: "seq_inv y" and cb: "ps_result_cb (py_pulse y)" and task: "wait_inv y" and order: "order_inv y"
    using inv by (simp_all add: core_inv_def)
  from step show ?thesis
  proof cases
    case (tag req arm_seq s)
    then show ?thesis by (intro order_frame [OF order]) (auto simp: TagReceive_def Let_def)
  next
    case (start_receive req arm_seq s)
    obtain hw where "s = (py_pulse y)\<lparr>ps_hw := hw\<rparr>" by (rule IssueReceive_form [OF start_receive(3)]) auto
    then show ?thesis by (intro order_frame [OF order]) (auto simp: start_receive(1))
  next
    case (fail_receive req arm_seq r s)
    obtain hw where "s = (py_pulse y)\<lparr>ps_hw := hw, ps_capture_seq := ps_armed_seq (py_pulse y), ps_is_receive_pending := False\<rparr>"
      by (rule IssueReceive_form [OF fail_receive(3)]) (use fail_receive(4) in auto)
    then show ?thesis by (intro order_frame [OF order]) (auto simp: fail_receive(1) cb published_arms_def)
  next
    case (commit req arm_seq)
    then show ?thesis
      by (intro order_commit [OF order task, of y' req]) (cases req; auto simp: CommitSend_def CommitRead_def published_arms_def)+
  next
    case (interrupt s n symbols)
    then show ?thesis by (intro order_frame [OF order]) (auto simp: HandleRxDone_def Let_def)
  next
    case take_signal
    then show ?thesis using order by (simp add: order_inv_def handling_def)
  next
    case get_armed
    then show ?thesis using order by (simp add: order_inv_def handling_def)
  next
    case (get_event w event)
    then show ?thesis using order by (simp add: order_inv_def handling_def)
  next
    case (time_out w)
    then show ?thesis using order by (simp add: order_inv_def handling_def)
  next
    case (take_current event w w' s)
    then show ?thesis
      using TakeCurrent_True [OF take_current(4)]
      by (intro order_take [OF order task, of "py_handled y"]) (simp_all add: handling_def)
  next
    case (discard_stale event w w' s)
    then show ?thesis
      using TakeCurrent_False [OF discard_stale(4)]
      by (intro order_take [OF order task, of "py_handled y"]) (simp_all add: handling_def)
  next
    case (restart_rx w)
    have h: "handling y = Some (py_handled y)" using restart_rx(2) by (simp add: handling_def)
    have w: "fst w = of_nat (py_handled y)" using task restart_rx(2) by (simp add: wait_inv_def)
    have eq: "ps_armed_seq (py_pulse y) = fst w \<longleftrightarrow> py_handled y = arms y"
      using w seq small step_arms [OF step] task_handled [OF task h] by (auto simp: seq_inv_def of_nat_u32_inject)
    show ?thesis
    proof (cases rule: RestartRxChannel_cases [of "py_pulse y" "fst w" drv, case_names skipped restarted])
      case skipped
      then have "py_handled y < arms y" using eq task_handled(2) [OF task h] by simp
      then show ?thesis using order restart_rx skipped by (simp add: order_inv_def handling_def)
    next
      case (restarted hw)
      then have "py_handled y = arms y" using eq by simp
      then show ?thesis
        using restart_rx restarted by (intro order_take [OF order task, of "py_handled y"]) (simp_all add: handling_def)
    qed
  next
    case (publish_timeout w)
    then show ?thesis
      using order unfolding publish_timeout(1) by (intro order_publish [OF order task]) (simp_all add: handling_def order_inv_def cb)
  next
    case (decode event)
    obtain ms where eq: "HandleCapture event (py_pulse y) = (py_pulse y)\<lparr>ps_published := ps_published (py_pulse y) @ ms\<rparr>"
      by (rule HandleCapture_frame [OF cb])
    show ?thesis
      unfolding decode(1) eq using order decode(2)
      by (intro order_publish [OF order task]) (simp_all add: handling_def order_inv_def)
  qed (intro order_frame [OF order]; simp add: cb published_arms_def)+
qed

lemma seq_inv_step:
  assumes step: "pulse_step drv y y'" and inv: "core_inv y"
  shows "seq_inv y' \<and> ps_result_cb (py_pulse y')"
proof -
  have seq: "seq_inv y" and cb: "ps_result_cb (py_pulse y)" using inv by (simp_all add: core_inv_def)
  from step show ?thesis
  proof cases
    case (tag req arm_seq s)
    then show ?thesis using seq cb by (auto simp: seq_inv_def TagReceive_def Let_def)
  next
    case (start_receive req arm_seq s)
    obtain hw where "s = (py_pulse y)\<lparr>ps_hw := hw\<rparr>" by (rule IssueReceive_form [OF start_receive(3)]) auto
    then show ?thesis using start_receive(1,2) seq cb by (simp add: seq_inv_def)
  next
    case (fail_receive req arm_seq r s)
    obtain hw where "s = (py_pulse y)\<lparr>ps_hw := hw, ps_capture_seq := ps_armed_seq (py_pulse y), ps_is_receive_pending := False\<rparr>"
      by (rule IssueReceive_form [OF fail_receive(3)]) (use fail_receive(4) in auto)
    then show ?thesis using fail_receive(1,2) seq cb by (simp add: seq_inv_def)
  next
    case (commit req arm_seq)
    then show ?thesis using seq cb by (cases req) (simp_all add: seq_inv_def CommitSend_def CommitRead_def)
  next
    case (interrupt s n symbols)
    then show ?thesis using seq cb by (simp add: seq_inv_def HandleRxDone_def Let_def split: arm_phase.splits)
  next
    case (take_current event w w' s)
    with TakeCurrent_True [OF take_current(4)] show ?thesis using seq cb by (simp add: seq_inv_def)
  next
    case (discard_stale event w w' s)
    with TakeCurrent_False [OF discard_stale(4)] show ?thesis using seq cb by (simp add: seq_inv_def)
  next
    case (restart_rx w)
    then show ?thesis
      using seq cb by (cases rule: RestartRxChannel_cases [of "py_pulse y" "fst w" drv]) (simp_all add: seq_inv_def)
  next
    case (decode event)
    moreover obtain ms where "HandleCapture event (py_pulse y) = (py_pulse y)\<lparr>ps_published := ps_published (py_pulse y) @ ms\<rparr>"
      by (rule HandleCapture_frame [OF cb])
    ultimately show ?thesis using seq cb by (simp add: seq_inv_def split: arm_phase.splits)
  qed (use seq cb in \<open>simp_all add: seq_inv_def split: arm_phase.splits\<close>)
qed

lemma wait_inv_step:
  assumes step: "pulse_step drv y y'" and inv: "core_inv y"
  shows "wait_inv y'"
proof -
  have seq: "ps_armed_seq (py_pulse y) = of_nat (arms y)" and wait: "wait_inv y" and order: "order_inv y"
    using inv by (simp_all add: core_inv_def seq_inv_def)
  have frame: "wait_inv y'" if "py_task y' = py_task y" "py_handled y' = py_handled y"
    using wait that step_arms [OF step] by (fastforce simp: wait_inv_def handling_def split: decode_task.splits)
  from step show ?thesis
  proof cases
    case take_signal
    then show ?thesis using order by (simp add: order_inv_def wait_inv_def handling_def)
  next
    case (discard_stale event w w' s)
    then show ?thesis
      using wait seq TakeCurrent_False [OF discard_stale(4)] by (auto simp: wait_inv_def handling_def)
  next
    case get_armed
    then show ?thesis using wait seq by (simp add: wait_inv_def handling_def GetArmedSeq_def)
  next
    case (get_event w event)
    then show ?thesis using wait by (simp add: wait_inv_def handling_def)
  next
    case (time_out w)
    then show ?thesis using wait by (simp add: wait_inv_def handling_def)
  next
    case (take_current event w w' s)
    then show ?thesis using wait by (simp add: wait_inv_def handling_def)
  next
    case (restart_rx w)
    then show ?thesis using wait by (simp add: wait_inv_def handling_def)
  next
    case (publish_timeout w)
    then show ?thesis by (simp add: wait_inv_def handling_def)
  next
    case (decode event)
    then show ?thesis by (simp add: wait_inv_def handling_def)
  qed (rule frame; simp)+
qed

lemma core_inv_step:
  "pulse_step drv y y' \<Longrightarrow> core_inv y \<Longrightarrow> arms y' < 2 ^ 32 \<Longrightarrow> core_inv y'"
  using order_inv_step seq_inv_step wait_inv_step unfolding core_inv_def [of y'] by blast

lemma pulse_reach_core:
  "pulse_reach drv y \<Longrightarrow> arms y < 2 ^ 32 \<Longrightarrow> core_inv y"
proof (induction rule: pulse_reach.induct)
  case (start s)
  then show ?case
    by (simp add: pulse_initial_def core_inv_def seq_inv_def wait_inv_def order_inv_def published_arms_def handling_def)
next
  case (step y y')
  then show ?case using step_arms [OF step(2)] core_inv_step [OF step(2)] by simp
qed

lemma pulse_inv_step:
  assumes "pulse_step drv y y'" "rx_laws drv" "pulse_inv drv y" "arms y' < 2 ^ 32" "\<not> survives drv y y'"
  shows "pulse_inv drv y'"
  unfolding pulse_inv_def [of drv y']
  using hw_inv_step [OF assms(1-3,5)] queue_inv_step [OF assms(1-4)] snapshot_inv_step [OF assms(1-3)] task_inv_step [OF assms(1-4)]
    order_inv_step [OF assms(1) pulse_inv_core [OF assms(3)] assms(4)] outcome_inv_step [OF assms(1-3)] by blast

lemma stopped_reach_inv:
  "stopped_reach drv y \<Longrightarrow> rx_laws drv \<Longrightarrow> arms y < 2 ^ 32 \<Longrightarrow> pulse_inv drv y"
proof (induction rule: stopped_reach.induct)
  case (stopped_start s)
  then show ?case
    by (simp add: pulse_inv_def pulse_initial_def hw_inv_def queue_inv_def snapshot_inv_def task_inv_def order_inv_def
        outcome_inv_def current_receive_def published_arms_def handling_def)
next
  case (stopped_step y y')
  then show ?case using step_arms [OF stopped_step(2)] pulse_inv_step [OF stopped_step(2)] by simp
qed

lemma stopped_if_disabled:
  assumes "pulse_reach drv y" and "rx_laws drv" and "\<forall>h. fst (rx_disable drv h) = ESP_OK" and "arms y < 2 ^ 32"
  shows "stopped_reach drv y"
  using assms(1,4)
proof (induction rule: pulse_reach.induct)
  case (start s)
  from stopped_start [OF start(1)] show ?case .
next
  case (step y y')
  then have r: "stopped_reach drv y" and small: "arms y < 2 ^ 32" using step_arms [OF step(2)] by simp_all
  have inv: "hw_inv drv y" using stopped_reach_inv [OF r assms(2) small] by (simp add: pulse_inv_def)
  have "\<not> survives drv y y'"
  proof
    assume sv: "survives drv y y'"
    then obtain w w' where w: "py_task y = TASK_TIMED_OUT w" "py_task y' = TASK_TIMEOUT w'" by (auto simp: survives_def)
    from step(2) have y': "py_pulse y' = RestartRxChannel drv (fst w) (py_pulse y)" by cases (use w in auto)
    show False
    proof (cases "ps_armed_seq (py_pulse y) = fst w")
      case True
      then show False using RestartRxChannel_stops [OF assms(2) _ True, of] assms(3) sv y' by (simp add: survives_def)
    next
      case False
      then show False using sv inv y' by (simp add: survives_def RestartRxChannel_def hw_inv_def)
    qed
  qed
  with r step(2) show ?case by (rule stopped_step)
qed

lemma stopped_reach_run: "stopped_reach drv y \<Longrightarrow> pulse_reach drv y"
  by (induction rule: stopped_reach.induct) (auto intro: pulse_reach.intros)

text \<open>An uninterrupted call of an arming function is a run of the steps.\<close>

lemma StartTaggedReceive_free:
  "\<not> ps_is_receive_pending s \<Longrightarrow> StartTaggedReceive drv s =
     (case IssueReceive drv (snd (TagReceive s)) of (result, s') \<Rightarrow> (result, fst (TagReceive s), s'))"
  by (simp add: StartTaggedReceive_def split: prod.split)

definition arm_call :: "'h rx_drv \<Rightarrow> bool \<Rightarrow> arm_request \<Rightarrow> 'h pulse \<Rightarrow> 'h pulse" where
  "arm_call drv lock_free req s = (case req of
     Send_request q t px \<Rightarrow> ArmPulseCapture drv lock_free (Some t) q (Some px) s
   | Read_request q \<Rightarrow> ArmPulseRead drv lock_free q s)"

lemma arm_call_eq:
  "arm_call drv lock_free req s =
     (if \<not> ps_rx_channel s \<or> \<not> request_fits req \<or> \<not> lock_free \<or> ps_is_receive_pending s then NotMeasured req s
      else let (arm_seq, s) = TagReceive s; (result, s) = IssueReceive drv s
           in if result \<noteq> ESP_OK then NotMeasured req s else Commit req arm_seq s)"
  by (cases req) (auto simp: arm_call_def ArmPulseCapture_def ArmPulseRead_def NotMeasured_def StartTaggedReceive_def
      Let_def not_less split: prod.splits)

lemma arm_call_run:
  assumes y: "pulse_reach drv y" "py_arm y = ARM_IDLE"
  shows "\<exists>y'. pulse_reach drv y' \<and> py_arm y' = ARM_IDLE \<and> py_task y' = py_task y \<and>
    py_pulse y' = arm_call drv lock_free req (py_pulse y)"
proof (cases "\<not> ps_rx_channel (py_pulse y) \<or> \<not> request_fits req \<or> \<not> lock_free \<or> ps_is_receive_pending (py_pulse y)")
  case True
  then have "arm_call drv lock_free req (py_pulse y) = NotMeasured req (py_pulse y)" by (simp add: arm_call_eq)
  with pulse_reach.step [OF y(1) pulse_step.refuse [of drv y req]] y(2) show ?thesis by fastforce
next
  case False
  obtain arm_seq s1 where tag: "TagReceive (py_pulse y) = (arm_seq, s1)" by fastforce
  obtain r s2 where issue: "IssueReceive drv s1 = (r, s2)" by fastforce
  have call: "arm_call drv lock_free req (py_pulse y) = (if r \<noteq> ESP_OK then NotMeasured req s2 else Commit req arm_seq s2)"
    using False tag issue by (simp add: arm_call_eq)
  let ?y1 = "y\<lparr>py_pulse := s1, py_arm := ARM_TAGGED req arm_seq\<rparr>"
  have r1: "pulse_reach drv ?y1"
    using False by (intro pulse_reach.step [OF y(1)] pulse_step.tag y(2) tag) auto
  show ?thesis
  proof (cases "r = ESP_OK")
    case True
    have "pulse_reach drv (?y1\<lparr>py_pulse := s2, py_arm := ARM_STARTED req arm_seq, py_receive := length (py_requests ?y1) + 1\<rparr>)"
      by (rule pulse_reach.step [OF r1]) (rule pulse_step.start_receive, use issue True in auto)
    note r2 = this
    have "\<exists>y'. pulse_reach drv y' \<and> py_arm y' = ARM_IDLE \<and> py_task y' = py_task y \<and> py_pulse y' = Commit req arm_seq s2"
      by (rule exI, rule conjI, rule pulse_reach.step [OF r2], rule pulse_step.commit) auto
    then show ?thesis using True call by simp
  next
    case bad: False
    have "\<exists>y'. pulse_reach drv y' \<and> py_arm y' = ARM_IDLE \<and> py_task y' = py_task y \<and> py_pulse y' = NotMeasured req s2"
      by (rule exI, rule conjI, rule pulse_reach.step [OF r1], rule pulse_step.fail_receive) (use issue bad in auto)
    then show ?thesis using bad call by simp
  qed
qed

subsection \<open>An example driver and run\<close>

datatype rx_state = RX_INIT | RX_ENABLED | RX_RUN

definition rx_example :: "rx_state rx_drv" where
  "rx_example = \<lparr>rx_receive = (\<lambda>h. if h = RX_ENABLED then (ESP_OK, RX_RUN) else (ESP_ERR_INVALID_STATE, h)),
     rx_enable = (\<lambda>h. if h = RX_INIT then (ESP_OK, RX_ENABLED) else (ESP_ERR_INVALID_STATE, h)),
     rx_disable = (\<lambda>h. if h = RX_INIT then (ESP_ERR_INVALID_STATE, h) else (ESP_OK, RX_INIT)),
     rx_finish = (\<lambda>h. RX_ENABLED), rx_busy = (\<lambda>h. h = RX_RUN)\<rparr>"

lemma rx_example_laws: "rx_laws rx_example"
  by (auto simp: rx_laws_def rx_example_def split: if_splits)

definition example_statics :: "rx_state pulse" where
  "example_statics = \<lparr>ps_rx_channel = True, ps_hw = RX_ENABLED, ps_symbol_buffer = [], ps_armed_timing = default_timing,
     ps_armed_pixel_grb = replicate 18 0, ps_armed_pixel_len = 0, ps_armed_submit_seq = 0, ps_armed_mode = PULSE_CAPTURE_SEND,
     ps_armed_seq = 0, ps_capture_seq = 0, ps_is_receive_pending = False, ps_decode_symbols = [], ps_decode_timing = default_timing,
     ps_decode_pixel_grb = replicate 18 0, ps_decode_pixel_len = 0, ps_decode_submit_seq = 0, ps_decode_mode = PULSE_CAPTURE_SEND,
     ps_result_cb = True, ps_capture_queue = None, ps_armed_sem = False, ps_published = []\<rparr>"

lemma example_initial: "pulse_initial rx_example example_statics"
  by (simp add: pulse_initial_def example_statics_def rx_example_def)

text \<open>Request 7 is a read; its receive ends with no symbol; the task takes the event.\<close>

lemma example_armed:
  "\<exists>y. stopped_reach rx_example y \<and> py_arm y = ARM_IDLE \<and> py_task y = TASK_IDLE \<and> py_requests y = [Read_request 7] \<and>
     py_captures y = (\<lambda>_. None)(1 := Some ([], 0)) \<and> py_queued y = 1 \<and> py_outcomes y = [] \<and> py_pulse y =
       example_statics\<lparr>ps_armed_submit_seq := 7, ps_armed_mode := PULSE_CAPTURE_READ, ps_armed_seq := 1, ps_capture_seq := 1,
         ps_armed_sem := True, ps_capture_queue := Some \<lparr>ce_symbol_count = 0, ce_arm_seq = 1\<rparr>\<rparr>"
proof -
  let ?s = "example_statics\<lparr>ps_capture_seq := 1, ps_is_receive_pending := True\<rparr>"
  note r0 = stopped_start [OF example_initial]
  note r1 = stopped_step [OF r0 pulse_step.tag [where req = "Read_request 7" and arm_seq = 1 and s = ?s]]
  note r2 = stopped_step [OF r1 pulse_step.start_receive [where req = "Read_request 7" and arm_seq = 1 and s = "?s\<lparr>ps_hw := RX_RUN\<rparr>"]]
  note r3 = stopped_step [OF r2 pulse_step.commit [where req = "Read_request 7" and arm_seq = 1]]
  note r4 = stopped_step [OF r3 pulse_step.interrupt [where symbols = "[]" and n = 0, OF _ refl]]
  show ?thesis
    by (rule exI, rule conjI, rule r4)
       (simp_all add: example_statics_def TagReceive_def IssueReceive_def rx_example_def CommitRead_def HandleRxDone_def fun_eq_iff survives_def)
qed

lemma example_published:
  "\<exists>y. stopped_reach rx_example y \<and> py_arm y = ARM_IDLE \<and> py_requests y = [Read_request 7] \<and> py_task y = TASK_IDLE \<and>
     py_outcomes y = [Some 1] \<and> \<not> ps_armed_sem (py_pulse y) \<and>
     ps_published (py_pulse y) = [pulse_result 7 WS2812_MEASUREMENT_COUNT_ERROR None]"
proof -
  obtain y where y: "stopped_reach rx_example y" "py_arm y = ARM_IDLE" "py_task y = TASK_IDLE" "py_requests y = [Read_request 7]"
      "py_outcomes y = []" and s: "py_pulse y =
       example_statics\<lparr>ps_armed_submit_seq := 7, ps_armed_mode := PULSE_CAPTURE_READ, ps_armed_seq := 1, ps_capture_seq := 1,
         ps_armed_sem := True, ps_capture_queue := Some \<lparr>ce_symbol_count = 0, ce_arm_seq = 1\<rparr>\<rparr>"
    using example_armed by blast
  let ?e = "\<lparr>ce_symbol_count = 0, ce_arm_seq = 1\<rparr>" and ?w = "(1, 7, PULSE_CAPTURE_READ)"
  let ?t = "(py_pulse y)\<lparr>ps_capture_queue := None, ps_armed_sem := False, ps_decode_submit_seq := 7, ps_decode_mode := PULSE_CAPTURE_READ\<rparr>"
  note r1 = stopped_step [OF y(1) pulse_step.take_signal]
  note r2 = stopped_step [OF r1 pulse_step.get_armed]
  note r3 = stopped_step [OF r2 pulse_step.get_event [where event = ?e and w = ?w]]
  note r4 = stopped_step [OF r3 pulse_step.take_current [where s = ?t and event = ?e and w = ?w and w' = ?w]]
  note r5 = stopped_step [OF r4 pulse_step.decode [where event = ?e]]
  have take: "TakeCurrentCapture ?e ?w ((py_pulse y)\<lparr>ps_armed_sem := False, ps_capture_queue := None\<rparr>) = (True, ?w, ?t)"
    by (simp add: s example_statics_def TakeCurrentCapture_def overwrite_def)
  have dec: "HandleCapture ?e ?t = ?t\<lparr>ps_published := [pulse_result 7 WS2812_MEASUREMENT_COUNT_ERROR None]\<rparr>"
    using HandleCapture_measure [of ?t "Read_request 7" ?e] by (simp add: s example_statics_def AnalyzeWs2812Read_def)
  show ?thesis
    by (rule exI, rule conjI, rule r5)
       (use take in \<open>simp_all add: y dec survives_def, simp_all add: s example_statics_def GetArmedSeq_def\<close>)
qed

subsection \<open>A receive that survives its restart\<close>

text \<open>
  A driver that obeys the laws but whose disable fails and leaves the receive running. Request 7 times out; request 8 tags its
  receive, the interrupt of the old receive runs before the driver is called, and its event, with the new tag, is taken for the
  outcome of request 8, whose own receive has captured nothing.
\<close>

definition rx_stuck :: "rx_state rx_drv" where
  "rx_stuck = rx_example\<lparr>rx_disable := (\<lambda>h. (ESP_FAIL, h))\<rparr>"

lemma rx_stuck_laws: "rx_laws rx_stuck"
  by (auto simp: rx_laws_def rx_stuck_def rx_example_def split: if_splits)

lemma stuck_timed_out:
  "\<exists>y. pulse_reach rx_stuck y \<and> py_arm y = ARM_IDLE \<and> py_task y = TASK_IDLE \<and> py_requests y = [Read_request 7] \<and>
     py_captures y = (\<lambda>_. None) \<and> py_receive y = 1 \<and> py_outcomes y = [Some 1] \<and> py_pulse y =
       example_statics\<lparr>ps_armed_submit_seq := 7, ps_armed_mode := PULSE_CAPTURE_READ, ps_armed_seq := 1, ps_capture_seq := 1,
         ps_hw := RX_RUN, ps_published := [pulse_result 7 WS2812_MEASUREMENT_TIMEOUT None]\<rparr>"
proof -
  let ?s = "example_statics\<lparr>ps_capture_seq := 1, ps_is_receive_pending := True\<rparr>" and ?w = "(1, 7, PULSE_CAPTURE_READ)"
  have init: "pulse_initial rx_stuck example_statics"
    by (simp add: pulse_initial_def example_statics_def rx_stuck_def rx_example_def)
  note r0 = pulse_reach.start [OF init]
  note r1 = pulse_reach.step [OF r0 pulse_step.tag [where req = "Read_request 7" and arm_seq = 1 and s = ?s]]
  note r2 = pulse_reach.step [OF r1 pulse_step.start_receive [where req = "Read_request 7" and arm_seq = 1 and s = "?s\<lparr>ps_hw := RX_RUN\<rparr>"]]
  note r3 = pulse_reach.step [OF r2 pulse_step.commit [where req = "Read_request 7" and arm_seq = 1]]
  note r4 = pulse_reach.step [OF r3 pulse_step.take_signal]
  note r5 = pulse_reach.step [OF r4 pulse_step.get_armed]
  note r6 = pulse_reach.step [OF r5 pulse_step.time_out [where w = ?w]]
  note r7 = pulse_reach.step [OF r6 pulse_step.restart_rx [where w = ?w]]
  note r8 = pulse_reach.step [OF r7 pulse_step.publish_timeout [where w = ?w]]
  show ?thesis
    by (rule exI, rule conjI, rule r8)
       (simp_all add: example_statics_def TagReceive_def IssueReceive_def rx_stuck_def rx_example_def CommitRead_def GetArmedSeq_def RestartRxChannel_def)
qed

lemma stuck_armed:
  "\<exists>y. pulse_reach rx_stuck y \<and> py_arm y = ARM_IDLE \<and> py_task y = TASK_IDLE \<and> py_requests y = [Read_request 7, Read_request 8] \<and>
     py_captures y 2 = None \<and> py_outcomes y = [Some 1] \<and> py_pulse y =
       example_statics\<lparr>ps_armed_submit_seq := 8, ps_armed_mode := PULSE_CAPTURE_READ, ps_armed_seq := 2, ps_capture_seq := 2,
         ps_hw := RX_RUN, ps_armed_sem := True, ps_capture_queue := Some \<lparr>ce_symbol_count = 0, ce_arm_seq = 2\<rparr>,
         ps_published := [pulse_result 7 WS2812_MEASUREMENT_TIMEOUT None]\<rparr>"
proof -
  obtain y where y: "pulse_reach rx_stuck y" "py_arm y = ARM_IDLE" "py_task y = TASK_IDLE" "py_requests y = [Read_request 7]"
      "py_captures y = (\<lambda>_. None)" "py_receive y = 1" "py_outcomes y = [Some 1]" and s: "py_pulse y =
       example_statics\<lparr>ps_armed_submit_seq := 7, ps_armed_mode := PULSE_CAPTURE_READ, ps_armed_seq := 1, ps_capture_seq := 1,
         ps_hw := RX_RUN, ps_published := [pulse_result 7 WS2812_MEASUREMENT_TIMEOUT None]\<rparr>"
    using stuck_timed_out by blast
  let ?s1 = "(py_pulse y)\<lparr>ps_capture_seq := 2, ps_is_receive_pending := True\<rparr>"
  let ?s2 = "?s1\<lparr>ps_hw := RX_ENABLED, ps_is_receive_pending := False, ps_capture_queue := Some \<lparr>ce_symbol_count = 0, ce_arm_seq = 2\<rparr>\<rparr>"
  note r1 = pulse_reach.step [OF y(1) pulse_step.tag [where req = "Read_request 8" and arm_seq = 2 and s = ?s1]]
  note r2 = pulse_reach.step [OF r1 pulse_step.interrupt [where symbols = "[]" and n = 0 and s = ?s2]]
  note r3 = pulse_reach.step [OF r2 pulse_step.start_receive [where req = "Read_request 8" and arm_seq = 2 and s = "?s2\<lparr>ps_hw := RX_RUN\<rparr>"]]
  note r4 = pulse_reach.step [OF r3 pulse_step.commit [where req = "Read_request 8" and arm_seq = 2]]
  show ?thesis
    by (rule exI, rule conjI, rule r4)
       (simp_all add: y, simp_all add: s example_statics_def TagReceive_def IssueReceive_def rx_stuck_def rx_example_def CommitRead_def HandleRxDone_def)
qed

lemma surviving_receive_mixes:
  "\<exists>y. pulse_reach rx_stuck y \<and> py_requests y = [Read_request 7, Read_request 8] \<and> py_outcomes y = [Some 1, Some 2] \<and>
     py_captures y 2 = None \<and> ps_published (py_pulse y) =
       [pulse_result 7 WS2812_MEASUREMENT_TIMEOUT None, pulse_result 8 WS2812_MEASUREMENT_COUNT_ERROR None]"
proof -
  obtain y where y: "pulse_reach rx_stuck y" "py_arm y = ARM_IDLE" "py_task y = TASK_IDLE" "py_requests y = [Read_request 7, Read_request 8]"
      "py_captures y 2 = None" "py_outcomes y = [Some 1]" and s: "py_pulse y =
       example_statics\<lparr>ps_armed_submit_seq := 8, ps_armed_mode := PULSE_CAPTURE_READ, ps_armed_seq := 2, ps_capture_seq := 2,
         ps_hw := RX_RUN, ps_armed_sem := True, ps_capture_queue := Some \<lparr>ce_symbol_count = 0, ce_arm_seq = 2\<rparr>,
         ps_published := [pulse_result 7 WS2812_MEASUREMENT_TIMEOUT None]\<rparr>"
    using stuck_armed by blast
  let ?e = "\<lparr>ce_symbol_count = 0, ce_arm_seq = 2\<rparr>" and ?w = "(2, 8, PULSE_CAPTURE_READ)"
  let ?t = "(py_pulse y)\<lparr>ps_capture_queue := None, ps_armed_sem := False, ps_decode_submit_seq := 8, ps_decode_mode := PULSE_CAPTURE_READ\<rparr>"
  note r1 = pulse_reach.step [OF y(1) pulse_step.take_signal]
  note r2 = pulse_reach.step [OF r1 pulse_step.get_armed]
  note r3 = pulse_reach.step [OF r2 pulse_step.get_event [where event = ?e and w = ?w]]
  note r4 = pulse_reach.step [OF r3 pulse_step.take_current [where s = ?t and event = ?e and w = ?w and w' = ?w]]
  note r5 = pulse_reach.step [OF r4 pulse_step.decode [where event = ?e]]
  have take: "TakeCurrentCapture ?e ?w ((py_pulse y)\<lparr>ps_armed_sem := False, ps_capture_queue := None\<rparr>) = (True, ?w, ?t)"
    by (simp add: s example_statics_def TakeCurrentCapture_def overwrite_def)
  have dec: "HandleCapture ?e ?t = ?t\<lparr>ps_published := ps_published (py_pulse y) @ [pulse_result 8 WS2812_MEASUREMENT_COUNT_ERROR None]\<rparr>"
    using HandleCapture_measure [of ?t "Read_request 8" ?e] by (simp add: s example_statics_def AnalyzeWs2812Read_def)
  show ?thesis
    by (rule exI, rule conjI, rule r5)
       (use take in \<open>simp_all add: y dec, simp_all add: s example_statics_def GetArmedSeq_def\<close>)
qed

subsection \<open>Properties\<close>

text \<open>C19: A published measurement belongs to the request it names. In every state of the arming tasks, the interrupt and the
  decode task (with fewer than \<open>2^32\<close> arms) that is reached without a receive that survives a failed \<open>rmt_disable\<close>, the published
  records are, one by one, either NOT_MEASURED for a request that was not
  armed, or for an armed request: the TIMEOUT record of its submission number, or exactly the record computed from
  what the receive of that very request captured and from its own timing set and pixel bytes. A late event, a newer arm
  that overwrites the snapshot or a receive that writes the buffer meanwhile never mixes two requests. (Lemma
  \<open>surviving_receive_mixes\<close> shows that the condition is needed: a surviving receive can be taken for the next request; and by
  \<open>stopped_if_disabled\<close> every run meets it whose disable calls succeed.)\<close>

theorem published_belongs_to_request:
  assumes "stopped_reach drv y" and "rx_laws drv" and "length (py_requests y) < 2 ^ 32"
  shows "list_all2 (\<lambda>arm m. case arm of
       None \<Rightarrow> wm_state m = WS2812_MEASUREMENT_NOT_MEASURED
     | Some k \<Rightarrow> 1 \<le> k \<and> k \<le> length (py_requests y) \<and>
         (m = pulse_result (request_submit_seq (py_requests y ! (k - 1))) WS2812_MEASUREMENT_TIMEOUT None \<or>
          (\<exists>c. py_captures y k = Some c \<and> m = measure_of (py_requests y ! (k - 1)) c)))
     (py_outcomes y) (ps_published (py_pulse y))"
  using stopped_reach_inv [OF assms]
  by (simp add: pulse_inv_def outcome_inv_def outcome_ok_def [abs_def] request_at_def cong: option.case_cong)

theorem published_belongs_to_request_witness:
  "\<exists>y m. stopped_reach rx_example y \<and> rx_laws rx_example \<and> py_requests y = [Read_request 7] \<and> py_outcomes y = [Some 1] \<and>
     ps_published (py_pulse y) = [m] \<and>
     (m = pulse_result 7 WS2812_MEASUREMENT_TIMEOUT None \<or> (\<exists>c. py_captures y 1 = Some c \<and> m = measure_of (Read_request 7) c))"
proof -
  obtain y where y: "stopped_reach rx_example y" "py_requests y = [Read_request 7]" "py_outcomes y = [Some 1]"
    and m: "ps_published (py_pulse y) = [pulse_result 7 WS2812_MEASUREMENT_COUNT_ERROR None]"
    using example_published by blast
  show ?thesis
    by (rule exI [of _ y], rule exI [of _ "pulse_result 7 WS2812_MEASUREMENT_COUNT_ERROR None"])
       (use published_belongs_to_request [OF y(1) rx_example_laws] y m rx_example_laws in simp)
qed





text \<open>The arming functions implement the steps. From every reachable state in which no arming section runs, a call of
  \<open>ArmPulseCapture\<close> or \<open>ArmPulseRead\<close> ends in the state that some run of the steps reaches without moving the
  decode task.\<close>

theorem arm_calls_are_runs:
  assumes "pulse_reach drv y" and "py_arm y = ARM_IDLE"
  shows "(\<exists>y'. pulse_reach drv y' \<and> py_arm y' = ARM_IDLE \<and> py_task y' = py_task y \<and>
       py_pulse y' = ArmPulseCapture drv lock_free (Some t) q (Some px) (py_pulse y)) \<and>
    (\<exists>y'. pulse_reach drv y' \<and> py_arm y' = ARM_IDLE \<and> py_task y' = py_task y \<and>
       py_pulse y' = ArmPulseRead drv lock_free q (py_pulse y))"
  using arm_call_run [OF assms, of lock_free "Send_request q t px"] arm_call_run [OF assms, of lock_free "Read_request q"]
  by (simp add: arm_call_def)

theorem arm_calls_are_runs_witness:
  "\<exists>y. pulse_reach rx_example y \<and> py_pulse y = ArmPulseRead rx_example True 3 example_statics"
  using arm_calls_are_runs [OF pulse_reach.start [OF example_initial], of True default_timing 3 "[]"] by auto

end
