(* ===== verification/Platform.thy ===== *)
theory Platform
  imports Prelude
begin

section \<open>Calls of the platform\<close>

text \<open>
  The ESP-IDF functions the Wi-Fi, mDNS, DNS and HTTP components call are third-party. They are the parameter
  \<open>platform\<close>: what each call returns, in an environment \<open>'e\<close> of which nothing is known. The model keeps the
  list of the calls made and their results, so that a theorem can speak of what the program did to the hardware
  without defining what the hardware does.
\<close>

datatype wifi_mode = WIFI_MODE_NULL | WIFI_MODE_STA | WIFI_MODE_AP | WIFI_MODE_APSTA

datatype wifi_auth_mode =
    WIFI_AUTH_OPEN
  | WIFI_AUTH_WEP
  | WIFI_AUTH_WPA_PSK
  | WIFI_AUTH_WPA2_PSK
  | WIFI_AUTH_WPA_WPA2_PSK
  | WIFI_AUTH_WPA3_PSK
  | WIFI_AUTH_WPA2_WPA3_PSK
  | WIFI_AUTH_OTHER nat

record wifi_ap_config =
  ac_ssid :: string
  ac_ssid_len :: byte
  ac_channel :: nat
  ac_max_connection :: nat
  ac_authmode :: wifi_auth_mode

record wifi_sta_config =
  sc_ssid :: string
  sc_password :: string
  sc_threshold :: wifi_auth_mode
  sc_pmf_capable :: bool
  sc_pmf_required :: bool

record wifi_ap_record =
  ar_ssid :: string
  ar_rssi :: int
  ar_authmode :: wifi_auth_mode

datatype http_method = HTTP_GET | HTTP_POST | HTTP_ANY

text \<open>A handler is registered under the name of its C function.\<close>

datatype esp_call =
    NETIF_INIT
  | EVENT_LOOP_CREATE
  | DHCPS_OFFER_DNS
  | NETIF_SET_DNS u32
  | WIFI_INIT bool
  | WIFI_SET_STORAGE_RAM
  | EVENT_REGISTER_WIFI
  | EVENT_REGISTER_IP
  | WIFI_SET_MODE wifi_mode
  | WIFI_SET_CONFIG_AP wifi_ap_config
  | WIFI_SET_CONFIG_STA wifi_sta_config
  | WIFI_START
  | WIFI_CONNECT
  | WIFI_DISCONNECT
  | WIFI_SCAN_START
  | HTTPD_START nat bool
  | HTTPD_REGISTER string http_method string
  | HTTPD_REGISTER_404 string
  | HTTPD_STOP
  | MDNS_INIT
  | MDNS_HOSTNAME_SET string
  | MDNS_INSTANCE_SET string
  | MDNS_SERVICE_ADD string string string nat
  | MDNS_FREE
  | DNS_TASK_CREATE
  | DNS_TASK_WAIT

text \<open>
  \<open>pl_ap_ip\<close> and \<open>pl_sta_ip\<close> are \<open>esp_netif_get_ip_info\<close> of the two interfaces, None when it fails; \<open>pl_scan_records\<close> the scan
  result, \<open>pl_mac\<close> the base MAC address, \<open>pl_hostname\<close> the name mDNS uses and \<open>pl_ticks\<close> the tick count.
\<close>

record 'e platform =
  pl_call :: "esp_call \<Rightarrow> 'e \<Rightarrow> esp_err \<times> 'e"
  pl_mode :: "'e \<Rightarrow> wifi_mode"
  pl_ap_ip :: "'e \<Rightarrow> u32 option"
  pl_sta_ip :: "'e \<Rightarrow> u32 option"
  pl_scan_records :: "'e \<Rightarrow> wifi_ap_record list option \<times> 'e"
  pl_mac :: "'e \<Rightarrow> byte list"
  pl_hostname :: "'e \<Rightarrow> esp_err \<times> string"
  pl_ticks :: "'e \<Rightarrow> u32"

record 'e io =
  io_env :: 'e
  io_log :: "(esp_call \<times> esp_err) list"

definition esp :: "'e platform \<Rightarrow> esp_call \<Rightarrow> 'e io \<Rightarrow> esp_err \<times> 'e io" where
  "esp p c io = (let (err, e) = pl_call p c (io_env io) in (err, \<lparr>io_env = e, io_log = io_log io @ [(c, err)]\<rparr>))"

text \<open>A chain \<open>f() == ESP_OK && g() == ESP_OK && ...\<close>: the calls are made in order until one fails.\<close>

fun run_calls :: "'e platform \<Rightarrow> esp_call list \<Rightarrow> 'e io \<Rightarrow> esp_err \<times> 'e io" where
  "run_calls p [] io = (ESP_OK, io)"
| "run_calls p (c # cs) io =
     (let (err, io) = esp p c io in if err \<noteq> ESP_OK then (err, io) else run_calls p cs io)"

subsection \<open>What was done to the hardware\<close>

text \<open>The mode the last successful \<open>esp_wifi_set_mode\<close> set: the access point is on in the modes AP and AP+station.\<close>

fun after_call :: "esp_call \<times> esp_err \<Rightarrow> wifi_mode \<Rightarrow> wifi_mode" where
  "after_call (WIFI_SET_MODE m, err) mode = (if err = ESP_OK then m else mode)"
| "after_call _ mode = mode"

definition mode_set :: "(esp_call \<times> esp_err) list \<Rightarrow> wifi_mode" where
  "mode_set calls = fold after_call calls WIFI_MODE_NULL"

lemma mode_set_snoc [simp]: "mode_set (calls @ [c]) = after_call c (mode_set calls)"
  by (simp add: mode_set_def)

text \<open>
  The last \<open>esp_wifi_set_mode\<close> with its result. \<open>ap_asked_off\<close>: it asked for the station mode, which has no access point, or there
  was none. Then the access point is off, unless exactly this call failed.
\<close>

fun after_mode_call :: "esp_call \<times> esp_err \<Rightarrow> (wifi_mode \<times> esp_err) option \<Rightarrow> (wifi_mode \<times> esp_err) option" where
  "after_mode_call (WIFI_SET_MODE m, err) l = Some (m, err)"
| "after_mode_call _ l = l"

definition last_mode_call :: "(esp_call \<times> esp_err) list \<Rightarrow> (wifi_mode \<times> esp_err) option" where
  "last_mode_call calls = fold after_mode_call calls None"

definition ap_asked_off :: "(esp_call \<times> esp_err) list \<Rightarrow> bool" where
  "ap_asked_off calls \<longleftrightarrow> (case last_mode_call calls of None \<Rightarrow> True | Some (m, err) \<Rightarrow> m = WIFI_MODE_STA)"

lemma last_mode_call_snoc [simp]: "last_mode_call (calls @ [c]) = after_mode_call c (last_mode_call calls)"
  by (simp add: last_mode_call_def)

lemma last_mode_call_mode:
  "last_mode_call calls = None \<Longrightarrow> mode_set calls = WIFI_MODE_NULL"
  "last_mode_call calls = Some (m, ESP_OK) \<Longrightarrow> mode_set calls = m"
proof (induction calls rule: rev_induct)
  case (snoc c calls)
  { case 1
    then show ?case using snoc.IH(1) by (cases "fst c"; cases c) auto
  next
    case 2
    then show ?case using snoc.IH(2) by (cases "fst c"; cases c) auto }
qed (simp_all add: last_mode_call_def mode_set_def)

lemma ap_asked_off_on:
  "ap_asked_off calls \<Longrightarrow> mode_set calls = WIFI_MODE_APSTA \<Longrightarrow> \<exists>err. err \<noteq> ESP_OK \<and> last_mode_call calls = Some (WIFI_MODE_STA, err)"
  using last_mode_call_mode [of calls] by (auto simp: ap_asked_off_def split: option.splits)

fun sets_mode :: "esp_call \<Rightarrow> bool" where
  "sets_mode (WIFI_SET_MODE m) = True"
| "sets_mode _ = False"

lemma after_call_other: "\<not> sets_mode c \<Longrightarrow> after_call (c, err) mode = mode"
  by (cases c) auto

lemma mode_set_esp: "esp p c io = (err, io') \<Longrightarrow> mode_set (io_log io') = after_call (c, err) (mode_set (io_log io))"
  by (auto simp: esp_def Let_def split: prod.splits)

lemma mode_set_run_calls:
  "run_calls p cs io = (err, io') \<Longrightarrow> list_all (\<lambda>c. \<not> sets_mode c) cs \<Longrightarrow> mode_set (io_log io') = mode_set (io_log io)"
proof (induction p cs io arbitrary: err io' rule: run_calls.induct)
  case (2 p c cs io)
  obtain e io1 where e: "esp p c io = (e, io1)" by fastforce
  have m: "mode_set (io_log io1) = mode_set (io_log io)" using mode_set_esp [OF e] 2(3) after_call_other by simp
  show ?case
  proof (cases "e = ESP_OK")
    case True
    then have "run_calls p cs io1 = (err, io')" using 2(2) e by simp
    with 2(1) [OF e [symmetric] refl] 2(3) True m show ?thesis by simp
  next
    case False
    then show ?thesis using 2(2) e m by simp
  qed
qed simp

text \<open>A chain that begins by setting the mode ends in that mode if it succeeds, and in that mode or the old one if it fails.\<close>

lemma mode_set_chain:
  assumes "run_calls p (WIFI_SET_MODE m # cs) io = (err, io')" and "list_all (\<lambda>c. \<not> sets_mode c) cs"
  shows "err = ESP_OK \<Longrightarrow> mode_set (io_log io') = m"
    and "mode_set (io_log io') = m \<or> mode_set (io_log io') = mode_set (io_log io)"
proof -
  obtain e io1 where e: "esp p (WIFI_SET_MODE m) io = (e, io1)" by fastforce
  note m = mode_set_esp [OF e]
  show "mode_set (io_log io') = m" if "err = ESP_OK"
  proof (cases "e = ESP_OK")
    case True
    then have "run_calls p cs io1 = (err, io')" using assms(1) e by simp
    from mode_set_run_calls [OF this assms(2)] True m show ?thesis by simp
  next
    case False
    then show ?thesis using assms(1) e that by simp
  qed
  show "mode_set (io_log io') = m \<or> mode_set (io_log io') = mode_set (io_log io)"
  proof (cases "e = ESP_OK")
    case True
    then have "run_calls p cs io1 = (err, io')" using assms(1) e by simp
    from mode_set_run_calls [OF this assms(2)] True m show ?thesis by simp
  next
    case False
    then show ?thesis using assms(1) e m by simp
  qed
qed

lemma run_calls_OK_log:
  "run_calls p cs io = (ESP_OK, io') \<Longrightarrow> io_log io' = io_log io @ map (\<lambda>c. (c, ESP_OK)) cs"
proof (induction p cs io arbitrary: io' rule: run_calls.induct)
  case (2 p c cs io)
  obtain e io1 where e: "esp p c io = (e, io1)" by fastforce
  then have l: "io_log io1 = io_log io @ [(c, e)]" by (auto simp: esp_def Let_def split: prod.splits)
  from 2(2) e have "e = ESP_OK" "run_calls p cs io1 = (ESP_OK, io')" by (auto split: if_splits)
  with 2(1) [OF e [symmetric] refl] l show ?case by simp
qed simp

lemma mode_set_snd_esp [simp]:
  "mode_set (io_log (snd (esp p c io))) = after_call (c, fst (esp p c io)) (mode_set (io_log io))"
  by (auto simp: esp_def Let_def split: prod.splits)

text \<open>
  The one thing the code relies on: \<open>esp_wifi_get_mode\<close> reports the mode that was set last. \<open>platform_laws\<close> states it of the
  environment, and then the reported mode always agrees with the log.
\<close>

definition platform_laws :: "'e platform \<Rightarrow> bool" where
  "platform_laws p \<longleftrightarrow> (\<forall>c e. pl_mode p (snd (pl_call p c e)) = after_call (c, fst (pl_call p c e)) (pl_mode p e)) \<and>
     (\<forall>e. pl_mode p (snd (pl_scan_records p e)) = pl_mode p e)"

definition mode_reported :: "'e platform \<Rightarrow> 'e io \<Rightarrow> bool" where
  "mode_reported p io \<longleftrightarrow> pl_mode p (io_env io) = mode_set (io_log io)"

locale wifi_platform =
  fixes p :: "'e platform"
  assumes laws: "platform_laws p"
begin

lemma reported_esp: "mode_reported p io \<Longrightarrow> esp p c io = (err, io') \<Longrightarrow> mode_reported p io'"
  using laws by (auto simp: mode_reported_def platform_laws_def esp_def Let_def split: prod.splits)
    (metis fst_conv snd_conv)

lemma reported_run: "run_calls p cs io = (err, io') \<Longrightarrow> mode_reported p io \<Longrightarrow> mode_reported p io'"
proof (induction p \<equiv> p cs io arbitrary: err io' rule: run_calls.induct)
  case (2 c cs io)
  obtain e io1 where e: "esp p c io = (e, io1)" by fastforce
  from reported_esp [OF 2(3) e] 2(1) [OF e [symmetric] refl] 2(2) e show ?case by (auto split: if_splits)
qed simp

end

subsection \<open>Calls that leave the mode alone\<close>

definition made :: "'e platform \<Rightarrow> esp_call list \<Rightarrow> 'e io \<Rightarrow> 'e io \<Rightarrow> bool" where
  "made p cs io io' \<longleftrightarrow> io' = fold (\<lambda>c io. snd (esp p c io)) cs io"

definition io_calls :: "'e platform \<Rightarrow> 'e io \<Rightarrow> 'e io \<Rightarrow> bool" where
  "io_calls p io io' \<longleftrightarrow> (\<exists>cs. made p cs io io')"

definition io_keeps :: "'e platform \<Rightarrow> 'e io \<Rightarrow> 'e io \<Rightarrow> bool" where
  "io_keeps p io io' \<longleftrightarrow> (\<exists>cs. list_all (\<lambda>c. \<not> sets_mode c) cs \<and> made p cs io io')"

lemma io_calls_refl [simp, intro]: "io_calls p io io"
  by (auto simp: io_calls_def made_def intro: exI [of _ "[]"])

lemma io_keeps_refl [simp, intro]: "io_keeps p io io"
  by (auto simp: io_keeps_def made_def intro: exI [of _ "[]"])

lemma made_append: "made p cs io io1 \<Longrightarrow> made p cs' io1 io2 \<Longrightarrow> made p (cs @ cs') io io2"
  by (simp add: made_def)

lemma io_calls_trans: "io_calls p io io1 \<Longrightarrow> io_calls p io1 io2 \<Longrightarrow> io_calls p io io2"
  unfolding io_calls_def using made_append by blast

lemma io_keeps_trans: "io_keeps p io io1 \<Longrightarrow> io_keeps p io1 io2 \<Longrightarrow> io_keeps p io io2"
  unfolding io_keeps_def using made_append list_all_append by metis

lemma io_keeps_calls: "io_keeps p io io' \<Longrightarrow> io_calls p io io'"
  by (auto simp: io_keeps_def io_calls_def)

lemma esp_made: "esp p c io = (err, io') \<Longrightarrow> made p [c] io io'"
  by (simp add: made_def)

lemma esp_calls: "esp p c io = (err, io') \<Longrightarrow> io_calls p io io'"
  using esp_made unfolding io_calls_def by blast

lemma esp_keeps: "esp p c io = (err, io') \<Longrightarrow> \<not> sets_mode c \<Longrightarrow> io_keeps p io io'"
  unfolding io_keeps_def by (intro exI [of _ "[c]"]) (simp add: esp_made)

lemma run_calls_made: "run_calls p cs io = (err, io') \<Longrightarrow> \<exists>n. made p (take n cs) io io'"
proof (induction p cs io arbitrary: err io' rule: run_calls.induct)
  case (2 p c cs io)
  obtain e io1 where e: "esp p c io = (e, io1)" by fastforce
  show ?case
  proof (cases "e = ESP_OK")
    case True
    then obtain n where "made p (take n cs) io1 io'" using 2(1) [OF e [symmetric] refl] 2(2) e by auto
    then have "made p (take (Suc n) (c # cs)) io io'" using e by (simp add: made_def)
    then show ?thesis ..
  next
    case False
    then have "made p (take 1 (c # cs)) io io'" using 2(2) e by (simp add: made_def)
    then show ?thesis ..
  qed
qed (simp add: made_def)

lemma run_calls_calls: "run_calls p cs io = (err, io') \<Longrightarrow> io_calls p io io'"
  using run_calls_made unfolding io_calls_def by blast

lemma run_calls_keeps: "run_calls p cs io = (err, io') \<Longrightarrow> list_all (\<lambda>c. \<not> sets_mode c) cs \<Longrightarrow> io_keeps p io io'"
  using run_calls_made unfolding io_keeps_def by (metis (no_types, lifting) in_set_takeD list_all_iff)

lemma io_keeps_mode: "io_keeps p io io' \<Longrightarrow> mode_set (io_log io') = mode_set (io_log io)"
proof -
  have "mode_set (io_log (fold (\<lambda>c io. snd (esp p c io)) cs io)) = mode_set (io_log io)"
    if "list_all (\<lambda>c. \<not> sets_mode c) cs" for cs
    using that by (induction cs arbitrary: io) (auto simp: after_call_other)
  then show "io_keeps p io io' \<Longrightarrow> mode_set (io_log io') = mode_set (io_log io)"
    by (auto simp: io_keeps_def made_def)
qed

lemma after_mode_call_other: "\<not> sets_mode c \<Longrightarrow> after_mode_call (c, err) l = l"
  by (cases c) auto

lemma esp_asked_off:
  assumes "esp p c io = (err, io')" and "ap_asked_off (io_log io)" and "sets_mode c \<Longrightarrow> c = WIFI_SET_MODE WIFI_MODE_STA"
  shows "ap_asked_off (io_log io')"
  using assms by (cases "sets_mode c") (auto simp: esp_def ap_asked_off_def after_mode_call_other split: prod.splits)

lemma made_asked_off:
  assumes "made p cs io io'" and "ap_asked_off (io_log io)" and "\<And>c. c \<in> set cs \<Longrightarrow> sets_mode c \<Longrightarrow> c = WIFI_SET_MODE WIFI_MODE_STA"
  shows "ap_asked_off (io_log io')"
proof -
  have "ap_asked_off (io_log (fold (\<lambda>c io. snd (esp p c io)) cs io))" using assms(2,3)
  proof (induction cs arbitrary: io)
    case (Cons c cs)
    have "ap_asked_off (io_log (snd (esp p c io)))"
      by (rule esp_asked_off [of p c io "fst (esp p c io)"]) (use Cons.prems in auto)
    then show ?case using Cons by simp
  qed simp
  then show ?thesis using assms(1) by (simp add: made_def)
qed

lemma io_keeps_asked: "io_keeps p io io' \<Longrightarrow> last_mode_call (io_log io') = last_mode_call (io_log io)"
proof -
  have "last_mode_call (io_log (fold (\<lambda>c io. snd (esp p c io)) cs io)) = last_mode_call (io_log io)"
    if "list_all (\<lambda>c. \<not> sets_mode c) cs" for cs
    using that by (induction cs arbitrary: io) (auto simp: esp_def after_mode_call_other split: prod.splits)
  then show "io_keeps p io io' \<Longrightarrow> last_mode_call (io_log io') = last_mode_call (io_log io)"
    by (auto simp: io_keeps_def made_def)
qed

lemma run_calls_asked_off:
  "run_calls p cs io = (err, io') \<Longrightarrow> ap_asked_off (io_log io) \<Longrightarrow>
   (\<And>c. c \<in> set cs \<Longrightarrow> sets_mode c \<Longrightarrow> c = WIFI_SET_MODE WIFI_MODE_STA) \<Longrightarrow> ap_asked_off (io_log io')"
  using run_calls_made [of p cs io err io'] made_asked_off in_set_takeD by metis

context wifi_platform
begin

lemma reported_calls:
  assumes "io_calls p io io'" and "mode_reported p io"
  shows "mode_reported p io'"
proof -
  have "mode_reported p (fold (\<lambda>c io. snd (esp p c io)) cs io)" for cs
    using assms(2)
  proof (induction cs arbitrary: io)
    case (Cons c cs)
    have "mode_reported p (snd (esp p c io))" using reported_esp [OF Cons.prems, of c] by (metis prod.collapse)
    then show ?case using Cons.IH by simp
  qed simp
  then show ?thesis using assms(1) by (auto simp: io_calls_def made_def)
qed

end

subsection \<open>What a service promises\<close>

text \<open>
  The contract by which the orchestrator uses the DNS server, the mDNS responder and the two profiles of the HTTP server: a start
  says truthfully whether the service is up, and a failed start leaves it down; a stop always leaves it down; neither touches
  the Wi-Fi mode.
\<close>

locale service =
  fixes p :: "'e platform"
    and start :: "'s \<times> 'e io \<Rightarrow> bool \<times> 's \<times> 'e io"
    and stop :: "'s \<times> 'e io \<Rightarrow> 's \<times> 'e io"
    and up :: "'s \<Rightarrow> bool"
    and down :: "'s \<Rightarrow> bool"
  assumes start_law: "start (s, io) = (ok, s', io') \<Longrightarrow> (if ok then up s' else down s') \<and> io_keeps p io io'"
    and stop_law: "stop (s, io) = (s', io') \<Longrightarrow> down s' \<and> io_keeps p io io'"
    and not_both: "up s \<Longrightarrow> \<not> down s"
begin

lemma started_iff_up: "start (s, io) = (ok, s', io') \<Longrightarrow> up s' = ok \<and> down s' = (\<not> ok)"
  using start_law [of s io ok s' io'] not_both [of s'] by (cases ok) auto

lemma service_mode:
  "start (s, io) = (ok, s', io') \<Longrightarrow> mode_set (io_log io') = mode_set (io_log io)"
  "stop (s, io) = (s', io') \<Longrightarrow> mode_set (io_log io') = mode_set (io_log io)"
  using start_law stop_law io_keeps_mode by blast+

lemma service_reported:
  assumes "platform_laws p" and "mode_reported p io"
  shows "start (s, io) = (ok, s', io') \<Longrightarrow> mode_reported p io'"
    and "stop (s, io) = (s', io') \<Longrightarrow> mode_reported p io'"
  using wifi_platform.reported_calls [OF wifi_platform.intro [OF assms(1)] _ assms(2)] start_law stop_law io_keeps_calls
  by blast+

text \<open>A retry after a failure and a restart after a stop begin from the same footing.\<close>

lemma down_after: "start (s, io) = (False, s', io') \<Longrightarrow> down s'" "stop (s, io) = (s', io') \<Longrightarrow> down s' \<and> \<not> up s'"
  using start_law stop_law not_both by fastforce+

end

subsection \<open>A radio whose calls can fail\<close>

text \<open>A platform with the mode as its state: each call takes the next entry of a script, and an empty script never fails.\<close>

record radio =
  rd_mode :: wifi_mode
  rd_script :: "bool list"
  rd_ticks :: u32

definition radio_call :: "esp_call \<Rightarrow> radio \<Rightarrow> esp_err \<times> radio" where
  "radio_call c r = (let (ok, r) = (case rd_script r of [] \<Rightarrow> (True, r) | ok # rest \<Rightarrow> (ok, r\<lparr>rd_script := rest\<rparr>));
      err = (if ok then ESP_OK else ESP_FAIL) in (err, r\<lparr>rd_mode := after_call (c, err) (rd_mode r)\<rparr>))"

definition radio_platform :: "radio platform" where
  "radio_platform = \<lparr>pl_call = radio_call, pl_mode = rd_mode, pl_ap_ip = (\<lambda>e. Some 1), pl_sta_ip = (\<lambda>e. Some 1),
     pl_scan_records = (\<lambda>e. (Some [], e)), pl_mac = (\<lambda>e. [0, 0, 0, 0, 0, 0]), pl_hostname = (\<lambda>e. (ESP_OK, ''rgb-tuner'')),
     pl_ticks = rd_ticks\<rparr>"

lemma radio_laws: "platform_laws radio_platform"
  by (auto simp: platform_laws_def radio_platform_def radio_call_def Let_def split: list.splits)

interpretation radio: wifi_platform radio_platform
  by unfold_locales (rule radio_laws)

end
