(* ===== verification/CredentialStore.thy ===== *)
theory CredentialStore
  imports Prelude "HOL-Library.Char_ord"
begin

section \<open>The credential store\<close>

text \<open>
  Model of main/credential_store/credential_store.c. The ESP-IDF key-value store (NVS) is third-party: it is the
  parameter \<open>nvs_drv\<close>, and \<open>nvs_laws\<close> states the documented behaviour the code relies on. \<open>nv_view\<close> is what a
  read returns now and \<open>nv_flash\<close> what a restart finds; a call that fails may have had its effect or
  not, so a power loss at any point of a function is a driver whose calls fail from there on. The
  wiping of the local copies with zeros is not modelled, nor are the log lines.
\<close>

abbreviation (input) CREDENTIAL_SSID_MAX :: nat where "CREDENTIAL_SSID_MAX \<equiv> 32"
abbreviation (input) CREDENTIAL_PASSWORD_MAX :: nat where "CREDENTIAL_PASSWORD_MAX \<equiv> 64"
abbreviation (input) PASSWORD_MIN_LENGTH :: nat where "PASSWORD_MIN_LENGTH \<equiv> 8"
abbreviation (input) PASSWORD_MAX_ASCII_LENGTH :: nat where "PASSWORD_MAX_ASCII_LENGTH \<equiv> 63"

datatype nvs_key = ACTIVE_KEY | PENDING_KEY

text \<open>The two character arrays, of 33 and 65 characters; the blob is one after the other.\<close>

record wifi_credentials =
  wc_ssid :: string
  wc_password :: string

definition cred_blob :: "wifi_credentials \<Rightarrow> string" where
  "cred_blob c = wc_ssid c @ wc_password c"

definition cred_of_blob :: "string \<Rightarrow> wifi_credentials" where
  "cred_of_blob b = \<lparr>wc_ssid = take 33 b, wc_password = drop 33 b\<rparr>"

definition cred_size :: nat where
  "cred_size = 98"

definition zero_credentials :: wifi_credentials where
  "zero_credentials = \<lparr>wc_ssid = replicate 33 NUL, wc_password = replicate 65 NUL\<rparr>"

record 'n nvs_drv =
  nv_view :: "'n \<Rightarrow> nvs_key \<Rightarrow> string option"
  nv_flash :: "'n \<Rightarrow> nvs_key \<Rightarrow> string option"
  nv_init :: "'n \<Rightarrow> esp_err \<times> 'n"
  nv_open :: "bool \<Rightarrow> 'n \<Rightarrow> esp_err \<times> 'n"
  nv_get_blob :: "nvs_key \<Rightarrow> 'n \<Rightarrow> (esp_err \<times> string) \<times> 'n"
  nv_set_blob :: "nvs_key \<Rightarrow> string \<Rightarrow> 'n \<Rightarrow> esp_err \<times> 'n"
  nv_erase_key :: "nvs_key \<Rightarrow> 'n \<Rightarrow> esp_err \<times> 'n"
  nv_commit :: "'n \<Rightarrow> esp_err \<times> 'n"

record 'n store =
  cs_ready :: bool
  cs_nvs :: 'n

subsection \<open>Validation\<close>

definition is_hex_char :: "char \<Rightarrow> bool" where
  "is_hex_char c \<longleftrightarrow> (CHR ''0'' \<le> c \<and> c \<le> CHR ''9'') \<or> (CHR ''a'' \<le> c \<and> c \<le> CHR ''f'') \<or> (CHR ''A'' \<le> c \<and> c \<le> CHR ''F'')"

text \<open>The loop over the characters: an unprintable one ends it with false.\<close>

fun password_loop :: "string \<Rightarrow> bool \<Rightarrow> bool option" where
  "password_loop [] is_hex = Some is_hex"
| "password_loop (c # cs) is_hex =
     (if c < CHR '' '' \<or> CHR ''~'' < c then None else password_loop cs (is_hex \<and> is_hex_char c))"

definition IsPasswordValid :: "string \<Rightarrow> bool" where
  "IsPasswordValid password =
     (let len = strnlen password (CREDENTIAL_PASSWORD_MAX + 1) in
      if len = 0 then True
      else if CREDENTIAL_PASSWORD_MAX < len then False
      else case password_loop (take len password) (len = CREDENTIAL_PASSWORD_MAX) of
             None \<Rightarrow> False
           | Some is_hex \<Rightarrow> if len = CREDENTIAL_PASSWORD_MAX then is_hex
                            else PASSWORD_MIN_LENGTH \<le> len \<and> len \<le> PASSWORD_MAX_ASCII_LENGTH)"

definition IsCredentialsValid :: "wifi_credentials option \<Rightarrow> bool" where
  "IsCredentialsValid credentials = (case credentials of None \<Rightarrow> False
     | Some c \<Rightarrow> let ssid_length = strnlen (wc_ssid c) 33
        in if ssid_length = 0 \<or> CREDENTIAL_SSID_MAX < ssid_length then False else IsPasswordValid (wc_password c))"

subsection \<open>Operations\<close>

text \<open>Reading into a buffer of \<open>cred_size\<close>: a blob of another size is reported by its size.\<close>

definition WriteAndVerifyRecord :: "'n nvs_drv \<Rightarrow> nvs_key \<Rightarrow> wifi_credentials \<Rightarrow> 'n \<Rightarrow> bool \<times> 'n" where
  "WriteAndVerifyRecord drv key credentials n =
     (let (err, n) = nv_set_blob drv key (cred_blob credentials) n;
          (err, n) = (if err = ESP_OK then nv_commit drv n else (err, n))
      in if err \<noteq> ESP_OK then (False, n)
         else let ((err, readback), n) = nv_get_blob drv key n
              in (err = ESP_OK \<and> length readback = cred_size \<and> readback = cred_blob credentials, n))"

definition ErasePending :: "'n nvs_drv \<Rightarrow> 'n \<Rightarrow> 'n" where
  "ErasePending drv n = snd (nv_commit drv (snd (nv_erase_key drv PENDING_KEY n)))"

definition RecoverPendingRecord :: "'n nvs_drv \<Rightarrow> 'n \<Rightarrow> 'n" where
  "RecoverPendingRecord drv n =
     (let (err, n) = nv_open drv True n in
      if err \<noteq> ESP_OK then n
      else let ((err, blob), n) = nv_get_blob drv PENDING_KEY n; pending = cred_of_blob blob in
      if err = ESP_ERR_NVS_NOT_FOUND then n
      else if err = ESP_OK \<and> length blob = cred_size \<and> IsCredentialsValid (Some pending)
      then let (is_written, n) = WriteAndVerifyRecord drv ACTIVE_KEY pending n
           in if is_written then ErasePending drv n else n
      else ErasePending drv n)"

definition InitCredentialStore :: "'n nvs_drv \<Rightarrow> 'n store \<Rightarrow> bool \<times> 'n store" where
  "InitCredentialStore drv s =
     (let (err, n) = nv_init drv (cs_nvs s); s = s\<lparr>cs_ready := (err = ESP_OK), cs_nvs := n\<rparr> in
      if \<not> cs_ready s then (False, s)
      else (True, s\<lparr>cs_nvs := RecoverPendingRecord drv n\<rparr>))"

text \<open>The result is the pair, or None with the buffer zeroed.\<close>

definition LoadCredentials :: "'n nvs_drv \<Rightarrow> 'n store \<Rightarrow> wifi_credentials option \<times> 'n store" where
  "LoadCredentials drv s =
     (if \<not> cs_ready s then (None, s)
      else let (err, n) = nv_open drv False (cs_nvs s); s = s\<lparr>cs_nvs := n\<rparr> in
      if err \<noteq> ESP_OK then (None, s)
      else let ((err, blob), n) = nv_get_blob drv ACTIVE_KEY n; s = s\<lparr>cs_nvs := n\<rparr> in
      if err \<noteq> ESP_OK \<or> length blob \<noteq> cred_size \<or> \<not> IsCredentialsValid (Some (cred_of_blob blob)) then (None, s)
      else (Some (cred_of_blob blob), s))"

definition ReplaceCredentials :: "'n nvs_drv \<Rightarrow> wifi_credentials option \<Rightarrow> 'n store \<Rightarrow> bool \<times> 'n store" where
  "ReplaceCredentials drv credentials s =
     (if \<not> cs_ready s \<or> \<not> IsCredentialsValid credentials then (False, s)
      else let (err, n) = nv_open drv True (cs_nvs s) in
      if err \<noteq> ESP_OK then (False, s\<lparr>cs_nvs := n\<rparr>)
      else let (is_stored, n) = WriteAndVerifyRecord drv PENDING_KEY (the credentials) n;
               (is_stored, n) = (if is_stored then WriteAndVerifyRecord drv ACTIVE_KEY (the credentials) n else (is_stored, n));
               n = (if is_stored then ErasePending drv n else n)
           in (is_stored, s\<lparr>cs_nvs := n\<rparr>))"

text \<open>A restart: what is in the flash is what there is.\<close>

definition nvs_restart :: "'n nvs_drv \<Rightarrow> 'n \<Rightarrow> 'n \<Rightarrow> bool" where
  "nvs_restart drv n n' \<longleftrightarrow> nv_view drv n' = nv_flash drv n \<and> nv_flash drv n' = nv_flash drv n"

definition between :: "('k \<Rightarrow> 'v) \<Rightarrow> ('k \<Rightarrow> 'v) \<Rightarrow> ('k \<Rightarrow> 'v) \<Rightarrow> bool" where
  "between f g h \<longleftrightarrow> (\<forall>k. h k = f k \<or> h k = g k)"

definition nvs_laws :: "'n nvs_drv \<Rightarrow> bool" where
  "nvs_laws drv \<longleftrightarrow>
     (\<forall>n r n'. nv_init drv n = (r, n') \<longrightarrow> nv_view drv n' = nv_view drv n \<and> nv_flash drv n' = nv_flash drv n) \<and>
     (\<forall>rw n r n'. nv_open drv rw n = (r, n') \<longrightarrow> nv_view drv n' = nv_view drv n \<and> nv_flash drv n' = nv_flash drv n) \<and>
     (\<forall>k n r b n'. nv_get_blob drv k n = ((r, b), n') \<longrightarrow> nv_view drv n' = nv_view drv n \<and> nv_flash drv n' = nv_flash drv n \<and>
        (r = ESP_OK \<longrightarrow> nv_view drv n k = Some b) \<and> (r = ESP_ERR_NVS_NOT_FOUND \<longrightarrow> nv_view drv n k = None)) \<and>
     (\<forall>k b n r n'. nv_set_blob drv k b n = (r, n') \<longrightarrow>
        (r = ESP_OK \<longrightarrow> nv_view drv n' = (nv_view drv n)(k := Some b)) \<and>
        between (nv_view drv n) ((nv_view drv n)(k := Some b)) (nv_view drv n') \<and>
        between (nv_flash drv n) ((nv_flash drv n)(k := Some b)) (nv_flash drv n')) \<and>
     (\<forall>k n r n'. nv_erase_key drv k n = (r, n') \<longrightarrow>
        (r = ESP_OK \<longrightarrow> nv_view drv n' = (nv_view drv n)(k := None)) \<and>
        between (nv_view drv n) ((nv_view drv n)(k := None)) (nv_view drv n') \<and>
        between (nv_flash drv n) ((nv_flash drv n)(k := None)) (nv_flash drv n')) \<and>
     (\<forall>n r n'. nv_commit drv n = (r, n') \<longrightarrow> nv_view drv n' = nv_view drv n \<and>
        (r = ESP_OK \<longrightarrow> nv_flash drv n' = nv_view drv n) \<and> between (nv_flash drv n) (nv_view drv n) (nv_flash drv n'))"

subsection \<open>The two records through every operation\<close>

definition holds :: "string option set \<Rightarrow> string option set \<Rightarrow> (nvs_key \<Rightarrow> string option) \<Rightarrow> bool" where
  "holds Act Pen m \<longleftrightarrow> m ACTIVE_KEY \<in> Act \<and> m PENDING_KEY \<in> Pen"

definition records_in :: "'n nvs_drv \<Rightarrow> string option set \<Rightarrow> string option set \<Rightarrow> 'n \<Rightarrow> bool" where
  "records_in drv Act Pen n \<longleftrightarrow> holds Act Pen (nv_view drv n) \<and> holds Act Pen (nv_flash drv n)"

definition recoverable :: "string option set \<Rightarrow> string option set \<Rightarrow> bool" where
  "recoverable Act Pen \<longleftrightarrow> None \<in> Pen \<and> (\<forall>b. Some b \<in> Pen \<longrightarrow> Some b \<in> Act)"

lemma holds_between: "holds Act Pen f \<Longrightarrow> holds Act Pen g \<Longrightarrow> between f g h \<Longrightarrow> holds Act Pen h"
  unfolding holds_def between_def by metis

lemma holds_mono: "holds A P m \<Longrightarrow> A \<subseteq> A' \<Longrightarrow> P \<subseteq> P' \<Longrightarrow> holds A' P' m"
  by (auto simp: holds_def)

lemma records_in_mono: "records_in drv A P n \<Longrightarrow> A \<subseteq> A' \<Longrightarrow> P \<subseteq> P' \<Longrightarrow> records_in drv A' P' n"
  by (auto simp: records_in_def intro: holds_mono)

locale nvs_store =
  fixes drv :: "'n nvs_drv"
  assumes laws: "nvs_laws drv"
begin

lemma init_same: "nv_init drv n = (r, n') \<Longrightarrow> records_in drv A P n' = records_in drv A P n"
  using laws unfolding nvs_laws_def records_in_def by metis

lemma open_same: "nv_open drv rw n = (r, n') \<Longrightarrow> records_in drv A P n' = records_in drv A P n"
  using laws unfolding nvs_laws_def records_in_def by metis

lemma get_blob_same:
  assumes "nv_get_blob drv k n = ((r, b), n')"
  shows "records_in drv A P n' = records_in drv A P n" "r = ESP_OK \<Longrightarrow> nv_view drv n k = Some b"
  using laws assms unfolding nvs_laws_def records_in_def by metis+

lemma set_blob_in:
  assumes "nv_set_blob drv k b n = (r, n')" "records_in drv A P n"
    and "case k of ACTIVE_KEY \<Rightarrow> Some b \<in> A | PENDING_KEY \<Rightarrow> Some b \<in> P"
  shows "records_in drv A P n'" "r = ESP_OK \<Longrightarrow> nv_view drv n' = (nv_view drv n)(k := Some b)"
proof -
  have l: "r = ESP_OK \<longrightarrow> nv_view drv n' = (nv_view drv n)(k := Some b)"
    "between (nv_view drv n) ((nv_view drv n)(k := Some b)) (nv_view drv n')"
    "between (nv_flash drv n) ((nv_flash drv n)(k := Some b)) (nv_flash drv n')"
    using laws assms(1) unfolding nvs_laws_def by blast+
  have "holds A P (m(k := Some b))" if "holds A P m" for m
    using that assms(3) by (cases k) (auto simp: holds_def)
  then show "records_in drv A P n'" using assms(2) l(2,3) unfolding records_in_def by (blast intro: holds_between)
  show "r = ESP_OK \<Longrightarrow> nv_view drv n' = (nv_view drv n)(k := Some b)" using l(1) by simp
qed

lemma erase_pending_in:
  assumes "nv_erase_key drv PENDING_KEY n = (r, n')" "records_in drv A P n" "None \<in> P"
  shows "records_in drv A P n'"
proof -
  have l: "between (nv_view drv n) ((nv_view drv n)(PENDING_KEY := None)) (nv_view drv n')"
    "between (nv_flash drv n) ((nv_flash drv n)(PENDING_KEY := None)) (nv_flash drv n')"
    using laws assms(1) unfolding nvs_laws_def by blast+
  have "holds A P (m(PENDING_KEY := None))" if "holds A P m" for m
    using that assms(3) by (auto simp: holds_def)
  then show ?thesis using assms(2) l unfolding records_in_def by (blast intro: holds_between)
qed

lemma commit_in:
  assumes "nv_commit drv n = (r, n')"
  shows "records_in drv A P n \<Longrightarrow> records_in drv A P n'" "nv_view drv n' = nv_view drv n" "r = ESP_OK \<Longrightarrow> nv_flash drv n' = nv_view drv n"
proof -
  have l: "nv_view drv n' = nv_view drv n \<and> (r = ESP_OK \<longrightarrow> nv_flash drv n' = nv_view drv n) \<and>
      between (nv_flash drv n) (nv_view drv n) (nv_flash drv n')"
    using laws assms unfolding nvs_laws_def by blast
  then show "nv_view drv n' = nv_view drv n" "r = ESP_OK \<Longrightarrow> nv_flash drv n' = nv_view drv n" by simp_all
  show "records_in drv A P n \<Longrightarrow> records_in drv A P n'"
    using l unfolding records_in_def by (auto intro: holds_between)
qed

lemma ErasePending_in: "records_in drv A P n \<Longrightarrow> None \<in> P \<Longrightarrow> records_in drv A P (ErasePending drv n)"
  unfolding ErasePending_def using erase_pending_in commit_in(1) by (metis prod.collapse)

text \<open>A verified write has its blob in the flash, whatever the key held before.\<close>

lemma WriteAndVerify_in:
  assumes w: "WriteAndVerifyRecord drv k c n = (ok, n')" and i: "records_in drv A P n"
    and k: "case k of ACTIVE_KEY \<Rightarrow> Some (cred_blob c) \<in> A | PENDING_KEY \<Rightarrow> Some (cred_blob c) \<in> P"
  shows "records_in drv A P n'"
    and "ok \<Longrightarrow> nv_view drv n' k = Some (cred_blob c) \<and> nv_flash drv n' k = Some (cred_blob c)"
proof -
  obtain r1 n1 where s: "nv_set_blob drv k (cred_blob c) n = (r1, n1)" by fastforce
  obtain r2 n2 where cm: "nv_commit drv n1 = (r2, n2)" by fastforce
  obtain r3 b n3 where g: "nv_get_blob drv k n2 = ((r3, b), n3)" by (metis prod.exhaust)
  note s' = set_blob_in [OF s i k]
  have i2: "records_in drv A P n2" using s'(1) commit_in(1) [OF cm] by blast
  have i3: "records_in drv A P n3" using i2 get_blob_same(1) [OF g] by blast
  show "records_in drv A P n'"
    using w s'(1) i2 i3 s cm g unfolding WriteAndVerifyRecord_def by (auto split: if_splits)
  assume ok
  then have ok: "r1 = ESP_OK" "r2 = ESP_OK" "n' = n3"
    using w s cm g unfolding WriteAndVerifyRecord_def by (auto split: if_splits)
  have same: "nv_view drv n3 = nv_view drv n2" "nv_flash drv n3 = nv_flash drv n2"
    using laws g unfolding nvs_laws_def by blast+
  show "nv_view drv n' k = Some (cred_blob c) \<and> nv_flash drv n' k = Some (cred_blob c)"
    using ok s'(2) commit_in(2,3) [OF cm] same by simp
qed

text \<open>
  \<open>recoverable A P\<close>: the pending record may be absent, and whatever pending record there may be, its recovery makes it an active
  one of \<open>A\<close>. Under this the recovery never leaves the two sets.
\<close>

lemma Recover_in:
  assumes i: "records_in drv A P n" and c: "recoverable A P"
  shows "records_in drv A P (RecoverPendingRecord drv n)"
proof -
  obtain r1 n1 where op: "nv_open drv True n = (r1, n1)" by fastforce
  obtain r2 b n2 where g: "nv_get_blob drv PENDING_KEY n1 = ((r2, b), n2)" by (metis prod.exhaust)
  have i1: "records_in drv A P n1" using i open_same [OF op] by blast
  have i2: "records_in drv A P n2" using i1 get_blob_same(1) [OF g] by blast
  have b: "r2 = ESP_OK \<Longrightarrow> Some b \<in> A"
    using get_blob_same(2) [OF g] i1 c by (auto simp: records_in_def holds_def recoverable_def)
  obtain ok n3 where w: "WriteAndVerifyRecord drv ACTIVE_KEY (cred_of_blob b) n2 = (ok, n3)" by fastforce
  have "cred_blob (cred_of_blob b) = b" by (simp add: cred_blob_def cred_of_blob_def)
  then have "r2 = ESP_OK \<Longrightarrow> records_in drv A P n3" using WriteAndVerify_in(1) [OF w i2] b by simp
  moreover have "None \<in> P" using c by (simp add: recoverable_def)
  ultimately show ?thesis
    using i1 i2 w by (auto simp: RecoverPendingRecord_def op g Let_def ErasePending_in)
qed

text \<open>A replacement from any state: the new pair may be added to both records; after a success there is nothing else.\<close>

lemma Replace_in:
  assumes rep: "ReplaceCredentials drv (Some c) s = (ok, s')" and i: "records_in drv A P (cs_nvs s)"
    and A: "Some (cred_blob c) \<in> A" and P: "None \<in> P" "Some (cred_blob c) \<in> P"
  shows "records_in drv A P (cs_nvs s')"
    and "ok \<Longrightarrow> records_in drv {Some (cred_blob c)} {None, Some (cred_blob c)} (cs_nvs s')"
proof -
  obtain r1 n1 where op: "nv_open drv True (cs_nvs s) = (r1, n1)" by fastforce
  obtain ok2 n2 where p: "WriteAndVerifyRecord drv PENDING_KEY c n1 = (ok2, n2)" by fastforce
  obtain ok3 n3 where a: "WriteAndVerifyRecord drv ACTIVE_KEY c n2 = (ok3, n3)" by fastforce
  have i1: "records_in drv A P n1" using i open_same [OF op] by blast
  have i2: "records_in drv A P n2" using WriteAndVerify_in(1) [OF p i1] P by simp
  have i3: "records_in drv A P n3" using WriteAndVerify_in(1) [OF a i2] A by simp
  show "records_in drv A P (cs_nvs s')"
    using rep i i1 i2 i3 p a op P by (auto simp: ReplaceCredentials_def Let_def ErasePending_in split: if_splits)
  assume ok
  then have fin: "cs_nvs s' = ErasePending drv n3" "ok2" "ok3"
    using rep p a op by (auto simp: ReplaceCredentials_def Let_def split: if_splits)
  have "records_in drv A {Some (cred_blob c)} n2"
    using WriteAndVerify_in(2) [OF p i1] P fin(2) i2 by (simp add: records_in_def holds_def)
  from WriteAndVerify_in [OF a this] A fin(3) have "records_in drv {Some (cred_blob c)} {Some (cred_blob c)} n3"
    by (simp add: records_in_def holds_def)
  then have "records_in drv {Some (cred_blob c)} {None, Some (cred_blob c)} n3" by (rule records_in_mono) auto
  then show "records_in drv {Some (cred_blob c)} {None, Some (cred_blob c)} (cs_nvs s')" by (simp add: fin(1) ErasePending_in)
qed

lemma Init_in:
  assumes "records_in drv A P (cs_nvs s)" "recoverable A P"
  shows "records_in drv A P (cs_nvs (snd (InitCredentialStore drv s)))"
proof -
  obtain r n where n: "nv_init drv (cs_nvs s) = (r, n)" by fastforce
  with assms init_same [OF n] show ?thesis by (auto simp: InitCredentialStore_def Let_def Recover_in)
qed

lemma Load_in:
  assumes "LoadCredentials drv s = (Some c, s')" "records_in drv A P (cs_nvs s)"
  shows "\<exists>b. Some b \<in> A \<and> c = cred_of_blob b \<and> length b = cred_size \<and> IsCredentialsValid (Some c)"
proof -
  obtain r n where op: "nv_open drv False (cs_nvs s) = (r, n)" by fastforce
  obtain r2 b n2 where g: "nv_get_blob drv ACTIVE_KEY n = ((r2, b), n2)" by (metis prod.exhaust)
  have "records_in drv A P n" using assms(2) open_same [OF op] by blast
  then show ?thesis
    using assms(1) get_blob_same(2) [OF g] op g
    by (auto simp: LoadCredentials_def Let_def records_in_def holds_def split: if_splits)
qed

end

text \<open>Any number of restarts, each followed by the initialisation.\<close>

inductive boots :: "'n nvs_drv \<Rightarrow> 'n store \<Rightarrow> 'n store \<Rightarrow> bool" for drv where
    here: "boots drv s s"
  | boot: "boots drv s s' \<Longrightarrow> nvs_restart drv (cs_nvs s') n \<Longrightarrow>
      boots drv s (snd (InitCredentialStore drv \<lparr>cs_ready = False, cs_nvs = n\<rparr>))"

lemma boots_in:
  assumes laws: "nvs_laws drv"
  shows "boots drv s s' \<Longrightarrow> records_in drv A P (cs_nvs s) \<Longrightarrow> recoverable A P \<Longrightarrow> records_in drv A P (cs_nvs s')"
proof (induction rule: boots.induct)
  case (boot s s' n)
  then have "records_in drv A P n" by (auto simp: records_in_def nvs_restart_def)
  then show ?case
    using boot.prems nvs_store.Init_in [OF nvs_store.intro [OF laws], of A P "\<lparr>cs_ready = False, cs_nvs = n\<rparr>"] by simp
qed

subsection \<open>A store that can fail\<close>

text \<open>Each call takes the next entry of the script: a call that fails has no effect; an empty script never fails.\<close>

record kv =
  kv_mem :: "nvs_key \<Rightarrow> string option"
  kv_script :: "bool list"

definition kv_next :: "kv \<Rightarrow> bool \<times> kv" where
  "kv_next n = (case kv_script n of [] \<Rightarrow> (True, n) | ok # rest \<Rightarrow> (ok, n\<lparr>kv_script := rest\<rparr>))"

definition kv_do :: "(nvs_key \<Rightarrow> string option) \<Rightarrow> kv \<Rightarrow> esp_err \<times> kv" where
  "kv_do m n = (case kv_next n of (ok, n) \<Rightarrow> if ok then (ESP_OK, n\<lparr>kv_mem := m\<rparr>) else (ESP_FAIL, n))"

definition kv_drv :: "kv nvs_drv" where
  "kv_drv = \<lparr>nv_view = kv_mem, nv_flash = kv_mem, nv_init = (\<lambda>n. kv_do (kv_mem n) n), nv_open = (\<lambda>rw n. kv_do (kv_mem n) n),
     nv_get_blob = (\<lambda>k n. case kv_next n of (ok, n') \<Rightarrow>
        ((if \<not> ok then (ESP_FAIL, []) else case kv_mem n k of None \<Rightarrow> (ESP_ERR_NVS_NOT_FOUND, []) | Some b \<Rightarrow> (ESP_OK, b)), n')),
     nv_set_blob = (\<lambda>k b n. kv_do ((kv_mem n)(k := Some b)) n), nv_erase_key = (\<lambda>k n. kv_do ((kv_mem n)(k := None)) n),
     nv_commit = (\<lambda>n. kv_do (kv_mem n) n)\<rparr>"

lemma kv_next_mem: "kv_next n = (ok, n') \<Longrightarrow> kv_mem n' = kv_mem n"
  by (auto simp: kv_next_def split: list.splits)

lemma kv_do_mem: "kv_do m n = (r, n') \<Longrightarrow> kv_mem n' = (if r = ESP_OK then m else kv_mem n)"
  by (auto simp: kv_do_def kv_next_mem split: prod.splits if_splits)

lemma kv_laws: "nvs_laws kv_drv"
  unfolding nvs_laws_def kv_drv_def
  by (auto simp: between_def kv_next_mem dest!: kv_do_mem split: prod.splits if_splits option.splits)

interpretation kv: nvs_store kv_drv
  by unfold_locales (rule kv_laws)

subsection \<open>What a password may be\<close>

lemma password_loop_spec:
  "password_loop cs is_hex = (if \<forall>c\<in>set cs. CHR '' '' \<le> c \<and> c \<le> CHR ''~'' then Some (is_hex \<and> (\<forall>c\<in>set cs. is_hex_char c)) else None)"
  by (induction cs arbitrary: is_hex) auto

lemma take_strnlen: "take (strnlen s n) s = cstr (take n s)"
proof -
  have "cstr (take n s) = take (strnlen s n) (take n s)"
    unfolding strnlen_def cstr_def by (rule takeWhile_eq_take)
  then show ?thesis using strnlen_le [of s n] by (simp add: min_absorb1)
qed

definition password_ok :: "string \<Rightarrow> bool" where
  "password_ok p \<longleftrightarrow> p = [] \<or> 8 \<le> length p \<and> length p \<le> 63 \<and> (\<forall>c\<in>set p. CHR '' '' \<le> c \<and> c \<le> CHR ''~'') \<or>
     length p = 64 \<and> (\<forall>c\<in>set p. is_hex_char c)"

lemma hex_printable: "is_hex_char c \<Longrightarrow> CHR '' '' \<le> c \<and> c \<le> CHR ''~''"
proof -
  have lits: "(of_char (CHR '' '') :: nat) = 32" "(of_char (CHR ''~'') :: nat) = 126" "(of_char (CHR ''0'') :: nat) = 48"
    "(of_char (CHR ''9'') :: nat) = 57" "(of_char (CHR ''a'') :: nat) = 97" "(of_char (CHR ''f'') :: nat) = 102"
    "(of_char (CHR ''A'') :: nat) = 65" "(of_char (CHR ''F'') :: nat) = 70"
    by (simp_all add: of_char_def)
  assume "is_hex_char c"
  then show ?thesis unfolding is_hex_char_def less_eq_char_def lits by linarith
qed

lemma IsPasswordValid_spec: "IsPasswordValid password = password_ok (cstr (take 65 password))"
proof -
  define p where "p = cstr (take 65 password)"
  have len: "strnlen password 65 = length p" by (simp add: strnlen_def p_def)
  have tk: "take (length p) password = p" using take_strnlen [of password 65] by (simp add: len p_def)
  have tk64: "length p = 64 \<Longrightarrow> take 64 password = p" using tk by simp
  have "length p \<le> 65" using strnlen_le [of password 65] len by simp
  moreover have "p = [] \<longleftrightarrow> length p = 0" by simp
  ultimately show ?thesis
    unfolding IsPasswordValid_def Let_def p_def [symmetric]
    using hex_printable by (cases "length p = 64") (auto simp: len tk tk64 password_loop_spec password_ok_def)
qed

lemma password_ok_length: "password_ok p \<Longrightarrow> length p \<le> 64"
  by (auto simp: password_ok_def)

subsection \<open>Properties\<close>

definition wf_credentials :: "wifi_credentials \<Rightarrow> bool" where
  "wf_credentials c \<longleftrightarrow> length (wc_ssid c) = 33 \<and> length (wc_password c) = 65"

lemma cred_of_blob_cred_blob: "wf_credentials c \<Longrightarrow> cred_of_blob (cred_blob c) = c"
  by (simp add: wf_credentials_def cred_of_blob_def cred_blob_def)

text \<open>Which pairs are well formed. For a record of 33 and 65 characters: the SSID is a terminated string of 1 to 32
  characters, and the password a terminated string that is empty, or 8 to 63 printable characters, or exactly 64 hexadecimal digits.\<close>

theorem IsCredentialsValid_spec:
  assumes "wf_credentials c"
  shows "IsCredentialsValid (Some c) =
    (cstr (wc_ssid c) \<noteq> [] \<and> length (cstr (wc_ssid c)) \<le> 32 \<and> password_ok (cstr (wc_password c)))"
  using assms by (auto simp: IsCredentialsValid_def Let_def strnlen_def IsPasswordValid_spec wf_credentials_def)

definition example_credentials :: wifi_credentials where
  "example_credentials = \<lparr>wc_ssid = cfield 33 ''home'', wc_password = cfield 65 ''secret12''\<rparr>"

lemma example_cstr: "cstr (wc_ssid example_credentials) = ''home''" "cstr (wc_password example_credentials) = ''secret12''"
  by (simp_all add: example_credentials_def cstr_cfield NUL_def)

lemma wf_example_credentials: "wf_credentials example_credentials"
  by (simp add: wf_credentials_def example_credentials_def)

theorem IsCredentialsValid_spec_witness: "IsCredentialsValid (Some example_credentials)"
  unfolding IsCredentialsValid_spec [OF wf_example_credentials]
  by (simp add: example_cstr password_ok_def less_eq_char_def of_char_def)

text \<open>C27: replacing the credentials is atomic under power loss. Start with any store whatever, also one in which an earlier failed
  replacement has left a pending record, and replace the pair; every NVS call may fail, with or without its effect, so the power
  may be lost at any point of the replacement, and again during each of any number of restarts that follow. Whatever
  \<open>LoadCredentials\<close> then returns is a valid pair and one of: the complete new pair, or the complete pair of a record that the store
  held before the replacement (the active record, or the pending one that was left); never a mixture. Once the replacement
  has reported success it is the new pair.\<close>

theorem replace_is_atomic:
  assumes "nvs_laws drv" and "wf_credentials c"
    and "ReplaceCredentials drv (Some c) s = (is_stored, s1)" and "boots drv s1 s2"
    and "LoadCredentials drv s2 = (Some loaded, s3)"
  shows "IsCredentialsValid (Some loaded) \<and>
    (loaded = c \<or> \<not> is_stored \<and> (\<exists>key b. (nv_view drv (cs_nvs s) key = Some b \<or> nv_flash drv (cs_nvs s) key = Some b) \<and>
       loaded = cred_of_blob b \<and> length b = cred_size))"
proof -
  note store = nvs_store.intro [OF assms(1)]
  let ?new = "Some (cred_blob c)" and ?v = "nv_view drv (cs_nvs s)" and ?f = "nv_flash drv (cs_nvs s)"
  define P where "P = {None, ?new, ?v PENDING_KEY, ?f PENDING_KEY}"
  define A where "A = P \<union> {?v ACTIVE_KEY, ?f ACTIVE_KEY}"
  have i: "records_in drv A P (cs_nvs s)" by (simp add: records_in_def holds_def A_def P_def)
  have n: "?new \<in> A" "None \<in> P" "?new \<in> P" by (simp_all add: A_def P_def)
  have cl: "recoverable A P" "recoverable {?new} {None, ?new}" by (auto simp: recoverable_def A_def P_def)
  note r = nvs_store.Replace_in [OF store assms(3) i n]
  have l: "\<exists>b. Some b \<in> A' \<and> loaded = cred_of_blob b \<and> length b = cred_size \<and> IsCredentialsValid (Some loaded)"
    if "records_in drv A' P' (cs_nvs s1)" "recoverable A' P'" for A' P'
    using nvs_store.Load_in [OF store assms(5) boots_in [OF assms(1,4) that]] .
  show ?thesis
  proof (cases is_stored)
    case True
    with l [OF r(2) cl(2)] assms(2) show ?thesis by (auto simp: cred_of_blob_cred_blob)
  next
    case False
    obtain b where b: "Some b \<in> A" "loaded = cred_of_blob b" "length b = cred_size" "IsCredentialsValid (Some loaded)"
      using l [OF r(1) cl(1)] by blast
    from b(1) consider (new) "b = cred_blob c" | (old) key where "?v key = Some b \<or> ?f key = Some b"
      unfolding A_def P_def by (metis Un_iff empty_iff insert_iff option.distinct(1) option.inject)
    then show ?thesis
    proof cases
      case new
      then show ?thesis using b assms(2) by (simp add: cred_of_blob_cred_blob)
    next
      case old
      then show ?thesis using b False by blast
    qed
  qed
qed

text \<open>A store whose calls succeed in the states \<open>ok\<close>.\<close>

definition nvs_works :: "'n nvs_drv \<Rightarrow> ('n \<Rightarrow> bool) \<Rightarrow> bool" where
  "nvs_works drv ok \<longleftrightarrow> (\<forall>n. ok n \<longrightarrow>
     (\<forall>rw. fst (nv_open drv rw n) = ESP_OK \<and> ok (snd (nv_open drv rw n))) \<and>
     (\<forall>k b. fst (nv_set_blob drv k b n) = ESP_OK \<and> ok (snd (nv_set_blob drv k b n))) \<and>
     fst (nv_commit drv n) = ESP_OK \<and> ok (snd (nv_commit drv n)) \<and> ok (snd (nv_erase_key drv PENDING_KEY n)) \<and>
     (\<forall>k. (nv_view drv n k \<noteq> None \<longrightarrow> fst (fst (nv_get_blob drv k n)) = ESP_OK) \<and> ok (snd (nv_get_blob drv k n))))"

lemma WriteAndVerify_works:
  assumes "nvs_laws drv" "nvs_works drv ok" "ok n" "wf_credentials c"
  shows "\<exists>n'. WriteAndVerifyRecord drv k c n = (True, n') \<and> ok n'"
proof -
  obtain r1 n1 where s: "nv_set_blob drv k (cred_blob c) n = (r1, n1)" by fastforce
  obtain r2 n2 where cm: "nv_commit drv n1 = (r2, n2)" by fastforce
  obtain r3 b n3 where g: "nv_get_blob drv k n2 = ((r3, b), n3)" by (metis prod.exhaust)
  have 1: "r1 = ESP_OK" "ok n1" using assms(2,3) s unfolding nvs_works_def by (metis fst_conv snd_conv)+
  have 2: "r2 = ESP_OK" "ok n2" using assms(2) 1(2) cm unfolding nvs_works_def by (metis fst_conv snd_conv)+
  have view: "nv_view drv n2 k = Some (cred_blob c)"
    using assms(1) s cm 1(1) unfolding nvs_laws_def by (metis fun_upd_same)
  have 3: "r3 = ESP_OK" "ok n3" using assms(2) 2(2) g view unfolding nvs_works_def by (metis fst_conv snd_conv option.distinct(1))+
  have "b = cred_blob c"
    using assms(1) g 3(1) view unfolding nvs_laws_def by (metis option.inject)
  then show ?thesis
    using assms(4) 1 2 3 s cm g by (simp add: WriteAndVerifyRecord_def cred_size_def cred_blob_def wf_credentials_def)
qed

text \<open>C28: a stored pair is read back. On a store whose calls succeed, replacing the credentials with a well-formed pair
  succeeds and the next load returns exactly this pair; an ill-formed pair is refused and nothing is touched.\<close>

theorem replace_then_load:
  assumes "nvs_laws drv" and "nvs_works drv ok" and "ok (cs_nvs s)" and "cs_ready s" and "wf_credentials c"
  shows "case ReplaceCredentials drv (Some c) s of (is_stored, s1) \<Rightarrow>
    is_stored = IsCredentialsValid (Some c) \<and>
    (if is_stored then fst (LoadCredentials drv s1) = Some c else s1 = s)"
proof (cases "IsCredentialsValid (Some c)")
  case False
  then show ?thesis by (simp add: ReplaceCredentials_def)
next
  case True
  obtain r1 n1 where op: "nv_open drv True (cs_nvs s) = (r1, n1)" by fastforce
  have 1: "r1 = ESP_OK" "ok n1" using assms(2,3) op unfolding nvs_works_def by (metis fst_conv snd_conv)+
  obtain n2 where p: "WriteAndVerifyRecord drv PENDING_KEY c n1 = (True, n2)" "ok n2"
    using WriteAndVerify_works [OF assms(1,2) 1(2) assms(5)] by blast
  obtain n3 where a: "WriteAndVerifyRecord drv ACTIVE_KEY c n2 = (True, n3)" "ok n3"
    using WriteAndVerify_works [OF assms(1,2) p(2) assms(5)] by blast
  have rep: "ReplaceCredentials drv (Some c) s = (True, s\<lparr>cs_nvs := ErasePending drv n3\<rparr>)"
    using True assms(4) op 1 p a by (simp add: ReplaceCredentials_def)
  obtain r4 n4 where e: "nv_erase_key drv PENDING_KEY n3 = (r4, n4)" by fastforce
  obtain r5 n5 where cm: "nv_commit drv n4 = (r5, n5)" by fastforce
  have ok5: "ok n5" using assms(2) a(2) e cm unfolding nvs_works_def by (metis snd_conv)
  have erased: "ErasePending drv n3 = n5" by (simp add: ErasePending_def e cm)
  obtain r6 n6 where op6: "nv_open drv False n5 = (r6, n6)" by fastforce
  have 6: "r6 = ESP_OK" "ok n6" using assms(2) ok5 op6 unfolding nvs_works_def by (metis fst_conv snd_conv)+
  obtain r7 b n7 where g: "nv_get_blob drv ACTIVE_KEY n6 = ((r7, b), n7)" by (metis prod.exhaust)
  note store = nvs_store.intro [OF assms(1)]
  have "records_in drv UNIV UNIV n2" by (simp add: records_in_def holds_def)
  then have "nv_view drv n3 ACTIVE_KEY = Some (cred_blob c)"
    using nvs_store.WriteAndVerify_in(2) [OF store a(1), of UNIV UNIV] by simp
  moreover have "between (nv_view drv n3) ((nv_view drv n3)(PENDING_KEY := None)) (nv_view drv n4)"
    using assms(1) e unfolding nvs_laws_def by blast
  moreover have "nv_view drv n6 = nv_view drv n4"
    using assms(1) op6 cm unfolding nvs_laws_def by metis
  ultimately have view: "nv_view drv n6 ACTIVE_KEY = Some (cred_blob c)"
    unfolding between_def by (metis fun_upd_other nvs_key.distinct(1))
  have "r7 = ESP_OK" using assms(2) 6(2) g view unfolding nvs_works_def by (metis fst_conv option.distinct(1))
  moreover from this have "b = cred_blob c" using assms(1) g view unfolding nvs_laws_def by (metis option.inject)
  moreover have "length (cred_blob c) = cred_size" using assms(5) by (simp add: cred_size_def cred_blob_def wf_credentials_def)
  ultimately have "fst (LoadCredentials drv (s\<lparr>cs_nvs := n5\<rparr>)) = Some c"
    using True assms(4,5) op6 6 g by (simp add: LoadCredentials_def Let_def cred_of_blob_cred_blob)
  then show ?thesis using rep True erased by simp
qed

lemma kv_works: "nvs_works kv_drv (\<lambda>n. kv_script n = [])"
  by (simp add: nvs_works_def kv_drv_def kv_do_def kv_next_def split: option.split)

definition example_store :: "bool list \<Rightarrow> kv store" where
  "example_store script = \<lparr>cs_ready = True, cs_nvs = \<lparr>kv_mem = (\<lambda>_. None), kv_script = script\<rparr>\<rparr>"

lemma example_valid: "IsCredentialsValid (Some example_credentials)"
  by (simp add: IsCredentialsValid_def Let_def strnlen_def IsPasswordValid_spec example_credentials_def cfield_def cstr_def
      password_ok_def NUL_def less_eq_char_def of_char_def)

theorem replace_then_load_witness:
  "fst (LoadCredentials kv_drv (snd (ReplaceCredentials kv_drv (Some example_credentials) (example_store [])))) = Some example_credentials"
  using replace_then_load [OF kv_laws kv_works _ _ wf_example_credentials, of "example_store []"] example_valid
  by (simp add: case_prod_beta example_store_def)

subsection \<open>Runs on the example store\<close>

lemmas kv_run = kv_drv_def kv_do_def kv_next_def WriteAndVerifyRecord_def ErasePending_def Let_def cred_size_def

lemma length_example_blob: "length (cred_blob example_credentials) = 98"
  by (simp add: cred_blob_def example_credentials_def)

lemma example_replaced:
  "ReplaceCredentials kv_drv (Some example_credentials) (example_store []) =
     (True, \<lparr>cs_ready = True, cs_nvs = \<lparr>kv_mem = (\<lambda>_. None)(ACTIVE_KEY := Some (cred_blob example_credentials)), kv_script = []\<rparr>\<rparr>)"
  by (auto simp: ReplaceCredentials_def kv_run example_store_def example_valid length_example_blob fun_eq_iff)

lemma example_loaded:
  assumes "m ACTIVE_KEY = Some (cred_blob example_credentials)"
  shows "LoadCredentials kv_drv \<lparr>cs_ready = True, cs_nvs = \<lparr>kv_mem = m, kv_script = []\<rparr>\<rparr> =
     (Some example_credentials, \<lparr>cs_ready = True, cs_nvs = \<lparr>kv_mem = m, kv_script = []\<rparr>\<rparr>)"
  using assms by (simp add: LoadCredentials_def kv_run length_example_blob cred_of_blob_cred_blob wf_example_credentials example_valid)

text \<open>
  An earlier pair is still pending when another one is to be stored; the first write fails, the device restarts, and the earlier pair
  is loaded.
\<close>

definition other_credentials :: wifi_credentials where
  "other_credentials = \<lparr>wc_ssid = cfield 33 ''cafe'', wc_password = cfield 65 ''secret34''\<rparr>"

definition left_pending :: "bool list \<Rightarrow> kv store" where
  "left_pending script =
     \<lparr>cs_ready = True, cs_nvs = \<lparr>kv_mem = (\<lambda>_. None)(PENDING_KEY := Some (cred_blob example_credentials)), kv_script = script\<rparr>\<rparr>"

lemma other_valid: "IsCredentialsValid (Some other_credentials)" "wf_credentials other_credentials"
  by (simp_all add: wf_credentials_def IsCredentialsValid_def Let_def strnlen_def IsPasswordValid_spec other_credentials_def cfield_def
      cstr_def password_ok_def NUL_def)

lemma other_fails: "ReplaceCredentials kv_drv (Some other_credentials) (left_pending [True, False]) = (False, left_pending [])"
  by (simp add: ReplaceCredentials_def kv_run left_pending_def other_valid)

lemma left_pending_recovered:
  "snd (InitCredentialStore kv_drv \<lparr>cs_ready = False, cs_nvs = cs_nvs (left_pending [])\<rparr>) = \<lparr>cs_ready = True, cs_nvs = \<lparr>kv_mem =
      ((\<lambda>_. None)(PENDING_KEY := Some (cred_blob example_credentials)))(ACTIVE_KEY := Some (cred_blob example_credentials), PENDING_KEY := None),
      kv_script = []\<rparr>\<rparr>"
  by (simp add: InitCredentialStore_def RecoverPendingRecord_def kv_run left_pending_def length_example_blob example_valid
        cred_of_blob_cred_blob wf_example_credentials)

theorem replace_is_atomic_witness:
  "\<exists>s1 s2 s3 loaded. ReplaceCredentials kv_drv (Some other_credentials) (left_pending [True, False]) = (False, s1) \<and>
     boots kv_drv s1 s2 \<and> LoadCredentials kv_drv s2 = (Some loaded, s3) \<and> loaded = example_credentials \<and> IsCredentialsValid (Some loaded)"
proof -
  let ?n = "cs_nvs (left_pending [])"
  let ?s = "snd (InitCredentialStore kv_drv \<lparr>cs_ready = False, cs_nvs = ?n\<rparr>)"
  have b: "boots kv_drv (left_pending []) ?s" by (rule boots.boot [OF boots.here]) (simp add: nvs_restart_def kv_drv_def)
  have l: "LoadCredentials kv_drv ?s = (Some example_credentials, ?s)" unfolding left_pending_recovered by (rule example_loaded) simp
  from replace_is_atomic [OF kv_laws other_valid(2) other_fails b l] b l other_fails show ?thesis by blast
qed

text \<open>
  The converse of the last clause does not hold: a replacement that has stored its pending record and then
  fails reports false, and the next restart completes it.
\<close>

lemma failed_replace_takes_effect:
  defines "run \<equiv> ReplaceCredentials kv_drv (Some example_credentials) (example_store [True, True, True, True, False])"
  shows "fst run = False" and
    "fst (LoadCredentials kv_drv (snd (InitCredentialStore kv_drv (snd run)))) = Some example_credentials"
proof -
  have run: "run = (False, left_pending [])"
    unfolding run_def by (simp add: ReplaceCredentials_def kv_run example_store_def left_pending_def example_valid length_example_blob)
  then show "fst run = False" by simp
  have "snd (InitCredentialStore kv_drv (left_pending [])) = snd (InitCredentialStore kv_drv \<lparr>cs_ready = False, cs_nvs = cs_nvs (left_pending [])\<rparr>)"
    by (simp add: InitCredentialStore_def Let_def case_prod_beta)
  then show "fst (LoadCredentials kv_drv (snd (InitCredentialStore kv_drv (snd run)))) = Some example_credentials"
    unfolding run by (simp add: left_pending_recovered example_loaded)
qed

end
