(* ===== verification/WifiManager.thy ===== *)
theory WifiManager
  imports Platform CredentialStore "HOL-Library.Multiset"
begin

section \<open>The Wi-Fi manager\<close>

text \<open>
  Model of main/wifi_manager/wifi_manager.c: the reconnect delay, the normalisation of scan results, and the control of
  driver, access point and station. Operations run under the module's mutex, so each is one step. The wiping of the local
  configuration and the log lines are not modelled.
\<close>

abbreviation (input) WIFI_SCAN_MAX_ENTRIES :: nat where "WIFI_SCAN_MAX_ENTRIES \<equiv> 20"
abbreviation (input) WIFI_AP_MAX_CLIENTS :: nat where "WIFI_AP_MAX_CLIENTS \<equiv> 4"
abbreviation (input) WIFI_RECONNECT_DELAY_MIN_MS :: u32 where "WIFI_RECONNECT_DELAY_MIN_MS \<equiv> 1000"
abbreviation (input) WIFI_RECONNECT_DELAY_MAX_MS :: u32 where "WIFI_RECONNECT_DELAY_MAX_MS \<equiv> 60000"
abbreviation (input) WIFI_AP_CHANNEL :: nat where "WIFI_AP_CHANNEL \<equiv> 1"
abbreviation (input) WIFI_SCAN_RAW_MAX :: nat where "WIFI_SCAN_RAW_MAX \<equiv> 40"

text \<open>The SSID is the 33-character array; the signal strength is an \<open>int8_t\<close>.\<close>

record wifi_scan_entry =
  we_ssid :: string
  we_rssi_dbm :: int
  we_is_open :: bool
  we_is_unsupported :: bool

datatype wifi_manager_event =
    WIFI_MANAGER_EVENT_STA_CONNECTED
  | WIFI_MANAGER_EVENT_STA_DISCONNECTED
  | WIFI_MANAGER_EVENT_STA_GOT_IP

record wifi_state =
  wf_has_ap_netif :: bool
  wf_has_sta_netif :: bool
  wf_on_event :: bool
  wf_is_started :: bool

subsection \<open>Reconnect delay\<close>

text \<open>The loop with the number of rounds left.\<close>

fun delay_loop :: "nat \<Rightarrow> u32 \<Rightarrow> u32" where
  "delay_loop 0 delay_ms = delay_ms"
| "delay_loop (Suc n) delay_ms = (if delay_ms < WIFI_RECONNECT_DELAY_MAX_MS then delay_loop n (delay_ms * 2) else delay_ms)"

definition GetWifiReconnectDelayMs :: "u32 \<Rightarrow> u32" where
  "GetWifiReconnectDelayMs failure_count =
     (let delay_ms = delay_loop (unat failure_count) WIFI_RECONNECT_DELAY_MIN_MS
      in if WIFI_RECONNECT_DELAY_MAX_MS < delay_ms then WIFI_RECONNECT_DELAY_MAX_MS else delay_ms)"

subsection \<open>Scan results\<close>

text \<open>The inner loop of the insertion: entries weaker than the current one move up one place.\<close>

fun shift_entries :: "wifi_scan_entry list \<Rightarrow> wifi_scan_entry \<Rightarrow> nat \<Rightarrow> wifi_scan_entry list" where
  "shift_entries entries current 0 = entries[0 := current]"
| "shift_entries entries current (Suc position) =
     (if we_rssi_dbm (entries ! position) < we_rssi_dbm current
      then shift_entries (entries[Suc position := entries ! position]) current position
      else entries[Suc position := current])"

text \<open>The inner loop of the filter: is the SSID among the first \<open>kept\<close> entries?\<close>

definition is_duplicate :: "wifi_scan_entry list \<Rightarrow> nat \<Rightarrow> string \<Rightarrow> bool" where
  "is_duplicate entries kept ssid = list_ex (\<lambda>seen. cstr (we_ssid (entries ! seen)) = cstr ssid) [0..<kept]"

definition keep_entry :: "nat \<Rightarrow> nat \<Rightarrow> nat \<times> wifi_scan_entry list \<Rightarrow> nat \<times> wifi_scan_entry list" where
  "keep_entry max_entries index = (\<lambda>(kept, entries).
     if \<not> kept < max_entries then (kept, entries)
     else if we_ssid (entries ! index) ! 0 = NUL then (kept, entries)
     else if is_duplicate entries kept (we_ssid (entries ! index)) then (kept, entries)
     else (kept + 1, entries[kept := entries ! index]))"

definition NormalizeWifiScanEntries :: "wifi_scan_entry list \<Rightarrow> nat \<Rightarrow> nat \<Rightarrow> nat \<times> wifi_scan_entry list" where
  "NormalizeWifiScanEntries entries cnt max_entries =
     (let entries = fold (\<lambda>index es. shift_entries es (es ! index) index) [1..<cnt] entries
      in fold (keep_entry max_entries) [0..<cnt] (0, entries))"

definition IsSupportedAuth :: "wifi_auth_mode \<Rightarrow> bool" where
  "IsSupportedAuth authmode \<longleftrightarrow> authmode = WIFI_AUTH_OPEN \<or> authmode = WIFI_AUTH_WPA2_PSK \<or> authmode = WIFI_AUTH_WPA_WPA2_PSK \<or>
     authmode = WIFI_AUTH_WPA3_PSK \<or> authmode = WIFI_AUTH_WPA2_WPA3_PSK"

definition raw_entry :: "wifi_ap_record \<Rightarrow> wifi_scan_entry" where
  "raw_entry r = \<lparr>we_ssid = cfield (CREDENTIAL_SSID_MAX + 1) (take CREDENTIAL_SSID_MAX (cstr (ar_ssid r))),
     we_rssi_dbm = ar_rssi r, we_is_open = (ar_authmode r = WIFI_AUTH_OPEN),
     we_is_unsupported = (\<not> IsSupportedAuth (ar_authmode r))\<rparr>"

text \<open>The entries copied to the caller; None is the result -1. The driver returns at most the 40 records asked for.\<close>

definition ScanWifiNetworks :: "'e platform \<Rightarrow> nat \<Rightarrow> 'e io \<Rightarrow> wifi_scan_entry list option \<times> 'e io" where
  "ScanWifiNetworks p max_entries io =
     (let (err, io) = esp p WIFI_SCAN_START io;
          (records, io) = (if err = ESP_OK then let (r, e) = pl_scan_records p (io_env io) in (r, io\<lparr>io_env := e\<rparr>)
                           else (None, io))
      in case records of
           None \<Rightarrow> (None, io)
         | Some records \<Rightarrow>
             let raw = map raw_entry (take WIFI_SCAN_RAW_MAX records);
                 limit = (if max_entries < WIFI_SCAN_MAX_ENTRIES then max_entries else WIFI_SCAN_MAX_ENTRIES);
                 (kept, entries) = NormalizeWifiScanEntries raw (length raw) limit
             in (Some (take kept entries), io))"

subsection \<open>Events\<close>

text \<open>The event reported to the owner, if one is registered; other Wi-Fi events are ignored.\<close>

datatype wifi_event = WIFI_EVENT_STA_CONNECTED | WIFI_EVENT_STA_DISCONNECTED | WIFI_EVENT_OTHER nat

text \<open>The reasons that have a text of their own, and the line that \<open>HandleWifiEvent\<close> logs; None is an event without data.\<close>

datatype wifi_reason =
    WIFI_REASON_AUTH_EXPIRE
  | WIFI_REASON_AUTH_LEAVE
  | WIFI_REASON_ASSOC_LEAVE
  | WIFI_REASON_4WAY_HANDSHAKE_TIMEOUT
  | WIFI_REASON_BEACON_TIMEOUT
  | WIFI_REASON_NO_AP_FOUND
  | WIFI_REASON_AUTH_FAIL
  | WIFI_REASON_ASSOC_FAIL
  | WIFI_REASON_HANDSHAKE_TIMEOUT
  | WIFI_REASON_OTHER byte

definition GetDisconnectReasonText :: "wifi_reason \<Rightarrow> string" where
  "GetDisconnectReasonText reason = (case reason of
     WIFI_REASON_AUTH_EXPIRE \<Rightarrow> ''auth expired''
   | WIFI_REASON_AUTH_LEAVE \<Rightarrow> ''auth leave''
   | WIFI_REASON_ASSOC_LEAVE \<Rightarrow> ''assoc leave''
   | WIFI_REASON_4WAY_HANDSHAKE_TIMEOUT \<Rightarrow> ''4-way handshake timeout''
   | WIFI_REASON_BEACON_TIMEOUT \<Rightarrow> ''beacon timeout''
   | WIFI_REASON_NO_AP_FOUND \<Rightarrow> ''no ap found''
   | WIFI_REASON_AUTH_FAIL \<Rightarrow> ''authentication failed''
   | WIFI_REASON_ASSOC_FAIL \<Rightarrow> ''association failed''
   | WIFI_REASON_HANDSHAKE_TIMEOUT \<Rightarrow> ''handshake timeout''
   | WIFI_REASON_OTHER n \<Rightarrow> ''other'')"

definition disconnect_log :: "wifi_reason option \<Rightarrow> string" where
  "disconnect_log reason = ''station disconnected ('' @
     (case reason of Some r \<Rightarrow> GetDisconnectReasonText r | None \<Rightarrow> ''unknown'') @ '')''"

text \<open>No reason makes a line that is cut: it is short enough for the message buffer of the log.\<close>

lemma disconnect_log_length: "length (disconnect_log reason) \<le> 46"
proof (cases reason)
  case (Some r)
  then show ?thesis by (cases r) (simp_all add: disconnect_log_def GetDisconnectReasonText_def)
qed (simp add: disconnect_log_def)

definition HandleWifiEvent :: "wifi_state \<Rightarrow> wifi_event \<Rightarrow> wifi_manager_event option" where
  "HandleWifiEvent w event = (case event of
     WIFI_EVENT_STA_CONNECTED \<Rightarrow> (if wf_on_event w then Some WIFI_MANAGER_EVENT_STA_CONNECTED else None)
   | WIFI_EVENT_STA_DISCONNECTED \<Rightarrow> (if wf_on_event w then Some WIFI_MANAGER_EVENT_STA_DISCONNECTED else None)
   | WIFI_EVENT_OTHER n \<Rightarrow> None)"

definition HandleIpEvent :: "wifi_state \<Rightarrow> wifi_manager_event option" where
  "HandleIpEvent w = (if wf_on_event w then Some WIFI_MANAGER_EVENT_STA_GOT_IP else None)"

subsection \<open>Driver, access point and station\<close>

definition OfferAccessPointDns :: "'e platform \<Rightarrow> 'e io \<Rightarrow> bool \<times> 'e io" where
  "OfferAccessPointDns p io = (case pl_ap_ip p (io_env io) of
     None \<Rightarrow> (False, io)
   | Some addr \<Rightarrow> let (err, io) = run_calls p [DHCPS_OFFER_DNS, NETIF_SET_DNS addr] io in (err = ESP_OK, io))"

text \<open>\<open>netifs\<close> says whether the two interfaces were created.\<close>

definition InitWifiManager :: "'e platform \<Rightarrow> bool \<Rightarrow> bool \<Rightarrow> wifi_state \<times> 'e io \<Rightarrow> bool \<times> wifi_state \<times> 'e io" where
  "InitWifiManager p has_ap_netif has_sta_netif = (\<lambda>(w, io).
     let w = w\<lparr>wf_on_event := True\<rparr>;
         io = snd (esp p EVENT_LOOP_CREATE (snd (esp p NETIF_INIT io)));
         w = w\<lparr>wf_has_ap_netif := has_ap_netif, wf_has_sta_netif := has_sta_netif\<rparr>;
         io = snd (OfferAccessPointDns p io);
         (err, io) = run_calls p [WIFI_INIT False, WIFI_SET_STORAGE_RAM, EVENT_REGISTER_WIFI, EVENT_REGISTER_IP] io
     in (err = ESP_OK, w, io))"

definition wifi_ap_ssid :: "byte list \<Rightarrow> string" where
  "wifi_ap_ssid mac = ''RGB-LED-Tuner-'' @ hex2 (mac ! 4) @ hex2 (mac ! 5)"

definition StartWifiAccessPoint :: "'e platform \<Rightarrow> wifi_state \<times> 'e io \<Rightarrow> bool \<times> wifi_state \<times> 'e io" where
  "StartWifiAccessPoint p = (\<lambda>(w, io).
     let ssid = wifi_ap_ssid (pl_mac p (io_env io));
         config = \<lparr>ac_ssid = snprintf 32 ssid, ac_ssid_len = of_nat (length ssid), ac_channel = WIFI_AP_CHANNEL,
                   ac_max_connection = WIFI_AP_MAX_CLIENTS, ac_authmode = WIFI_AUTH_OPEN\<rparr>;
         (err, io) = run_calls p ([WIFI_SET_MODE WIFI_MODE_APSTA, WIFI_SET_CONFIG_AP config] @
                                  (if wf_is_started w then [] else [WIFI_START])) io;
         is_ok = (err = ESP_OK)
     in (is_ok, w\<lparr>wf_is_started := (wf_is_started w \<or> is_ok)\<rparr>, io))"

definition StopWifiAccessPoint :: "'e platform \<Rightarrow> wifi_state \<times> 'e io \<Rightarrow> bool \<times> wifi_state \<times> 'e io" where
  "StopWifiAccessPoint p = (\<lambda>(w, io).
     let (err, io) = esp p (WIFI_SET_MODE WIFI_MODE_STA) io in (err = ESP_OK, w, io))"

definition sta_config :: "wifi_credentials \<Rightarrow> wifi_sta_config" where
  "sta_config c = \<lparr>sc_ssid = overwrite 0 (cstr (wc_ssid c)) (replicate 32 NUL),
     sc_password = overwrite 0 (cstr (wc_password c)) (replicate 64 NUL),
     sc_threshold = (if length (cstr (wc_password c)) = 0 then WIFI_AUTH_OPEN else WIFI_AUTH_WPA2_PSK),
     sc_pmf_capable = True, sc_pmf_required = False\<rparr>"

definition ConnectWifiStation :: "'e platform \<Rightarrow> wifi_credentials \<Rightarrow> wifi_state \<times> 'e io \<Rightarrow> bool \<times> wifi_state \<times> 'e io" where
  "ConnectWifiStation p c = (\<lambda>(w, io).
     if \<not> IsCredentialsValid (Some c) then (False, w, io)
     else let mode = pl_mode p (io_env io);
              (err, io) = run_calls p ((if mode = WIFI_MODE_APSTA then [] else [WIFI_SET_MODE WIFI_MODE_STA]) @
                            [WIFI_SET_CONFIG_STA (sta_config c)] @ (if wf_is_started w then [] else [WIFI_START]) @
                            [WIFI_CONNECT]) io;
              is_ok = (err = ESP_OK)
          in (is_ok, w\<lparr>wf_is_started := (wf_is_started w \<or> is_ok)\<rparr>, io))"

definition DisconnectWifiStation :: "'e platform \<Rightarrow> wifi_state \<times> 'e io \<Rightarrow> wifi_state \<times> 'e io" where
  "DisconnectWifiStation p = (\<lambda>(w, io). if wf_is_started w then (w, snd (esp p WIFI_DISCONNECT io)) else (w, io))"

definition GetWifiAccessPointAddress :: "'e platform \<Rightarrow> wifi_state \<Rightarrow> 'e io \<Rightarrow> u32" where
  "GetWifiAccessPointAddress p w io =
     (if \<not> wf_has_ap_netif w then 0 else case pl_ap_ip p (io_env io) of None \<Rightarrow> 0 | Some addr \<Rightarrow> addr)"

definition GetWifiStationAddress :: "'e platform \<Rightarrow> wifi_state \<Rightarrow> 'e io \<Rightarrow> u32" where
  "GetWifiStationAddress p w io =
     (if \<not> wf_has_sta_netif w then 0 else case pl_sta_ip p (io_env io) of None \<Rightarrow> 0 | Some addr \<Rightarrow> addr)"

subsection \<open>The delay is an exponential backoff\<close>

lemma delay_loop_spec:
  "n \<le> 6 \<Longrightarrow> delay_loop (n + k) WIFI_RECONNECT_DELAY_MIN_MS = delay_loop k (of_nat (1000 * 2 ^ n))"
proof (induction n arbitrary: k)
  case (Suc n)
  have "delay_loop (Suc n + k) WIFI_RECONNECT_DELAY_MIN_MS = delay_loop (Suc k) (of_nat (1000 * 2 ^ n))"
    using Suc.IH [of "Suc k"] Suc.prems by simp
  moreover have "(of_nat (1000 * 2 ^ n) :: u32) < 60000"
  proof -
    have "n \<in> {0, 1, 2, 3, 4, 5}" using Suc.prems by auto
    then show ?thesis by auto
  qed
  ultimately show ?case by (simp add: mult.commute mult.left_commute)
qed simp

lemma delay_spec: "unat (GetWifiReconnectDelayMs n) = min (1000 * 2 ^ unat n) 60000"
proof (cases "unat n < 6")
  case True
  then have "unat n \<in> {0, 1, 2, 3, 4, 5}" by auto
  moreover have "delay_loop (unat n) WIFI_RECONNECT_DELAY_MIN_MS = of_nat (1000 * 2 ^ unat n)"
    using delay_loop_spec [of "unat n" 0] True by simp
  ultimately show ?thesis unfolding GetWifiReconnectDelayMs_def Let_def by auto
next
  case False
  then have n: "unat n = 6 + (unat n - 6)" by simp
  have "delay_loop (unat n) WIFI_RECONNECT_DELAY_MIN_MS = delay_loop (unat n - 6) 64000"
    by (subst n) (simp add: delay_loop_spec [of 6])
  also have "\<dots> = 64000" by (cases "unat n - 6") simp_all
  finally have "GetWifiReconnectDelayMs n = 60000" by (simp add: GetWifiReconnectDelayMs_def)
  moreover have "(2::nat) ^ 6 \<le> 2 ^ unat n" using False by (intro power_increasing) simp_all
  ultimately show ?thesis by simp
qed

subsection \<open>The insertion sorts stably\<close>

definition strength :: "wifi_scan_entry \<Rightarrow> int" where
  "strength e = - we_rssi_dbm e"

lemma shift_entries_insert:
  assumes "sorted (map strength s)"
  shows "shift_entries (s @ junk # ys) c (length s) =
    filter (\<lambda>y. strength y \<le> strength c) s @ c # filter (\<lambda>y. strength c < strength y) s @ ys"
  using assms
proof (induction s arbitrary: junk ys rule: rev_induct)
  case (snoc z s)
  have z: "(s @ [z] @ junk # ys) ! length s = z" "(s @ [z] @ junk # ys)[Suc (length s) := v] = s @ z # v # ys" for v
    by (simp_all add: nth_append list_update_append)
  show ?case
  proof (cases "we_rssi_dbm z < we_rssi_dbm c")
    case True
    then have "shift_entries ((s @ [z]) @ junk # ys) c (length (s @ [z])) = shift_entries (s @ z # z # ys) c (length s)"
      using z by simp
    with snoc True show ?thesis by (simp add: strength_def sorted_append)
  next
    case False
    then have le: "\<forall>y\<in>set s. strength y \<le> strength c" using snoc.prems by (force simp: strength_def sorted_append)
    have "shift_entries ((s @ [z]) @ junk # ys) c (length (s @ [z])) = s @ z # c # ys" using False z by simp
    then show ?thesis using False le by (simp add: strength_def) (simp add: filter_empty_conv not_less)
  qed
qed simp

lemma sort_key_snoc:
  "sort_key f (xs @ [x]) = filter (\<lambda>y. f y \<le> f x) (sort_key f xs) @ x # filter (\<lambda>y. f x < f y) (sort_key f xs)"
proof (rule properties_for_sort_key)
  let ?s = "sort_key f xs"
  have "mset ?s = filter_mset (\<lambda>y. f y \<le> f x) (mset ?s) + filter_mset (\<lambda>y. \<not> f y \<le> f x) (mset ?s)"
    by (rule multiset_partition)
  then have eq: "mset (filter (\<lambda>y. f y \<le> f x) ?s) + mset (filter (\<lambda>y. f x < f y) ?s) = mset xs"
    unfolding mset_filter not_le mset_sort by (rule sym)
  show "mset (filter (\<lambda>y. f y \<le> f x) ?s @ x # filter (\<lambda>y. f x < f y) ?s) = mset (xs @ [x])"
    unfolding mset_append mset.simps union_mset_add_mset_right eq by simp
  fix k
  have st: "filter (\<lambda>y. f k = f y) ?s = filter (\<lambda>y. f k = f y) xs"
    using sort_key_stable [of f "f k" xs] unfolding eq_commute [of "f k"] .
  show "filter (\<lambda>y. f k = f y) (filter (\<lambda>y. f y \<le> f x) ?s @ x # filter (\<lambda>y. f x < f y) ?s) = filter (\<lambda>y. f k = f y) (xs @ [x])"
  proof (cases "f k \<le> f x")
    case True
    then have "filter (\<lambda>y. f k = f y \<and> f y \<le> f x) ?s = filter (\<lambda>y. f k = f y) ?s"
      "filter (\<lambda>y. f k = f y \<and> f x < f y) ?s = []"
      by (auto intro: filter_cong simp: filter_empty_conv)
    then show ?thesis using st by (simp add: conj_commute)
  next
    case False
    then have "filter (\<lambda>y. f k = f y \<and> f x < f y) ?s = filter (\<lambda>y. f k = f y) ?s"
      "filter (\<lambda>y. f k = f y \<and> f y \<le> f x) ?s = []"
      by (auto intro: filter_cong simp: filter_empty_conv)
    then show ?thesis using st False by (auto simp: conj_commute)
  qed
next
  show "sorted (map f (filter (\<lambda>y. f y \<le> f x) (sort_key f xs) @ x # filter (\<lambda>y. f x < f y) (sort_key f xs)))"
    by (auto simp: sorted_append intro: sorted_filter less_imp_le)
qed

lemma insertion_loop:
  assumes "n < length es"
  shows "fold (\<lambda>index es. shift_entries es (es ! index) index) [1..<Suc n] es = sort_key strength (take (Suc n) es) @ drop (Suc n) es"
  using assms
proof (induction n)
  case 0
  then show ?case by (cases es) simp_all
next
  case (Suc n)
  let ?s = "sort_key strength (take (Suc n) es)"
  have l: "length ?s = Suc n" using Suc.prems by simp
  have d: "drop (Suc n) es = es ! Suc n # drop (Suc (Suc n)) es" using Suc.prems by (simp add: Cons_nth_drop_Suc)
  have x: "(?s @ drop (Suc n) es) ! Suc n = es ! Suc n" using l d by (simp add: nth_append)
  have "fold (\<lambda>index es. shift_entries es (es ! index) index) [1..<Suc (Suc n)] es =
      shift_entries (?s @ es ! Suc n # drop (Suc (Suc n)) es) (es ! Suc n) (length ?s)"
    using Suc x d l by simp
  also have "\<dots> = sort_key strength (take (Suc n) es @ [es ! Suc n]) @ drop (Suc (Suc n)) es"
    using shift_entries_insert [of ?s] by (simp only: sort_key_snoc append_assoc append_Cons sorted_sort_key)
  finally show ?case using Suc.prems by (simp add: take_Suc_conv_app_nth)
qed

subsection \<open>The filter keeps the strongest entry of each name\<close>

definition name_of :: "wifi_scan_entry \<Rightarrow> string" where
  "name_of e = cstr (we_ssid e)"

fun dedup :: "wifi_scan_entry list \<Rightarrow> wifi_scan_entry list" where
  "dedup [] = []"
| "dedup (e # es) = (if name_of e = [] then dedup es else e # filter (\<lambda>x. name_of x \<noteq> name_of e) (dedup es))"

lemma names_dedup: "name_of ` set (dedup es) = name_of ` set es - {[]}"
proof (induction es)
  case (Cons e es)
  have "name_of ` {x \<in> set (dedup es). name_of x \<noteq> name_of e} = name_of ` set (dedup es) - {name_of e}" by auto
  with Cons show ?case by auto
qed simp

lemma distinct_dedup: "distinct (map name_of (dedup es))"
  by (induction es) (auto simp: distinct_map inj_on_def)

lemma set_dedup: "set (dedup es) \<subseteq> set es"
  by (induction es) auto

lemma sorted_dedup: "sorted (map f es) \<Longrightarrow> sorted (map f (dedup es))"
  using set_dedup by (induction es) (auto intro!: sorted_filter)

lemma dedup_snoc:
  "dedup (es @ [e]) = dedup es @ (if name_of e = [] \<or> name_of e \<in> name_of ` set (dedup es) then [] else [e])"
  by (induction es) (auto simp: image_iff)

lemma is_duplicate_iff:
  "kept \<le> length entries \<Longrightarrow> is_duplicate entries kept s = (cstr s \<in> name_of ` set (take kept entries))"
  by (force simp: is_duplicate_def list_ex_iff name_of_def in_set_conv_nth image_iff)

lemma cstr_empty: "s \<noteq> [] \<Longrightarrow> cstr s = [] \<longleftrightarrow> s ! 0 = NUL"
  by (cases s) (auto simp: cstr_def)

lemma keep_loop:
  assumes "n \<le> length es" and "\<forall>e\<in>set es. we_ssid e \<noteq> []"
  shows "case fold (keep_entry m) [0..<n] (0, es) of (kept, es') \<Rightarrow>
    take kept es' = take m (dedup (take n es)) \<and> kept = length (take m (dedup (take n es))) \<and> kept \<le> n \<and>
    length es' = length es \<and> drop n es' = drop n es"
  using assms(1)
proof (induction n)
  case (Suc n)
  let ?D = "dedup (take n es)"
  obtain kept es' where f: "fold (keep_entry m) [0..<n] (0, es) = (kept, es')" by fastforce
  with Suc have ih: "take kept es' = take m ?D" "kept = length (take m ?D)" "kept \<le> n" "length es' = length es"
    "drop n es' = drop n es" by auto
  have e: "es' ! n = es ! n" "drop (Suc n) es' = drop (Suc n) es"
    using ih(4,5) Suc.prems by (metis Suc_le_eq nth_via_drop Cons_nth_drop_Suc, metis drop_Suc drop_tl ih(5))
  have ne: "we_ssid (es ! n) \<noteq> []" using assms(2) Suc.prems by simp
  have t: "take (Suc n) es = take n es @ [es ! n]" using Suc.prems by (simp add: take_Suc_conv_app_nth)
  have step: "fold (keep_entry m) [0..<Suc n] (0, es) = keep_entry m n (kept, es')" using f by simp
  have names: "is_duplicate es' kept (we_ssid (es ! n)) = (name_of (es ! n) \<in> name_of ` set (take m ?D))"
    using ih Suc.prems is_duplicate_iff [of kept es' "we_ssid (es ! n)"] by (simp add: name_of_def)
  show ?case
  proof (cases "kept < m")
    case False
    then have "m \<le> length ?D" using ih(2) by simp
    have k: "keep_entry m n (kept, es') = (kept, es')" using False by (simp add: keep_entry_def)
    show ?thesis unfolding step k using \<open>m \<le> length ?D\<close> ih e by (simp add: t dedup_snoc)
  next
    case True
    then have all: "take m ?D = ?D" using ih(2) by simp
    show ?thesis
    proof (cases "name_of (es ! n) = [] \<or> name_of (es ! n) \<in> name_of ` set ?D")
      case skip: True
      then have "keep_entry m n (kept, es') = (kept, es')"
        using names all e cstr_empty [OF ne] by (auto simp: keep_entry_def name_of_def)
      then show ?thesis unfolding step t dedup_snoc using skip ih e all by simp
    next
      case False
      then have k: "keep_entry m n (kept, es') = (kept + 1, es'[kept := es ! n])"
        using True names all e cstr_empty [OF ne] by (auto simp: keep_entry_def name_of_def)
      have kl: "kept < length es'" using ih(3,4) Suc.prems by simp
      have ld: "length ?D = kept" using ih(2) all by simp
      have D: "take m (?D @ [es ! n]) = ?D @ [es ! n]" using True ld by simp
      have "take (kept + 1) (es'[kept := es ! n]) = ?D @ [es ! n]"
        using kl ih(1) all by (simp add: take_Suc_conv_app_nth)
      moreover have "drop (Suc n) (es'[kept := es ! n]) = drop (Suc n) es" using ih(3) e(2) by simp
      moreover have "dedup (take n es @ [es ! n]) = ?D @ [es ! n]" unfolding dedup_snoc using False by simp
      ultimately show ?thesis unfolding step t k using D ih(3,4) ld by simp
    qed
  qed
qed simp

definition normalized :: "nat \<Rightarrow> wifi_scan_entry list \<Rightarrow> wifi_scan_entry list" where
  "normalized m es = take m (dedup (sort_key strength es))"

lemma Normalize_spec:
  assumes "cnt \<le> length es" and "\<forall>e\<in>set es. we_ssid e \<noteq> []"
  shows "case NormalizeWifiScanEntries es cnt m of (kept, es') \<Rightarrow> take kept es' = normalized m (take cnt es) \<and> kept \<le> m \<and> kept \<le> cnt"
proof -
  have s: "fold (\<lambda>index es. shift_entries es (es ! index) index) [1..<cnt] es = sort_key strength (take cnt es) @ drop cnt es"
    using assms(1) insertion_loop [of "cnt - 1" es] by (cases cnt) simp_all
  have "\<forall>e\<in>set (sort_key strength (take cnt es) @ drop cnt es). we_ssid e \<noteq> []"
    using assms(2) by (auto dest: in_set_takeD in_set_dropD)
  from keep_loop [OF _ this, of cnt m] show ?thesis
    unfolding NormalizeWifiScanEntries_def s Let_def using assms(1) by (auto simp: normalized_def)
qed

subsection \<open>What the calls do to the driver\<close>

lemma StartWifiAccessPoint_mode:
  assumes "StartWifiAccessPoint p (w, io) = (is_ok, w', io')"
  shows "is_ok \<Longrightarrow> mode_set (io_log io') = WIFI_MODE_APSTA \<and> wf_is_started w'"
proof -
  show "mode_set (io_log io') = WIFI_MODE_APSTA \<and> wf_is_started w'" if is_ok
    using assms that
    by (auto simp: StartWifiAccessPoint_def Let_def split: prod.splits if_splits dest!: mode_set_esp)
qed

lemma StopWifiAccessPoint_mode:
  "StopWifiAccessPoint p (w, io) = (is_ok, w', io') \<Longrightarrow> w' = w \<and> (is_ok \<longrightarrow> mode_set (io_log io') = WIFI_MODE_STA)"
  by (auto simp: StopWifiAccessPoint_def split: prod.splits dest!: mode_set_esp)

lemma DisconnectWifiStation_mode:
  "DisconnectWifiStation p (w, io) = (w', io') \<Longrightarrow> w' = w \<and> mode_set (io_log io') = mode_set (io_log io)"
  by (auto simp: DisconnectWifiStation_def split: if_splits)

lemma ConnectWifiStation_mode:
  assumes "ConnectWifiStation p c (w, io) = (is_ok, w', io')" and "mode_reported p io"
  shows "mode_set (io_log io) = WIFI_MODE_APSTA \<Longrightarrow> mode_set (io_log io') = WIFI_MODE_APSTA"
    and "mode_set (io_log io) = WIFI_MODE_STA \<Longrightarrow> mode_set (io_log io') = WIFI_MODE_STA"
proof -
  obtain err io1 where r: "run_calls p ((if pl_mode p (io_env io) = WIFI_MODE_APSTA then [] else [WIFI_SET_MODE WIFI_MODE_STA]) @
      [WIFI_SET_CONFIG_STA (sta_config c)] @ (if wf_is_started w then [] else [WIFI_START]) @ [WIFI_CONNECT]) io = (err, io1)"
    by fastforce
  have i: "io' = (if IsCredentialsValid (Some c) then io1 else io)"
    using assms(1) r by (auto simp: ConnectWifiStation_def Let_def split: if_splits)
  show "mode_set (io_log io') = WIFI_MODE_APSTA" if "mode_set (io_log io) = WIFI_MODE_APSTA"
    using mode_set_run_calls [OF r] that assms(2) i by (auto simp: mode_reported_def)
  show "mode_set (io_log io') = WIFI_MODE_STA" if "mode_set (io_log io) = WIFI_MODE_STA"
  proof -
    have "run_calls p (WIFI_SET_MODE WIFI_MODE_STA # [WIFI_SET_CONFIG_STA (sta_config c)] @
        (if wf_is_started w then [] else [WIFI_START]) @ [WIFI_CONNECT]) io = (err, io1)"
      using r that assms(2) by (simp add: mode_reported_def)
    from mode_set_chain(2) [OF this] that i show ?thesis by auto
  qed
qed

subsection \<open>Properties\<close>

text \<open>C39: normalising a scan computes, in place and with its insertion and filter loops, the first at most \<open>max_entries\<close> of the
  entries sorted by strength, strongest first and equal ones in scan order, with empty names dropped and of each name only the
  strongest kept.\<close>

theorem NormalizeWifiScanEntries_spec:
  assumes "cnt \<le> length entries" and "\<forall>e\<in>set entries. we_ssid e \<noteq> []"
  shows "case NormalizeWifiScanEntries entries cnt max_entries of (kept, entries') \<Rightarrow>
    take kept entries' = take max_entries (dedup (sort_key (\<lambda>e. - we_rssi_dbm e) (take cnt entries))) \<and>
    kept \<le> max_entries \<and> kept \<le> cnt"
  using Normalize_spec [OF assms] by (simp add: normalized_def strength_def [abs_def])

definition example_scan :: "wifi_scan_entry list" where
  "example_scan = [\<lparr>we_ssid = cfield 33 ''home'', we_rssi_dbm = - 70, we_is_open = False, we_is_unsupported = False\<rparr>,
     \<lparr>we_ssid = cfield 33 ''cafe'', we_rssi_dbm = - 50, we_is_open = True, we_is_unsupported = False\<rparr>,
     \<lparr>we_ssid = cfield 33 ''home'', we_rssi_dbm = - 40, we_is_open = False, we_is_unsupported = False\<rparr>]"

theorem NormalizeWifiScanEntries_spec_witness:
  "\<exists>kept entries'. NormalizeWifiScanEntries example_scan 3 20 = (kept, entries') \<and>
     map name_of (take kept entries') = [''home'', ''cafe'']"
proof -
  obtain kept es' where n: "NormalizeWifiScanEntries example_scan 3 20 = (kept, es')" by fastforce
  have "\<forall>e\<in>set example_scan. we_ssid e \<noteq> []" by (simp add: example_scan_def cfield_def NUL_def)
  from NormalizeWifiScanEntries_spec [OF _ this, of 3 20]
  have "take kept es' = take 20 (dedup (sort_key (\<lambda>e. - we_rssi_dbm e) example_scan))"
    unfolding n by (simp add: example_scan_def)
  moreover have "map name_of (take 20 (dedup (sort_key (\<lambda>e. - we_rssi_dbm e) example_scan))) = [''home'', ''cafe'']"
    by (simp add: example_scan_def name_of_def cstr_cfield NUL_def)
  ultimately show ?thesis using n by (intro exI [of _ kept] exI [of _ es']) simp
qed

text \<open>The reconnect delay is the capped exponential: 1 s doubled with each failure and never more than 60 s, for every 32-bit
  failure count, although the code doubles a 32-bit number in a loop.\<close>

theorem GetWifiReconnectDelayMs_backoff: "unat (GetWifiReconnectDelayMs n) = min (1000 * 2 ^ unat n) 60000"
  by (rule delay_spec)

lemma sta_config_fits:
  assumes "IsCredentialsValid (Some c)" and "wf_credentials c"
  shows "length (sc_ssid (sta_config c)) = 32" and "length (sc_password (sta_config c)) = 64"
    and "take (length (cstr (wc_ssid c))) (sc_ssid (sta_config c)) = cstr (wc_ssid c)"
proof -
  have l: "length (cstr (wc_ssid c)) \<le> 32" "length (cstr (wc_password c)) \<le> 64"
    using assms IsPasswordValid_spec [of "wc_password c"]
    by (auto simp: IsCredentialsValid_def Let_def strnlen_def wf_credentials_def dest: password_ok_length split: if_splits)
  show "length (sc_ssid (sta_config c)) = 32" "length (sc_password (sta_config c)) = 64"
    "take (length (cstr (wc_ssid c))) (sc_ssid (sta_config c)) = cstr (wc_ssid c)"
    using l by (simp_all add: sta_config_def overwrite_def)
qed

text \<open>Stopping the access point asks for the station mode, and a connection attempt never asks for the access point.\<close>

lemma wifi_asked_off:
  "StopWifiAccessPoint p (w, io) = (ok, w', io') \<Longrightarrow> ap_asked_off (io_log io')"
  "ConnectWifiStation p c (w, io) = (ok, w', io') \<Longrightarrow> ap_asked_off (io_log io) \<Longrightarrow> ap_asked_off (io_log io')"
proof -
  show "StopWifiAccessPoint p (w, io) = (ok, w', io') \<Longrightarrow> ap_asked_off (io_log io')"
    by (auto simp: StopWifiAccessPoint_def esp_def ap_asked_off_def split: prod.splits)
  assume a: "ConnectWifiStation p c (w, io) = (ok, w', io')" "ap_asked_off (io_log io)"
  obtain err io1 where r: "run_calls p ((if pl_mode p (io_env io) = WIFI_MODE_APSTA then [] else [WIFI_SET_MODE WIFI_MODE_STA]) @
      [WIFI_SET_CONFIG_STA (sta_config c)] @ (if wf_is_started w then [] else [WIFI_START]) @ [WIFI_CONNECT]) io = (err, io1)"
    by fastforce
  have "ap_asked_off (io_log io1)" by (rule run_calls_asked_off [OF r a(2)]) (auto split: if_splits)
  then show "ap_asked_off (io_log io')" using a r by (auto simp: ConnectWifiStation_def Let_def split: if_splits)
qed

lemma wifi_calls:
  "StartWifiAccessPoint p (w, io) = (ok, w', io') \<Longrightarrow> io_calls p io io'"
  "StopWifiAccessPoint p (w, io) = (ok, w', io') \<Longrightarrow> io_calls p io io'"
  "ConnectWifiStation p c (w, io) = (ok, w', io') \<Longrightarrow> io_calls p io io'"
  by (auto simp: StartWifiAccessPoint_def StopWifiAccessPoint_def ConnectWifiStation_def Let_def
      split: prod.splits if_splits dest!: run_calls_calls esp_calls simp del: run_calls.simps)

lemma wifi_keeps:
  "DisconnectWifiStation p (w, io) = (w', io') \<Longrightarrow> io_keeps p io io'"
  "InitWifiManager p ap sta (w, io) = (ok, w', io') \<Longrightarrow> io_keeps p io io'"
proof -
  have e: "io_keeps p io (snd (esp p c io))" if "\<not> sets_mode c" for c io
    by (rule esp_keeps [of p c io "fst (esp p c io)"]) (use that in simp_all)
  show "DisconnectWifiStation p (w, io) = (w', io') \<Longrightarrow> io_keeps p io io'"
    by (auto simp: DisconnectWifiStation_def e split: if_splits)
  assume a: "InitWifiManager p ap sta (w, io) = (ok, w', io')"
  let ?io1 = "snd (esp p EVENT_LOOP_CREATE (snd (esp p NETIF_INIT io)))"
  have k1: "io_keeps p io ?io1" using io_keeps_trans [OF e e, of NETIF_INIT EVENT_LOOP_CREATE] by simp
  obtain b io2 where o: "OfferAccessPointDns p ?io1 = (b, io2)" by fastforce
  have k2: "io_keeps p ?io1 io2"
    using o by (auto simp: OfferAccessPointDns_def simp del: run_calls.simps split: option.splits prod.splits dest!: run_calls_keeps)
  obtain err io3 where r: "run_calls p [WIFI_INIT False, WIFI_SET_STORAGE_RAM, EVENT_REGISTER_WIFI, EVENT_REGISTER_IP] io2 = (err, io3)"
    by fastforce
  have k3: "io_keeps p io2 io3" by (rule run_calls_keeps [OF r]) simp
  have "io' = io3" using a o r by (auto simp: InitWifiManager_def Let_def simp del: run_calls.simps)
  then show "io_keeps p io io'" using k1 k2 k3 io_keeps_trans by blast
qed

end
