(* ===== verification/Json.thy ===== *)
theory Json
  imports Prelude "HOL-Library.Char_ord"
begin

section \<open>A reader of JSON\<close>

text \<open>
  What a client makes of a JSON text (RFC 8259), written independently of the code that produces such texts: the specification of
  the replies of the HTTP portal. A text is a list of bytes. The reader accepts no white space between the tokens and no
  fractions or exponents in numbers, so every text it accepts is JSON, and it reads a code point written as \<open>\uXXXX\<close> only below 128, where it
  is one byte; bytes from 128 on are taken as they are.
\<close>

datatype json =
    JString string
  | JNumber int
  | JBool bool
  | JNull
  | JArray "json list"
  | JObject "(string \<times> json) list"

subsection \<open>Strings\<close>

definition json_hex :: "char \<Rightarrow> nat option" where
  "json_hex c = (let n = of_char c in
     if 48 \<le> n \<and> n \<le> 57 then Some (n - 48)
     else if 97 \<le> n \<and> n \<le> 102 then Some (n - 87)
     else if 65 \<le> n \<and> n \<le> 70 then Some (n - 55) else None)"

fun json_hex4 :: "char list \<Rightarrow> nat option" where
  "json_hex4 [a, b, c, d] = (case (json_hex a, json_hex b, json_hex c, json_hex d) of
     (Some a, Some b, Some c, Some d) \<Rightarrow> Some (4096 * a + 256 * b + 16 * c + d) | _ \<Rightarrow> None)"
| "json_hex4 _ = None"

definition json_short_escape :: "char \<Rightarrow> char option" where
  "json_short_escape c =
     (if c = CHR 0x22 \<or> c = CHR 0x5C \<or> c = CHR ''/'' then Some c
      else if c = CHR ''b'' then Some (CHR 0x08) else if c = CHR ''f'' then Some (CHR 0x0C)
      else if c = CHR ''n'' then Some (CHR 0x0A) else if c = CHR ''r'' then Some (CHR 0x0D)
      else if c = CHR ''t'' then Some (CHR 0x09) else None)"

text \<open>What follows the opening quote, up to the closing one: the value and the rest of the text.\<close>

fun read_json_string :: "string \<Rightarrow> (string \<times> string) option" where
  "read_json_string [] = None"
| "read_json_string (c # rest) =
     (if c = CHR 0x22 then Some ([], rest)
      else if c < CHR '' '' then None
      else if c \<noteq> CHR 0x5C then map_option (\<lambda>(s, r). (c # s, r)) (read_json_string rest)
      else (case rest of
          [] \<Rightarrow> None
        | e # rest \<Rightarrow>
            if e = CHR ''u'' then
              (case rest of
                 h1 # h2 # h3 # h4 # rest \<Rightarrow>
                   (case json_hex4 [h1, h2, h3, h4] of
                      None \<Rightarrow> None
                    | Some n \<Rightarrow> if 128 \<le> n then None
                        else map_option (\<lambda>(s, r). (char_of n # s, r)) (read_json_string rest))
               | _ \<Rightarrow> None)
            else (case json_short_escape e of
                None \<Rightarrow> None
              | Some x \<Rightarrow> map_option (\<lambda>(s, r). (x # s, r)) (read_json_string rest))))"

subsection \<open>Numbers and literals\<close>

definition is_json_digit :: "char \<Rightarrow> bool" where
  "is_json_digit c \<longleftrightarrow> 48 \<le> (of_char c :: nat) \<and> (of_char c :: nat) \<le> 57"

definition json_digits :: "string \<Rightarrow> nat" where
  "json_digits ds = foldl (\<lambda>n c. 10 * n + (of_char c - 48)) 0 ds"

definition read_json_nat :: "string \<Rightarrow> (nat \<times> string) option" where
  "read_json_nat cs =
     (let ds = takeWhile is_json_digit cs
      in if ds = [] \<or> (hd ds = CHR ''0'' \<and> tl ds \<noteq> []) then None else Some (json_digits ds, dropWhile is_json_digit cs))"

definition read_json_int :: "string \<Rightarrow> (int \<times> string) option" where
  "read_json_int cs =
     (if cs \<noteq> [] \<and> hd cs = CHR ''-'' then map_option (\<lambda>(n, r). (- int n, r)) (read_json_nat (tl cs))
      else map_option (\<lambda>(n, r). (int n, r)) (read_json_nat cs))"

definition after_literal :: "string \<Rightarrow> string \<Rightarrow> string option" where
  "after_literal p cs = (if take (length p) cs = p then Some (drop (length p) cs) else None)"

subsection \<open>Values\<close>

text \<open>The fuel bounds the nesting and the number of elements; a text is longer than both.\<close>

fun read_json_value :: "nat \<Rightarrow> string \<Rightarrow> (json \<times> string) option"
  and read_json_elements :: "nat \<Rightarrow> string \<Rightarrow> (json list \<times> string) option"
  and read_json_members :: "nat \<Rightarrow> string \<Rightarrow> ((string \<times> json) list \<times> string) option" where
  "read_json_value 0 cs = None"
| "read_json_value (Suc n) [] = None"
| "read_json_value (Suc n) (c # r) =
     (if c = CHR 0x22 then map_option (\<lambda>(s, r). (JString s, r)) (read_json_string r)
      else if c = CHR ''['' then
        if r \<noteq> [] \<and> hd r = CHR '']'' then Some (JArray [], tl r)
        else map_option (\<lambda>(vs, r). (JArray vs, r)) (read_json_elements n r)
      else if c = CHR ''{'' then
        if r \<noteq> [] \<and> hd r = CHR ''}'' then Some (JObject [], tl r)
        else map_option (\<lambda>(ms, r). (JObject ms, r)) (read_json_members n r)
      else (case after_literal ''true'' (c # r) of Some r \<Rightarrow> Some (JBool True, r) | None \<Rightarrow>
           (case after_literal ''false'' (c # r) of Some r \<Rightarrow> Some (JBool False, r) | None \<Rightarrow>
           (case after_literal ''null'' (c # r) of Some r \<Rightarrow> Some (JNull, r) | None \<Rightarrow>
              map_option (\<lambda>(i, r). (JNumber i, r)) (read_json_int (c # r))))))"
| "read_json_elements 0 cs = None"
| "read_json_elements (Suc n) cs = (case read_json_value n cs of
     None \<Rightarrow> None
   | Some (v, r) \<Rightarrow>
       if r = [] then None
       else if hd r = CHR '']'' then Some ([v], tl r)
       else if hd r = CHR '','' then map_option (\<lambda>(vs, r). (v # vs, r)) (read_json_elements n (tl r))
       else None)"
| "read_json_members 0 cs = None"
| "read_json_members (Suc n) cs =
     (if cs = [] \<or> hd cs \<noteq> CHR 0x22 then None
      else case read_json_string (tl cs) of
        None \<Rightarrow> None
      | Some (key, r) \<Rightarrow>
          if r = [] \<or> hd r \<noteq> CHR '':'' then None
          else case read_json_value n (tl r) of
            None \<Rightarrow> None
          | Some (v, r) \<Rightarrow>
              if r = [] then None
              else if hd r = CHR ''}'' then Some ([(key, v)], tl r)
              else if hd r = CHR '','' then map_option (\<lambda>(ms, r). ((key, v) # ms, r)) (read_json_members n (tl r))
              else None)"

definition json_of :: "string \<Rightarrow> json option" where
  "json_of text = (case read_json_value (length text) text of
     None \<Rightarrow> None | Some (v, r) \<Rightarrow> if r = [] then Some v else None)"

subsection \<open>Reading the parts of a text\<close>

definition json_plain :: "char \<Rightarrow> bool" where
  "json_plain c \<longleftrightarrow> c \<noteq> CHR 0x22 \<and> c \<noteq> CHR 0x5C \<and> \<not> c < CHR '' ''"

lemma read_plain_string: "list_all json_plain s \<Longrightarrow> read_json_string (s @ CHR 0x22 # rest) = Some (s, rest)"
  by (induction s) (simp_all add: json_plain_def)

lemma json_hex_digit:
  assumes "n < 16"
  shows "json_hex (''0123456789abcdef'' ! n) = Some n"
proof -
  have "list_all (\<lambda>n. json_hex (''0123456789abcdef'' ! n) = Some n) [0..<16]"
    by (simp add: upt_rec json_hex_def)
  then show ?thesis using assms by (simp add: list_all_iff)
qed

text \<open>Decimal numbers as \<open>snprintf\<close> prints them.\<close>

lemma of_char_digit: "d < 10 \<Longrightarrow> of_char (char_of (48 + d) :: char) = (48 + d :: nat)"
  by simp

lemma dec_is_digits: "list_all is_json_digit (dec n)"
proof (induction n rule: dec.induct)
  case (1 n)
  have "is_json_digit (char_of (48 + d))" if "d < 10" for d :: nat using that by (simp add: is_json_digit_def)
  then show ?case using 1 by (subst dec.simps) simp
qed

lemma json_digits_dec: "json_digits (dec n) = n"
proof (induction n rule: dec.induct)
  case (1 n)
  then show ?case by (subst dec.simps) (auto simp: json_digits_def)
qed

lemma dec_no_zero: "n \<noteq> 0 \<Longrightarrow> hd (dec n) \<noteq> CHR ''0''"
proof (induction n rule: dec.induct)
  case (1 n)
  have ne: "dec m \<noteq> []" for m by (subst dec.simps) simp
  have "(of_char (CHR ''0'') :: nat) = 48" by simp
  moreover have "(of_char (char_of (48 + n) :: char) :: nat) = 48 + n" if "n < 10" using that by simp
  ultimately have "char_of (48 + n) \<noteq> CHR ''0''" if "n < 10" using 1(2) that by (metis add_eq_self_zero)
  then show ?case using 1 ne by (subst dec.simps) (auto simp: div_eq_0_iff)
qed

lemma read_json_nat_dec:
  assumes "rest = [] \<or> \<not> is_json_digit (hd rest)"
  shows "read_json_nat (dec n @ rest) = Some (n, rest)"
proof -
  have all: "\<forall>c\<in>set (dec n). is_json_digit c" using dec_is_digits [of n] by (simp add: list_all_iff)
  have "takeWhile is_json_digit (dec n @ rest) = dec n" "dropWhile is_json_digit (dec n @ rest) = rest"
    using all assms by (cases rest; simp)+
  moreover have "dec n \<noteq> []" by (subst dec.simps) simp
  moreover have "tl (dec n) = []" if "hd (dec n) = CHR ''0''"
  proof -
    have "n = 0" using dec_no_zero that by blast
    then show ?thesis by (simp add: dec.simps)
  qed
  ultimately show ?thesis using json_digits_dec by (auto simp: read_json_nat_def Let_def)
qed

lemma dec_hd_digit: "is_json_digit (hd (dec n))"
proof -
  have "dec n \<noteq> []" by (subst dec.simps) simp
  then show ?thesis using dec_is_digits [of n] by (cases "dec n") auto
qed

text \<open>A member of an object with a plain key, the last one or one of several.\<close>

lemma read_member_last:
  assumes "list_all json_plain key" "read_json_value n (v @ CHR ''}'' # rest) = Some (j, CHR ''}'' # rest)"
  shows "read_json_members (Suc n) (CHR 0x22 # key @ CHR 0x22 # CHR '':'' # v @ CHR ''}'' # rest) = Some ([(key, j)], rest)"
  using assms by (simp add: read_plain_string)

lemma read_member_more:
  assumes "list_all json_plain key" "read_json_value n (v @ CHR '','' # ms) = Some (j, CHR '','' # ms)"
    and "read_json_members n ms = Some (js, rest)"
  shows "read_json_members (Suc n) (CHR 0x22 # key @ CHR 0x22 # CHR '':'' # v @ CHR '','' # ms) = Some ((key, j) # js, rest)"
  using assms by (simp add: read_plain_string)

lemma read_bool:
  "read_json_value (Suc n) (''true'' @ rest) = Some (JBool True, rest)"
  "read_json_value (Suc n) (''false'' @ rest) = Some (JBool False, rest)"
  by (simp_all add: after_literal_def)

lemma read_number:
  assumes "rest = [] \<or> \<not> is_json_digit (hd rest)"
  shows "read_json_value (Suc n) (dec k @ rest) = Some (JNumber (int k), rest)"
    and "read_json_value (Suc n) (CHR ''-'' # dec k @ rest) = Some (JNumber (- int k), rest)"
proof -
  obtain c cs where c: "dec k = c # cs" "is_json_digit c" using dec_hd_digit [of k] by (cases "dec k") (auto simp: dec.simps split: if_splits)
  then have "c \<noteq> CHR 0x22 \<and> c \<noteq> CHR ''['' \<and> c \<noteq> CHR ''{'' \<and> c \<noteq> CHR ''t'' \<and> c \<noteq> CHR ''f'' \<and> c \<noteq> CHR ''n'' \<and> c \<noteq> CHR ''-''"
    by (auto simp: is_json_digit_def)
  then show "read_json_value (Suc n) (dec k @ rest) = Some (JNumber (int k), rest)"
    using read_json_nat_dec [OF assms, of k] c(1) by (simp add: after_literal_def read_json_int_def)
  show "read_json_value (Suc n) (CHR ''-'' # dec k @ rest) = Some (JNumber (- int k), rest)"
    using read_json_nat_dec [OF assms, of k] by (simp add: after_literal_def read_json_int_def)
qed

text \<open>The elements of a list and the members of an object, one at a time.\<close>

lemma read_element_last:
  "read_json_value n cs = Some (v, CHR '']'' # rest) \<Longrightarrow> read_json_elements (Suc n) cs = Some ([v], rest)"
  by simp

lemma read_element_more:
  "read_json_value n cs = Some (v, CHR '','' # r) \<Longrightarrow> read_json_elements n r = Some (vs, rest) \<Longrightarrow>
   read_json_elements (Suc n) cs = Some (v # vs, rest)"
  by simp

lemma read_object:
  "read_json_members n (CHR 0x22 # r) = Some (ms, rest) \<Longrightarrow> read_json_value (Suc n) (CHR ''{'' # CHR 0x22 # r) = Some (JObject ms, rest)"
  by (simp del: read_json_members.simps)

lemma read_array:
  "r \<noteq> [] \<Longrightarrow> hd r \<noteq> CHR '']'' \<Longrightarrow> read_json_elements n r = Some (vs, rest) \<Longrightarrow>
   read_json_value (Suc n) (CHR ''['' # r) = Some (JArray vs, rest)"
  by simp

end
