(* ===== verification/PortalForm.thy ===== *)
theory PortalForm
  imports WifiManager Ws2812Timing Json
begin

section \<open>Form decoding, JSON escaping and submission checks\<close>

text \<open>
  Model of main/http_portal/portal_form.c. Input is the string before its terminator (or the given length); an output buffer of
  \<open>output_size\<close> characters is the string it holds, None when the function gives up.
\<close>

abbreviation (input) FORM_NAME_MAX :: nat where "FORM_NAME_MAX \<equiv> 16"

definition GetHexValue :: "char \<Rightarrow> int" where
  "GetHexValue digit =
     (if CHR ''0'' \<le> digit \<and> digit \<le> CHR ''9'' then of_char digit - of_char (CHR ''0'')
      else if CHR ''a'' \<le> digit \<and> digit \<le> CHR ''f'' then of_char digit - of_char (CHR ''a'') + 10
      else if CHR ''A'' \<le> digit \<and> digit \<le> CHR ''F'' then of_char digit - of_char (CHR ''A'') + 10
      else -1)"

text \<open>The loop, with the rest of the input and the output written so far.\<close>

fun put_char :: "nat \<Rightarrow> string \<Rightarrow> char \<Rightarrow> string option" where
  "put_char output_size out c = (if c = NUL \<or> output_size \<le> length out + 1 then None else Some (out @ [c]))"

fun decode_loop :: "nat \<Rightarrow> string \<Rightarrow> string \<Rightarrow> string option" where
  "decode_loop output_size out [] = (if output_size = 0 then None else Some out)"
| "decode_loop output_size out (c # rest) =
     (if c = CHR ''+'' then
        (case put_char output_size out (CHR '' '') of None \<Rightarrow> None | Some out \<Rightarrow> decode_loop output_size out rest)
      else if c = CHR ''%'' then
        (case rest of
           h # l # rest \<Rightarrow>
             (let high = GetHexValue h; low = GetHexValue l in
              if high < 0 \<or> low < 0 then None
              else (case put_char output_size out (char_of (nat (push_bit 4 high OR low))) of
                      None \<Rightarrow> None | Some out \<Rightarrow> decode_loop output_size out rest))
         | _ \<Rightarrow> None)
      else (case put_char output_size out c of None \<Rightarrow> None | Some out \<Rightarrow> decode_loop output_size out rest))"

definition DecodeFormValue :: "string \<Rightarrow> nat \<Rightarrow> string option" where
  "DecodeFormValue input output_size = decode_loop output_size [] input"

function get_field :: "string \<Rightarrow> string \<Rightarrow> nat \<Rightarrow> string option" where
  "get_field field name value_size =
     (if field = [] then None
      else let name_length = length name;
               field_length = length (takeWhile (\<lambda>c. c \<noteq> CHR ''&'') field);
               amp = dropWhile (\<lambda>c. c \<noteq> CHR ''&'') field
      in if name_length < field_length \<and> take name_length field = name \<and> field ! name_length = CHR ''=''
         then DecodeFormValue (take (field_length - name_length - 1) (drop (name_length + 1) field)) value_size
         else if amp = [] then None
         else get_field (tl amp) name value_size)"
  by pat_completeness auto
termination
proof (relation "measure (\<lambda>(field, name, value_size). length field)", goal_cases)
  case (2 field name value_size name_length field_length amp)
  then have "length amp \<le> length field" "amp \<noteq> []" by (simp_all add: length_dropWhile_le)
  then show ?case by (cases amp) auto
qed simp

declare get_field.simps [simp del]

definition GetFormField :: "string \<Rightarrow> string \<Rightarrow> nat \<Rightarrow> string option" where
  "GetFormField body name value_size =
     (if length name = 0 \<or> FORM_NAME_MAX \<le> length name then None else get_field body name value_size)"

definition json_hex_digits :: string where
  "json_hex_digits = ''0123456789abcdef''"

definition needs_unicode :: "char \<Rightarrow> bool" where
  "needs_unicode c \<longleftrightarrow> c < CHR '' '' \<or> c = CHR ''<'' \<or> c = CHR ''>'' \<or> c = CHR ''&'' \<or> c = CHR 0x27"

text \<open>What is written for one character.\<close>

definition escape_char :: "char \<Rightarrow> string" where
  "escape_char c =
     (if needs_unicode c then [CHR 0x5C, CHR ''u'', CHR ''0'', CHR ''0'', json_hex_digits ! drop_bit 4 (of_char c),
                               json_hex_digits ! (of_char c AND 0x0F)]
      else if c = CHR 0x22 \<or> c = CHR 0x5C then [CHR 0x5C, c] else [c])"

fun escape_loop :: "nat \<Rightarrow> string \<Rightarrow> string \<Rightarrow> string option" where
  "escape_loop output_size out [] = (if output_size = 0 then None else Some out)"
| "escape_loop output_size out (c # rest) =
     (if output_size < length out + length (escape_char c) + 1 then None
      else escape_loop output_size (out @ escape_char c) rest)"

definition EscapeJsonString :: "string \<Rightarrow> nat \<Rightarrow> string option" where
  "EscapeJsonString input output_size = escape_loop output_size [] input"

fun match_entry :: "wifi_scan_entry list \<Rightarrow> string \<Rightarrow> bool \<Rightarrow> bool" where
  "match_entry [] ssid is_password_empty = (\<not> is_password_empty)"
| "match_entry (e # es) ssid is_password_empty =
     (if cstr (we_ssid e) = ssid then
        if we_is_unsupported e then False
        else if we_is_open e then is_password_empty else \<not> is_password_empty
      else match_entry es ssid is_password_empty)"

definition ValidateSubmission :: "wifi_credentials \<Rightarrow> wifi_scan_entry list \<Rightarrow> nat \<Rightarrow> bool" where
  "ValidateSubmission credentials entries cnt =
     (if \<not> IsCredentialsValid (Some credentials) then False
      else match_entry (take cnt entries) (cstr (wc_ssid credentials)) (wc_password credentials ! 0 = NUL))"

subsection \<open>What the decoder accepts\<close>

text \<open>How a form encodes a text: a plus sign for a space, a percent sign and two hexadecimal digits for any character,
  and every character but these two for itself.\<close>

inductive form_encodes :: "string \<Rightarrow> string \<Rightarrow> bool" where
  empty: "form_encodes [] []"
| space: "form_encodes input s \<Longrightarrow> form_encodes (CHR ''+'' # input) (CHR '' '' # s)"
| escaped: "form_encodes input s \<Longrightarrow> 0 \<le> GetHexValue h \<Longrightarrow> 0 \<le> GetHexValue l \<Longrightarrow>
    form_encodes (CHR ''%'' # h # l # input) (char_of (nat (16 * GetHexValue h + GetHexValue l)) # s)"
| plain: "form_encodes input s \<Longrightarrow> c \<noteq> CHR ''+'' \<Longrightarrow> c \<noteq> CHR ''%'' \<Longrightarrow> form_encodes (c # input) (c # s)"

inductive_cases form_encodes_NilE: "form_encodes [] s"
inductive_cases form_encodes_ConsE: "form_encodes (c # input) s"

lemma GetHexValue_range: "GetHexValue c < 16"
proof -
  have lits: "(of_char (CHR ''0'') :: nat) = 48" "(of_char (CHR ''9'') :: nat) = 57" "(of_char (CHR ''a'') :: nat) = 97"
    "(of_char (CHR ''f'') :: nat) = 102" "(of_char (CHR ''A'') :: nat) = 65" "(of_char (CHR ''F'') :: nat) = 70"
    by (simp_all add: of_char_def)
  have i: "(of_char c :: int) = int (of_char c)" for c by (simp add: of_nat_of_char)
  show ?thesis unfolding GetHexValue_def less_eq_char_def lits i by (simp only: lits split: if_split) linarith
qed

lemma nibbles:
  assumes "0 \<le> h" and "0 \<le> l" and "l < (16 :: int)"
  shows "push_bit 4 h OR l = 16 * h + l"
proof -
  have "take_bit 4 l = l" using assms(2,3) by (simp add: take_bit_int_eq_self_iff)
  then have "\<not> bit l n" if "4 \<le> n" for n using that by (metis bit_take_bit_iff not_le)
  then have "push_bit 4 h AND l = 0" by (intro bit_eqI) (auto simp: bit_simps)
  from disjunctive_add_eq_or [OF this, symmetric] show ?thesis by (simp add: push_bit_eq_mult mult.commute)
qed

lemma put_char_Some:
  "put_char n out c = Some out' \<longleftrightarrow> out' = out @ [c] \<and> c \<noteq> NUL \<and> length out + 1 < n"
  by (auto simp: not_le)

lemma decode_loop_iff:
  assumes "out = [] \<or> length out < n"
  shows "decode_loop n out input = Some s \<longleftrightarrow>
     (\<exists>t. s = out @ t \<and> form_encodes input t \<and> NUL \<notin> set t \<and> length out + length t < n)"
  using assms
proof (induction n out input rule: decode_loop.induct)
  case (1 n out)
  then show ?case by (auto intro: form_encodes.empty elim: form_encodes_NilE)
next
  case (2 n out c rest)
  have one: "(\<exists>out'. put_char n out d = Some out' \<and> decode_loop n out' rest' = Some s) \<longleftrightarrow>
      (\<exists>t. s = out @ d # t \<and> form_encodes rest' t \<and> NUL \<notin> set (d # t) \<and> length out + length (d # t) < n)"
    if "\<And>out'. put_char n out d = Some out' \<Longrightarrow> (decode_loop n out' rest' = Some s) =
      (\<exists>t. s = out' @ t \<and> form_encodes rest' t \<and> NUL \<notin> set t \<and> length out' + length t < n)" for d rest'
    using that by (auto simp: put_char_Some simp del: put_char.simps)
  have enc: "form_encodes (c # rest) t \<longleftrightarrow>
      (c = CHR ''+'' \<and> (\<exists>t'. t = CHR '' '' # t' \<and> form_encodes rest t')) \<or>
      (c = CHR ''%'' \<and> (\<exists>h l rest' t'. rest = h # l # rest' \<and> 0 \<le> GetHexValue h \<and> 0 \<le> GetHexValue l \<and>
         t = char_of (nat (16 * GetHexValue h + GetHexValue l)) # t' \<and> form_encodes rest' t')) \<or>
      (c \<noteq> CHR ''+'' \<and> c \<noteq> CHR ''%'' \<and> (\<exists>t'. t = c # t' \<and> form_encodes rest t'))" for t
    by (auto elim!: form_encodes_ConsE intro: form_encodes.intros)
  consider (plus) "c = CHR ''+''" | (percent) "c = CHR ''%''" | (plain) "c \<noteq> CHR ''+''" "c \<noteq> CHR ''%''" by auto
  then show ?case
  proof cases
    case plus
    have "(decode_loop n out (c # rest) = Some s) = (\<exists>out'. put_char n out (CHR '' '') = Some out' \<and> decode_loop n out' rest = Some s)"
      using plus by (auto simp del: put_char.simps split: option.splits)
    also have "\<dots> = (\<exists>t. s = out @ CHR '' '' # t \<and> form_encodes rest t \<and> NUL \<notin> set (CHR '' '' # t) \<and> length out + length (CHR '' '' # t) < n)"
      by (rule one) (use 2(1) [OF plus] in \<open>auto simp: put_char_Some simp del: put_char.simps\<close>)
    finally show ?thesis unfolding enc using plus by (auto simp del: decode_loop.simps put_char.simps)
  next
    case plain
    have "(decode_loop n out (c # rest) = Some s) = (\<exists>out'. put_char n out c = Some out' \<and> decode_loop n out' rest = Some s)"
      using plain by (auto simp del: put_char.simps split: option.splits)
    also have "\<dots> = (\<exists>t. s = out @ c # t \<and> form_encodes rest t \<and> NUL \<notin> set (c # t) \<and> length out + length (c # t) < n)"
      by (rule one) (use 2(3) [OF plain] in \<open>auto simp: put_char_Some simp del: put_char.simps\<close>)
    finally show ?thesis unfolding enc using plain by (auto simp del: decode_loop.simps put_char.simps)
  next
    case percent
    show ?thesis
    proof (cases "\<exists>h l rest'. rest = h # l # rest' \<and> 0 \<le> GetHexValue h \<and> 0 \<le> GetHexValue l")
      case False
      consider "rest = []" | h where "rest = [h]" | h l rest' where "rest = h # l # rest'" by (metis list.exhaust)
      then have "decode_loop n out (c # rest) = None"
      proof cases
        case (3 h l rest')
        then have "GetHexValue h < 0 \<or> GetHexValue l < 0" using False 3 not_less by blast
        then show ?thesis using percent 3 by (simp add: Let_def del: put_char.simps)
      qed (use percent in simp_all)
      then show ?thesis unfolding enc using False percent by (auto simp del: decode_loop.simps)
    next
      case True
      then obtain h l rest' where r: "rest = h # l # rest'" "0 \<le> GetHexValue h" "0 \<le> GetHexValue l" by blast
      let ?d = "char_of (nat (16 * GetHexValue h + GetHexValue l)) :: char"
      note d = nibbles [OF r(2,3) GetHexValue_range]
      have ne: "c \<noteq> CHR ''+''" "\<not> (GetHexValue h < 0 \<or> GetHexValue l < 0)" using percent r by auto
      have "(decode_loop n out (c # rest) = Some s) = (\<exists>out'. put_char n out ?d = Some out' \<and> decode_loop n out' rest' = Some s)"
        using percent r d ne by (auto simp: Let_def simp del: put_char.simps split: option.splits)
      also have "\<dots> = (\<exists>t. s = out @ ?d # t \<and> form_encodes rest' t \<and> NUL \<notin> set (?d # t) \<and> length out + length (?d # t) < n)"
        by (rule one) (use 2(2) [OF ne(1) percent r(1) refl refl refl ne(2)] d in \<open>auto simp: put_char_Some simp del: put_char.simps\<close>)
      finally show ?thesis unfolding enc using percent r by (auto simp del: decode_loop.simps put_char.simps)
    qed
  qed
qed

subsection \<open>Fields\<close>

definition form_field :: "string \<Rightarrow> string \<Rightarrow> nat \<Rightarrow> string option" where
  "form_field body name n = (case find (has_key name) (fields body) of None \<Rightarrow> None
     | Some f \<Rightarrow> DecodeFormValue (drop (length name + 1) f) n)"

lemma get_field_spec: "get_field s name n = form_field s name n"
proof (induction s name n rule: get_field.induct)
  case (1 s name n)
  let ?f = "takeWhile (\<lambda>c. c \<noteq> CHR ''&'') s" and ?rest = "dropWhile (\<lambda>c. c \<noteq> CHR ''&'') s"
  show ?case
  proof (cases "s = []")
    case True
    then show ?thesis by (simp add: get_field.simps form_field_def has_key_def)
  next
    case False
    show ?thesis
    proof (cases "has_key name ?f")
      case True
      note k = has_key_field [THEN iffD2, OF True]
      have v: "take (length ?f - length name - 1) (drop (length name + 1) s) = drop (length name + 1) ?f"
        by (metis drop_take diff_diff_left takeWhile_eq_take)
      show ?thesis
        using False k v True by (subst get_field.simps) (auto simp: form_field_def fields_unfold [of s] Let_def)
    next
      case no: False
      then have k: "\<not> (length name < length ?f \<and> take (length name) s = name \<and> s ! length name = CHR ''='')"
        using has_key_field by blast
      have "get_field s name n = (if ?rest = [] then None else get_field (tl ?rest) name n)"
        using False k by (subst get_field.simps) (auto simp: Let_def)
      also have "\<dots> = (if ?rest = [] then None else form_field (tl ?rest) name n)"
        using 1 [OF False refl refl refl k] by (simp del: dropWhile_eq_Nil_conv)
      also have "\<dots> = form_field s name n"
        using no by (cases "?rest = []") (simp_all add: form_field_def fields_unfold [of s] Let_def del: dropWhile_eq_Nil_conv)
      finally show ?thesis .
    qed
  qed
qed

subsection \<open>JSON strings\<close>

text \<open>What is written for one character is read back as this character, by the reader of theory Json.\<close>

lemma read_escaped:
  "read_json_string (escape_char c @ rest) = map_option (\<lambda>(s, r). (c # s, r)) (read_json_string rest)"
proof (cases "needs_unicode c")
  case True
  let ?h = "drop_bit 4 (of_char c) :: nat" and ?l = "of_char c AND 15 :: nat"
  have n: "?h < 16" "?l < 16" "16 * ?h + ?l = of_char c"
  proof -
    have "(of_char c :: nat) < 256" by simp
    then show "?h < 16" by (simp add: drop_bit_eq_div div_less_iff_less_mult)
    have a: "?l = (of_char c mod 16 :: nat)"
      using take_bit_eq_mask [of 4 "of_char c :: nat"] by (simp add: take_bit_eq_mod mask_eq_exp_minus_1)
    then show "?l < 16" by simp
    show "16 * ?h + ?l = of_char c" unfolding a by (simp add: drop_bit_eq_div)
  qed
  have zero: "json_hex (CHR ''0'') = Some 0" by (simp add: json_hex_def)
  have small: "(of_char c :: nat) < 128" using True by (auto simp: needs_unicode_def less_char_def)
  have digits: "json_hex4 [CHR ''0'', CHR ''0'', json_hex_digits ! ?h, json_hex_digits ! ?l] = Some (of_char c)"
    using json_hex_digit [OF n(1)] json_hex_digit [OF n(2)] n(3) by (simp add: zero json_hex_digits_def)
  then show ?thesis using True small by (simp add: escape_char_def del: json_hex4.simps)
next
  case False
  then have "\<not> c < CHR '' ''" by (simp add: needs_unicode_def)
  then show ?thesis using False by (auto simp: escape_char_def json_short_escape_def)
qed

lemma escape_loop_spec:
  "out = [] \<or> length out < n \<Longrightarrow> escape_loop n out input =
    (if length (out @ concat (map escape_char input)) < n then Some (out @ concat (map escape_char input)) else None)"
proof (induction n out input rule: escape_loop.induct)
  case (2 n out c rest)
  show ?case
  proof (cases "n < length out + length (escape_char c) + 1")
    case False
    then show ?thesis using 2(1) by simp
  qed simp
qed auto

lemma read_escaped_string:
  "read_json_string (concat (map escape_char s) @ CHR 0x22 # rest) = Some (s, rest)"
  by (induction s) (simp_all add: read_escaped)

subsection \<open>Properties\<close>

text \<open>C38: decoding a form value, on every input and buffer size. It succeeds exactly for the encodings of a text without null
  characters that fits the buffer with its terminator, and gives this text: every way a client may encode a text is read back, and
  a bad escape, an encoded null character or a text that is too long is refused, never cut.\<close>

theorem DecodeFormValue_spec:
  "DecodeFormValue input output_size = Some s \<longleftrightarrow> form_encodes input s \<and> NUL \<notin> set s \<and> length s < output_size"
  by (simp add: DecodeFormValue_def decode_loop_iff)

lemma GetFormField_spec:
  "GetFormField body name n = (if name = [] \<or> 16 \<le> length name then None
     else case find (has_key name) (fields body) of None \<Rightarrow> None
       | Some f \<Rightarrow> DecodeFormValue (drop (length name + 1) f) n)"
  by (simp add: GetFormField_def get_field_spec form_field_def)

lemma GetFormField_fits: "GetFormField body name n = Some s \<Longrightarrow> length s < n \<and> NUL \<notin> set s"
  by (auto simp: GetFormField_spec DecodeFormValue_def decode_loop_iff split: if_splits option.splits)

lemma EscapeJsonString_eq:
  "EscapeJsonString s n =
     (if length (concat (map escape_char s)) < n then Some (concat (map escape_char s)) else None)"
  by (simp add: EscapeJsonString_def escape_loop_spec)

lemma json_hex_digits_plain:
  assumes "n < 16"
  shows "json_hex_digits ! n \<notin> {CHR ''<'', CHR ''>'', CHR ''&'', CHR 0x27} \<and> \<not> json_hex_digits ! n < CHR '' ''"
proof -
  have "list_all (\<lambda>n. json_hex_digits ! n \<notin> {CHR ''<'', CHR ''>'', CHR ''&'', CHR 0x27} \<and> \<not> json_hex_digits ! n < CHR '' '') [0..<16]"
    by (simp add: upt_rec json_hex_digits_def less_char_def)
  then show ?thesis using assms by (simp add: list_all_iff)
qed

lemma char_nibbles: "drop_bit 4 (of_char c :: nat) < 16" "(of_char c AND 15 :: nat) < 16"
proof -
  have "(of_char c :: nat) < 256" by simp
  then show "drop_bit 4 (of_char c :: nat) < 16" by (simp add: drop_bit_eq_div div_less_iff_less_mult)
  have "(of_char c AND 15) = (of_char c mod 16 :: nat)"
    using take_bit_eq_mask [of 4 "of_char c :: nat"] by (simp add: take_bit_eq_mod mask_eq_exp_minus_1)
  then show "(of_char c AND 15 :: nat) < 16" by simp
qed

lemma escape_char_plain:
  "d \<in> set (escape_char c) \<Longrightarrow> d \<notin> {CHR ''<'', CHR ''>'', CHR ''&'', CHR 0x27} \<and> \<not> d < CHR '' ''"
  using json_hex_digits_plain [OF char_nibbles(1) [of c]] json_hex_digits_plain [OF char_nibbles(2) [of c]]
  by (auto simp: escape_char_def needs_unicode_def less_char_def split: if_splits)

lemma length_escape_char: "length (escape_char c) \<le> 6"
  by (simp add: escape_char_def)

lemma length_escaped: "length (concat (map escape_char s)) \<le> 6 * length s"
  by (induction s) (use length_escape_char in \<open>auto intro: add_mono\<close>)

text \<open>C37: a hostile network name can neither break the JSON reply nor inject markup. The JSON reader of theory Json, which reads all
  four digits of an escaped code point, meets the escaped name and a closing quote: it reads back exactly the name and stops at that
  quote; the escaped text has no character with a meaning in HTML and no
  control character, and it fits its buffer; and a name of up to 32 characters always fits the 193 bytes of the caller.\<close>

theorem EscapeJsonString_safe:
  assumes "EscapeJsonString s n = Some out"
  shows "read_json_string (out @ CHR 0x22 # rest) = Some (s, rest) \<and>
    set out \<inter> {CHR ''<'', CHR ''>'', CHR ''&'', CHR 0x27} = {} \<and> list_all (\<lambda>c. CHR '' '' \<le> c) out \<and> length out < n \<and>
    (length s \<le> 32 \<longrightarrow> EscapeJsonString s 193 = Some out)"
proof -
  have out: "out = concat (map escape_char s)" "length out < n"
    using assms by (auto simp: EscapeJsonString_eq split: if_splits)
  then show ?thesis
    using escape_char_plain length_escaped [of s] by (auto simp: read_escaped_string list_all_iff not_less EscapeJsonString_eq)
qed

theorem EscapeJsonString_safe_witness:
  "\<exists>out. EscapeJsonString [CHR ''<'', CHR 0x22] 193 = Some out \<and>
     read_json_string (out @ CHR 0x22 # ''}'') = Some ([CHR ''<'', CHR 0x22], ''}'') \<and> CHR ''<'' \<notin> set out"
proof -
  have "length (concat (map escape_char [CHR ''<'', CHR 0x22])) < 193" by (simp add: escape_char_def)
  then obtain out where e: "EscapeJsonString [CHR ''<'', CHR 0x22] 193 = Some out" by (simp add: EscapeJsonString_eq)
  from EscapeJsonString_safe [OF e, of "''}''"] e show ?thesis by blast
qed

lemma match_entry_spec:
  "match_entry es ssid is_password_empty =
     (case find (\<lambda>e. cstr (we_ssid e) = ssid) es of
        None \<Rightarrow> \<not> is_password_empty
      | Some e \<Rightarrow> \<not> we_is_unsupported e \<and> (we_is_open e = is_password_empty))"
  by (induction es) auto

lemma ValidateSubmission_spec:
  assumes "wf_credentials c"
  shows "ValidateSubmission c es cnt = (IsCredentialsValid (Some c) \<and>
    (case find (\<lambda>e. cstr (we_ssid e) = cstr (wc_ssid c)) (take cnt es) of
        None \<Rightarrow> cstr (wc_password c) \<noteq> []
      | Some e \<Rightarrow> \<not> we_is_unsupported e \<and> (we_is_open e = (cstr (wc_password c) = []))))"
proof -
  have "wc_password c \<noteq> []" using assms by (auto simp: wf_credentials_def)
  then show ?thesis by (simp add: ValidateSubmission_def match_entry_spec cstr_empty split: option.splits)
qed

end
