(* ===== verification/MdnsService.thy ===== *)
theory MdnsService
  imports Platform
begin

section \<open>The mDNS service\<close>

text \<open>
  Model of main/mdns_service/mdns_service.c, a wrapper around the third-party mDNS responder. The state is the flag
  \<open>s_is_running\<close>; a host name is the string before its terminator.
\<close>

abbreviation (input) MDNS_SERVICE_HOSTNAME :: string where "MDNS_SERVICE_HOSTNAME \<equiv> ''rgb-tuner''"
abbreviation (input) MDNS_SERVICE_INSTANCE :: string where "MDNS_SERVICE_INSTANCE \<equiv> ''RGB LED Tuner''"
abbreviation (input) MDNS_SERVICE_PORT :: nat where "MDNS_SERVICE_PORT \<equiv> 80"
abbreviation (input) MDNS_SERVICE_HOSTNAME_MAX :: nat where "MDNS_SERVICE_HOSTNAME_MAX \<equiv> 64"

datatype mdns_hostname_status = MDNS_HOSTNAME_DEFAULT | MDNS_HOSTNAME_RENAMED | MDNS_HOSTNAME_UNAVAILABLE

definition ClassifyMdnsHostname :: "string option \<Rightarrow> mdns_hostname_status" where
  "ClassifyMdnsHostname hostname_in_use = (case hostname_in_use of
     None \<Rightarrow> MDNS_HOSTNAME_UNAVAILABLE
   | Some name \<Rightarrow> if name = [] then MDNS_HOSTNAME_UNAVAILABLE
                  else if name = MDNS_SERVICE_HOSTNAME then MDNS_HOSTNAME_DEFAULT else MDNS_HOSTNAME_RENAMED)"

definition StartMdnsService :: "'e platform \<Rightarrow> bool \<times> 'e io \<Rightarrow> bool \<times> bool \<times> 'e io" where
  "StartMdnsService p = (\<lambda>(is_running, io).
     if is_running then (True, is_running, io)
     else let (err, io) = run_calls p [MDNS_INIT, MDNS_HOSTNAME_SET MDNS_SERVICE_HOSTNAME,
                 MDNS_INSTANCE_SET MDNS_SERVICE_INSTANCE,
                 MDNS_SERVICE_ADD MDNS_SERVICE_INSTANCE ''_http'' ''_tcp'' MDNS_SERVICE_PORT] io
          in if err \<noteq> ESP_OK then (False, is_running, snd (esp p MDNS_FREE io)) else (True, True, io))"

definition StopMdnsService :: "'e platform \<Rightarrow> bool \<times> 'e io \<Rightarrow> bool \<times> 'e io" where
  "StopMdnsService p = (\<lambda>(is_running, io). if \<not> is_running then (is_running, io) else (False, snd (esp p MDNS_FREE io)))"

text \<open>The name copied to the caller's buffer, None (buffer unchanged) for the result \<open>false\<close>.\<close>

definition LogMdnsHostnameInUse :: "'e platform \<Rightarrow> nat \<Rightarrow> 'e io \<Rightarrow> string option" where
  "LogMdnsHostnameInUse p hostname_size io =
     (let (err, name) = (if MDNS_SERVICE_HOSTNAME_MAX \<le> hostname_size then pl_hostname p (io_env io) else (ESP_ERR_INVALID_ARG, []));
          name = cstr name;
          err = (if err = ESP_OK \<and> hostname_size \<le> length name then ESP_ERR_INVALID_SIZE else err);
          err = (if err = ESP_OK \<and> ClassifyMdnsHostname (Some name) = MDNS_HOSTNAME_UNAVAILABLE then ESP_ERR_INVALID_STATE else err)
      in if err \<noteq> ESP_OK then None else Some name)"

lemma LogMdnsHostnameInUse_name:
  "LogMdnsHostnameInUse p n io = Some name \<Longrightarrow> name \<noteq> [] \<and> length name < n \<and> 64 \<le> n \<and> NUL \<notin> set name"
  by (auto simp: LogMdnsHostnameInUse_def ClassifyMdnsHostname_def Let_def split: prod.splits if_splits) (simp_all add: NUL_def)

lemma StartMdnsService_running: "StartMdnsService p (r, io) = (ok, r', io') \<Longrightarrow> r' = ok"
  by (auto simp: StartMdnsService_def split: prod.splits if_splits)

lemma mdns_modes:
  "StartMdnsService p (r, io) = (ok, r', io') \<Longrightarrow> mode_set (io_log io') = mode_set (io_log io)"
  "StopMdnsService p (r, io) = (r2, io2) \<Longrightarrow> \<not> r2 \<and> mode_set (io_log io2) = mode_set (io_log io)"
proof -
  assume a: "StartMdnsService p (r, io) = (ok, r', io')"
  obtain err io1 where r: "run_calls p [MDNS_INIT, MDNS_HOSTNAME_SET MDNS_SERVICE_HOSTNAME, MDNS_INSTANCE_SET MDNS_SERVICE_INSTANCE,
                 MDNS_SERVICE_ADD MDNS_SERVICE_INSTANCE ''_http'' ''_tcp'' MDNS_SERVICE_PORT] io = (err, io1)" by fastforce
  have "mode_set (io_log io1) = mode_set (io_log io)" by (rule mode_set_run_calls [OF r]) simp
  with a show "mode_set (io_log io') = mode_set (io_log io)"
    unfolding StartMdnsService_def using r by (auto simp del: run_calls.simps split: if_splits)
next
  show "StopMdnsService p (r, io) = (r2, io2) \<Longrightarrow> \<not> r2 \<and> mode_set (io_log io2) = mode_set (io_log io)"
    by (auto simp: StopMdnsService_def split: if_splits)
qed

lemma mdns_keeps:
  "StartMdnsService p (r, io) = (ok, r', io') \<Longrightarrow> io_keeps p io io'"
  "StopMdnsService p (r, io) = (r2, io2) \<Longrightarrow> io_keeps p io io2"
proof -
  have free: "io_keeps p io (snd (esp p MDNS_FREE io))" for io
    by (rule esp_keeps [of p MDNS_FREE io "fst (esp p MDNS_FREE io)"]) simp_all
  assume a: "StartMdnsService p (r, io) = (ok, r', io')"
  obtain err io1 where r: "run_calls p [MDNS_INIT, MDNS_HOSTNAME_SET MDNS_SERVICE_HOSTNAME, MDNS_INSTANCE_SET MDNS_SERVICE_INSTANCE,
                 MDNS_SERVICE_ADD MDNS_SERVICE_INSTANCE ''_http'' ''_tcp'' MDNS_SERVICE_PORT] io = (err, io1)" by fastforce
  have k: "io_keeps p io io1" by (rule run_calls_keeps [OF r]) simp
  with a show "io_keeps p io io'"
    unfolding StartMdnsService_def using r io_keeps_trans [OF k free] by (auto simp del: run_calls.simps split: if_splits)
next
  assume "StopMdnsService p (r, io) = (r2, io2)"
  then show "io_keeps p io io2"
    by (auto simp: StopMdnsService_def split: if_splits intro: esp_keeps [of p MDNS_FREE io "fst (esp p MDNS_FREE io)"])
qed

interpretation mdns: service p "StartMdnsService p" "StopMdnsService p" "\<lambda>r. r" "\<lambda>r. \<not> r" for p
proof unfold_locales
  show "(if ok then s' else \<not> s') \<and> io_keeps p io io'" if "StartMdnsService p (s, io) = (ok, s', io')" for s io ok s' io'
    using StartMdnsService_running [OF that] mdns_keeps(1) [OF that] by simp
  show "\<not> s' \<and> io_keeps p io io'" if "StopMdnsService p (s, io) = (s', io')" for s io s' io'
    using mdns_modes(2) [OF that] mdns_keeps(2) [OF that] by simp
qed simp

end
