(* ===== verification/StationOrigin.thy ===== *)
theory StationOrigin
  imports MdnsService Ws2812Timing
begin

section \<open>The origin check of the station profile\<close>

text \<open>
  Model of main/http_portal/station_origin.c. A string is its content before the terminator, a null pointer is None; a position in
  the host is the rest of the host from there.
\<close>

abbreviation (input) HTTP_STATION_ORIGIN_MAX :: nat where "HTTP_STATION_ORIGIN_MAX \<equiv> 96"
abbreviation (input) ORIGIN_SCHEME :: string where "ORIGIN_SCHEME \<equiv> ''http://''"
abbreviation (input) ORIGIN_DEFAULT_PORT :: string where "ORIGIN_DEFAULT_PORT \<equiv> '':80''"
abbreviation (input) ORIGIN_LOCAL_SUFFIX :: string where "ORIGIN_LOCAL_SUFFIX \<equiv> ''.local''"
abbreviation (input) IPV4_OCTET_DIGITS_MAX :: nat where "IPV4_OCTET_DIGITS_MAX \<equiv> 3"

text \<open>The C library's ASCII comparison without case, of at most \<open>n\<close> characters.\<close>

definition tolower :: "char \<Rightarrow> char" where
  "tolower c = (if (65 :: nat) \<le> of_char c \<and> of_char c \<le> (90 :: nat) then char_of (of_char c + 32 :: nat) else c)"

definition strncasecmp_eq :: "string \<Rightarrow> string \<Rightarrow> nat \<Rightarrow> bool" where
  "strncasecmp_eq a b n = (map tolower (take n a) = map tolower (take n b))"

definition IsLocalHostMatch :: "string \<Rightarrow> nat \<Rightarrow> string option \<Rightarrow> bool" where
  "IsLocalHostMatch host host_length hostname = (case hostname of
     None \<Rightarrow> False
   | Some hostname \<Rightarrow>
       let name_length = strnlen hostname MDNS_SERVICE_HOSTNAME_MAX
       in if name_length = 0 \<or> name_length = MDNS_SERVICE_HOSTNAME_MAX \<or> host_length \<noteq> name_length + length ORIGIN_LOCAL_SUFFIX
          then False
          else strncasecmp_eq host hostname name_length \<and>
               strncasecmp_eq (drop name_length host) ORIGIN_LOCAL_SUFFIX (length ORIGIN_LOCAL_SUFFIX))"

text \<open>The inner loop: the digits read, their value and the rest of the host.\<close>

fun octet_digits :: "nat \<Rightarrow> string \<Rightarrow> u32 \<Rightarrow> nat \<times> u32 \<times> string" where
  "octet_digits 0 host val = (0, val, host)"
| "octet_digits (Suc n) [] val = (0, val, [])"
| "octet_digits (Suc n) (c # host) val =
     (if is_digit c then let (k, val, rest) = octet_digits n host (val * 10 + (of_char c - of_char (CHR ''0''))) in (Suc k, val, rest)
      else (0, val, c # host))"

definition octet_matches :: "byte \<Rightarrow> string \<Rightarrow> string option" where
  "octet_matches octet start =
     (let (digit_count, val, rest) = octet_digits IPV4_OCTET_DIGITS_MAX start 0;
          has_leading_zero = (1 < digit_count \<and> hd start = CHR ''0'')
      in if digit_count = 0 \<or> has_leading_zero \<or> val \<noteq> ucast octet then None else Some rest)"

text \<open>The outer loop: a dot before every octet but the first.\<close>

fun match_octets :: "bool \<Rightarrow> byte list \<Rightarrow> string \<Rightarrow> bool" where
  "match_octets is_first [] host = (host = [])"
| "match_octets is_first (octet # octets) host =
     (case (if is_first then Some host
            else if host = [] \<or> hd host \<noteq> CHR ''.'' then None else Some (tl host)) of
        None \<Rightarrow> False
      | Some start \<Rightarrow> (case octet_matches octet start of None \<Rightarrow> False | Some rest \<Rightarrow> match_octets False octets rest))"

definition IsAddressHostMatch :: "string \<Rightarrow> nat \<Rightarrow> u32 \<Rightarrow> bool" where
  "IsAddressHostMatch host host_length station_ipv4 =
     (if station_ipv4 = 0 then False else match_octets True (le32 station_ipv4) (take host_length host))"

definition IsHttpStationOriginAllowed :: "string option \<Rightarrow> string option \<Rightarrow> u32 \<Rightarrow> bool" where
  "IsHttpStationOriginAllowed origin hostname_in_use station_ipv4 = (case origin of
     None \<Rightarrow> True
   | Some origin \<Rightarrow>
       let origin_length = strnlen origin (HTTP_STATION_ORIGIN_MAX + 1)
       in if HTTP_STATION_ORIGIN_MAX < origin_length \<or> origin_length \<le> length ORIGIN_SCHEME \<or>
             \<not> strncasecmp_eq origin ORIGIN_SCHEME (length ORIGIN_SCHEME)
          then False
          else let host = drop (length ORIGIN_SCHEME) origin;
                   host_length = origin_length - length ORIGIN_SCHEME;
                   host_length = (if length ORIGIN_DEFAULT_PORT < host_length \<and>
                                     drop (host_length - length ORIGIN_DEFAULT_PORT) host = ORIGIN_DEFAULT_PORT
                                  then host_length - length ORIGIN_DEFAULT_PORT else host_length)
               in IsLocalHostMatch host host_length (Some MDNS_SERVICE_HOSTNAME) \<or>
                  IsLocalHostMatch host host_length hostname_in_use \<or>
                  IsAddressHostMatch host host_length station_ipv4)"

subsection \<open>The dotted address\<close>

lemma octet_digits_run:
  "octet_digits n s val = (k, val', rest) \<Longrightarrow>
     \<exists>ds. s = ds @ rest \<and> length ds = k \<and> k \<le> n \<and> list_all is_digit ds \<and>
       val' = foldl (\<lambda>v c. v * 10 + (of_char c - of_char (CHR ''0''))) val ds \<and>
       (k < n \<longrightarrow> rest = [] \<or> \<not> is_digit (hd rest))"
proof (induction n s val arbitrary: k val' rest rule: octet_digits.induct)
  case (3 n c host val)
  show ?case
  proof (cases "is_digit c")
    case True
    obtain k1 v1 r1 where o: "octet_digits n host (val * 10 + (of_char c - of_char (CHR ''0''))) = (k1, v1, r1)"
      by (metis prod.exhaust)
    from 3(1) [OF True o] obtain ds where ds: "host = ds @ r1" "length ds = k1" "k1 \<le> n" "list_all is_digit ds"
      "v1 = foldl (\<lambda>v c. v * 10 + (of_char c - of_char (CHR ''0''))) (val * 10 + (of_char c - of_char (CHR ''0''))) ds"
      "k1 < n \<longrightarrow> r1 = [] \<or> \<not> is_digit (hd r1)" by blast
    have "k = Suc k1" "val' = v1" "rest = r1" using 3(2) True o by simp_all
    with ds True show ?thesis by (intro exI [of _ "c # ds"]) simp
  next
    case False
    with 3(2) show ?thesis by auto
  qed
qed auto

lemma u32_digits:
  "list_all is_digit v \<Longrightarrow> foldl (\<lambda>v c. v * 10 + (of_char c - of_char (CHR ''0''))) (of_nat n) v =
     (of_nat (foldl (\<lambda>n c. n * 10 + (of_char c - 48)) n v) :: u32)"
proof (induction v arbitrary: n)
  case (Cons c v)
  then have "48 \<le> (of_char c :: nat)" by (simp add: is_digit_iff)
  then have "(of_nat n * 10 + (of_char c - of_char (CHR ''0'')) :: u32) = of_nat (n * 10 + (of_char c - 48))"
    by (simp add: of_nat_diff of_nat_of_char)
  moreover have "list_all is_digit v" using Cons.prems by simp
  ultimately show ?case using Cons.IH [of "n * 10 + (of_char c - 48)"] by (simp only: foldl.simps)
qed simp

text \<open>Digits without a leading zero are the decimal notation of their value.\<close>

lemma dec_digits_val:
  "list_all is_digit v \<Longrightarrow> v \<noteq> [] \<Longrightarrow> (1 < length v \<Longrightarrow> hd v \<noteq> CHR ''0'') \<Longrightarrow> dec (digits_val v) = v"
proof (induction v rule: rev_induct)
  case (snoc c v)
  then have c: "48 \<le> (of_char c :: nat)" "(of_char c :: nat) \<le> 57" by (simp_all add: is_digit_iff)
  then have ch: "char_of (48 + (of_char c - 48) :: nat) = c" by simp
  show ?case
  proof (cases v)
    case Nil
    then show ?thesis using c ch by (simp add: digits_val_def dec.simps)
  next
    case (Cons d v')
    then have nz: "hd v \<noteq> CHR ''0''" using snoc.prems(3) by simp
    then have ih: "dec (digits_val v) = v" using snoc Cons by simp
    have "digits_val v \<noteq> 0"
    proof
      assume "digits_val v = 0"
      with ih have "v = ''0''" by (simp add: dec.simps char_of_def bit_0)
      with nz show False by simp
    qed
    then have big: "\<not> digits_val (v @ [c]) < 10" by (simp add: digits_val_def)
    have v: "digits_val (v @ [c]) = digits_val v * 10 + (of_char c - 48)" by (simp add: digits_val_def)
    obtain d where d: "of_char c - 48 = (d :: nat)" "d < 10" using c by simp
    have "digits_val (v @ [c]) div 10 = digits_val v" "digits_val (v @ [c]) mod 10 = of_char c - 48"
      unfolding v d(1) using d(2) by simp_all
    then show ?thesis using big ih ch by (simp add: dec.simps [of "digits_val (v @ [c])"])
  qed
qed simp

lemma dec_no_leading_zero: "0 < n \<Longrightarrow> hd (dec n) \<noteq> CHR ''0''"
proof (induction n rule: dec.induct)
  case (1 n)
  show ?case
  proof (cases "n < 10")
    case True
    have "list_all (\<lambda>n. hd (dec n) \<noteq> CHR ''0'') [1..<10]" by (simp add: upt_rec dec.simps char_of_def bit_0)
    then show ?thesis using True 1(2) by (simp add: list_all_iff)
  next
    case False
    with 1 have "hd (dec (n div 10)) \<noteq> CHR ''0''" by simp
    then show ?thesis using False by (subst dec.simps) simp
  qed
qed

lemma length_dec_byte: "length (dec (unat (b :: byte))) \<le> 3"
  using length_dec_le [of "unat b" 2] unsigned_less [where 'a = nat and w = b] by simp

lemma octet_matches_iff:
  "octet_matches b start = Some rest \<longleftrightarrow>
     start = dec (unat b) @ rest \<and> (length (dec (unat b)) < 3 \<longrightarrow> rest = [] \<or> \<not> is_digit (hd rest))"
proof -
  obtain k val r where o: "octet_digits 3 start 0 = (k, val, r)" by (metis prod.exhaust)
  from octet_digits_run [OF o] obtain ds where ds: "start = ds @ r" "length ds = k" "k \<le> 3" "list_all is_digit ds"
    "val = foldl (\<lambda>v c. v * 10 + (of_char c - of_char (CHR ''0''))) (of_nat 0) ds" "k < 3 \<longrightarrow> r = [] \<or> \<not> is_digit (hd r)" by auto
  have val: "val = of_nat (digits_val ds)" using u32_digits [OF ds(4)] ds(5) by (simp only: digits_val_def)
  have "(10 :: nat) ^ length ds \<le> 10 ^ 3" using ds(2,3) by (intro power_increasing) simp_all
  then have small: "digits_val ds < 1000" using digits_val_less [OF ds(4)] by simp
  have b: "unat b < 256" using unsigned_less [where 'a = nat and w = b] by simp
  have eq: "val = ucast b \<longleftrightarrow> digits_val ds = unat b"
  proof -
    have "unat val = digits_val ds" unfolding val unat_of_nat using small by (subst mod_less) simp_all
    moreover have "unat (ucast b :: u32) = unat b" using b by (simp add: unsigned_ucast_eq take_bit_nat_eq_self)
    ultimately show ?thesis by (metis word_unat_eq_iff)
  qed
  have m: "octet_matches b start = (if k = 0 \<or> (1 < k \<and> hd start = CHR ''0'') \<or> digits_val ds \<noteq> unat b then None else Some r)"
    unfolding octet_matches_def o Let_def eq [symmetric] by simp
  show ?thesis
  proof
    assume "octet_matches b start = Some rest"
    then have c: "k \<noteq> 0" "\<not> (1 < k \<and> hd start = CHR ''0'')" "digits_val ds = unat b" "r = rest"
      using m by (auto split: if_splits)
    have "ds \<noteq> []" using c(1) ds(2) by auto
    moreover have "1 < length ds \<Longrightarrow> hd ds \<noteq> CHR ''0''" using c(2) ds(1,2) \<open>ds \<noteq> []\<close> by simp
    ultimately have "dec (unat b) = ds" using dec_digits_val [OF ds(4)] c(3) by simp
    then show "start = dec (unat b) @ rest \<and> (length (dec (unat b)) < 3 \<longrightarrow> rest = [] \<or> \<not> is_digit (hd rest))"
      using ds c(4) by simp
  next
    assume a: "start = dec (unat b) @ rest \<and> (length (dec (unat b)) < 3 \<longrightarrow> rest = [] \<or> \<not> is_digit (hd rest))"
    let ?d = "dec (unat b)"
    have dd: "list_all is_digit ?d" "digits_val ?d = unat b" using dec_digits by auto
    have "ds = ?d"
    proof (rule ccontr)
      assume ne: "ds \<noteq> ?d"
      from a ds(1) have "ds @ r = ?d @ rest" by simp
      then obtain us where "ds = ?d @ us \<and> us @ r = rest \<or> ds @ us = ?d \<and> r = us @ rest" by (auto simp: append_eq_append_conv2)
      then show False
      proof
        assume u: "ds = ?d @ us \<and> us @ r = rest"
        then have "us \<noteq> []" using ne by auto
        then have "is_digit (hd rest)" "rest \<noteq> []" "length ?d < 3" using u ds(2,3,4) by (cases us; auto)+
        then show False using a by simp
      next
        assume u: "ds @ us = ?d \<and> r = us @ rest"
        then have "us \<noteq> []" using ne by auto
        moreover have "list_all is_digit us" using dd(1) u by (metis list_all_append)
        ultimately have "is_digit (hd r)" "r \<noteq> []" using u by (cases us; simp)+
        moreover have "k < 3" using u \<open>us \<noteq> []\<close> ds(2) length_dec_byte [of b] by (metis append_self_conv le_neq_implies_less le_trans length_append length_greater_0_conv less_add_same_cancel1 not_le)
        ultimately show False using ds(6) by simp
      qed
    qed
    moreover have "\<not> (1 < length ?d \<and> hd start = CHR ''0'')"
    proof (cases "unat b = 0")
      case True
      then show ?thesis by (simp add: dec.simps)
    next
      case False
      then show ?thesis using dec_no_leading_zero [of "unat b"] a by simp
    qed
    moreover have "length ?d \<noteq> 0" by simp
    ultimately show "octet_matches b start = Some rest" unfolding m using ds(1,2) dd(2) a by auto
  qed
qed

definition dotted_tail :: "byte list \<Rightarrow> string" where
  "dotted_tail octets = concat (map (\<lambda>b. CHR ''.'' # dec (unat b)) octets)"

definition dotted :: "byte list \<Rightarrow> string" where
  "dotted octets = dec (unat (hd octets)) @ dotted_tail (tl octets)"

lemma dotted_tail_start: "dotted_tail bs = [] \<or> \<not> is_digit (hd (dotted_tail bs))"
  by (cases bs) (simp_all add: dotted_tail_def is_digit_def)

lemma match_octets_tail: "match_octets False bs host = (host = dotted_tail bs)"
proof (induction bs arbitrary: host)
  case (Cons b bs)
  have "match_octets False (b # bs) host = (\<exists>start rest. host = CHR ''.'' # start \<and> octet_matches b start = Some rest \<and> rest = dotted_tail bs)"
    by (cases host) (auto simp: Cons.IH split: option.splits)
  also have "\<dots> = (host = dotted_tail (b # bs))"
    using dotted_tail_start [of bs] by (auto simp: octet_matches_iff dotted_tail_def)
  finally show ?case .
qed (simp add: dotted_tail_def)

lemma match_octets_dotted: "match_octets True (b # bs) host = (host = dotted (b # bs))"
proof -
  have "match_octets True (b # bs) host = (octet_matches b host = Some (dotted_tail bs))"
    by (auto simp: match_octets_tail split: option.splits)
  then show ?thesis using dotted_tail_start [of bs] by (auto simp: octet_matches_iff dotted_def)
qed

lemma IsAddressHostMatch_iff:
  "IsAddressHostMatch host n ip = (ip \<noteq> 0 \<and> take n host = dotted (le32 ip))"
  using match_octets_dotted by (simp add: IsAddressHostMatch_def le32_def)

subsection \<open>The set of allowed origins\<close>

lemma tolower_low:
  assumes "(of_char d :: nat) < 65"
  shows "tolower c = d \<longleftrightarrow> c = d"
proof (cases "(65 :: nat) \<le> of_char c \<and> of_char c \<le> (90 :: nat)")
  case True
  then have "(of_char (tolower c) :: nat) = of_char c + 32" by (simp add: tolower_def)
  then show ?thesis using True assms by auto
next
  case False
  then show ?thesis by (auto simp: tolower_def)
qed

lemma tolower_fixed: "list_all (\<lambda>d. (of_char d :: nat) < 65) t \<Longrightarrow> map tolower s = t \<longleftrightarrow> s = t"
proof (induction t arbitrary: s)
  case (Cons d t)
  then show ?case by (cases s) (simp_all add: tolower_low)
qed simp

lemma dotted_low: "list_all (\<lambda>d. (of_char d :: nat) < 58 \<and> d \<noteq> CHR '':'') (dotted bs)"
proof -
  have d: "list_all (\<lambda>d. (of_char d :: nat) < 58 \<and> d \<noteq> CHR '':'') (dec n)" for n
    using dec_digits [of n] by (auto simp: list_all_iff is_digit_iff)
  have t: "list_all (\<lambda>d. (of_char d :: nat) < 58 \<and> d \<noteq> CHR '':'') (dotted_tail cs)" for cs
    by (induction cs) (simp_all add: dotted_tail_def d)
  show ?thesis by (simp add: dotted_def d t)
qed

text \<open>The host without case, as the three comparisons see it.\<close>

definition host_allowed :: "string \<Rightarrow> u32 \<Rightarrow> string \<Rightarrow> bool" where
  "host_allowed name ip host \<longleftrightarrow> host = ''rgb-tuner.local'' \<or>
     (1 \<le> length name \<and> length name \<le> 63 \<and> host = map tolower name @ ''.local'') \<or> (ip \<noteq> 0 \<and> host = dotted (le32 ip))"

lemma host_allowed_end:
  assumes "host_allowed name ip host"
  shows "host \<noteq> []" and "\<not> (3 \<le> length host \<and> drop (length host - 3) host = '':80'')"
proof -
  have "dotted (le32 ip) \<noteq> []" by (simp add: dotted_def)
  then show "host \<noteq> []" using assms by (auto simp: host_allowed_def)
  show "\<not> (3 \<le> length host \<and> drop (length host - 3) host = '':80'')"
  proof
    assume a: "3 \<le> length host \<and> drop (length host - 3) host = '':80''"
    then have colon: "CHR '':'' \<in> set host" by (metis in_set_dropD list.set_intros(1))
    have "host = take (length host - 3) host @ '':80''" using a by (metis append_take_drop_id)
    then obtain pre where h: "host = pre @ '':80''" ..
    have "\<not> (\<exists>n. host = n @ ''.local'')"
    proof
      assume "\<exists>n. host = n @ ''.local''"
      then obtain n where "pre @ '':80'' = n @ ''.local''" using h by auto
      then have "last (pre @ '':80'') = last (n @ ''.local'')" by (rule arg_cong)
      then show False by simp
    qed
    moreover have "host \<noteq> dotted (le32 ip)" using colon dotted_low [of "le32 ip"] by (auto simp: list_all_iff)
    moreover have "host \<noteq> ''rgb-tuner.local''" using colon by auto
    ultimately show False using assms by (auto simp: host_allowed_def)
  qed
qed

lemma map_take_split:
  assumes "n \<le> length host"
  shows "(n = length a + length b \<and> map f (take (length a) host) = map f a \<and> map f (take (length b) (drop (length a) host)) = map f b) =
    (map f (take n host) = map f a @ map f b)"
proof
  assume "n = length a + length b \<and> map f (take (length a) host) = map f a \<and> map f (take (length b) (drop (length a) host)) = map f b"
  then show "map f (take n host) = map f a @ map f b" by (simp add: take_add)
next
  assume e: "map f (take n host) = map f a @ map f b"
  have n: "n = length a + length b" using arg_cong [OF e, of length] assms by simp
  then have "map f (take (length a) host) @ map f (take (length b) (drop (length a) host)) = map f a @ map f b"
    using e by (simp add: take_add)
  moreover have "length (map f (take (length a) host)) = length (map f a)" using assms n by simp
  ultimately show "n = length a + length b \<and> map f (take (length a) host) = map f a \<and> map f (take (length b) (drop (length a) host)) = map f b"
    using n by (metis append_eq_append_conv)
qed

lemma IsLocalHostMatch_iff:
  assumes "n \<le> length host" and "NUL \<notin> set name"
  shows "IsLocalHostMatch host n (Some name) =
    (1 \<le> length name \<and> length name \<le> 63 \<and> map tolower (take n host) = map tolower name @ ''.local'')"
proof (cases "length name \<le> 63")
  case True
  then have l: "strnlen name 64 = length name" using assms(2) by (simp add: strnlen_def cstr_no_nul)
  have low: "map tolower ''.local'' = ''.local''" by (simp add: tolower_def)
  obtain suf where suf: "suf = ''.local''" by simp
  have "IsLocalHostMatch host n (Some name) = (1 \<le> length name \<and>
      (n = length name + length suf \<and> map tolower (take (length name) host) = map tolower name \<and>
       map tolower (take (length suf) (drop (length name) host)) = map tolower suf))"
    unfolding IsLocalHostMatch_def option.case Let_def l strncasecmp_eq_def suf [symmetric] using True
    by (cases name) auto
  then show ?thesis using True low unfolding map_take_split [OF assms(1)] by (simp add: suf)
next
  case False
  then have "cstr (take 64 name) = take 64 name" using assms(2) by (meson cstr_no_nul in_set_takeD)
  then have "strnlen name 64 = 64" using False by (simp add: strnlen_def)
  then show ?thesis using False by (simp add: IsLocalHostMatch_def)
qed

lemma host_allowed_matches:
  assumes "n \<le> length host" and "NUL \<notin> set name"
  shows "(IsLocalHostMatch host n (Some MDNS_SERVICE_HOSTNAME) \<or> IsLocalHostMatch host n (Some name) \<or> IsAddressHostMatch host n ip) =
    host_allowed name ip (map tolower (take n host))"
proof -
  have d: "map tolower MDNS_SERVICE_HOSTNAME = MDNS_SERVICE_HOSTNAME" by (simp add: tolower_def)
  have "NUL \<notin> set MDNS_SERVICE_HOSTNAME" by (simp add: NUL_def)
  note default = IsLocalHostMatch_iff [OF assms(1) this, unfolded d]
  have "list_all (\<lambda>d. (of_char d :: nat) < 65) (dotted (le32 ip))"
    using dotted_low by (rule list.pred_mono_strong) simp
  note addr = tolower_fixed [OF this]
  show ?thesis
    unfolding default IsLocalHostMatch_iff [OF assms] IsAddressHostMatch_iff host_allowed_def addr by auto
qed

subsection \<open>Properties\<close>

lemma origin_without_scheme:
  assumes "NUL \<notin> set origin" and False: "\<not> (7 < length origin \<and> length origin \<le> 96 \<and> map tolower (take 7 origin) = ''http://'')"
  shows "\<not> IsHttpStationOriginAllowed (Some origin) (Some name) ip"
proof (cases "length origin \<le> 96")
  case True
  then have l: "strnlen origin (HTTP_STATION_ORIGIN_MAX + 1) = length origin" using assms(1) by (simp add: strnlen_def cstr_no_nul)
  have len: "length ''http://'' = 7" by simp
  have low: "map tolower (take 7 ''http://'') = ''http://''" by (simp add: tolower_def)
  have "HTTP_STATION_ORIGIN_MAX < strnlen origin (HTTP_STATION_ORIGIN_MAX + 1) \<or>
      strnlen origin (HTTP_STATION_ORIGIN_MAX + 1) \<le> length ORIGIN_SCHEME \<or>
      \<not> strncasecmp_eq origin ORIGIN_SCHEME (length ORIGIN_SCHEME)"
    unfolding l len strncasecmp_eq_def low using False True by linarith
  then show ?thesis unfolding IsHttpStationOriginAllowed_def option.case Let_def by (subst if_P) simp_all
next
  case long: False
  have "cstr (take 97 origin) = take 97 origin" using assms(1) by (meson cstr_no_nul in_set_takeD)
  then have "strnlen origin 97 = 97" using long by (simp add: strnlen_def)
  then show ?thesis by (simp add: IsHttpStationOriginAllowed_def)
qed

lemma origin_not_allowed_without_scheme:
  assumes False: "\<not> (7 < length origin \<and> length origin \<le> 96 \<and> map tolower (take 7 origin) = ''http://'')"
  shows "\<not> (length origin \<le> 96 \<and> (\<exists>host port. map tolower origin = ''http://'' @ host @ port \<and> host_allowed name ip host))"
proof
  assume a: "length origin \<le> 96 \<and> (\<exists>host port. map tolower origin = ''http://'' @ host @ port \<and> host_allowed name ip host)"
  then obtain host port where h: "map tolower origin = ''http://'' @ host @ port" "host_allowed name ip host" by blast
  have "map tolower (take 7 origin) = take 7 (map tolower origin)" by (simp add: take_map)
  then have "map tolower (take 7 origin) = ''http://''" unfolding h(1) by simp
  moreover have "7 < length origin" using arg_cong [OF h(1), of length] host_allowed_end(1) [OF h(2)] by (cases host) simp_all
  ultimately show False using False a by simp
qed

text \<open>The host without the port that the code strips.\<close>

definition host_length_of :: "string \<Rightarrow> nat" where
  "host_length_of h = (if 3 < length h \<and> drop (length h - 3) h = '':80'' then length h - 3 else length h)"

lemma origin_with_scheme:
  assumes "NUL \<notin> set origin" and True: "7 < length origin \<and> length origin \<le> 96 \<and> map tolower (take 7 origin) = ''http://''"
  defines "h \<equiv> drop 7 origin"
  defines "n \<equiv> host_length_of h"
  shows "IsHttpStationOriginAllowed (Some origin) (Some name) ip =
    (IsLocalHostMatch h n (Some MDNS_SERVICE_HOSTNAME) \<or> IsLocalHostMatch h n (Some name) \<or> IsAddressHostMatch h n ip)"
proof -
  have l: "strnlen origin 97 = length origin" using True assms(1) by (simp add: strnlen_def cstr_no_nul)
  have s: "strncasecmp_eq origin ''http://'' 7"
    using True by (simp add: strncasecmp_eq_def tolower_def)
  have len: "length ''http://'' = 7" "length '':80'' = 3" by simp_all
  have l': "strnlen origin (HTTP_STATION_ORIGIN_MAX + 1) = length origin" using l by simp
  have hl: "length origin - 7 = length h" by (simp add: h_def)
  have guard: "\<not> (HTTP_STATION_ORIGIN_MAX < length origin \<or> length origin \<le> 7 \<or> \<not> strncasecmp_eq origin ''http://'' 7)"
    using True s by simp
  show ?thesis
    unfolding IsHttpStationOriginAllowed_def option.case Let_def len l' if_not_P [OF guard] hl h_def [symmetric] n_def [unfolded host_length_of_def, symmetric]
    by (rule refl)
qed

lemma host_before_port:
  fixes h :: string
  defines "n \<equiv> host_length_of h"
  shows "host_allowed name ip (map tolower (take n h)) =
    (\<exists>host port. map tolower h = host @ port \<and> (port = [] \<or> port = '':80'') \<and> host_allowed name ip host)"
proof
  assume a: "host_allowed name ip (map tolower (take n h))"
  have "map tolower (drop n h) = [] \<or> map tolower (drop n h) = '':80''"
    by (auto simp: n_def host_length_of_def tolower_def)
  moreover have "map tolower h = map tolower (take n h) @ map tolower (drop n h)" by (metis append_take_drop_id map_append)
  ultimately show "\<exists>host port. map tolower h = host @ port \<and> (port = [] \<or> port = '':80'') \<and> host_allowed name ip host"
    using a by (intro exI [of _ "map tolower (take n h)"] exI [of _ "map tolower (drop n h)"] conjI)
next
  assume "\<exists>host port. map tolower h = host @ port \<and> (port = [] \<or> port = '':80'') \<and> host_allowed name ip host"
  then obtain host port where a: "map tolower h = host @ port" "port = [] \<or> port = '':80''" "host_allowed name ip host" by blast
  note e = host_allowed_end [OF a(3)]
  have port: "map tolower s = '':80'' \<longleftrightarrow> s = '':80''" for s by (rule tolower_fixed) simp
  show "host_allowed name ip (map tolower (take n h))"
  proof (cases "port = []")
    case True
    then have m: "map tolower h = host" "length host = length h" using a(1) by (simp_all, metis length_map)
    then have "\<not> (3 < length h \<and> drop (length h - 3) h = '':80'')"
      using e(2) port [of "drop (length h - 3) h"] by (auto simp: drop_map [symmetric])
    then have "n = length h" unfolding n_def host_length_of_def by (rule if_not_P)
    then show ?thesis using m a(3) by simp
  next
    case False
    then have p: "port = '':80''" using a(2) by simp
    have len: "length h = length host + 3" using arg_cong [OF a(1), of length] p by simp
    then have "map tolower (drop (length h - 3) h) = '':80''" using a(1) p by (simp add: drop_map [symmetric])
    then have "drop (length h - 3) h = '':80''" by (simp only: port)
    moreover have "3 < length h" using len e(1) by (cases host) simp_all
    ultimately have "n = length host" using len by (simp add: n_def host_length_of_def)
    then have "map tolower (take n h) = host" using a(1) by (simp add: take_map [symmetric])
    then show ?thesis using a(3) by simp
  qed
qed

text \<open>The origin check allows exactly the device's own origins. A request without an Origin header is allowed; otherwise the
  value must be, without regard to case and in full, http:// followed by rgb-tuner.local, by the mDNS name in use (1 to 63 characters)
  with .local, or by the dotted decimal station address without leading zeros, and then nothing or exactly :80, in at most 96
  characters. Every other origin is foreign: no prefix, suffix, other port or other notation of the address gets through.\<close>

lemma IsHttpStationOriginAllowed_spec:
  assumes "NUL \<notin> set origin" and "NUL \<notin> set name"
  shows "IsHttpStationOriginAllowed (Some origin) (Some name) ip \<longleftrightarrow> length origin \<le> 96 \<and>
    (\<exists>host port. map tolower origin = ''http://'' @ host @ port \<and> (port = [] \<or> port = '':80'') \<and>
       (host = ''rgb-tuner.local'' \<or> (1 \<le> length name \<and> length name \<le> 63 \<and> host = map tolower name @ ''.local'') \<or>
        (ip \<noteq> 0 \<and> host = dotted (le32 ip))))"
proof (cases "7 < length origin \<and> length origin \<le> 96 \<and> map tolower (take 7 origin) = ''http://''")
  case False
  show ?thesis using origin_without_scheme [OF assms(1) False, of name ip] origin_not_allowed_without_scheme [OF False, of name ip]
    unfolding host_allowed_def by blast
next
  case True
  let ?h = "drop 7 origin"
  have "host_length_of h \<le> length h" for h by (simp add: host_length_of_def)
  then have "IsHttpStationOriginAllowed (Some origin) (Some name) ip = host_allowed name ip (map tolower (take (host_length_of ?h) ?h))"
    unfolding origin_with_scheme [OF assms(1) True] using assms(2) by (rule host_allowed_matches)
  also have "\<dots> = (\<exists>host port. map tolower ?h = host @ port \<and> (port = [] \<or> port = '':80'') \<and> host_allowed name ip host)"
    by (rule host_before_port)
  also have "\<dots> = (\<exists>host port. map tolower origin = ''http://'' @ host @ port \<and> (port = [] \<or> port = '':80'') \<and> host_allowed name ip host)"
  proof -
    have "map tolower origin = ''http://'' @ map tolower ?h" using True by (metis append_take_drop_id map_append)
    then show ?thesis by simp
  qed
  finally show ?thesis using True unfolding host_allowed_def by simp
qed

text \<open>Before an identity was set the own name is the fixed one only.\<close>

lemma no_identity_origin: "IsHttpStationOriginAllowed origin None 0 = IsHttpStationOriginAllowed origin (Some []) 0"
proof -
  have "IsLocalHostMatch host n (Some []) = IsLocalHostMatch host n None" for host n
    by (simp add: IsLocalHostMatch_def strnlen_def cstr_def)
  then show ?thesis unfolding IsHttpStationOriginAllowed_def by (simp only:)
qed

end
