(* ===== verification/TunerResult.thy ===== *)
theory TunerResult
  imports Ws2812Timing
begin

section \<open>GET /tuner/result: query, state and body\<close>

text \<open>
  Model of main/http_portal/tuner_result.c. A query is the string before its terminator, a null pointer is
  \<open>None\<close>; the out parameter of the parser is the value of the option. The body buffer is the string it holds.
\<close>

abbreviation (input) TUNER_RESULT_SEQ_KEY :: string where "TUNER_RESULT_SEQ_KEY \<equiv> ''seq''"
abbreviation (input) TUNER_RESULT_SEQ_DIGITS_MAX :: nat where "TUNER_RESULT_SEQ_DIGITS_MAX \<equiv> 10"
abbreviation (input) TUNER_RESULT_VALUE_TEXT_MAX :: nat where "TUNER_RESULT_VALUE_TEXT_MAX \<equiv> 11"
abbreviation (input) TUNER_RESULT_QUERY_MAX :: nat where "TUNER_RESULT_QUERY_MAX \<equiv> 32"
abbreviation (input) TUNER_RESULT_BODY_MAX :: nat where "TUNER_RESULT_BODY_MAX \<equiv> 96"

datatype tuner_result_state =
    TUNER_RESULT_PENDING
  | TUNER_RESULT_DONE
  | TUNER_RESULT_TIMEOUT
  | TUNER_RESULT_COUNT_ERROR
  | TUNER_RESULT_NOT_MEASURED
  | TUNER_RESULT_SUPERSEDED
  | TUNER_RESULT_UNKNOWN
  | TUNER_RESULT_READ

subsection \<open>The query\<close>

fun seq_digits :: "string \<Rightarrow> u64 \<Rightarrow> u64 option" where
  "seq_digits [] number = Some number"
| "seq_digits (c # rest) number =
     (if of_char c < (of_char (CHR ''0'') :: nat) \<or> (of_char (CHR ''9'') :: nat) < of_char c then None
      else seq_digits rest (number * 10 + (of_char c - of_char (CHR ''0''))))"

definition ParseSeqDigits :: "string \<Rightarrow> u32 option" where
  "ParseSeqDigits val =
     (if length val < 1 \<or> TUNER_RESULT_SEQ_DIGITS_MAX < length val then None
      else case seq_digits val 0 of
        None \<Rightarrow> None
      | Some number \<Rightarrow> if 0xFFFFFFFF < number then None else Some (ucast number))"

function seq_field :: "string \<Rightarrow> u32 option" where
  "seq_field field =
     (let field_length = length (takeWhile (\<lambda>c. c \<noteq> CHR ''&'') field);
          name_length = length (takeWhile (\<lambda>c. c \<noteq> CHR ''='' \<and> c \<noteq> CHR ''&'') field);
          key_length = length TUNER_RESULT_SEQ_KEY
      in if name_length = key_length \<and> take key_length field = TUNER_RESULT_SEQ_KEY
         then if name_length = field_length then None
              else ParseSeqDigits (take (field_length - key_length - 1) (drop (key_length + 1) field))
         else if drop field_length field = [] then None
         else seq_field (drop (field_length + 1) field))"
  by pat_completeness auto
termination
proof (relation "measure length", goal_cases)
  case (2 field field_length name_length key_length)
  then have "field_length < length field" by (simp add: not_le)
  then show ?case by simp
qed simp

declare seq_field.simps [simp del]

definition ParseTunerResultSeq :: "string option \<Rightarrow> u32 option" where
  "ParseTunerResultSeq query = (case query of None \<Rightarrow> None | Some q \<Rightarrow> seq_field q)"

subsection \<open>The state\<close>

definition GetTunerResultState :: "u32 \<Rightarrow> u32 \<Rightarrow> ws2812_measurement \<Rightarrow> tuner_result_state" where
  "GetTunerResultState request_seq last_issued_seq rec =
     (if request_seq = 0 \<or> last_issued_seq < request_seq then TUNER_RESULT_UNKNOWN
      else if wm_submit_seq rec = request_seq then
        (case wm_state rec of
           WS2812_MEASUREMENT_DONE \<Rightarrow> TUNER_RESULT_DONE
         | WS2812_MEASUREMENT_TIMEOUT \<Rightarrow> TUNER_RESULT_TIMEOUT
         | WS2812_MEASUREMENT_COUNT_ERROR \<Rightarrow> TUNER_RESULT_COUNT_ERROR
         | WS2812_MEASUREMENT_NOT_MEASURED \<Rightarrow> TUNER_RESULT_NOT_MEASURED
         | WS2812_MEASUREMENT_READ_DONE \<Rightarrow> TUNER_RESULT_READ)
      else if request_seq < wm_submit_seq rec then TUNER_RESULT_SUPERSEDED
      else TUNER_RESULT_PENDING)"

subsection \<open>The body\<close>

definition FormatResultValue :: "u32 \<Rightarrow> u32 \<Rightarrow> string" where
  "FormatResultValue value_ns high_ns =
     (if high_ns = 0 then ''n/a'' else snprintf TUNER_RESULT_VALUE_TEXT_MAX (dec (unat value_ns)))"

fun s_state_names :: "tuner_result_state \<Rightarrow> string" where
  "s_state_names TUNER_RESULT_PENDING = ''pending''"
| "s_state_names TUNER_RESULT_DONE = ''done''"
| "s_state_names TUNER_RESULT_TIMEOUT = ''timeout''"
| "s_state_names TUNER_RESULT_COUNT_ERROR = ''count_error''"
| "s_state_names TUNER_RESULT_NOT_MEASURED = ''not_measured''"
| "s_state_names TUNER_RESULT_SUPERSEDED = ''superseded''"
| "s_state_names TUNER_RESULT_UNKNOWN = ''unknown''"
| "s_state_names TUNER_RESULT_READ = ''read''"

text \<open>The text the four \<open>snprintf\<close> calls print.\<close>

definition tuner_result_text :: "tuner_result_state \<Rightarrow> ws2812_measurement \<Rightarrow> string" where
  "tuner_result_text state rec =
     (if state = TUNER_RESULT_READ then
        let bit0_high = FormatResultValue (wm_bit0_high_avg_ns rec) (wm_bit0_high_avg_ns rec);
            bit0_period = FormatResultValue (wm_bit0_period_avg_ns rec) (wm_bit0_high_avg_ns rec);
            bit1_high = FormatResultValue (wm_bit1_high_avg_ns rec) (wm_bit1_high_avg_ns rec);
            bit1_period = FormatResultValue (wm_bit1_period_avg_ns rec) (wm_bit1_high_avg_ns rec)
        in ''state=read&b0h='' @ bit0_high @ ''&b0p='' @ bit0_period @ ''&b1h='' @ bit1_high @ ''&b1p='' @ bit1_period
      else if state \<noteq> TUNER_RESULT_DONE then ''state='' @ s_state_names state
      else if wm_match_available rec then
        ''state=done&b0='' @ dec (unat (wm_bit0_high_avg_ns rec)) @ ''&b1='' @ dec (unat (wm_bit1_high_avg_ns rec)) @
        ''&match='' @ dec (unat (wm_match_count rec))
      else ''state=done&b0='' @ dec (unat (wm_bit0_high_avg_ns rec)) @ ''&b1='' @ dec (unat (wm_bit1_high_avg_ns rec)) @
        ''&match=n/a'')"

text \<open>The length returned and the string in the body buffer; a buffer of size 0 (or no buffer) is not written.\<close>

definition FormatTunerResult :: "tuner_result_state \<Rightarrow> ws2812_measurement \<Rightarrow> nat \<Rightarrow> nat \<times> string" where
  "FormatTunerResult state rec body_size =
     (if body_size = 0 then (0, [])
      else let written = length (tuner_result_text state rec) in
      if body_size \<le> written then (0, [])
      else (written, snprintf body_size (tuner_result_text state rec)))"

subsection \<open>What the parser accepts\<close>

definition u32_value :: "string \<Rightarrow> u32 option" where
  "u32_value v =
     (if 1 \<le> length v \<and> length v \<le> 10 \<and> list_all is_digit v \<and> digits_val v < 2 ^ 32 then Some (of_nat (digits_val v))
      else None)"

lemma seq_digits_spec:
  assumes "unat number * 10 ^ length v + 10 ^ length v \<le> 2 ^ 63"
  shows "seq_digits v number =
    (if list_all is_digit v then Some (of_nat (foldl (\<lambda>n c. n * 10 + (of_char c - 48)) (unat number) v)) else None)"
  using assms
proof (induction v arbitrary: number)
  case (Cons c v)
  show ?case
  proof (cases "is_digit c")
    case True
    then have c: "48 \<le> (of_char c :: nat)" "(of_char c :: nat) \<le> 57" by (simp_all add: is_digit_iff)
    let ?d = "of_char c - 48 :: nat"
    have d: "(of_char c - of_char (CHR ''0'') :: u64) = of_nat ?d"
      using c by (simp add: of_nat_diff of_nat_of_char)
    have p: "(unat number + 1) * (10 * 10 ^ length v) \<le> 2 ^ 63"
      using Cons.prems by (simp add: algebra_simps)
    have "(1::nat) \<le> 10 ^ length v" by simp
    then have "(unat number + 1) * 10 \<le> (unat number + 1) * (10 * 10 ^ length v)"
      by (intro mult_le_mono le_refl) simp
    from le_trans [OF this p] have small: "(unat number + 1) * 10 \<le> 2 ^ 63" .
    have n: "number * 10 + (of_char c - of_char (CHR ''0'')) = of_nat (unat number * 10 + ?d)"
      unfolding d by simp
    have u: "unat (of_nat (unat number * 10 + ?d) :: u64) = unat number * 10 + ?d"
    proof -
      have "unat number * 10 + 10 \<le> 9223372036854775808" using small by simp
      moreover have "?d \<le> 9" using c by simp
      ultimately have "unat number * 10 + ?d < 2 ^ 64" by simp
      then show ?thesis unfolding unat_of_nat by (subst mod_less) simp_all
    qed
    have "(unat number * 10 + ?d + 1) * 10 ^ length v \<le> (unat number + 1) * 10 * 10 ^ length v"
      using c by (intro mult_le_mono le_refl) simp
    then have "unat (of_nat (unat number * 10 + ?d) :: u64) * 10 ^ length v + 10 ^ length v \<le> 2 ^ 63"
      using p unfolding u by (simp add: algebra_simps)
    note ih = Cons.IH [OF this]
    have "seq_digits (c # v) number = seq_digits v (number * 10 + (of_char c - of_char (CHR ''0'')))"
      using c by (simp add: not_less)
    then show ?thesis unfolding n ih u using True by simp
  next
    case False
    then show ?thesis by (auto simp: is_digit_iff not_le)
  qed
qed simp

lemma ParseSeqDigits_spec: "ParseSeqDigits v = u32_value v"
proof (cases "1 \<le> length v \<and> length v \<le> 10")
  case True
  have "(10 :: nat) ^ length v \<le> 10 ^ 10" using True by (intro power_increasing) simp_all
  then have b: "unat (0 :: u64) * 10 ^ length v + 10 ^ length v \<le> 2 ^ 63" by simp
  have d: "foldl (\<lambda>n c. n * 10 + (of_char c - 48)) (unat (0 :: u64)) v = digits_val v" by (simp add: digits_val_def)
  have small: "digits_val v < 2 ^ 64" if "list_all is_digit v"
    using digits_val_less [OF that] \<open>(10 :: nat) ^ length v \<le> 10 ^ 10\<close> by simp
  have "(0xFFFFFFFF < (of_nat (digits_val v) :: u64)) = (\<not> digits_val v < 2 ^ 32)" if "list_all is_digit v"
    using small [OF that] by (simp add: word_less_nat_alt unat_of_nat take_bit_nat_eq_self) linarith
  moreover have "(ucast (of_nat (digits_val v) :: u64) :: u32) = of_nat (digits_val v)"
    by (rule bit_word_eqI) (simp add: bit_simps)
  ultimately show ?thesis
    using True unfolding ParseSeqDigits_def u32_value_def seq_digits_spec [OF b] d by auto
qed (auto simp: ParseSeqDigits_def u32_value_def not_le Suc_le_eq)

text \<open>The name of a field is what precedes its first equals sign.\<close>

definition field_name :: "string \<Rightarrow> string" where
  "field_name f = takeWhile (\<lambda>c. c \<noteq> CHR ''='') f"

lemma takeWhile_takeWhile_and: "takeWhile P (takeWhile Q xs) = takeWhile (\<lambda>x. P x \<and> Q x) xs"
  by (induction xs) auto

definition seq_value :: "string \<Rightarrow> u32 option" where
  "seq_value q = (case find (\<lambda>f. field_name f = ''seq'') (fields q) of None \<Rightarrow> None | Some f \<Rightarrow> u32_value (drop 4 f))"

lemma seq_field_spec: "seq_field s = seq_value s"
proof (induction s rule: seq_field.induct)
  case (1 s)
  let ?f = "takeWhile (\<lambda>c. c \<noteq> CHR ''&'') s" and ?rest = "dropWhile (\<lambda>c. c \<noteq> CHR ''&'') s"
  let ?n = "takeWhile (\<lambda>c. c \<noteq> CHR ''='' \<and> c \<noteq> CHR ''&'') s"
  have n: "?n = field_name ?f" by (simp add: field_name_def takeWhile_takeWhile_and)
  have tk: "take (length ?n) s = ?n" by (metis takeWhile_eq_take)
  have nf: "length ?n \<le> length ?f" unfolding n field_name_def by (rule length_takeWhile_le)
  have dr: "drop (length ?f) s = ?rest" by (simp add: dropWhile_eq_drop)
  have drs: "drop (length ?f + 1) s = tl ?rest"
    by (metis Suc_eq_plus1 dr drop_Suc tl_drop)
  have name: "(length ?n = 3 \<and> take 3 s = ''seq'') = (field_name ?f = ''seq'')"
  proof
    assume "length ?n = 3 \<and> take 3 s = ''seq''" then show "field_name ?f = ''seq''" using tk n by metis
  next
    assume a: "field_name ?f = ''seq''"
    then have "length ?n = 3" unfolding n by simp
    then show "length ?n = 3 \<and> take 3 s = ''seq''" using tk a n by metis
  qed
  show ?case
  proof (cases "field_name ?f = ''seq''")
    case True
    have v: "take (length ?f - 3 - 1) (drop (3 + 1) s) = drop (3 + 1) ?f"
      by (metis drop_take diff_diff_left takeWhile_eq_take)
    have l: "length ?n = 3" using True n by simp
    have none: "ParseSeqDigits (drop (3 + 1) ?f) = None" if "length ?f = 3" using that by (simp add: ParseSeqDigits_def)
    have key: "length ''seq'' = 3" by simp
    have "seq_field s = ParseSeqDigits (drop (3 + 1) ?f)"
      using True name [THEN iffD2] l none unfolding seq_field.simps [of s] Let_def key v by auto
    then have "seq_field s = ParseSeqDigits (drop 4 ?f)" by simp
    then show ?thesis using True by (simp add: seq_value_def fields_unfold [of s] Let_def ParseSeqDigits_spec)
  next
    case False
    then have k: "\<not> (length ?n = length ''seq'' \<and> take (length ''seq'') s = ''seq'')"
      using name by (simp only: list.size) (simp add: numeral_eq_Suc)
    have "seq_field s = (if ?rest = [] then None else seq_field (tl ?rest))"
      unfolding seq_field.simps [of s] Let_def if_not_P [OF k] dr drs ..
    also have "\<dots> = (if ?rest = [] then None else seq_value (tl ?rest))"
      using 1 [OF refl refl refl k] dr drs by (simp del: dropWhile_eq_Nil_conv)
    also have "\<dots> = seq_value s"
      using False by (cases "?rest = []") (simp_all add: seq_value_def fields_unfold [of s] Let_def del: dropWhile_eq_Nil_conv)
    finally show ?thesis .
  qed
qed

text \<open>The query the page sends, whatever precedes it.\<close>

lemma seq_value_seq:
  assumes "list_all (\<lambda>f. CHR ''&'' \<notin> set f \<and> field_name f \<noteq> ''seq'') fs"
  shows "seq_value (concat (map (\<lambda>f. f @ ''&'') fs) @ ''seq='' @ dec (unat n)) = Some n"
  using assms
proof (induction fs)
  case Nil
  have d: "list_all is_digit (dec (unat n))" "digits_val (dec (unat n)) = unat n" using dec_digits by auto
  have u: "unat n < 2 ^ 32" using unsigned_less [where 'a = nat and w = n] by simp
  have "dec (unat n) \<noteq> []" by simp
  then have "u32_value (dec (unat n)) = Some n"
    using d u length_dec_u32 [OF u] by (simp add: u32_value_def Suc_le_eq del: dec_nonempty)
  moreover have "fields (''seq='' @ dec (unat n)) = [''seq='' @ dec (unat n)]"
    using dec_no_amp [of "unat n"] by (intro fields_last) simp
  ultimately show ?case by (simp add: seq_value_def field_name_def del: fields.simps)
next
  case (Cons f fs)
  then show ?case
    using fields_field [of f] by (simp add: seq_value_def del: fields.simps)
qed

subsection \<open>Properties\<close>

text \<open>Parsing the query of GET /tuner/result, on every query. The value is that of the first field named exactly \<open>seq\<close>; it is
  accepted iff it is 1 to 10 decimal digits with a value of at most 4,294,967,295, and is then the number written, without
  wrap-around. So a query in which the number follows any fields with other names is read back exactly.\<close>

theorem ParseTunerResultSeq_spec:
  "ParseTunerResultSeq (Some q) =
     (case find (\<lambda>f. field_name f = ''seq'') (fields q) of
        None \<Rightarrow> None
      | Some f \<Rightarrow> let v = drop 4 f in
          if 1 \<le> length v \<and> length v \<le> 10 \<and> list_all is_digit v \<and> digits_val v < 2 ^ 32
          then Some (of_nat (digits_val v)) else None)"
  by (simp add: ParseTunerResultSeq_def seq_field_spec seq_value_def u32_value_def Let_def split: option.splits)

lemma ParseTunerResultSeq_roundtrip:
  "list_all (\<lambda>f. CHR ''&'' \<notin> set f \<and> field_name f \<noteq> ''seq'') fs \<Longrightarrow>
     ParseTunerResultSeq (Some (concat (map (\<lambda>f. f @ ''&'') fs) @ ''seq='' @ dec (unat n))) = Some n"
  by (simp add: ParseTunerResultSeq_def seq_field_spec seq_value_seq [simplified])

text \<open>The body with the numbers written out.\<close>

definition value_text :: "u32 \<Rightarrow> u32 \<Rightarrow> string" where
  "value_text val high = (if high = 0 then ''n/a'' else dec (unat val))"

lemma length_dec_word: "length (dec (unat (n :: u32))) \<le> 10"
  using length_dec_u32 [of "unat n"] unsigned_less [where 'a = nat and w = n] by simp

lemma length_dec_u16: "length (dec (unat (n :: u16))) \<le> 5"
  using length_dec_le [of "unat n" 4] unsigned_less [where 'a = nat and w = n] by simp

lemma FormatResultValue: "FormatResultValue v h = value_text v h" "length (value_text v h) \<le> 10"
  using length_dec_word [of v] by (simp_all add: FormatResultValue_def value_text_def snprintf_fits)

lemma length_tuner_result_text: "length (tuner_result_text state rec) \<le> 70"
  using FormatResultValue(2) [of "wm_bit0_high_avg_ns rec" "wm_bit0_high_avg_ns rec"]
    FormatResultValue(2) [of "wm_bit0_period_avg_ns rec" "wm_bit0_high_avg_ns rec"]
    FormatResultValue(2) [of "wm_bit1_high_avg_ns rec" "wm_bit1_high_avg_ns rec"]
    FormatResultValue(2) [of "wm_bit1_period_avg_ns rec" "wm_bit1_high_avg_ns rec"]
    length_dec_word [of "wm_bit0_high_avg_ns rec"] length_dec_word [of "wm_bit1_high_avg_ns rec"]
    length_dec_u16 [of "wm_match_count rec"]
  by (cases state) (simp_all add: tuner_result_text_def FormatResultValue(1) Let_def)

text \<open>No result body is ever cut. Every body fits the 96-byte buffer with at most 70 characters, for all 32-bit values; a read
  body carries the four values in full, or n/a for both values of a bit that was not found; and with any smaller buffer the
  function either writes the complete body or returns 0 with an empty string.\<close>

theorem FormatTunerResult_complete:
  "FormatTunerResult state rec TUNER_RESULT_BODY_MAX = (length (tuner_result_text state rec), tuner_result_text state rec) \<and>
   length (tuner_result_text state rec) \<le> 70 \<and>
   FormatTunerResult state rec n \<in> {(0, []), (length (tuner_result_text state rec), tuner_result_text state rec)} \<and>
   tuner_result_text TUNER_RESULT_READ rec =
     ''state=read&b0h='' @ value_text (wm_bit0_high_avg_ns rec) (wm_bit0_high_avg_ns rec) @
     ''&b0p='' @ value_text (wm_bit0_period_avg_ns rec) (wm_bit0_high_avg_ns rec) @
     ''&b1h='' @ value_text (wm_bit1_high_avg_ns rec) (wm_bit1_high_avg_ns rec) @
     ''&b1p='' @ value_text (wm_bit1_period_avg_ns rec) (wm_bit1_high_avg_ns rec)"
proof -
  note l = length_tuner_result_text [of state rec]
  have "FormatTunerResult state rec TUNER_RESULT_BODY_MAX = (length (tuner_result_text state rec), tuner_result_text state rec)"
    using l by (simp add: FormatTunerResult_def snprintf_fits)
  moreover have "FormatTunerResult state rec n \<in> {(0, []), (length (tuner_result_text state rec), tuner_result_text state rec)}"
    by (auto simp: FormatTunerResult_def snprintf_fits Let_def)
  ultimately show ?thesis
    using l by (simp add: tuner_result_text_def [of TUNER_RESULT_READ] FormatResultValue(1))
qed

end
