(* ===== verification/PortalPages.thy ===== *)
theory PortalPages
  imports Prelude
begin

section \<open>The pages of the portal\<close>

text \<open>
  The tuner page of main/http_portal/tuner_page.c in its two variants and the provisioning page of
  main/http_portal/http_portal.c, as the lists of the literals the source concatenates. Their scripts are text here.
\<close>

definition TUNER_PAGE_HEAD :: "string list" where
  \<open>TUNER_PAGE_HEAD = [
    ''<!doctype html><html lang=en><head><meta charset=utf-8>'',
    ''<meta name=viewport content="width=device-width,initial-scale=1">'',
    ''<link rel=icon href="data:,"><title>WS2812 tuner</title>'',
    ''<style>body{font-size:16px;margin:8px}label{display:block;margin-top:8px}'',
    ''input,button{font-size:16px;min-height:44px;width:100%;box-sizing:border-box}'',
    ''button{margin-top:8px}input:invalid{border:2px solid #b00}'',
    ''.r{display:flex;align-items:center}.r span{margin-left:8px;white-space:nowrap}'',
    ''.w{display:flex;height:24px}.w i{border:2px solid;border-bottom:0;box-sizing:border-box}'',
    ''.w b{flex:1;border-bottom:2px solid}#st{white-space:pre-line}</style>'',
    ''</head><body><h1>WS2812 timing tuner</h1>'']\<close>

definition TUNER_PAGE_BACK_LINK :: string where
  "TUNER_PAGE_BACK_LINK = ''<a href=/>Back</a>''"

definition TUNER_PAGE_BODY :: "string list" where
  \<open>TUNER_PAGE_BODY = [
    ''<form id=f>'',
    ''<label for=b0h>Bit 0 high time (ns, 100-1200)</label>'',
    ''<div class=r><input id=b0h type=range min=100 max=1200 step=25 value=400><span id=b0v></span></div>'',
    ''<label for=b0p>Bit 0 period (ns, 800-2000)</label>'',
    ''<input id=b0p type=number min=800 max=2000 step=25 value=1250>'',
    ''<p>Bit 0 duty: <span id=b0d></span> %</p>'',
    ''<div class=w aria-hidden=true><i id=b0w></i><b></b></div>'',
    ''<label for=b1h>Bit 1 high time (ns, 100-1200)</label>'',
    ''<div class=r><input id=b1h type=range min=100 max=1200 step=25 value=800><span id=b1v></span></div>'',
    ''<label for=b1p>Bit 1 period (ns, 800-2000)</label>'',
    ''<input id=b1p type=number min=800 max=2000 step=25 value=1250>'',
    ''<p>Bit 1 duty: <span id=b1d></span> %</p>'',
    ''<div class=w aria-hidden=true><i id=b1w></i><b></b></div>'',
    ''<label for=rst>Reset time (us, 50-800)</label>'',
    ''<input id=rst type=number min=50 max=800 step=10 value=280>'',
    ''<p>Low time (period - high time) must be at least 100 ns.</p>'',
    ''<button type=button id=sd>Send</button><button type=button id=rd>Read</button>'',
    ''<button type=reset id=df>Defaults</button>'',
    ''</form><p id=st role=status></p><script>'',
    ''const $=id=>document.getElementById(id);'',
    ''const b0h=$('b0h'),b0p=$('b0p'),b1h=$('b1h'),b1p=$('b1p'),rst=$('rst'),f=$('f'),st=$('st'),all=[b0h,b0p,b1h,b1p,rst];'',
    ''let g=0;const w=(k,t)=>{if(k==g)st.textContent=t},na='Measurement not available';'',
    ''function show(n){const h=+$('b'+n+'h').value,p=+$('b'+n+'p').value;$('b'+n+'v').textContent=h+' ns';'',
    ''$('b'+n+'d').textContent=(Math.floor((h*1000+p/2)/p)/10).toFixed(1);'',
    ''$('b'+n+'w').style.width=Math.min(100,h*100/p)+'%'}'',
    ''[0,1].forEach(n=>{$('b'+n+'h').oninput=$('b'+n+'p').oninput=()=>show(n);show(n)});'',
    (''function stop(){g++;st.textContent='' @ [CHR 0x27, CHR 0x27] @ ''}''),
    ''f.addEventListener('input',stop);f.addEventListener('reset',()=>{stop();'',
    (''all.forEach(i=>{i.value=i.defaultValue;i.setCustomValidity('' @ [CHR 0x27, CHR 0x27] @ '')});show(0);show(1)});''),
    (''function ok(h,p){var bad=(+p.value-+h.value)<100;h.setCustomValidity(bad?'x':'' @ [CHR 0x27, CHR 0x27] @ '');''),
    (''p.setCustomValidity(bad?'x':'' @ [CHR 0x27, CHR 0x27] @ '')}function valid(){ok(b0h,b0p);ok(b1h,b1p);''),
    ''return all.every(i=>i.checkValidity())}'',
    (''function poll(k,n,i,h0,h1){setTimeout(()=>{if(k!=g)return;const P=h0?'Sent'' @ [CHR 0x5C] @ ''n':'Read'' @ [CHR 0x5C] @ ''n';''),
    (''fetch('/tuner/result?seq='+n,{cache:'no-store'}).then(r=>r.ok?r.text():'' @ [CHR 0x27, CHR 0x27] @ '').then(t=>{''),
    ''const q=new URLSearchParams(t),s=q.get('state'),m=q.get('match');if(s=='pending'&&i<8)return poll(k,n,i+1,h0,h1);'',
    (''w(k,P+(h0&&s=='done'?'Bit 0: '+h0+' ns set, '+q.get('b0')+' ns measured'' @ [CHR 0x5C] @ ''nBit 1: '+h1+' ns set, '+q.get('b1')+''),
    ([CHR 0x27] @ '' ns measured'' @ [CHR 0x5C] @ ''nGRB match '+(m=='n/a'?m:m+'/144'):!h0&&s=='read'?[0,1].map(b=>{const x=q.get('b'+b+'h');''),
    (''return'Bit '+b+': '+(x=='n/a'?'not found':'high '+x+' ns, period '+q.get('b'+b+'p')+' ns')}).join('' @ [CHR 0x27, CHR 0x5C] @ ''n'):''),
    ''{timeout:'Measurement failed: no signal',count_error:'Measurement failed: bad capture',not_measured:'Not measured','',
    ''superseded:'Superseded by a newer send'}[s]||na))}).catch(()=>w(k,P+na))},250)}'',
    ''$('sd').onclick=()=>{const k=++g;if(!valid()){st.textContent='Invalid values';return}'',
    ''if(+b0h.value*+b1p.value>=+b1h.value*+b0p.value){st.textContent='Bit 0 duty must be less than bit 1 duty';return}'',
    ''st.textContent='Sending...';const h0=b0h.value,h1=b1h.value;'',
    ''const body='b0h_ns='+h0+'&b0p_ns='+b0p.value+'&b1h_ns='+h1+'&b1p_ns='+b1p.value+'&rst_us='+rst.value;'',
    ''fetch('/tuner',{method:'POST',headers:{'Content-Type':'application/x-www-form-urlencoded'},body}).then(r=>{'',
    (''if(!r.ok)return r.text().then(t=>w(k,t));const n=r.headers.get('Tuner-Seq');w(k,n?'Sent':'Sent'' @ [CHR 0x5C] @ ''n'+na);''),
    ''if(n)poll(k,n,1,h0,h1)}).catch(()=>w(k,'Send failed, check connection'))};'',
    ''$('rd').onclick=()=>{const k=++g;st.textContent='Reading...';fetch('/tuner/read',{method:'POST'}).then(r=>{'',
    (''if(!r.ok)return r.text().then(t=>w(k,t));const n=r.headers.get('Tuner-Seq');n?poll(k,n,1):w(k,'Read'' @ [CHR 0x5C] @ ''n'+na)})''),
    ''.catch(()=>w(k,'Read failed, check connection'))}'',
    ''</script></body></html>'']\<close>

definition g_tuner_page :: string where
  "g_tuner_page = concat TUNER_PAGE_HEAD @ TUNER_PAGE_BACK_LINK @ concat TUNER_PAGE_BODY"

definition g_tuner_page_station :: string where
  "g_tuner_page_station = concat TUNER_PAGE_HEAD @ concat TUNER_PAGE_BODY"

definition s_page :: "string list" where
  \<open>s_page = [
    ''<!doctype html><html><head><meta charset=utf-8>'',
    ''<meta name=viewport content='width=device-width,initial-scale=1'>'',
    ''<title>RGB LED Tuner</title></head><body>'',
    ''<h1>Wi-Fi setup</h1>'',
    ''<p><button id=r type=button>Refresh</button> <span id=s></span></p>'',
    ''<form id=f><p><select id=n name=ssid size=8 required style='width:100%'></select></p>'',
    ''<p><input id=p name=password type=password placeholder=Password autocomplete=off></p>'',
    ''<p><button id=c>Connect</button></p></form><p id=m></p>'',
    ''<form method=get action=/tuner><button>Tuner</button></form>'',
    ''<script>'',
    ''const $=i=>document.getElementById(i);'',
    ''function scan(){$('s').textContent='Scanning...';$('r').disabled=true;'',
    ''fetch('/scan',{cache:'no-store'}).then(r=>{if(!r.ok)throw 0;return r.json()}).then(a=>{'',
    (''const n=$('n');n.innerHTML='' @ [CHR 0x27, CHR 0x27] @ '';''),
    (''a.forEach(x=>{const o=new Option(x.ssid+' ('+x.rssi+' dBm)'+(x.open?' open':'' @ [CHR 0x27, CHR 0x27] @ '')+''),
    (''(x.uns?' - not supported':'' @ [CHR 0x27, CHR 0x27] @ ''),x.ssid);o.disabled=x.uns;n.add(o)});''),
    ''$('s').textContent=a.length?'Select a network':'No networks found'})'',
    ''.catch(()=>{$('s').textContent='Scan failed, try again'}).finally(()=>{$('r').disabled=false})}'',
    ''function poll(){fetch('/status',{cache:'no-store'}).then(r=>r.text()).then(t=>{$('m').textContent=t;'',
    ''if(t==='Connecting...')setTimeout(poll,1000)}).catch(()=>setTimeout(poll,1500))}'',
    ''$('r').onclick=scan;'',
    ''$('f').onsubmit=e=>{e.preventDefault();$('m').textContent='Connecting...';'',
    ''fetch('/submit',{method:'POST',headers:{'Content-Type':'application/x-www-form-urlencoded'},'',
    ''body:new URLSearchParams(new FormData($('f')))})'',
    ''.then(r=>r.ok?poll():r.text().then(t=>{$('m').textContent=t}))'',
    ''.catch(()=>{$('m').textContent='Connection lost, reconnect to this network'})};'',
    ''scan()</script></body></html>'']\<close>

lemma tuner_page_lengths:
  "length (concat TUNER_PAGE_HEAD) = 660" "length TUNER_PAGE_BACK_LINK = 18" "length (concat TUNER_PAGE_BODY) = 3709"
  by (simp_all add: TUNER_PAGE_HEAD_def TUNER_PAGE_BACK_LINK_def TUNER_PAGE_BODY_def)

text \<open>The static assertions of the source: the pages differ by the Back link and fit 5,120 bytes.\<close>

lemma tuner_pages:
  "length g_tuner_page_station = length g_tuner_page - length TUNER_PAGE_BACK_LINK"
  "length g_tuner_page \<le> 5120" "length g_tuner_page_station \<le> 5120"
  by (simp_all add: g_tuner_page_def g_tuner_page_station_def tuner_page_lengths)

end
