(* ===== verification/HttpPortal.thy ===== *)
theory HttpPortal
  imports PortalForm StationOrigin TunerResult PortalPages
begin

section \<open>The HTTP server of the portal and of the station\<close>

text \<open>
  Model of main/http_portal/http_portal.c. A handler is a function of the server's state and of what the request brings: body,
  query, Origin header and the answers of the owner's services. Its result is the reply, the calls to the owner
  (\<open>portal_call\<close>), and the new state. Handlers run one at a time in the server task; the orchestrator's setters and the reads of
  the handlers are critical sections, so a handler is one step but for the submission, which touches the shared status
  after it called the owner. A pointer that is created once (a mutex) is a flag. Static buffers that no later request reads
  are not state; the form bodies are, since they hold passwords. Log lines are not modelled.
\<close>

abbreviation (input) HTTP_PORTAL_URL :: string where "HTTP_PORTAL_URL \<equiv> ''http://192.168.4.1/''"
abbreviation (input) HTTP_PORTAL_RECV_RETRIES :: nat where "HTTP_PORTAL_RECV_RETRIES \<equiv> 3"
abbreviation (input) HTTP_PORTAL_FORM_MAX :: nat where "HTTP_PORTAL_FORM_MAX \<equiv> 384"
abbreviation (input) TUNER_BODY_MAX :: nat where "TUNER_BODY_MAX \<equiv> 96"
abbreviation (input) HTTP_PORTAL_MAX_URI_HANDLERS :: nat where "HTTP_PORTAL_MAX_URI_HANDLERS \<equiv> 20"
abbreviation (input) HTTP_STATION_MAX_URI_HANDLERS :: nat where "HTTP_STATION_MAX_URI_HANDLERS \<equiv> 5"
abbreviation (input) TUNER_SEQ_TEXT_MAX :: nat where "TUNER_SEQ_TEXT_MAX \<equiv> 11"
abbreviation (input) HTTP_PORTAL_JSON_MAX :: nat where "HTTP_PORTAL_JSON_MAX \<equiv> 4096"
abbreviation (input) HTTP_PORTAL_ESCAPED_SSID_MAX :: nat where "HTTP_PORTAL_ESCAPED_SSID_MAX \<equiv> 193"

definition s_probe_uris :: "string list" where
  "s_probe_uris = [''/generate_204'', ''/gen_204'', ''/hotspot-detect.html'', ''/library/test/success.html'',
     ''/connecttest.txt'', ''/ncsi.txt'', ''/redirect'', ''/canonical.html'', ''/success.txt'', ''/check_network_status.txt'']"

datatype http_profile = HTTP_PROFILE_NONE | HTTP_PROFILE_PROVISIONING | HTTP_PROFILE_STATION

datatype portal_status = PORTAL_STATUS_IDLE | PORTAL_STATUS_CONNECTING | PORTAL_STATUS_CONNECTED | PORTAL_STATUS_FAILED

record station_identity =
  si_hostname_in_use :: string
  si_station_ipv4 :: u32

text \<open>The services the owner provides, as the calls the handlers make.\<close>

datatype portal_call =
    SUBMIT_CREDENTIALS wifi_credentials
  | APPLY_LED_TIMING ws2812_timing u32
  | REQUEST_PULSE_READ u32

record http_state =
  hs_server :: bool
  hs_profile :: http_profile
  hs_status_mutex :: bool
  hs_status :: portal_status
  hs_entries :: "wifi_scan_entry list"
  hs_entry_count :: nat
  hs_body :: string
  hs_tuner_body :: string
  hs_identity_mutex :: bool
  hs_identity :: station_identity
  hs_submit_seq :: u32
  hs_result_mutex :: bool
  hs_result :: ws2812_measurement

definition zero_measurement :: ws2812_measurement where
  "zero_measurement = \<lparr>wm_submit_seq = 0, wm_state = WS2812_MEASUREMENT_DONE, wm_bit0_high_avg_ns = 0, wm_bit1_high_avg_ns = 0,
     wm_match_count = 0, wm_match_available = False, wm_bit0_period_avg_ns = 0, wm_bit1_period_avg_ns = 0\<rparr>"

definition initial_http :: http_state where
  "initial_http = \<lparr>hs_server = False, hs_profile = HTTP_PROFILE_NONE, hs_status_mutex = False, hs_status = PORTAL_STATUS_IDLE,
     hs_entries = [], hs_entry_count = 0, hs_body = replicate (HTTP_PORTAL_FORM_MAX + 1) NUL,
     hs_tuner_body = replicate (TUNER_BODY_MAX + 1) NUL, hs_identity_mutex = False,
     hs_identity = \<lparr>si_hostname_in_use = [], si_station_ipv4 = 0\<rparr>, hs_submit_seq = 0, hs_result_mutex = False,
     hs_result = zero_measurement\<rparr>"

subsection \<open>Setters of the orchestrator\<close>

definition SetHttpTunerResult :: "ws2812_measurement option \<Rightarrow> http_state \<Rightarrow> http_state" where
  "SetHttpTunerResult measurement s = (case measurement of
     None \<Rightarrow> s
   | Some m \<Rightarrow> let s = s\<lparr>hs_result_mutex := True\<rparr>
               in if wm_submit_seq (hs_result s) \<le> wm_submit_seq m then s\<lparr>hs_result := m\<rparr> else s)"

definition SetHttpStationIdentity :: "string option \<Rightarrow> u32 \<Rightarrow> http_state \<Rightarrow> http_state" where
  "SetHttpStationIdentity hostname_in_use station_ipv4 s =
     s\<lparr>hs_identity_mutex := True,
       hs_identity := \<lparr>si_hostname_in_use = (case hostname_in_use of None \<Rightarrow> [] | Some name \<Rightarrow> take (MDNS_SERVICE_HOSTNAME_MAX - 1) name),
                       si_station_ipv4 = station_ipv4\<rparr>\<rparr>"

definition SetHttpPortalStatus :: "portal_status \<Rightarrow> http_state \<Rightarrow> http_state" where
  "SetHttpPortalStatus status s = s\<lparr>hs_status := status\<rparr>"

definition GetHttpPortalStatus :: "http_state \<Rightarrow> portal_status" where
  "GetHttpPortalStatus s = hs_status s"

subsection \<open>Replies\<close>

definition respond :: "string \<Rightarrow> string \<Rightarrow> string \<Rightarrow> http_reply" where
  "respond status type body = \<lparr>hr_status = status, hr_type = type, hr_headers = [(''Cache-Control'', ''no-store'')], hr_body = body\<rparr>"

text \<open>\<open>httpd_resp_send_err\<close> with status 400.\<close>

definition respond_err :: "string \<Rightarrow> http_reply" where
  "respond_err body = \<lparr>hr_status = ''400 Bad Request'', hr_type = ''text/html'', hr_headers = [], hr_body = body\<rparr>"

definition HandlePageRequest :: http_reply where
  "HandlePageRequest = respond ''200 OK'' ''text/html'' (concat s_page)"

definition HandleRedirectRequest :: http_reply where
  "HandleRedirectRequest = \<lparr>hr_status = ''302 Found'', hr_type = ''text/html'',
     hr_headers = [(''Location'', HTTP_PORTAL_URL), (''Cache-Control'', ''no-store'')], hr_body = []\<rparr>"

subsection \<open>GET /scan\<close>

definition format_int :: "int \<Rightarrow> string" where
  "format_int i = (if i < 0 then ''-'' @ dec (nat (- i)) else dec (nat i))"

definition format_bool :: "bool \<Rightarrow> string" where
  "format_bool b = (if b then ''true'' else ''false'')"

definition entry_json :: "string \<Rightarrow> wifi_scan_entry \<Rightarrow> string" where
  \<open>entry_json escaped e = ''{"ssid":"'' @ escaped @ ''","rssi":'' @ format_int (we_rssi_dbm e) @
     '',"open":'' @ format_bool (we_is_open e) @ '',"uns":'' @ format_bool (we_is_unsupported e) @ ''}''\<close>

text \<open>The loop, with the text written so far.\<close>

fun scan_json :: "nat \<Rightarrow> wifi_scan_entry list \<Rightarrow> string \<Rightarrow> string" where
  "scan_json index [] json = json"
| "scan_json index (e # es) json =
     (case EscapeJsonString (cstr (we_ssid e)) HTTP_PORTAL_ESCAPED_SSID_MAX of
        None \<Rightarrow> scan_json (index + 1) es json
      | Some escaped \<Rightarrow>
          if length escaped = 0 then scan_json (index + 1) es json
          else let written = (if 0 < index then '','' else []) @ entry_json escaped e
               in if HTTP_PORTAL_JSON_MAX - length json < length written + 2 then json
                  else scan_json (index + 1) es (json @ written))"

text \<open>\<open>scanned\<close> is the result of \<open>scan_networks\<close>, None for a negative count.\<close>

definition HandleScanRequest :: "wifi_scan_entry list option \<Rightarrow> http_state \<Rightarrow> http_reply \<times> http_state" where
  "HandleScanRequest scanned s = (case scanned of
     None \<Rightarrow> (\<lparr>hr_status = ''503 Service Unavailable'', hr_type = ''text/html'', hr_headers = [], hr_body = ''Scan unavailable''\<rparr>, s)
   | Some entries \<Rightarrow>
       let s = s\<lparr>hs_entries := entries, hs_entry_count := length entries\<rparr>
       in (respond ''200 OK'' ''application/json'' (scan_json 0 (take (hs_entry_count s) (hs_entries s)) ''['' @ '']''), s))"

subsection \<open>Receiving a form\<close>

text \<open>\<open>httpd_req_recv\<close>: some characters of at most the number asked for, a timeout, or an error.\<close>

datatype recv_part = RECV_PART string | RECV_PART_TIMEOUT | RECV_PART_FAILED

type_synonym 'n form_recv = "nat \<Rightarrow> 'n \<Rightarrow> recv_part \<times> 'n"

function recv_form :: "'n form_recv \<Rightarrow> nat \<Rightarrow> nat \<Rightarrow> string \<Rightarrow> 'n \<Rightarrow> string option \<times> 'n" where
  "recv_form recv len timeouts received net =
     (if len \<le> length received then (Some received, net)
      else case recv (len - length received) net of
        (RECV_PART_TIMEOUT, net) \<Rightarrow>
          if timeouts + 1 \<le> HTTP_PORTAL_RECV_RETRIES then recv_form recv len (timeouts + 1) received net else (None, net)
      | (RECV_PART_FAILED, net) \<Rightarrow> (None, net)
      | (RECV_PART part, net) \<Rightarrow> if part = [] then (None, net) else recv_form recv len timeouts (received @ part) net)"
  by pat_completeness auto
termination
  by (relation "measures [\<lambda>(recv, len, timeouts, received, net). len - length received,
      \<lambda>(recv, len, timeouts, received, net). 4 - timeouts]") (auto simp: length_greater_0_conv [symmetric] simp del: length_greater_0_conv)

declare recv_form.simps [simp del]

subsection \<open>POST /submit\<close>

definition zero_body :: string where
  "zero_body = replicate (HTTP_PORTAL_FORM_MAX + 1) NUL"

text \<open>\<open>is_started\<close> is the answer of \<open>submit_credentials\<close>. The fields of the candidate are zeroed arrays the values are written to.\<close>

definition submitted_candidate :: "string \<Rightarrow> wifi_credentials option" where
  "submitted_candidate body = (case (GetFormField body ''ssid'' 33, GetFormField body ''password'' 65) of
     (Some ssid, Some password) \<Rightarrow> Some \<lparr>wc_ssid = cfield 33 ssid, wc_password = cfield 65 password\<rparr>
   | _ \<Rightarrow> None)"

definition HandleSubmitRequest ::
  "'n form_recv \<Rightarrow> (wifi_credentials \<Rightarrow> bool) \<Rightarrow> u32 \<Rightarrow> http_state \<times> 'n \<Rightarrow> http_reply \<times> portal_call list \<times> http_state \<times> 'n" where
  "HandleSubmitRequest recv is_started content_len = (\<lambda>(s, net).
     let len = sint content_len in
     if len \<le> 0 \<or> int HTTP_PORTAL_FORM_MAX < len then (respond_err ''Invalid form'', [], s, net)
     else case recv_form recv (nat len) 0 [] net of
       (None, net) \<Rightarrow> (respond_err ''Invalid form'', [], s\<lparr>hs_body := zero_body\<rparr>, net)
     | (Some received, net) \<Rightarrow>
         let s = s\<lparr>hs_body := overwrite 0 (take (nat len) received @ [NUL]) (hs_body s)\<rparr>;
             candidate = submitted_candidate (cstr (hs_body s));
             is_accepted = (case candidate of None \<Rightarrow> False | Some c \<Rightarrow> ValidateSubmission c (hs_entries s) (hs_entry_count s));
             s = s\<lparr>hs_body := zero_body\<rparr>
         in if \<not> is_accepted then (respond_err ''Invalid credentials'', [], s, net)
            else if \<not> is_started (the candidate) then (respond_err ''Busy, try again'', [SUBMIT_CREDENTIALS (the candidate)], s, net)
            else (respond ''200 OK'' ''text/plain'' ''Connecting...'', [SUBMIT_CREDENTIALS (the candidate)],
                  SetHttpPortalStatus PORTAL_STATUS_CONNECTING s, net))"

definition HandleStatusRequest :: "http_state \<Rightarrow> http_reply" where
  "HandleStatusRequest s = respond ''200 OK'' ''text/plain'' (case GetHttpPortalStatus s of
     PORTAL_STATUS_CONNECTING \<Rightarrow> ''Connecting...''
   | PORTAL_STATUS_CONNECTED \<Rightarrow> ''Connected successfully''
   | PORTAL_STATUS_FAILED \<Rightarrow> ''Connection failed''
   | PORTAL_STATUS_IDLE \<Rightarrow> [])"

subsection \<open>The tuner\<close>

definition HandleTunerPageRequest :: http_reply where
  "HandleTunerPageRequest = respond ''200 OK'' ''text/html'' g_tuner_page"

text \<open>The reason is logged; the reply carries the fixed text.\<close>

definition RespondTunerRejected :: "ws2812_reject_reason \<Rightarrow> string \<Rightarrow> http_reply" where
  "RespondTunerRejected reason body = respond ''400 Bad Request'' ''text/plain'' body"

definition zero_tuner_body :: string where
  "zero_tuner_body = replicate (TUNER_BODY_MAX + 1) NUL"

definition respond_seq :: "u32 \<Rightarrow> string \<Rightarrow> http_reply" where
  "respond_seq submit_seq body = (respond ''200 OK'' ''text/plain'' body)\<lparr>hr_headers :=
     [(''Cache-Control'', ''no-store''), (''Tuner-Seq'', snprintf TUNER_SEQ_TEXT_MAX (dec (unat submit_seq)))]\<rparr>"

definition HandleTunerSubmitRequest ::
  "'n form_recv \<Rightarrow> u32 \<Rightarrow> http_state \<times> 'n \<Rightarrow> http_reply \<times> portal_call list \<times> http_state \<times> 'n" where
  "HandleTunerSubmitRequest recv content_len = (\<lambda>(s, net).
     let len = sint content_len in
     if len \<le> 0 \<or> int TUNER_BODY_MAX < len then (RespondTunerRejected WS2812_REJECT_MALFORMED ''Invalid request'', [], s, net)
     else case recv_form recv (nat len) 0 [] net of
       (None, net) \<Rightarrow> (RespondTunerRejected WS2812_REJECT_MALFORMED ''Invalid request'', [], s\<lparr>hs_tuner_body := zero_tuner_body\<rparr>, net)
     | (Some received, net) \<Rightarrow>
         let s = s\<lparr>hs_tuner_body := overwrite 0 (take (nat len) received @ [NUL]) (hs_tuner_body s)\<rparr>;
             parsed = ParseTunerForm (cstr (hs_tuner_body s));
             s = s\<lparr>hs_tuner_body := zero_tuner_body\<rparr>
         in case parsed of
              None \<Rightarrow> (RespondTunerRejected WS2812_REJECT_MALFORMED ''Invalid request'', [], s, net)
            | Some timing \<Rightarrow>
                let result = ValidateWs2812Timing timing in
                if result = WS2812_TIMING_OUT_OF_RANGE
                then (RespondTunerRejected WS2812_REJECT_OUT_OF_RANGE ''Value out of range'', [], s, net)
                else if result = WS2812_TIMING_BAD_COMBINATION
                then (RespondTunerRejected WS2812_REJECT_BAD_COMBINATION ''Invalid combination'', [], s, net)
                else if result = WS2812_TIMING_BAD_DUTY_ORDER
                then (RespondTunerRejected WS2812_REJECT_BAD_DUTY_ORDER ''Bit 0 duty must be less than bit 1 duty'', [], s, net)
                else let s = s\<lparr>hs_submit_seq := hs_submit_seq s + 1\<rparr>; submit_seq = hs_submit_seq s
                     in (respond_seq submit_seq ''Sent'', [APPLY_LED_TIMING timing submit_seq], s, net))"

definition HandleTunerReadRequest :: "http_state \<Rightarrow> http_reply \<times> portal_call list \<times> http_state" where
  "HandleTunerReadRequest s =
     (let s = s\<lparr>hs_submit_seq := hs_submit_seq s + 1\<rparr>; submit_seq = hs_submit_seq s
      in (respond_seq submit_seq ''Reading'', [REQUEST_PULSE_READ submit_seq], s))"

text \<open>\<open>query\<close> is the URL query, None when there is none; one that does not fit its buffer is an error of the call.\<close>

definition HandleTunerResultRequest :: "string option \<Rightarrow> http_state \<Rightarrow> http_reply" where
  "HandleTunerResultRequest query s =
     (case (case query of None \<Rightarrow> None
            | Some q \<Rightarrow> if TUNER_RESULT_QUERY_MAX \<le> length q then None else ParseTunerResultSeq (Some q)) of
        None \<Rightarrow> respond ''400 Bad Request'' ''text/plain'' ''Invalid request''
      | Some request_seq \<Rightarrow>
          let rec = (if hs_result_mutex s then hs_result s else zero_measurement);
              state = GetTunerResultState request_seq (hs_submit_seq s) rec;
              (len, body) = FormatTunerResult state rec TUNER_RESULT_BODY_MAX
          in respond ''200 OK'' ''text/plain'' (take len body))"

subsection \<open>The station profile\<close>

definition HandleStationPageRequest :: http_reply where
  "HandleStationPageRequest = respond ''200 OK'' ''text/html'' g_tuner_page_station"

text \<open>\<open>header\<close> is what \<open>httpd_req_get_hdr_value_str\<close> returns for the Origin header with a buffer of 97 characters.\<close>

definition IsStationOriginAllowed :: "esp_err \<times> string \<Rightarrow> http_state \<Rightarrow> bool" where
  "IsStationOriginAllowed header s = (case header of (result, s_origin) \<Rightarrow>
     if result \<noteq> ESP_OK \<and> result \<noteq> ESP_ERR_NOT_FOUND then False
     else let origin = (if result = ESP_OK then Some s_origin else None)
          in if \<not> hs_identity_mutex s then IsHttpStationOriginAllowed origin None 0
             else IsHttpStationOriginAllowed origin (Some (si_hostname_in_use (hs_identity s))) (si_station_ipv4 (hs_identity s)))"

definition RespondForbiddenOrigin :: http_reply where
  "RespondForbiddenOrigin = respond ''403 Forbidden'' ''text/plain'' ''Forbidden origin''"

definition HandleStationTunerSubmitRequest ::
  "'n form_recv \<Rightarrow> esp_err \<times> string \<Rightarrow> u32 \<Rightarrow> http_state \<times> 'n \<Rightarrow> http_reply \<times> portal_call list \<times> http_state \<times> 'n" where
  "HandleStationTunerSubmitRequest recv header content_len = (\<lambda>(s, net).
     if \<not> IsStationOriginAllowed header s then (RespondForbiddenOrigin, [], s, net)
     else HandleTunerSubmitRequest recv content_len (s, net))"

definition HandleStationTunerReadRequest :: "esp_err \<times> string \<Rightarrow> http_state \<Rightarrow> http_reply \<times> portal_call list \<times> http_state" where
  "HandleStationTunerReadRequest header s =
     (if \<not> IsStationOriginAllowed header s then (RespondForbiddenOrigin, [], s) else HandleTunerReadRequest s)"

definition HandleStationNotFound :: http_reply where
  "HandleStationNotFound = respond ''404 Not Found'' ''text/plain'' ''Not found''"

subsection \<open>Starting and stopping the server\<close>

definition StopHttpPortal :: "'e platform \<Rightarrow> http_state \<times> 'e io \<Rightarrow> http_state \<times> 'e io" where
  "StopHttpPortal p = (\<lambda>(s, io).
     let (s, io) = (if hs_server s then (s\<lparr>hs_server := False\<rparr>, snd (esp p HTTPD_STOP io)) else (s, io))
     in (s\<lparr>hs_profile := HTTP_PROFILE_NONE\<rparr>, io))"

definition RegisterHttpHandler :: "'e platform \<Rightarrow> string \<times> http_method \<times> string \<Rightarrow> 'e io \<Rightarrow> bool \<times> 'e io" where
  "RegisterHttpHandler p = (\<lambda>(uri, method, handler) io.
     let (result, io) = esp p (HTTPD_REGISTER uri method handler) io in (result = ESP_OK, io))"

text \<open>The registration loops: they end at the first failure.\<close>

fun register_all :: "'e platform \<Rightarrow> (string \<times> http_method \<times> string) list \<Rightarrow> 'e io \<Rightarrow> bool \<times> 'e io" where
  "register_all p [] io = (True, io)"
| "register_all p (h # hs) io = (let (ok, io) = RegisterHttpHandler p h io in if \<not> ok then (False, io) else register_all p hs io)"

definition s_exact_handlers :: "(string \<times> http_method \<times> string) list" where
  "s_exact_handlers =
     [(''/'', HTTP_GET, ''HandlePageRequest''), (''/scan'', HTTP_GET, ''HandleScanRequest''),
      (''/submit'', HTTP_POST, ''HandleSubmitRequest''), (''/status'', HTTP_GET, ''HandleStatusRequest''),
      (''/tuner'', HTTP_GET, ''HandleTunerPageRequest''), (''/tuner'', HTTP_POST, ''HandleTunerSubmitRequest''),
      (''/tuner/read'', HTTP_POST, ''HandleTunerReadRequest''), (''/tuner/result'', HTTP_GET, ''HandleTunerResultRequest'')]"

definition s_station_handlers :: "(string \<times> http_method \<times> string) list" where
  "s_station_handlers =
     [(''/'', HTTP_GET, ''HandleStationPageRequest''), (''/tuner'', HTTP_GET, ''HandleStationPageRequest''),
      (''/tuner'', HTTP_POST, ''HandleStationTunerSubmitRequest''),
      (''/tuner/read'', HTTP_POST, ''HandleStationTunerReadRequest''),
      (''/tuner/result'', HTTP_GET, ''HandleTunerResultRequest'')]"

definition portal_handlers :: "(string \<times> http_method \<times> string) list" where
  "portal_handlers = s_exact_handlers @ map (\<lambda>uri. (uri, HTTP_ANY, ''HandleRedirectRequest'')) s_probe_uris @
     [(''/*'', HTTP_ANY, ''HandleRedirectRequest'')]"

text \<open>The argument \<open>ops\<close> is never null in this program; it is stored and used by the handlers as \<open>portal_call\<close>s.\<close>

definition StartHttpPortal :: "'e platform \<Rightarrow> http_state \<times> 'e io \<Rightarrow> bool \<times> http_state \<times> 'e io" where
  "StartHttpPortal p = (\<lambda>(s, io).
     let (s, io) = StopHttpPortal p (s, io);
         s = SetHttpPortalStatus PORTAL_STATUS_IDLE (s\<lparr>hs_status_mutex := True\<rparr>);
         s = s\<lparr>hs_entry_count := 0\<rparr>;
         (err, io) = esp p (HTTPD_START HTTP_PORTAL_MAX_URI_HANDLERS True) io
     in if err \<noteq> ESP_OK then (False, s\<lparr>hs_server := False\<rparr>, io)
        else let s = s\<lparr>hs_server := True, hs_profile := HTTP_PROFILE_PROVISIONING\<rparr>;
                 (ok, io) = register_all p portal_handlers io
             in if \<not> ok then (False, StopHttpPortal p (s, io)) else (True, s, io))"

definition StartHttpStationServer :: "'e platform \<Rightarrow> http_state \<times> 'e io \<Rightarrow> bool \<times> http_state \<times> 'e io" where
  "StartHttpStationServer p = (\<lambda>(s, io).
     let (s, io) = StopHttpPortal p (s, io);
         (err, io) = esp p (HTTPD_START HTTP_STATION_MAX_URI_HANDLERS False) io
     in if err \<noteq> ESP_OK then (False, s\<lparr>hs_server := False\<rparr>, io)
        else let s = s\<lparr>hs_server := True, hs_profile := HTTP_PROFILE_STATION\<rparr>;
                 (ok, io) = register_all p s_station_handlers io
             in if \<not> ok then (False, StopHttpPortal p (s, io))
                else let (result, io) = esp p (HTTPD_REGISTER_404 ''HandleStationNotFound'') io
                     in if result \<noteq> ESP_OK then (False, StopHttpPortal p (s, io)) else (True, s, io))"

subsection \<open>Which server runs\<close>

lemma StopHttpPortal_state:
  "StopHttpPortal p (s, io) = (s', io') \<Longrightarrow> \<not> hs_server s' \<and> hs_profile s' = HTTP_PROFILE_NONE \<and>
     mode_set (io_log io') = mode_set (io_log io) \<and> hs_status s' = hs_status s"
  by (auto simp: StopHttpPortal_def split: if_splits)

lemma register_all_mode: "register_all p hs io = (ok, io') \<Longrightarrow> mode_set (io_log io') = mode_set (io_log io)"
  by (induction hs arbitrary: io) (auto simp: RegisterHttpHandler_def split: prod.splits if_splits dest!: mode_set_esp)

text \<open>After a start the server runs in the profile asked for, or no server runs.\<close>

definition server_up :: "http_profile \<Rightarrow> http_state \<Rightarrow> bool" where
  "server_up profile s \<longleftrightarrow> hs_server s \<and> hs_profile s = profile"

definition server_down :: "http_state \<Rightarrow> bool" where
  "server_down s \<longleftrightarrow> \<not> hs_server s \<and> hs_profile s = HTTP_PROFILE_NONE"

lemma StartHttpPortal_state:
  assumes "StartHttpPortal p (s, io) = (ok, s', io')"
  shows "(if ok then server_up HTTP_PROFILE_PROVISIONING s' \<and> hs_status s' = PORTAL_STATUS_IDLE else server_down s') \<and>
    mode_set (io_log io') = mode_set (io_log io)"
  using assms
  by (auto simp: StartHttpPortal_def Let_def server_up_def server_down_def SetHttpPortalStatus_def split: prod.splits if_splits
      dest!: StopHttpPortal_state register_all_mode mode_set_esp)

lemma StartHttpStationServer_state:
  assumes "StartHttpStationServer p (s, io) = (ok, s', io')"
  shows "(if ok then server_up HTTP_PROFILE_STATION s' else server_down s') \<and> mode_set (io_log io') = mode_set (io_log io)"
  using assms
  by (auto simp: StartHttpStationServer_def Let_def server_up_def server_down_def split: prod.splits if_splits
      dest!: StopHttpPortal_state register_all_mode mode_set_esp)

lemma StopHttpPortal_keeps: "StopHttpPortal p (s, io) = (s', io') \<Longrightarrow> io_keeps p io io'"
  by (auto simp: StopHttpPortal_def split: if_splits intro: esp_keeps [of p HTTPD_STOP io "fst (esp p HTTPD_STOP io)"])

lemma register_all_keeps: "register_all p hs io = (ok, io') \<Longrightarrow> io_keeps p io io'"
proof (induction hs arbitrary: io)
  case (Cons h hs)
  obtain uri verb target where h: "h = (uri, verb, target)" by (metis prod.exhaust)
  obtain err io1 where e: "esp p (HTTPD_REGISTER uri verb target) io = (err, io1)" by fastforce
  have k: "io_keeps p io io1" by (rule esp_keeps [OF e]) simp
  show ?case
    using Cons e k io_keeps_trans [OF k Cons.IH] by (auto simp: h RegisterHttpHandler_def split: if_splits)
qed simp

lemma StartHttpPortal_keeps:
  assumes "StartHttpPortal p (s, io) = (ok, s', io')"
  shows "io_keeps p io io'"
proof -
  obtain s1 io1 where 1: "StopHttpPortal p (s, io) = (s1, io1)" by fastforce
  obtain err io2 where 2: "esp p (HTTPD_START HTTP_PORTAL_MAX_URI_HANDLERS True) io1 = (err, io2)" by fastforce
  obtain r io3 where 3: "register_all p portal_handlers io2 = (r, io3)" by fastforce
  have k2: "io_keeps p io io2" by (rule io_keeps_trans [OF StopHttpPortal_keeps [OF 1] esp_keeps [OF 2]]) simp
  have k3: "io_keeps p io io3" by (rule io_keeps_trans [OF k2 register_all_keeps [OF 3]])
  show ?thesis
    using assms 1 2 3 k2 k3 by (auto simp: StartHttpPortal_def Let_def split: if_splits intro: io_keeps_trans dest!: StopHttpPortal_keeps)
qed

lemma StartHttpStationServer_keeps:
  assumes "StartHttpStationServer p (s, io) = (ok, s', io')"
  shows "io_keeps p io io'"
proof -
  obtain s1 io1 where 1: "StopHttpPortal p (s, io) = (s1, io1)" by fastforce
  obtain err io2 where 2: "esp p (HTTPD_START HTTP_STATION_MAX_URI_HANDLERS False) io1 = (err, io2)" by fastforce
  obtain r io3 where 3: "register_all p s_station_handlers io2 = (r, io3)" by fastforce
  obtain err4 io4 where 4: "esp p (HTTPD_REGISTER_404 ''HandleStationNotFound'') io3 = (err4, io4)" by fastforce
  have k2: "io_keeps p io io2" by (rule io_keeps_trans [OF StopHttpPortal_keeps [OF 1] esp_keeps [OF 2]]) simp
  have k3: "io_keeps p io io3" by (rule io_keeps_trans [OF k2 register_all_keeps [OF 3]])
  have k4: "io_keeps p io io4" by (rule io_keeps_trans [OF k3 esp_keeps [OF 4]]) simp
  show ?thesis
    using assms 1 2 3 4 k2 k3 k4
    by (auto simp: StartHttpStationServer_def Let_def split: if_splits intro: io_keeps_trans dest!: StopHttpPortal_keeps)
qed

interpretation portal: service p "StartHttpPortal p" "StopHttpPortal p" "server_up HTTP_PROFILE_PROVISIONING" server_down for p
  by unfold_locales
    (auto simp: server_up_def server_down_def dest: StartHttpPortal_state StopHttpPortal_state StartHttpPortal_keeps StopHttpPortal_keeps)

interpretation station: service p "StartHttpStationServer p" "StopHttpPortal p" "server_up HTTP_PROFILE_STATION" server_down for p
  by unfold_locales
    (auto simp: server_up_def server_down_def dest: StartHttpStationServer_state StopHttpPortal_state StartHttpStationServer_keeps
      StopHttpPortal_keeps)

lemma handler_tables_fit:
  "length portal_handlers = 19" "length portal_handlers \<le> HTTP_PORTAL_MAX_URI_HANDLERS"
  "length s_station_handlers \<le> HTTP_STATION_MAX_URI_HANDLERS"
  "distinct (map (\<lambda>(uri, method, handler). (uri, method)) portal_handlers)"
  "distinct (map (\<lambda>(uri, method, handler). (uri, method)) s_station_handlers)"
  by (simp_all add: portal_handlers_def s_exact_handlers_def s_station_handlers_def s_probe_uris_def)

subsection \<open>Receiving a form\<close>

text \<open>A body that arrives: in pieces of any size, with at most three timeouts in all.\<close>

inductive form_arrives :: "'n form_recv \<Rightarrow> nat \<Rightarrow> string \<Rightarrow> 'n \<Rightarrow> bool" for recv where
  complete: "form_arrives recv timeouts [] net"
| part: "recv (length (part @ rest)) net = (RECV_PART part, net') \<Longrightarrow> part \<noteq> [] \<Longrightarrow> form_arrives recv timeouts rest net' \<Longrightarrow>
    form_arrives recv timeouts (part @ rest) net"
| timeout: "recv (length rest) net = (RECV_PART_TIMEOUT, net') \<Longrightarrow> rest \<noteq> [] \<Longrightarrow> timeouts + 1 \<le> HTTP_PORTAL_RECV_RETRIES \<Longrightarrow>
    form_arrives recv (timeouts + 1) rest net' \<Longrightarrow> form_arrives recv timeouts rest net"

lemma recv_form_arrives:
  "form_arrives recv timeouts rest net \<Longrightarrow> \<exists>net'. recv_form recv (length received + length rest) timeouts received net = (Some (received @ rest), net')"
proof (induction arbitrary: received rule: form_arrives.induct)
  case (complete timeouts net)
  then show ?case by (subst recv_form.simps) simp
next
  case (part part rest net net' timeouts)
  from part.IH [of "received @ part"] part.hyps show ?case
    by (subst recv_form.simps) (simp add: add.assoc)
next
  case (timeout rest net net' timeouts)
  from timeout.IH [of received] timeout.hyps show ?case
    by (subst recv_form.simps) simp
qed

lemma stored_body:
  assumes "length buf = n + 1" and "length received \<le> n" and "NUL \<notin> set received"
  shows "cstr (overwrite 0 (received @ [NUL]) buf) = received"
  using assms by (simp add: overwrite_def cstr_append_NUL)

subsection \<open>The scan list\<close>

fun joined :: "string list \<Rightarrow> string" where
  "joined [] = []"
| "joined [x] = x"
| "joined (x # xs) = x @ '','' @ joined xs"

lemma joined_snoc: "xs \<noteq> [] \<Longrightarrow> joined (xs @ [x]) = joined xs @ '','' @ x"
  by (induction xs rule: joined.induct) auto

definition escaped_name :: "wifi_scan_entry \<Rightarrow> string" where
  "escaped_name e = concat (map escape_char (cstr (we_ssid e)))"

definition scan_entry_ok :: "wifi_scan_entry \<Rightarrow> bool" where
  "scan_entry_ok e \<longleftrightarrow> cstr (we_ssid e) \<noteq> [] \<and> length (cstr (we_ssid e)) \<le> 32 \<and> - 128 \<le> we_rssi_dbm e \<and> we_rssi_dbm e \<le> 127"

lemma scan_entry_ok:
  assumes "scan_entry_ok e"
  shows "EscapeJsonString (cstr (we_ssid e)) HTTP_PORTAL_ESCAPED_SSID_MAX = Some (escaped_name e)" and "escaped_name e \<noteq> []"
    and "length (entry_json (escaped_name e) e) \<le> 240"
proof -
  have l: "length (escaped_name e) \<le> 192"
    using length_escaped [of "cstr (we_ssid e)"] assms by (simp add: escaped_name_def scan_entry_ok_def)
  then show "EscapeJsonString (cstr (we_ssid e)) HTTP_PORTAL_ESCAPED_SSID_MAX = Some (escaped_name e)"
    by (simp add: EscapeJsonString_eq escaped_name_def)
  have "escape_char c \<noteq> []" for c by (simp add: escape_char_def)
  then show "escaped_name e \<noteq> []" using assms by (cases "cstr (we_ssid e)") (auto simp: escaped_name_def scan_entry_ok_def)
  have "length (dec (nat (we_rssi_dbm e))) \<le> 3" "length (dec (nat (- we_rssi_dbm e))) \<le> 3"
    using assms by (auto simp: scan_entry_ok_def intro!: length_dec_le [where k = 2, simplified])
  then have "length (format_int (we_rssi_dbm e)) \<le> 4" by (simp add: format_int_def)
  then show "length (entry_json (escaped_name e) e) \<le> 240"
    using l by (simp add: entry_json_def format_bool_def)
qed

lemma scan_json_spec:
  assumes "list_all scan_entry_ok es" and "length json = 1 + length (joined xs)" and "length json \<le> HTTP_PORTAL_JSON_MAX - 2"
    and "index = length xs" and "json = ''['' @ joined xs"
  shows "\<exists>k\<le>length es. scan_json index es json = ''['' @ joined (xs @ map (\<lambda>e. entry_json (escaped_name e) e) (take k es)) \<and>
    length (scan_json index es json) \<le> HTTP_PORTAL_JSON_MAX - 2 \<and>
    (length json + 241 * length es \<le> HTTP_PORTAL_JSON_MAX - 2 \<longrightarrow> k = length es)"
  using assms
proof (induction es arbitrary: index json xs)
  case Nil
  then show ?case by simp
next
  case (Cons e es)
  let ?t = "entry_json (escaped_name e) e"
  let ?w = "(if 0 < index then '','' else []) @ ?t"
  have ok: "scan_entry_ok e" using Cons.prems(1) by simp
  note e = scan_entry_ok [OF ok]
  have step: "scan_json index (e # es) json =
      (if HTTP_PORTAL_JSON_MAX - length json < length ?w + 2 then json else scan_json (index + 1) es (json @ ?w))"
    using e by (simp add: Let_def)
  have j: "json @ ?w = ''['' @ joined (xs @ [?t])"
    using Cons.prems(4,5) joined_snoc [of xs ?t] by (cases xs) simp_all
  show ?case
  proof (cases "HTTP_PORTAL_JSON_MAX - length json < length ?w + 2")
    case True
    have "length ?w \<le> 241" using e(3) by simp
    then have "\<not> length json + 241 * length (e # es) \<le> HTTP_PORTAL_JSON_MAX - 2" using True by simp
    then show ?thesis unfolding step using True Cons.prems(3,5) by (intro exI [of _ 0]) simp
  next
    case False
    have "\<exists>k\<le>length es. scan_json (index + 1) es (json @ ?w) = ''['' @ joined ((xs @ [?t]) @ map (\<lambda>e. entry_json (escaped_name e) e) (take k es)) \<and>
      length (scan_json (index + 1) es (json @ ?w)) \<le> HTTP_PORTAL_JSON_MAX - 2 \<and>
      (length (json @ ?w) + 241 * length es \<le> HTTP_PORTAL_JSON_MAX - 2 \<longrightarrow> k = length es)"
    proof (rule Cons.IH)
      show "length (json @ ?w) = 1 + length (joined (xs @ [?t]))" unfolding j by simp
      show "length (json @ ?w) \<le> HTTP_PORTAL_JSON_MAX - 2" using False by simp
    qed (use Cons.prems j in simp_all)
    then obtain k where k: "k \<le> length es"
      "scan_json (index + 1) es (json @ ?w) = ''['' @ joined ((xs @ [?t]) @ map (\<lambda>e. entry_json (escaped_name e) e) (take k es))"
      "length (scan_json (index + 1) es (json @ ?w)) \<le> HTTP_PORTAL_JSON_MAX - 2"
      "length (json @ ?w) + 241 * length es \<le> HTTP_PORTAL_JSON_MAX - 2 \<longrightarrow> k = length es" by blast
    have s: "scan_json index (e # es) json = scan_json (index + 1) es (json @ ?w)" using step False by simp
    have "length ?w \<le> 241" using e(3) by simp
    then have "length json + 241 * length (e # es) \<le> HTTP_PORTAL_JSON_MAX - 2 \<longrightarrow> Suc k = length (e # es)" using k(4) by auto
    then show ?thesis unfolding s using k(1-3) by (intro exI [of _ "Suc k"]) simp
  qed
qed

text \<open>What a JSON reader makes of the list: one object per entry, with the name, the strength and the two flags.\<close>

definition entry_value :: "wifi_scan_entry \<Rightarrow> json" where
  "entry_value e = JObject [(''ssid'', JString (cstr (we_ssid e))), (''rssi'', JNumber (we_rssi_dbm e)),
     (''open'', JBool (we_is_open e)), (''uns'', JBool (we_is_unsupported e))]"

lemma read_format_int:
  "read_json_value (Suc n) (format_int i @ CHR '','' # rest) = Some (JNumber i, CHR '','' # rest)"
proof -
  have "\<not> is_json_digit (hd (CHR '','' # rest))" by (simp add: is_json_digit_def)
  then show ?thesis
    using read_number [of "CHR '','' # rest" n "nat i"] read_number [of "CHR '','' # rest" n "nat (- i)"] by (simp add: format_int_def)
qed

lemma read_format_bool: "read_json_value (Suc n) (format_bool b @ rest) = Some (JBool b, rest)"
  using read_bool [of n rest] by (simp add: format_bool_def)

lemma read_entry: "read_json_value (n + 6) (entry_json (escaped_name e) e @ rest) = Some (entry_value e, rest)"
proof -
  have plain: "list_all json_plain ''ssid''" "list_all json_plain ''rssi''" "list_all json_plain ''open''" "list_all json_plain ''uns''"
    by (simp_all add: json_plain_def less_char_def)
  have str: "read_json_value (Suc m) (CHR 0x22 # escaped_name e @ CHR 0x22 # CHR '','' # r) = Some (JString (cstr (we_ssid e)), CHR '','' # r)" for m r
    unfolding escaped_name_def by (simp add: read_escaped_string)
  let ?uns = "CHR 0x22 # ''uns'' @ CHR 0x22 # CHR '':'' # format_bool (we_is_unsupported e) @ CHR ''}'' # rest"
  let ?open = "CHR 0x22 # ''open'' @ CHR 0x22 # CHR '':'' # format_bool (we_is_open e) @ CHR '','' # ?uns"
  let ?rssi = "CHR 0x22 # ''rssi'' @ CHR 0x22 # CHR '':'' # format_int (we_rssi_dbm e) @ CHR '','' # ?open"
  let ?ssid = "CHR 0x22 # ''ssid'' @ CHR 0x22 # CHR '':'' # (CHR 0x22 # escaped_name e @ [CHR 0x22]) @ CHR '','' # ?rssi"
  note m4 = read_member_last [OF plain(4) read_format_bool [of n]]
  note m3 = read_member_more [OF plain(3) read_format_bool [of "Suc n"] m4]
  note m2 = read_member_more [OF plain(2) read_format_int [of "Suc (Suc n)"] m3]
  have "read_json_members (Suc (Suc (Suc (Suc (Suc n))))) ?ssid = Some ((''ssid'', JString (cstr (we_ssid e))) # [(''rssi'', JNumber (we_rssi_dbm e)),
      (''open'', JBool (we_is_open e)), (''uns'', JBool (we_is_unsupported e))], rest)"
    by (rule read_member_more [OF plain(1) _ m2]) (simp add: str del: read_json_value.simps)
  note o = read_object [OF this]
  have t: "entry_json (escaped_name e) e @ rest = CHR ''{'' # ?ssid" by (simp add: entry_json_def)
  have n: "n + 6 = Suc (Suc (Suc (Suc (Suc (Suc n)))))" by simp
  show ?thesis unfolding entry_value_def t n by (rule o)
qed

lemma read_entries:
  "es \<noteq> [] \<Longrightarrow> read_json_elements (n + 6 + length es) (joined (map (\<lambda>e. entry_json (escaped_name e) e) es) @ CHR '']'' # rest) =
     Some (map entry_value es, rest)"
proof (induction es rule: list_nonempty_induct)
  case (single e)
  have "n + 6 + length [e] = Suc (n + 6)" by simp
  then show ?case using read_element_last [OF read_entry [of n e "CHR '']'' # rest"]] by (simp only: list.map joined.simps)
next
  case (cons e es)
  have j: "joined (map (\<lambda>e. entry_json (escaped_name e) e) (e # es)) =
      entry_json (escaped_name e) e @ CHR '','' # joined (map (\<lambda>e. entry_json (escaped_name e) e) es)"
    using cons(1) by (cases es) simp_all
  have n: "n + 6 + length (e # es) = Suc (n + length es + 6)" "n + 6 + length es = n + length es + 6" by simp_all
  have m: "map entry_value (e # es) = entry_value e # map entry_value es" by simp
  show ?case unfolding j n(1) m append.assoc append_Cons
    by (rule read_element_more [OF read_entry]) (use cons(2) in \<open>simp only: n(2)\<close>)
qed

lemma json_of_list:
  "json_of (''['' @ joined (map (\<lambda>e. entry_json (escaped_name e) e) es) @ '']'') = Some (JArray (map entry_value es))"
proof (cases "es = []")
  case True
  then show ?thesis by (simp add: json_of_def)
next
  case False
  let ?f = "\<lambda>e. entry_json (escaped_name e) e"
  have len: "8 \<le> length (?f e)" for e by (simp add: entry_json_def)
  have "8 * length es \<le> length (joined (map ?f es))"
  proof (induction es)
    case (Cons e es)
    then show ?case using len [of e] by (cases es) simp_all
  qed simp
  moreover have "1 \<le> length es" using False by (cases es) auto
  ultimately obtain n where n: "length (''['' @ joined (map ?f es) @ '']'') = Suc (n + 6 + length es)"
    using le_Suc_ex [of "6 + length es" "length (joined (map ?f es)) + 1"] by (auto simp: ac_simps)
  obtain e es' where es: "es = e # es'" using False by (cases es) auto
  have hd: "hd (joined (map ?f es) @ r) = CHR ''{''" for r by (cases es') (simp_all add: es entry_json_def)
  have "read_json_value (Suc (n + 6 + length es)) (CHR ''['' # joined (map ?f es) @ '']'') = Some (JArray (map entry_value es), [])"
    by (rule read_array) (use read_entries [OF False, of n "[]"] hd [of "'']''"] in simp_all)
  then show ?thesis unfolding json_of_def n by (simp only: append.simps option.case prod.case if_True simp_thms)
qed

subsection \<open>Steps of server and orchestrator on the shared state\<close>

text \<open>Every request that changes the state, and the setters of the orchestrator, in any order; a new number is only
  issued while the 32-bit counter has not reached its maximum.\<close>

inductive portal_step :: "'n form_recv \<Rightarrow> http_state \<Rightarrow> http_state \<Rightarrow> bool" for recv where
  result: "portal_step recv s (SetHttpTunerResult m s)"
| identity: "portal_step recv s (SetHttpStationIdentity name ip s)"
| status: "portal_step recv s (SetHttpPortalStatus status s)"
| scan: "HandleScanRequest scanned s = (reply, s') \<Longrightarrow> portal_step recv s s'"
| submit: "HandleSubmitRequest recv is_started n (s, net) = (reply, calls, s', net') \<Longrightarrow> portal_step recv s s'"
| tuner: "hs_submit_seq s \<noteq> - 1 \<Longrightarrow> HandleTunerSubmitRequest recv n (s, net) = (reply, calls, s', net') \<Longrightarrow> portal_step recv s s'"
| station_tuner: "hs_submit_seq s \<noteq> - 1 \<Longrightarrow> HandleStationTunerSubmitRequest recv header n (s, net) = (reply, calls, s', net') \<Longrightarrow>
    portal_step recv s s'"
| read: "hs_submit_seq s \<noteq> - 1 \<Longrightarrow> HandleTunerReadRequest s = (reply, calls, s') \<Longrightarrow> portal_step recv s s'"
| station_read: "hs_submit_seq s \<noteq> - 1 \<Longrightarrow> HandleStationTunerReadRequest header s = (reply, calls, s') \<Longrightarrow> portal_step recv s s'"

inductive portal_run :: "'n form_recv \<Rightarrow> http_state \<Rightarrow> http_state \<Rightarrow> bool" for recv where
  refl: "portal_run recv s s"
| step: "portal_run recv s s' \<Longrightarrow> portal_step recv s' s'' \<Longrightarrow> portal_run recv s s''"

lemma tuner_submit_cases:
  assumes "HandleTunerSubmitRequest recv n (s, net) = (reply, calls, s', net')"
  shows "(calls = [] \<and> hr_status reply = ''400 Bad Request'' \<and>
      (\<exists>b. s' = s\<lparr>hs_tuner_body := b\<rparr> \<and> (b = hs_tuner_body s \<or> b = zero_tuner_body))) \<or>
    (\<exists>timing. valid_timing timing \<and> calls = [APPLY_LED_TIMING timing (hs_submit_seq s + 1)] \<and>
       reply = respond_seq (hs_submit_seq s + 1) ''Sent'' \<and>
       s' = s\<lparr>hs_tuner_body := zero_tuner_body, hs_submit_seq := hs_submit_seq s + 1\<rparr>)"
proof -
  note H = HandleTunerSubmitRequest_def Let_def RespondTunerRejected_def respond_def
  have body: "s = s\<lparr>hs_tuner_body := hs_tuner_body s\<rparr>" by simp
  show ?thesis
  proof (cases "sint n \<le> 0 \<or> int TUNER_BODY_MAX < sint n")
    case True
    then have "calls = [] \<and> hr_status reply = ''400 Bad Request'' \<and> s' = s" using assms by (auto simp: H)
    then show ?thesis using body by blast
  next
    case False
    obtain r net1 where r: "recv_form recv (nat (sint n)) 0 [] net = (r, net1)" by fastforce
    show ?thesis
    proof (cases r)
      case None
      then show ?thesis using assms False r by (auto simp: H)
    next
      case (Some received)
      let ?parsed = "ParseTunerForm (cstr (overwrite 0 (take (nat (sint n)) received @ [NUL]) (hs_tuner_body s)))"
      show ?thesis
      proof (cases ?parsed)
        case None
        then show ?thesis using assms False r Some by (auto simp: H)
      next
        case t: (Some timing)
        show ?thesis
        proof (cases "ValidateWs2812Timing timing")
          case WS2812_TIMING_OK
          then have "valid_timing timing" by (simp add: ValidateWs2812Timing_OK)
          then show ?thesis using assms False r Some t WS2812_TIMING_OK by (auto simp: H)
        qed (use assms False r Some t in \<open>auto simp: H\<close>)
      qed
    qed
  qed
qed

text \<open>What a step may do to the counter and the record.\<close>

lemma portal_step_counter:
  assumes "portal_step recv s s'"
  shows "(hs_submit_seq s' = hs_submit_seq s \<or> hs_submit_seq s \<noteq> - 1 \<and> hs_submit_seq s' = hs_submit_seq s + 1) \<and>
    (hs_result s' = hs_result s \<or> wm_submit_seq (hs_result s) \<le> wm_submit_seq (hs_result s')) \<and>
    (hs_result_mutex s \<longrightarrow> hs_result_mutex s')"
  using assms
proof cases
  case (result m)
  then show ?thesis by (auto simp: SetHttpTunerResult_def Let_def split: option.splits)
next
  case (scan scanned reply)
  then show ?thesis by (auto simp: HandleScanRequest_def Let_def split: option.splits)
next
  case (submit is_started n net reply calls net')
  then show ?thesis by (auto simp: HandleSubmitRequest_def Let_def SetHttpPortalStatus_def split: if_splits prod.splits option.splits)
next
  case (tuner n net reply calls net')
  from tuner_submit_cases [OF this(2)] this(1) show ?thesis by auto
next
  case (station_tuner header n net reply calls net')
  then have "s' = s \<or> HandleTunerSubmitRequest recv n (s, net) = (reply, calls, s', net')"
    by (auto simp: HandleStationTunerSubmitRequest_def split: if_splits)
  then show ?thesis using tuner_submit_cases [of recv n s net reply calls s' net'] station_tuner(1) by auto
qed (auto simp: SetHttpStationIdentity_def SetHttpPortalStatus_def HandleTunerReadRequest_def HandleStationTunerReadRequest_def Let_def
    split: if_splits)

lemma portal_run_counter:
  "portal_run recv s s' \<Longrightarrow> hs_submit_seq s \<le> hs_submit_seq s' \<and> wm_submit_seq (hs_result s) \<le> wm_submit_seq (hs_result s') \<and>
     (hs_result_mutex s \<longrightarrow> hs_result_mutex s')"
proof (induction rule: portal_run.induct)
  case (step s s' s'')
  have inc: "x \<le> x + 1" if "x \<noteq> - 1" for x :: u32
  proof -
    have "1 + x \<noteq> 0" using that by (simp add: eq_neg_iff_add_eq_0 add.commute)
    from unatSuc [OF this] show ?thesis by (simp add: word_le_nat_alt add.commute)
  qed
  from portal_step_counter [OF step(2)] have "hs_submit_seq s' \<le> hs_submit_seq s''" "wm_submit_seq (hs_result s') \<le> wm_submit_seq (hs_result s'')"
    "hs_result_mutex s' \<longrightarrow> hs_result_mutex s''" using inc [of "hs_submit_seq s'"] by auto
  with step(3) show ?case by (meson order_trans)
qed simp

subsection \<open>Properties\<close>

text \<open>C30: only valid timing sets reach the strip, each with a number of its own. Whatever a tuner request carries and however the
  connection behaves, either the reply is 400 and nothing else happens (no call, no number used), or the owner is called exactly
  once, with a timing set that satisfies all the rules and the next number, which is also in the reply; and the body buffer is
  cleared.\<close>

theorem HandleTunerSubmitRequest_valid_only:
  assumes "HandleTunerSubmitRequest recv content_len (s, net) = (reply, calls, s', net')"
    and "hs_tuner_body s = zero_tuner_body"
  shows "hs_tuner_body s' = zero_tuner_body \<and> hs_result s' = hs_result s \<and> hs_identity s' = hs_identity s \<and>
    (calls = [] \<and> hr_status reply = ''400 Bad Request'' \<and> hs_submit_seq s' = hs_submit_seq s \<or>
     (\<exists>timing. calls = [APPLY_LED_TIMING timing (hs_submit_seq s + 1)] \<and> valid_timing timing \<and>
        hs_submit_seq s' = hs_submit_seq s + 1 \<and> hr_status reply = ''200 OK'' \<and>
        (''Tuner-Seq'', dec (unat (hs_submit_seq s + 1))) \<in> set (hr_headers reply)))"
proof -
  have "snprintf 11 (dec (unat (w :: u32))) = dec (unat w)" for w by (rule snprintf_fits) (use length_dec_word [of w] in simp)
  then show ?thesis
    using tuner_submit_cases [OF assms(1)] assms(2) by (auto simp: respond_seq_def respond_def)
qed

text \<open>What the tuner page sends is applied. If the form of a valid timing set arrives, in pieces of any size and with at most three
  receive timeouts in all, the owner is called with exactly this timing set and the next number, and the reply is 200.\<close>

theorem tuner_form_applied:
  assumes "valid_timing t" and "form_arrives recv 0 (tuner_form t) net" and "length (hs_tuner_body s) = TUNER_BODY_MAX + 1"
  shows "\<exists>net'. HandleTunerSubmitRequest recv (of_nat (length (tuner_form t))) (s, net) =
    (respond_seq (hs_submit_seq s + 1) ''Sent'', [APPLY_LED_TIMING t (hs_submit_seq s + 1)],
     s\<lparr>hs_tuner_body := zero_tuner_body, hs_submit_seq := hs_submit_seq s + 1\<rparr>, net')"
proof -
  have b: "unat (wt_bit0_high_ns t) < 10000" "unat (wt_bit0_period_ns t) < 10000" "unat (wt_bit1_high_ns t) < 10000"
    "unat (wt_bit1_period_ns t) < 10000" "unat (wt_reset_us t) < 10000"
    using assms(1) by (simp_all add: valid_timing_def valid_ranges_def on_step_def)
  have d: "length (dec (unat w)) \<le> 4" if "unat w < 10000" for w :: u16 using length_dec_le [of "unat w" 3] that by simp
  have len: "0 < length (tuner_form t)" "length (tuner_form t) \<le> TUNER_BODY_MAX"
    using d [OF b(1)] d [OF b(2)] d [OF b(3)] d [OF b(4)] d [OF b(5)] by (simp_all add: tuner_form_def)
  have "NUL \<notin> set (dec n)" for n using dec_digits [of n] by (auto simp: list_all_iff is_digit_iff NUL_def)
  then have "NUL \<notin> set (tuner_form t)" by (simp add: tuner_form_def NUL_def)
  note body = stored_body [OF assms(3) len(2) this]
  have n: "sint (of_nat (length (tuner_form t)) :: u32) = int (length (tuner_form t))"
    using len(2) by (simp add: signed_of_nat signed_take_bit_int_eq_self)
  obtain net' where r: "recv_form recv (length (tuner_form t)) 0 [] net = (Some (tuner_form t), net')"
    using recv_form_arrives [OF assms(2), of "[]"] by auto
  have v: "ValidateWs2812Timing t = WS2812_TIMING_OK" using assms(1) by (simp add: ValidateWs2812Timing_OK)
  show ?thesis
    using len r body v ParseTunerForm_roundtrip [OF b]
    by (simp add: HandleTunerSubmitRequest_def n Let_def)
qed

text \<open>A connection that delivers a form in one piece.\<close>

definition whole_recv :: "string form_recv" where
  "whole_recv n net = (RECV_PART (take n net), drop n net)"

lemma whole_recv_arrives: "body \<noteq> [] \<Longrightarrow> form_arrives whole_recv 0 body body"
  using form_arrives.part [of whole_recv body "[]" body "[]" 0] form_arrives.complete [of whole_recv 0 "[]"]
  by (simp add: whole_recv_def)

lemma default_form: "tuner_form default_timing \<noteq> []" "valid_timing default_timing"
  by (simp_all add: tuner_form_def default_timing_def valid_timing_def valid_ranges_def on_step_def)

theorem tuner_form_applied_witness:
  "\<exists>net'. HandleTunerSubmitRequest whole_recv (of_nat (length (tuner_form default_timing))) (initial_http, tuner_form default_timing) =
    (respond_seq 1 ''Sent'', [APPLY_LED_TIMING default_timing 1],
     initial_http\<lparr>hs_tuner_body := zero_tuner_body, hs_submit_seq := 1\<rparr>, net')"
  using tuner_form_applied [OF default_form(2) whole_recv_arrives [OF default_form(1)], of initial_http]
  by (simp add: initial_http_def)

theorem HandleTunerSubmitRequest_valid_only_witness:
  "\<exists>reply calls s' net'. HandleTunerSubmitRequest whole_recv 3 (initial_http, ''a=1'') = (reply, calls, s', net') \<and>
     hs_tuner_body s' = zero_tuner_body"
proof -
  obtain reply calls s' net' where h: "HandleTunerSubmitRequest whole_recv 3 (initial_http, ''a=1'') = (reply, calls, s', net')"
    by (metis prod.exhaust)
  have "hs_tuner_body initial_http = zero_tuner_body" by (simp add: initial_http_def zero_tuner_body_def)
  from HandleTunerSubmitRequest_valid_only [OF h this] h show ?thesis by blast
qed

definition served_state :: "u32 \<Rightarrow> http_state \<Rightarrow> tuner_result_state" where
  "served_state n s = GetTunerResultState n (hs_submit_seq s) (if hs_result_mutex s then hs_result s else zero_measurement)"



lemma HandleSubmitRequest_cases:
  assumes "HandleSubmitRequest recv is_started content_len (s, net) = (reply, calls, s', net')" and "hs_body s = zero_body"
  shows "calls = [] \<and> (s' = s \<or> s' = s\<lparr>hs_body := zero_body\<rparr>) \<or>
    (\<exists>c. calls = [SUBMIT_CREDENTIALS c] \<and> wf_credentials c \<and> ValidateSubmission c (hs_entries s) (hs_entry_count s) \<and>
      s' = s\<lparr>hs_body := zero_body, hs_status := (if is_started c then PORTAL_STATUS_CONNECTING else hs_status s)\<rparr>)"
proof -
  have wf: "submitted_candidate body = Some c \<Longrightarrow> wf_credentials c" for body c
    by (auto simp: submitted_candidate_def wf_credentials_def split: option.splits)
  show ?thesis
  proof (cases "sint content_len \<le> 0 \<or> int HTTP_PORTAL_FORM_MAX < sint content_len")
    case True
    then show ?thesis using assms(1) by (auto simp: HandleSubmitRequest_def Let_def)
  next
    case False
    obtain r net1 where r: "recv_form recv (nat (sint content_len)) 0 [] net = (r, net1)" by fastforce
    show ?thesis
    proof (cases r)
      case None
      then show ?thesis using assms(1) False r by (auto simp: HandleSubmitRequest_def Let_def)
    next
      case (Some received)
      let ?body = "cstr (overwrite 0 (take (nat (sint content_len)) received @ [NUL]) (hs_body s))"
      show ?thesis
      proof (cases "submitted_candidate ?body")
        case None
        then show ?thesis using assms(1) False r Some by (auto simp: HandleSubmitRequest_def Let_def)
      next
        case c: (Some c)
        then show ?thesis
          using assms(1) False r Some wf [OF c]
          by (cases "is_started c") (auto simp: HandleSubmitRequest_def Let_def SetHttpPortalStatus_def split: if_splits)
      qed
    qed
  qed
qed

text \<open>C32: what may become a connection trial. A submission calls the owner at most once and only with a valid pair for a network it can
  join: one of the last scan that is supported, with a password exactly if it is secured, or an unlisted one with a password. The
  status becomes connecting exactly when the owner accepts, and the form buffer, which held the password, is cleared in every case.\<close>

theorem HandleSubmitRequest_checked:
  assumes "HandleSubmitRequest recv is_started content_len (s, net) = (reply, calls, s', net')" and "hs_body s = zero_body"
  shows "hs_body s' = zero_body \<and> hs_submit_seq s' = hs_submit_seq s \<and> hs_result s' = hs_result s \<and>
    (calls = [] \<and> hs_status s' = hs_status s \<or>
     (\<exists>c. calls = [SUBMIT_CREDENTIALS c] \<and> IsCredentialsValid (Some c) \<and>
        (case find (\<lambda>e. cstr (we_ssid e) = cstr (wc_ssid c)) (take (hs_entry_count s) (hs_entries s)) of
           None \<Rightarrow> cstr (wc_password c) \<noteq> []
         | Some e \<Rightarrow> \<not> we_is_unsupported e \<and> we_is_open e = (cstr (wc_password c) = [])) \<and>
        hs_status s' = (if is_started c then PORTAL_STATUS_CONNECTING else hs_status s)))"
proof -
  have "calls = [] \<and> (s' = s \<or> s' = s\<lparr>hs_body := zero_body\<rparr>) \<or>
    (\<exists>c. calls = [SUBMIT_CREDENTIALS c] \<and> wf_credentials c \<and> ValidateSubmission c (hs_entries s) (hs_entry_count s) \<and>
      s' = s\<lparr>hs_body := zero_body, hs_status := (if is_started c then PORTAL_STATUS_CONNECTING else hs_status s)\<rparr>)"
    by (rule HandleSubmitRequest_cases [OF assms])
  then show ?thesis
    using assms(2) by (elim disjE conjE exE) (auto simp: ValidateSubmission_spec)
qed

theorem HandleSubmitRequest_checked_witness:
  "\<exists>reply calls s' net'. HandleSubmitRequest whole_recv (\<lambda>c. True) 3 (initial_http, ''a=1'') = (reply, calls, s', net') \<and>
     hs_body s' = zero_body"
proof -
  obtain reply calls s' net' where h: "HandleSubmitRequest whole_recv (\<lambda>c. True) 3 (initial_http, ''a=1'') = (reply, calls, s', net')"
    by (metis prod.exhaust)
  have "hs_body initial_http = zero_body" by (simp add: initial_http_def zero_body_def)
  from HandleSubmitRequest_checked [OF h this] h show ?thesis by blast
qed

text \<open>What a scan returns: names of 1 to 32 characters, and the strength the driver reported, an \<open>int8_t\<close>.\<close>

lemma ScanWifiNetworks_entries:
  assumes "ScanWifiNetworks p n io = (Some es, io')"
    and "\<forall>e. \<forall>records e'. pl_scan_records p e = (Some records, e') \<longrightarrow> list_all (\<lambda>r. - 128 \<le> ar_rssi r \<and> ar_rssi r \<le> 127) records"
  shows "list_all scan_entry_ok es \<and> distinct (map name_of es) \<and> length es \<le> 20"
proof -
  from assms(1) obtain records e0 e1 where r: "pl_scan_records p e0 = (Some records, e1)"
    and es: "case NormalizeWifiScanEntries (map raw_entry (take WIFI_SCAN_RAW_MAX records)) (length (map raw_entry (take WIFI_SCAN_RAW_MAX records)))
      (if n < WIFI_SCAN_MAX_ENTRIES then n else WIFI_SCAN_MAX_ENTRIES) of (kept, entries) \<Rightarrow> es = take kept entries"
    by (auto simp: ScanWifiNetworks_def Let_def split: prod.splits if_splits option.splits)
  let ?raw = "map raw_entry (take WIFI_SCAN_RAW_MAX records)" and ?m = "if n < WIFI_SCAN_MAX_ENTRIES then n else WIFI_SCAN_MAX_ENTRIES"
  have ne: "\<forall>e\<in>set ?raw. we_ssid e \<noteq> []" by (auto simp: raw_entry_def cfield_def)
  have es': "es = normalized ?m ?raw"
    using Normalize_spec [OF order_refl ne, of ?m] es by (auto split: prod.splits)
  have sub: "set es \<subseteq> set (dedup (sort_key strength ?raw))" unfolding es' normalized_def by (rule set_take_subset)
  have raw: "length (name_of (raw_entry x)) \<le> 32 \<and> we_rssi_dbm (raw_entry x) = ar_rssi x" for x
  proof -
    have "NUL \<notin> set (take 32 (cstr (ar_ssid x)))" by (meson NUL_notin_cstr in_set_takeD)
    from cstr_cfield [OF this, of 33] show ?thesis by (simp add: raw_entry_def name_of_def)
  qed
  have "scan_entry_ok e" if "e \<in> set es" for e
  proof -
    have e: "e \<in> set (dedup (sort_key strength ?raw))" using that sub by blast
    then have "name_of e \<in> name_of ` set (dedup (sort_key strength ?raw))" by blast
    then have "name_of e \<noteq> []" unfolding names_dedup by simp
    moreover have "e \<in> set ?raw" using e set_dedup [of "sort_key strength ?raw"] by auto
    then obtain x where x: "x \<in> set records" "e = raw_entry x" by (auto dest: in_set_takeD)
    moreover have "- 128 \<le> ar_rssi x \<and> ar_rssi x \<le> 127" using assms(2) r x(1) by (auto simp: list_all_iff)
    ultimately show ?thesis using raw [of x] by (simp add: scan_entry_ok_def name_of_def)
  qed
  moreover have "distinct (map name_of es)" unfolding es' normalized_def take_map [symmetric] by (intro distinct_take distinct_dedup)
  moreover have "length es \<le> 20" unfolding es' normalized_def by auto
  ultimately show ?thesis by (simp add: list_all_iff)
qed

text \<open>C33: the scan reply is well-formed JSON and never overflows. For whatever the driver finds, a JSON reader (theory Json) reads the whole
  body as one list, with one object per entry of a prefix of the scanned entries, in their order: the name of the network, its strength, and
  whether it is open and unsupported, each as scanned, whatever characters the name has; the body has at most 4,095 characters; the
  prefix is the whole list when there are at most 16 entries; and the entries are kept for the submission check.\<close>

theorem HandleScanRequest_wellformed:
  assumes "ScanWifiNetworks p 20 io = (Some es, io')"
    and "\<forall>e. \<forall>records e'. pl_scan_records p e = (Some records, e') \<longrightarrow> list_all (\<lambda>r. - 128 \<le> ar_rssi r \<and> ar_rssi r \<le> 127) records"
    and "HandleScanRequest (Some es) s = (reply, s')"
  shows "\<exists>k\<le>length es.
    json_of (hr_body reply) = Some (JArray (map (\<lambda>e. JObject [(''ssid'', JString (cstr (we_ssid e))), (''rssi'', JNumber (we_rssi_dbm e)),
      (''open'', JBool (we_is_open e)), (''uns'', JBool (we_is_unsupported e))]) (take k es))) \<and>
    length (hr_body reply) < HTTP_PORTAL_JSON_MAX \<and> (length es \<le> 16 \<longrightarrow> k = length es) \<and>
    take (hs_entry_count s') (hs_entries s') = es"
proof -
  have ok: "list_all scan_entry_ok es" using ScanWifiNetworks_entries [OF assms(1,2)] by simp
  have "\<exists>k\<le>length es. scan_json 0 es ''['' = ''['' @ joined ([] @ map (\<lambda>e. entry_json (escaped_name e) e) (take k es)) \<and>
    length (scan_json 0 es ''['') \<le> HTTP_PORTAL_JSON_MAX - 2 \<and>
    (length ''['' + 241 * length es \<le> HTTP_PORTAL_JSON_MAX - 2 \<longrightarrow> k = length es)"
    by (rule scan_json_spec [OF ok]) simp_all
  then obtain k where k: "k \<le> length es" "scan_json 0 es ''['' = ''['' @ joined (map (\<lambda>e. entry_json (escaped_name e) e) (take k es))"
    "length (scan_json 0 es ''['') \<le> HTTP_PORTAL_JSON_MAX - 2"
    "length ''['' + 241 * length es \<le> HTTP_PORTAL_JSON_MAX - 2 \<longrightarrow> k = length es" unfolding append_Nil by blast
  have r: "hr_body reply = scan_json 0 es ''['' @ '']''" "s' = s\<lparr>hs_entries := es, hs_entry_count := length es\<rparr>"
    using assms(3) by (auto simp: HandleScanRequest_def respond_def Let_def)
  have "json_of (hr_body reply) = Some (JArray (map entry_value (take k es)))"
    using json_of_list [of "take k es"] unfolding r k(2) by simp
  then show ?thesis unfolding entry_value_def [abs_def] by (intro exI [of _ k]) (use k r in simp)
qed

definition example_platform :: "unit platform" where
  "example_platform = \<lparr>pl_call = (\<lambda>c e. (ESP_OK, e)), pl_mode = (\<lambda>e. WIFI_MODE_APSTA), pl_ap_ip = (\<lambda>e. Some 1), pl_sta_ip = (\<lambda>e. Some 1),
     pl_scan_records = (\<lambda>e. (Some [\<lparr>ar_ssid = ''home'', ar_rssi = - 60, ar_authmode = WIFI_AUTH_WPA2_PSK\<rparr>], e)),
     pl_mac = (\<lambda>e. [0, 0, 0, 0, 0, 0]), pl_hostname = (\<lambda>e. (ESP_OK, ''rgb-tuner'')), pl_ticks = (\<lambda>e. 0)\<rparr>"

theorem HandleScanRequest_wellformed_witness:
  "\<exists>es io' reply s'. ScanWifiNetworks example_platform 20 \<lparr>io_env = (), io_log = []\<rparr> = (Some es, io') \<and>
     HandleScanRequest (Some es) initial_http = (reply, s') \<and> length (hr_body reply) < 4096 \<and> (\<exists>vs. json_of (hr_body reply) = Some (JArray vs))"
proof -
  obtain es io' where s: "ScanWifiNetworks example_platform 20 \<lparr>io_env = (), io_log = []\<rparr> = (Some es, io')"
    by (cases "ScanWifiNetworks example_platform 20 \<lparr>io_env = (), io_log = []\<rparr>")
      (auto simp: ScanWifiNetworks_def example_platform_def esp_def split: prod.splits)
  obtain reply s' where h: "HandleScanRequest (Some es) initial_http = (reply, s')" by fastforce
  have "\<forall>e. \<forall>records e'. pl_scan_records example_platform e = (Some records, e') \<longrightarrow>
      list_all (\<lambda>r. - 128 \<le> ar_rssi r \<and> ar_rssi r \<le> 127) records"
    by (simp add: example_platform_def)
  from HandleScanRequest_wellformed [OF s this h] s h show ?thesis by blast
qed

text \<open>The origins that are the device itself.\<close>

definition own_origin :: "http_state \<Rightarrow> string \<Rightarrow> bool" where
  "own_origin s origin \<longleftrightarrow> length origin \<le> 96 \<and>
     (\<exists>host port. map tolower origin = ''http://'' @ host @ port \<and> (port = [] \<or> port = '':80'') \<and>
        (host = ''rgb-tuner.local'' \<or> (hs_identity_mutex s \<and>
          ((1 \<le> length (si_hostname_in_use (hs_identity s)) \<and> length (si_hostname_in_use (hs_identity s)) \<le> 63 \<and>
              host = map tolower (si_hostname_in_use (hs_identity s)) @ ''.local'') \<or>
           (si_station_ipv4 (hs_identity s) \<noteq> 0 \<and> host = dotted (le32 (si_station_ipv4 (hs_identity s))))))))"

text \<open>C34: pages of other sites cannot operate the device. The two requests of the station profile that change something are served, exactly as
  in provisioning mode, if they carry no Origin header, or one that names the device itself: without regard to case and in full, http://
  followed by rgb-tuner.local, by the mDNS name in use (1 to 63 characters) with .local, or by the dotted decimal station address
  without leading zeros, and then nothing or exactly :80, in at most 96 characters. Any other request, one whose header is too long or
  cannot be read included, is answered 403, reads nothing of the body, calls nothing and changes nothing; there is no prefix, suffix,
  other port or other notation of the address that gets through.\<close>

theorem station_requests_own_origin:
  assumes "header = (result, origin)" and "NUL \<notin> set origin" and "NUL \<notin> set (si_hostname_in_use (hs_identity s))"
  shows "if result = ESP_ERR_NOT_FOUND \<or> result = ESP_OK \<and> own_origin s origin
    then HandleStationTunerSubmitRequest recv header n (s, net) = HandleTunerSubmitRequest recv n (s, net) \<and>
      HandleStationTunerReadRequest header s = HandleTunerReadRequest s
    else HandleStationTunerSubmitRequest recv header n (s, net) = (RespondForbiddenOrigin, [], s, net) \<and>
      HandleStationTunerReadRequest header s = (RespondForbiddenOrigin, [], s) \<and> hr_status RespondForbiddenOrigin = ''403 Forbidden''"
proof -
  have own: "(if hs_identity_mutex s then IsHttpStationOriginAllowed (Some origin) (Some (si_hostname_in_use (hs_identity s)))
      (si_station_ipv4 (hs_identity s)) else IsHttpStationOriginAllowed (Some origin) None 0) = own_origin s origin"
    using IsHttpStationOriginAllowed_spec [OF assms(2,3), of "si_station_ipv4 (hs_identity s)"]
      IsHttpStationOriginAllowed_spec [OF assms(2), of "[]" 0] no_identity_origin [of "Some origin"]
    by (cases "hs_identity_mutex s") (simp_all add: own_origin_def)
  have absent: "IsHttpStationOriginAllowed None name ip" for name ip by (simp add: IsHttpStationOriginAllowed_def)
  have "ESP_ERR_NOT_FOUND \<noteq> ESP_OK" by simp
  then have "IsStationOriginAllowed header s = (result = ESP_ERR_NOT_FOUND \<or> result = ESP_OK \<and> own_origin s origin)"
    using own absent by (auto simp: IsStationOriginAllowed_def assms(1) Let_def split: if_splits)
  then show ?thesis
    by (simp add: HandleStationTunerSubmitRequest_def HandleStationTunerReadRequest_def RespondForbiddenOrigin_def respond_def)
qed

theorem station_requests_own_origin_witness:
  "HandleStationTunerReadRequest (ESP_OK, ''http://evil'') initial_http = (RespondForbiddenOrigin, [], initial_http) \<and>
   HandleStationTunerReadRequest (ESP_OK, ''HTTP://RGB-tuner.local:80'') initial_http = HandleTunerReadRequest initial_http"
proof -
  have n: "NUL \<notin> set ''HTTP://RGB-tuner.local:80''" "NUL \<notin> set ''http://evil''" "NUL \<notin> set (si_hostname_in_use (hs_identity initial_http))"
    by (simp_all add: NUL_def initial_http_def)
  have "map tolower ''HTTP://RGB-tuner.local:80'' = ''http://'' @ ''rgb-tuner.local'' @ '':80''"
    by (simp add: tolower_def char_of_def bit_0)
  then have o: "own_origin initial_http ''HTTP://RGB-tuner.local:80''"
    unfolding own_origin_def by (intro conjI exI) (simp, simp_all only:, simp_all)
  have e: "\<not> own_origin initial_http ''http://evil''" by (auto simp: own_origin_def initial_http_def tolower_def)
  have "ESP_ERR_NOT_FOUND \<noteq> ESP_OK" by simp
  then show ?thesis
    using station_requests_own_origin [OF HOL.refl n(2,3), where result = ESP_OK] e
      station_requests_own_origin [OF HOL.refl n(1,3), where result = ESP_OK] o by (metis (full_types))
qed

end
