(* ===== verification/DnsServer.thy ===== *)
theory DnsServer
  imports Platform
begin

section \<open>The wildcard DNS responder\<close>

text \<open>
  Model of main/dns_server/dns_server.c. The query is the list of the bytes received and the response buffer a list of its
  size. \<open>is_alias\<close> says that the response is built over the query (the same buffer), as the task does. The socket calls are
  parameters: their results, the bytes \<open>recvfrom\<close> returned and the stop flag each turn of the task's loop has seen.
\<close>

abbreviation (input) DNS_HEADER_SIZE :: nat where "DNS_HEADER_SIZE \<equiv> 12"
abbreviation (input) DNS_PACKET_MAX :: nat where "DNS_PACKET_MAX \<equiv> 512"
abbreviation (input) DNS_ANSWER_SIZE :: nat where "DNS_ANSWER_SIZE \<equiv> 16"
abbreviation (input) DNS_TYPE_A :: u16 where "DNS_TYPE_A \<equiv> 1"
abbreviation (input) DNS_CLASS_IN :: u16 where "DNS_CLASS_IN \<equiv> 1"
abbreviation (input) DNS_SERVER_TTL_S :: byte where "DNS_SERVER_TTL_S \<equiv> 30"

text \<open>The loop over the labels: the position of the terminator (or of the end of the packet), None for a bad label.\<close>

function skip_name :: "byte list \<Rightarrow> nat \<Rightarrow> nat option" where
  "skip_name query name_end =
     (if \<not> (name_end < length query \<and> query ! name_end \<noteq> 0) then Some name_end
      else let label_length = unat (query ! name_end)
           in if 63 < label_length \<or> length query \<le> name_end + label_length + 1 then None
              else skip_name query (name_end + (label_length + 1)))"
  by pat_completeness auto
termination
  by (relation "measure (\<lambda>(query, name_end). length query - name_end)") auto

declare skip_name.simps [simp del]

definition read_be16 :: "byte \<Rightarrow> byte \<Rightarrow> u16" where
  "read_be16 hi lo = push_bit 8 (ucast hi) OR ucast lo"

definition dns_answer_header :: "byte list" where
  "dns_answer_header = [0xC0, 0x0C, 0, 1, 0, 1, 0, 0, 0, DNS_SERVER_TTL_S, 0, 4]"

definition BuildDnsResponse :: "byte list \<Rightarrow> u32 \<Rightarrow> bool \<Rightarrow> byte list \<Rightarrow> nat \<times> byte list" where
  "BuildDnsResponse query ip_addr is_alias response =
     (if length query < DNS_HEADER_SIZE + 5 \<or> (query ! 2) AND 0x80 \<noteq> 0 \<or> query ! 4 \<noteq> 0 \<or> query ! 5 \<noteq> 1 then (0, response)
      else case skip_name query DNS_HEADER_SIZE of
        None \<Rightarrow> (0, response)
      | Some name_end \<Rightarrow>
          let question_end = name_end + 1 + 4 in
          if length query \<le> name_end \<or> length query < question_end \<or> length response < question_end + DNS_ANSWER_SIZE
          then (0, response)
          else let type = read_be16 (query ! (name_end + 1)) (query ! (name_end + 2));
                   class_in = read_be16 (query ! (name_end + 3)) (query ! (name_end + 4));
                   is_a_query = (type = DNS_TYPE_A \<and> class_in = DNS_CLASS_IN);
                   response = (if is_alias then response else overwrite 0 (take question_end query) response);
                   response = response[2 := 0x80 OR ((query ! 2) AND 0x01)];
                   response = response[3 := 0x80];
                   response = response[6 := 0];
                   response = response[7 := (if is_a_query then 1 else 0)];
                   response = overwrite 8 [0, 0, 0, 0] response
               in if \<not> is_a_query then (question_end, response)
                  else (question_end + DNS_ANSWER_SIZE,
                        overwrite question_end (dns_answer_header @ le32 ip_addr) response))"

record dns_state =
  ds_task :: bool
  ds_is_stop_requested :: bool
  ds_ip_addr :: u32
  ds_packet :: "byte list"

text \<open>One turn of the loop: nothing for a receive timeout or error, else the reply sent, if any.\<close>

definition dns_round :: "byte list option \<Rightarrow> dns_state \<Rightarrow> byte list option \<times> dns_state" where
  "dns_round received d = (case received of
     None \<Rightarrow> (None, d)
   | Some bytes \<Rightarrow>
       let (response_length, packet) = BuildDnsResponse bytes (ds_ip_addr d) True (overwrite 0 bytes (ds_packet d))
       in (if 0 < response_length then Some (take response_length packet) else None, d\<lparr>ds_packet := packet\<rparr>))"

text \<open>
  The task: the results of \<open>socket\<close>, \<open>bind\<close> and \<open>setsockopt\<close>, and for each turn of the loop the stop flag it read and what \<open>recvfrom\<close>
  would return then. The result is whether the task has ended, the calls on the socket, and the state.
\<close>

record dns_socket =
  so_fd :: int
  so_bind :: int
  so_timeout :: int

datatype dns_call = DNS_SEND "byte list" | DNS_CLOSE

fun dns_loop :: "(bool \<times> byte list option) list \<Rightarrow> dns_state \<Rightarrow> bool \<times> dns_call list \<times> dns_state" where
  "dns_loop [] d = (False, [], d)"
| "dns_loop ((is_stop_requested, received) # turns) d =
     (if is_stop_requested then (True, [], d)
      else let (reply, d) = dns_round received d;
               (is_ended, calls, d) = dns_loop turns d
           in (is_ended, (case reply of None \<Rightarrow> calls | Some bytes \<Rightarrow> DNS_SEND bytes # calls), d))"

definition RunDnsTask :: "dns_socket \<Rightarrow> (bool \<times> byte list option) list \<Rightarrow> dns_state \<Rightarrow> bool \<times> dns_call list \<times> dns_state" where
  "RunDnsTask socket turns d =
     (if so_fd socket < 0 \<or> so_bind socket \<noteq> 0 \<or> so_timeout socket \<noteq> 0
      then (True, if 0 \<le> so_fd socket then [DNS_CLOSE] else [], d)
      else let (is_ended, calls, d) = dns_loop turns d in (is_ended, calls @ (if is_ended then [DNS_CLOSE] else []), d))"

text \<open>
  Stopping waits (\<open>DNS_TASK_WAIT\<close>) until the task has deleted itself or 2 s have passed. The loop of this wait: whether the task is
  deleted and the tick count at each test; the result, None while it still waits, is whether the task was deleted.
\<close>

fun stop_wait :: "u32 \<Rightarrow> (bool \<times> u32) list \<Rightarrow> bool option" where
  "stop_wait deadline_ticks [] = None"
| "stop_wait deadline_ticks ((is_deleted, ticks) # tests) =
     (if \<not> is_deleted \<and> ticks < deadline_ticks then stop_wait deadline_ticks tests else Some is_deleted)"

definition StopDnsServer :: "'e platform \<Rightarrow> dns_state \<times> 'e io \<Rightarrow> dns_state \<times> 'e io" where
  "StopDnsServer p = (\<lambda>(d, io).
     if \<not> ds_task d then (d, io)
     else (d\<lparr>ds_is_stop_requested := True, ds_task := False\<rparr>, snd (esp p DNS_TASK_WAIT io)))"

definition StartDnsServer :: "'e platform \<Rightarrow> u32 \<Rightarrow> dns_state \<times> 'e io \<Rightarrow> bool \<times> dns_state \<times> 'e io" where
  "StartDnsServer p ip_addr = (\<lambda>(d, io).
     let (d, io) = (if ds_task d then StopDnsServer p (d, io) else (d, io));
         d = d\<lparr>ds_ip_addr := ip_addr, ds_is_stop_requested := False\<rparr>;
         (err, io) = esp p DNS_TASK_CREATE io
     in (err = ESP_OK, d\<lparr>ds_task := (err = ESP_OK)\<rparr>, io))"

text \<open>
  \<open>ds_task\<close> is the handle \<open>s_task\<close>, not the task: a task that could not bind its socket has ended with the handle still set, and a
  task that outlives the wait of \<open>StopDnsServer\<close> runs on without a handle until it sees the stop flag. \<open>dns_running\<close> is therefore
  what the server was last told: a task was created and has not been asked to stop.
\<close>

definition dns_running :: "dns_state \<Rightarrow> bool" where
  "dns_running d \<longleftrightarrow> ds_task d \<and> \<not> ds_is_stop_requested d"

lemma dns_modes:
  "StopDnsServer p (d, io) = (d', io') \<Longrightarrow> \<not> ds_task d' \<and> mode_set (io_log io') = mode_set (io_log io)"
  "StartDnsServer p ip (d, io) = (ok, d', io') \<Longrightarrow> ds_task d' = ok \<and> mode_set (io_log io') = mode_set (io_log io)"
  by (auto simp: StopDnsServer_def StartDnsServer_def split: if_splits prod.splits dest!: mode_set_esp)

interpretation dns: service p "StartDnsServer p ip_addr" "StopDnsServer p" dns_running "\<lambda>d. \<not> ds_task d" for p ip_addr
proof unfold_locales
  fix d io ok d' io'
  have stop_keeps: "io_keeps p io0 (snd (StopDnsServer p (d0, io0)))" for d0 io0
    by (auto simp: StopDnsServer_def intro: esp_keeps [of p DNS_TASK_WAIT io0 "fst (esp p DNS_TASK_WAIT io0)"])
  show "(if ok then dns_running d' else \<not> ds_task d') \<and> io_keeps p io io'" if a: "StartDnsServer p ip_addr (d, io) = (ok, d', io')"
  proof -
    obtain d1 io1 where 1: "(if ds_task d then StopDnsServer p (d, io) else (d, io)) = (d1, io1)" by fastforce
    then have k: "io_keeps p io io1" using stop_keeps [of io d] by (auto split: if_splits)
    obtain err io2 where 2: "esp p DNS_TASK_CREATE io1 = (err, io2)" by fastforce
    have "io_keeps p io io2" using io_keeps_trans [OF k esp_keeps [OF 2]] by simp
    then show ?thesis using a 1 2 by (auto simp: StartDnsServer_def dns_running_def)
  qed
  show "\<not> ds_task d' \<and> io_keeps p io io'" if "StopDnsServer p (d, io) = (d', io')"
    using that dns_modes(1) [OF that] stop_keeps [of io d] by simp
qed (simp add: dns_running_def)

subsection \<open>Questions\<close>

text \<open>A name of labels of 1 to 63 bytes as it is encoded in a question.\<close>

definition encode_labels :: "byte list list \<Rightarrow> byte list" where
  "encode_labels labels = concat (map (\<lambda>l. of_nat (length l) # l) labels)"

definition valid_labels :: "byte list list \<Rightarrow> bool" where
  "valid_labels labels = list_all (\<lambda>l. 1 \<le> length l \<and> length l \<le> 63) labels"

lemma label_byte:
  assumes "n \<le> 63"
  shows "unat (of_nat n :: byte) = n"
  using assms unfolding unat_of_nat by (subst mod_less) simp_all

lemma skip_labels:
  assumes "valid_labels labels" and "query = pre @ encode_labels labels @ 0 # rest"
  shows "skip_name query (length pre) = Some (length (pre @ encode_labels labels))"
  using assms
proof (induction labels arbitrary: pre)
  case Nil
  then show ?case by (subst skip_name.simps) (simp add: encode_labels_def)
next
  case (Cons l labels)
  have q: "query = (pre @ of_nat (length l) # l) @ encode_labels labels @ 0 # rest"
    using Cons.prems by (simp add: encode_labels_def)
  have l: "1 \<le> length l" "length l \<le> 63" "valid_labels labels" using Cons.prems by (simp_all add: valid_labels_def)
  have n: "query ! length pre = of_nat (length l)" by (simp add: q)
  have nz: "(of_nat (length l) :: byte) \<noteq> 0" using label_byte [OF l(2)] l(1) by (metis not_one_le_zero unat_0)
  have "skip_name query (length pre) = skip_name query (length pre + (length l + 1))"
    using n nz l label_byte [OF l(2)] by (subst skip_name.simps) (simp add: q Let_def)
  also have "\<dots> = Some (length (pre @ encode_labels (l # labels)))"
    using Cons.IH [OF l(3) q] by (simp add: encode_labels_def)
  finally show ?case .
qed

lemma skip_name_labels:
  assumes "skip_name query name_end = Some e" and "e < length query" and "name_end \<le> length query"
  shows "\<exists>labels rest. valid_labels labels \<and> drop name_end query = encode_labels labels @ 0 # rest \<and>
    e = name_end + length (encode_labels labels)"
  using assms
proof (induction query name_end rule: skip_name.induct)
  case (1 query n)
  show ?case
  proof (cases "n < length query \<and> query ! n \<noteq> 0")
    case False
    then have "e = n" using 1(2) by (simp add: skip_name.simps)
    then have "drop n query = 0 # drop (Suc n) query" using 1(3) False by (metis Cons_nth_drop_Suc)
    then show ?thesis using \<open>e = n\<close> by (intro exI [of _ "[]"] exI [of _ "drop (Suc n) query"]) (simp add: encode_labels_def valid_labels_def)
  next
    case True
    let ?l = "unat (query ! n)"
    have ok: "?l \<le> 63" "n + ?l + 1 < length query" "skip_name query (n + (?l + 1)) = Some e"
      using 1(2) True by (subst (asm) skip_name.simps; simp add: Let_def not_less not_le split: if_splits)+
    then have g: "\<not> (63 < ?l \<or> length query \<le> n + ?l + 1)" by simp
    obtain labels rest where ih: "valid_labels labels" "drop (n + (?l + 1)) query = encode_labels labels @ 0 # rest"
      "e = n + (?l + 1) + length (encode_labels labels)"
      using 1(1) [OF _ refl g ok(3) 1(3)] True ok(2) by auto
    let ?label = "take ?l (drop (Suc n) query)"
    have pos: "0 < ?l" using True by (simp add: unat_gt_0)
    have len: "length ?label = ?l" using ok(2) by simp
    have "drop n query = query ! n # drop (Suc n) query" using True by (simp add: Cons_nth_drop_Suc)
    also have "drop (Suc n) query = ?label @ drop (n + (?l + 1)) query"
      by (metis add.commute add_Suc_right append_take_drop_id drop_drop plus_1_eq_Suc)
    finally have "drop n query = encode_labels (?label # labels) @ 0 # rest"
      using len ih(2) by (simp add: encode_labels_def)
    moreover have "valid_labels (?label # labels)" using ih(1) len pos ok(1) by (simp add: valid_labels_def)
    moreover have "e = n + length (encode_labels (?label # labels))" using ih(3) len by (simp add: encode_labels_def)
    ultimately show ?thesis by blast
  qed
qed

subsection \<open>Replies\<close>

text \<open>A query with one question: header (identifier, flags, one question, other counts), question and whatever follows.\<close>

definition dns_query :: "byte \<times> byte \<Rightarrow> byte \<times> byte \<Rightarrow> byte list \<Rightarrow> byte list list \<Rightarrow> byte list \<Rightarrow> byte list \<Rightarrow> byte list" where
  "dns_query ident flags counts labels question rest =
     [fst ident, snd ident, fst flags, snd flags, 0, 1] @ counts @ encode_labels labels @ 0 # question @ rest"

text \<open>Its reply: the answer bit, recursion desired copied, recursion available, the question again, and for type A and class IN the
  address with a lifetime of 30 s; no answer for another type.\<close>

definition dns_reply :: "byte \<times> byte \<Rightarrow> byte \<times> byte \<Rightarrow> byte list list \<Rightarrow> byte list \<Rightarrow> u32 \<Rightarrow> byte list" where
  "dns_reply ident flags labels question ip_addr =
     [fst ident, snd ident, 0x80 OR (fst flags AND 1), 0x80, 0, 1, 0, if question = [0, 1, 0, 1] then 1 else 0, 0, 0, 0, 0] @
     encode_labels labels @ 0 # question @ (if question = [0, 1, 0, 1] then dns_answer_header @ le32 ip_addr else [])"

lemma read_be16_one: "read_be16 hi lo = 1 \<longleftrightarrow> hi = 0 \<and> lo = 1"
proof
  assume a: "read_be16 hi lo = 1"
  have hi: "bit (read_be16 hi lo) (8 + n) = bit hi n" if "n < 8" for n
    using that by (auto simp: read_be16_def bit_simps dest: bit_imp_le_length)
  have lo: "bit (read_be16 hi lo) n = bit lo n" if "n < 8" for n
    using that by (auto simp: read_be16_def bit_simps)
  have "hi = 0"
  proof (rule bit_word_eqI)
    fix n assume "n < LENGTH(8)"
    then show "bit hi n = bit (0 :: byte) n" using hi [of n] by (simp add: a bit_1_iff)
  qed
  moreover have "lo = 1"
  proof (rule bit_word_eqI)
    fix n assume "n < LENGTH(8)"
    then show "bit lo n = bit (1 :: byte) n" using lo [of n] by (simp add: a bit_1_iff)
  qed
  ultimately show "hi = 0 \<and> lo = 1" ..
qed (simp add: read_be16_def)

lemma is_a_question:
  assumes "length question = 4"
  shows "(read_be16 (question ! 0) (question ! 1) = DNS_TYPE_A \<and> read_be16 (question ! 2) (question ! 3) = DNS_CLASS_IN) =
    (question = [0, 1, 0, 1])"
proof -
  obtain a b c d where "question = [a, b, c, d]" using assms by (auto simp: length_Suc_conv numeral_eq_Suc)
  then show ?thesis by (simp add: read_be16_one)
qed

lemma overwrite_after: "length xs = n \<Longrightarrow> overwrite n bs (xs @ ys) = xs @ bs @ drop (length bs) ys"
  by (auto simp: overwrite_def)

lemma dns_reply_built:
  assumes "valid_labels labels" and "length counts = 6" and "length question = 4" and "fst flags AND 0x80 = 0"
    and query: "query = dns_query ident flags counts labels question rest"
    and fits: "17 + length (encode_labels labels) + 16 \<le> length response"
    and same: "is_alias \<Longrightarrow> take (length query) response = query"
  shows "case BuildDnsResponse query ip_addr is_alias response of (n, r) \<Rightarrow>
    n = length (dns_reply ident flags labels question ip_addr) \<and> take n r = dns_reply ident flags labels question ip_addr \<and>
    length r = length response"
proof -
  obtain k1 k2 k3 k4 k5 k6 where counts: "counts = [k1, k2, k3, k4, k5, k6]"
    using assms(2) by (auto simp: length_Suc_conv numeral_eq_Suc)
  let ?e = "12 + length (encode_labels labels)" and ?Q = "encode_labels labels @ 0 # question"
  let ?pre = "[fst ident, snd ident, fst flags, snd flags, 0, 1] @ counts"
  have q: "query = ?pre @ encode_labels labels @ 0 # question @ rest" by (simp add: query dns_query_def)
  have pre: "length ?pre = 12" using assms(2) by simp
  have sk: "skip_name query DNS_HEADER_SIZE = Some ?e" using skip_labels [OF assms(1) q] unfolding pre by (simp add: counts)
  have qs: "query ! (?e + 1 + i) = question ! i" if "i < 4" for i
    using that assms(3) by (simp add: q counts nth_append)
  have "read_be16 (query ! (?e + 1)) (query ! (?e + 2)) = read_be16 (question ! 0) (question ! 1)"
    "read_be16 (query ! (?e + 3)) (query ! (?e + 4)) = read_be16 (question ! 2) (question ! 3)"
    using qs [of 0] qs [of 1] qs [of 2] qs [of 3] by (simp_all add: numeral_eq_Suc)
  then have a: "(read_be16 (query ! (?e + 1)) (query ! (?e + 2)) = DNS_TYPE_A \<and> read_be16 (query ! (?e + 3)) (query ! (?e + 4)) = DNS_CLASS_IN) =
      (question = [0, 1, 0, 1])"
    using is_a_question [OF assms(3)] by simp
  have lPQ: "length (?pre @ ?Q) = ?e + 1 + 4" using assms(3) by (simp add: counts)
  have "query = (?pre @ ?Q) @ rest" by (simp add: q)
  then have tq: "take (?e + 1 + 4) query = ?pre @ ?Q" using lPQ by (metis append_eq_conv_conj)
  define tail where "tail = drop (?e + 1 + 4) response"
  have lt: "16 \<le> length tail" "length response = ?e + 5 + length tail" using fits by (simp_all add: tail_def)
  have r0: "(if is_alias then response else overwrite 0 (take (?e + 1 + 4) query) response) = ?pre @ ?Q @ tail"
  proof (cases is_alias)
    case True
    have "take (?e + 1 + 4) response = take (?e + 1 + 4) (take (length query) response)"
      using assms(3) by (simp add: q min_def counts)
    also have "\<dots> = ?pre @ ?Q" unfolding same [OF True] by (rule tq)
    finally have "response = (?pre @ ?Q) @ tail" unfolding tail_def by (metis append_take_drop_id)
    then show ?thesis using True by simp
  next
    case False
    then show ?thesis unfolding tq overwrite_def lPQ tail_def by simp
  qed
  have g: "\<not> (length query < DNS_HEADER_SIZE + 5 \<or> (query ! 2) AND 0x80 \<noteq> 0 \<or> query ! 4 \<noteq> 0 \<or> query ! 5 \<noteq> 1)"
    using assms(3,4) by (simp add: q counts)
  have g2: "\<not> (length query \<le> ?e \<or> length query < ?e + 1 + 4 \<or> length response < ?e + 1 + 4 + DNS_ANSWER_SIZE)"
    using assms(3) fits by (simp add: q counts)
  have q2: "query ! 2 = fst flags" by (simp add: q)
  let ?H = "\<lambda>x. [fst ident, snd ident, 0x80 OR (fst flags AND 1), 0x80, 0, 1, 0, x, 0, 0, 0, 0]"
  have built: "overwrite 8 [0, 0, 0, 0] ((?pre @ ?Q @ tail)[2 := 0x80 OR (fst flags AND 1), 3 := 0x80, 6 := 0, 7 := x]) = ?H x @ ?Q @ tail" for x
    by (simp add: counts overwrite_def)
  have lHQ: "length (?H x @ ?Q) = ?e + 1 + 4" for x using assms(3) by simp
  have ans: "overwrite (?e + 1 + 4) (dns_answer_header @ le32 ip_addr) ((?H x @ ?Q) @ tail) =
      (?H x @ ?Q) @ (dns_answer_header @ le32 ip_addr) @ drop 16 tail" for x
    using overwrite_after [OF lHQ] by (simp add: dns_answer_header_def)
  have B: "BuildDnsResponse query ip_addr is_alias response =
      (if question \<noteq> [0, 1, 0, 1] then (?e + 1 + 4, ?H 0 @ ?Q @ tail)
       else (?e + 1 + 4 + 16, overwrite (?e + 1 + 4) (dns_answer_header @ le32 ip_addr) (?H 1 @ ?Q @ tail)))"
    unfolding BuildDnsResponse_def if_not_P [OF g] sk option.case Let_def if_not_P [OF g2] r0 a
    unfolding q2 built by simp
  let ?D = "dns_reply ident flags labels question ip_addr"
  have "\<exists>t. BuildDnsResponse query ip_addr is_alias response = (length ?D, ?D @ t) \<and> length (?D @ t) = length response"
  proof (cases "question = [0, 1, 0, 1]")
    case True
    have "overwrite (?e + 1 + 4) (dns_answer_header @ le32 ip_addr) (?H 1 @ ?Q @ tail) = ?D @ drop 16 tail"
      using ans [of 1] True by (simp add: dns_reply_def)
    moreover have "length ?D = ?e + 1 + 4 + 16" using True by (simp add: dns_reply_def dns_answer_header_def)
    ultimately show ?thesis using True lt unfolding B by (intro exI [of _ "drop 16 tail"]) simp
  next
    case False
    have "?H 0 @ ?Q @ tail = ?D @ tail" using False by (simp add: dns_reply_def)
    moreover have "length ?D = ?e + 1 + 4" using False assms(3) by (simp add: dns_reply_def)
    ultimately show ?thesis using False lt unfolding B by (intro exI [of _ tail]) simp
  qed
  then show ?thesis by auto
qed

lemma dns_reply_only:
  assumes "BuildDnsResponse query ip_addr is_alias response = (n, r)"
  shows "(n = 0 \<and> r = response) \<or>
    (\<exists>ident flags counts labels question rest. query = dns_query ident flags counts labels question rest \<and> valid_labels labels \<and>
       length counts = 6 \<and> length question = 4 \<and> fst flags AND 0x80 = 0 \<and>
       17 + length (encode_labels labels) + 16 \<le> length response)"
proof (cases "n = 0 \<and> r = response")
  case False
  have g: "17 \<le> length query" "query ! 2 AND 0x80 = 0" "query ! 4 = 0" "query ! 5 = 1"
    using assms False by (auto simp: BuildDnsResponse_def split: if_splits)
  from assms False obtain e where sk: "skip_name query DNS_HEADER_SIZE = Some e"
    by (auto simp: BuildDnsResponse_def split: if_splits option.splits)
  have e: "e < length query" "e + 5 \<le> length query" "e + 21 \<le> length response"
    using assms False sk by (auto simp: BuildDnsResponse_def Let_def split: if_splits)
  from skip_name_labels [OF sk e(1)] g(1) obtain labels rest where l: "valid_labels labels"
    "drop 12 query = encode_labels labels @ 0 # rest" "e = 12 + length (encode_labels labels)" by auto
  have "length (drop 12 query) = length (encode_labels labels) + 1 + length rest" unfolding l(2) by simp
  then have lr: "4 \<le> length rest" using e(2) l(3) by simp
  obtain x0 x1 x2 x3 x4 x5 t where q: "query = x0 # x1 # x2 # x3 # x4 # x5 # t" using g(1)
    by (auto simp: numeral_eq_Suc Suc_le_length_iff)
  have x: "x2 AND 0x80 = 0" "x4 = 0" "x5 = 1" "11 \<le> length t" using g unfolding q by simp_all
  have "drop 6 t = encode_labels labels @ 0 # rest" using l(2) unfolding q by simp
  then have "t = take 6 t @ encode_labels labels @ 0 # rest" by (metis append_take_drop_id)
  moreover have "length (take 6 t) = 6" using x(4) by simp
  ultimately obtain t1 where t: "t = t1 @ encode_labels labels @ 0 # rest" "length t1 = 6" by blast
  then have "query = dns_query (x0, x1) (x2, x3) t1 labels (take 4 rest) (drop 4 rest)"
    unfolding q x dns_query_def by (simp add: t(1))
  moreover have "length (take 4 rest) = 4" "17 + length (encode_labels labels) + 16 \<le> length response"
    using lr e(3) l(3) by simp_all
  moreover have "fst (x2, x3) AND 0x80 = 0" using x(1) by simp
  ultimately show ?thesis using l(1) t(2) by blast
qed simp

subsection \<open>The task\<close>

text \<open>A question the task answers, and what it sends for each \<open>recvfrom\<close>: the reply, or nothing.\<close>

definition is_question :: "u32 \<Rightarrow> byte list \<Rightarrow> byte list \<Rightarrow> bool" where
  "is_question ip_addr query reply \<longleftrightarrow> (\<exists>ident flags counts labels question rest.
     query = dns_query ident flags counts labels question rest \<and> valid_labels labels \<and> length counts = 6 \<and> length question = 4 \<and>
     fst flags AND 0x80 = 0 \<and> 33 + length (encode_labels labels) \<le> DNS_PACKET_MAX \<and>
     reply = dns_reply ident flags labels question ip_addr)"

definition dns_answers :: "u32 \<Rightarrow> byte list option \<Rightarrow> byte list option \<Rightarrow> bool" where
  "dns_answers ip_addr received reply \<longleftrightarrow> (case received of
     None \<Rightarrow> reply = None
   | Some query \<Rightarrow> (case reply of Some r \<Rightarrow> is_question ip_addr query r | None \<Rightarrow> \<not> (\<exists>r. is_question ip_addr query r)))"

lemma dns_round_answers:
  assumes "dns_round received d = (reply, d')" and "length (ds_packet d) = DNS_PACKET_MAX"
    and "\<And>bytes. received = Some bytes \<Longrightarrow> length bytes \<le> DNS_PACKET_MAX"
  shows "dns_answers (ds_ip_addr d) received reply \<and> ds_ip_addr d' = ds_ip_addr d \<and> length (ds_packet d') = DNS_PACKET_MAX"
proof (cases received)
  case None
  then show ?thesis using assms(1,2) by (simp add: dns_round_def dns_answers_def)
next
  case (Some q)
  let ?resp = "overwrite 0 q (ds_packet d)"
  have resp: "length ?resp = DNS_PACKET_MAX" "take (length q) ?resp = q"
    using assms(2,3) Some by (simp_all add: overwrite_def)
  obtain n r where b: "BuildDnsResponse q (ds_ip_addr d) True ?resp = (n, r)" by fastforce
  have reply: "reply = (if 0 < n then Some (take n r) else None)" "d' = d\<lparr>ds_packet := r\<rparr>"
    using assms(1) Some b by (simp_all add: dns_round_def)
  have built: "n = length rep \<and> take n r = rep \<and> length r = DNS_PACKET_MAX \<and> 0 < n" if "is_question (ds_ip_addr d) q rep" for rep
  proof -
    from that obtain ident flags counts labels question rest where q: "q = dns_query ident flags counts labels question rest"
      "valid_labels labels" "length counts = 6" "length question = 4" "fst flags AND 0x80 = 0"
      "33 + length (encode_labels labels) \<le> DNS_PACKET_MAX" "rep = dns_reply ident flags labels question (ds_ip_addr d)"
      unfolding is_question_def by blast
    have "case BuildDnsResponse q (ds_ip_addr d) True ?resp of (n, r) \<Rightarrow> n = length rep \<and> take n r = rep \<and> length r = length ?resp"
      unfolding q(7) by (rule dns_reply_built [OF q(2-5,1)]) (use q(6) resp in simp_all)
    moreover have "0 < length rep" unfolding q(7) by (simp add: dns_reply_def)
    ultimately show ?thesis unfolding b prod.case resp(1) by blast
  qed
  have only: "(n = 0 \<and> r = ?resp) \<or> (\<exists>rep. is_question (ds_ip_addr d) q rep)"
    using dns_reply_only [OF b] unfolding is_question_def resp(1) by fastforce
  show ?thesis
  proof (cases "\<exists>rep. is_question (ds_ip_addr d) q rep")
    case True
    then obtain rep where rep: "is_question (ds_ip_addr d) q rep" by blast
    note c = built [OF rep]
    then have "reply = Some rep" using reply(1) by auto
    then show ?thesis using c rep reply(2) by (simp add: dns_answers_def Some)
  next
    case False
    then show ?thesis using only reply resp(1) by (simp add: dns_answers_def Some)
  qed
qed

lemma dns_loop_answers:
  assumes "dns_loop turns d = (is_ended, calls, d')" and "length (ds_packet d) = DNS_PACKET_MAX"
    and "\<forall>bytes. Some bytes \<in> snd ` set turns \<longrightarrow> length bytes \<le> DNS_PACKET_MAX"
  shows "is_ended = (\<exists>t \<in> set turns. fst t) \<and> length (ds_packet d') = DNS_PACKET_MAX \<and>
    (\<exists>replies. list_all2 (dns_answers (ds_ip_addr d)) (map snd (takeWhile (\<lambda>t. \<not> fst t) turns)) replies \<and>
       calls = map DNS_SEND (List.map_filter (\<lambda>r. r) replies))"
  using assms
proof (induction turns d arbitrary: is_ended calls d' rule: dns_loop.induct)
  case (1 d)
  then show ?case by (auto simp: map_filter_simps)
next
  case (2 stop received turns d)
  show ?case
  proof (cases stop)
    case True
    then show ?thesis using 2(2,3) by (auto simp: map_filter_simps)
  next
    case False
    obtain reply d1 where r: "dns_round received d = (reply, d1)" by fastforce
    obtain e1 c1 d2 where l: "dns_loop turns d1 = (e1, c1, d2)" by (metis prod.exhaust)
    have "received = Some bytes \<Longrightarrow> length bytes \<le> DNS_PACKET_MAX" for bytes using 2(4) by (auto simp: image_iff)
    note a = dns_round_answers [OF r 2(3) this]
    have "\<forall>bytes. Some bytes \<in> snd ` set turns \<longrightarrow> length bytes \<le> DNS_PACKET_MAX" using 2(4) by (simp add: image_iff)
    from 2(1) [OF False r [symmetric] HOL.refl l _ this] a obtain replies where
      i: "e1 = (\<exists>t \<in> set turns. fst t)" "length (ds_packet d2) = DNS_PACKET_MAX"
      "list_all2 (dns_answers (ds_ip_addr d)) (map snd (takeWhile (\<lambda>t. \<not> fst t) turns)) replies"
      "c1 = map DNS_SEND (List.map_filter (\<lambda>r. r) replies)" by auto
    have o: "is_ended = e1" "calls = (case reply of None \<Rightarrow> c1 | Some bytes \<Rightarrow> DNS_SEND bytes # c1)" "d' = d2"
      using 2(2) False r l by simp_all
    show ?thesis using False i a o
      by (intro conjI exI [of _ "reply # replies"]) (simp_all add: map_filter_simps split: option.split)
  qed
qed

text \<open>
  The wait compares the tick count with a deadline that may have wrapped around: then it gives up at once although the task still
  runs, and the next start reuses its static memory. Without the wrap it gives up only after the whole time.
\<close>

lemma wrapped_sum:
  fixes u d n :: nat
  assumes "n - d \<le> u" and "d < n"
  shows "(u + d) mod n \<le> u"
proof -
  have "n \<le> u + d" using assms(1) by linarith
  then have "(u + d) mod n = (u + d - n) mod n" by (rule le_mod_geq)
  also have "\<dots> \<le> u + d - n" by (rule mod_less_eq_dividend)
  also have "\<dots> \<le> u" using assms(2) by linarith
  finally show ?thesis .
qed

lemma stop_wait_wraps:
  assumes "d < 2 ^ 31" and "2 ^ 32 - d \<le> unat t0"
  shows "stop_wait (t0 + of_nat d) ((False, t0) # tests) = Some False"
proof -
  have d: "unat (of_nat d :: u32) = d" using assms(1) by (simp add: unat_of_nat)
  have "unat (t0 + of_nat d) = (unat t0 + d) mod 2 ^ 32" by (simp add: unat_word_ariths d)
  also have "\<dots> \<le> unat t0" by (rule wrapped_sum [OF assms(2)]) (use assms(1) in simp)
  finally have "\<not> t0 < t0 + of_nat d" by (simp only: word_less_nat_alt not_less)
  then show ?thesis by simp
qed

lemma stop_wait_waits:
  assumes "stop_wait deadline tests = Some False"
  shows "\<exists>t. (False, t) \<in> set tests \<and> deadline \<le> t"
  using assms by (induction deadline tests rule: stop_wait.induct) (auto split: if_splits)

subsection \<open>Properties\<close>

text \<open>Every question that fits is answered. For a well-formed query with one question, in a buffer of its own or over the query
  itself, the result is exactly the reply: same identifier, answer flags, the question repeated, and for type A and class IN the
  configured address; and the buffer keeps its size, whatever follows the question and whatever the other counts say.\<close>

theorem BuildDnsResponse_answers:
  assumes "valid_labels labels" and "length counts = 6" and "length question = 4" and "fst flags AND 0x80 = 0"
    and "17 + length (encode_labels labels) + 16 \<le> length response"
    and "is_alias \<Longrightarrow> take (length (dns_query ident flags counts labels question rest)) response =
      dns_query ident flags counts labels question rest"
  shows "case BuildDnsResponse (dns_query ident flags counts labels question rest) ip_addr is_alias response of (n, r) \<Rightarrow>
    n = length (dns_reply ident flags labels question ip_addr) \<and> take n r = dns_reply ident flags labels question ip_addr \<and>
    length r = length response"
  by (rule dns_reply_built [OF assms(1-4) refl assms(5,6)])

theorem BuildDnsResponse_answers_witness:
  "\<exists>r. BuildDnsResponse (dns_query (1, 2) (1, 0) (replicate 6 0) [[97, 98]] [0, 1, 0, 1] []) 0x0104A8C0 False (replicate 512 0) = (36, r) \<and>
     take 36 r = dns_reply (1, 2) (1, 0) [[97, 98]] [0, 1, 0, 1] 0x0104A8C0"
proof -
  have l: "length (dns_reply (1, 2) (1, 0) [[97, 98]] [0, 1, 0, 1] 0x0104A8C0) = 36"
    by (simp add: dns_reply_def encode_labels_def dns_answer_header_def)
  obtain n r where b: "BuildDnsResponse (dns_query (1, 2) (1, 0) (replicate 6 0) [[97, 98]] [0, 1, 0, 1] []) 0x0104A8C0 False (replicate 512 0) = (n, r)"
    by fastforce
  have "case BuildDnsResponse (dns_query (1, 2) (1, 0) (replicate 6 0) [[97, 98]] [0, 1, 0, 1] []) 0x0104A8C0 False (replicate 512 0) of (n, r) \<Rightarrow>
    n = length (dns_reply (1, 2) (1, 0) [[97, 98]] [0, 1, 0, 1] 0x0104A8C0) \<and>
    take n r = dns_reply (1, 2) (1, 0) [[97, 98]] [0, 1, 0, 1] 0x0104A8C0 \<and> length r = length (replicate 512 (0 :: byte))"
    by (rule BuildDnsResponse_answers) (simp_all add: valid_labels_def encode_labels_def)
  then have "n = 36 \<and> take n r = dns_reply (1, 2) (1, 0) [[97, 98]] [0, 1, 0, 1] 0x0104A8C0" unfolding b prod.case l by blast
  then show ?thesis using b by blast
qed

text \<open>C35: the task answers the questions, all of them, in their order, and nothing else. When the socket could be opened and bound, the
  packets sent until the stop flag is seen are, in order, exactly the replies to those of the packets received that are
  well-formed questions whose reply fits the buffer, for every sequence of packets, timeouts and errors; the task ends at the
  first turn that sees the flag, and closes the socket then and only then. When the socket could not be bound it sends nothing and
  leaves no socket open.\<close>

theorem RunDnsTask_answers:
  assumes "RunDnsTask socket turns d = (is_ended, calls, d')" and "length (ds_packet d) = DNS_PACKET_MAX"
    and "\<forall>bytes. Some bytes \<in> snd ` set turns \<longrightarrow> length bytes \<le> DNS_PACKET_MAX"
  shows "(if so_fd socket < 0 \<or> so_bind socket \<noteq> 0 \<or> so_timeout socket \<noteq> 0
      then is_ended \<and> calls = (if 0 \<le> so_fd socket then [DNS_CLOSE] else [])
      else is_ended = (\<exists>t \<in> set turns. fst t) \<and>
        (\<exists>replies. list_all2 (dns_answers (ds_ip_addr d)) (map snd (takeWhile (\<lambda>t. \<not> fst t) turns)) replies \<and>
           calls = map DNS_SEND (List.map_filter (\<lambda>r. r) replies) @ (if is_ended then [DNS_CLOSE] else []))) \<and>
    length (ds_packet d') = DNS_PACKET_MAX"
proof (cases "so_fd socket < 0 \<or> so_bind socket \<noteq> 0 \<or> so_timeout socket \<noteq> 0")
  case True
  then show ?thesis using assms(1,2) by (auto simp: RunDnsTask_def)
next
  case False
  obtain e c d1 where l: "dns_loop turns d = (e, c, d1)" by (metis prod.exhaust)
  then have "is_ended = e" "calls = c @ (if e then [DNS_CLOSE] else [])" "d' = d1" using assms(1) False by (auto simp: RunDnsTask_def)
  then show ?thesis using dns_loop_answers [OF l assms(2,3)] False by auto
qed

theorem RunDnsTask_answers_witness:
  "\<exists>r. fst (snd (RunDnsTask \<lparr>so_fd = 3, so_bind = 0, so_timeout = 0\<rparr>
       [(False, Some (dns_query (1, 2) (1, 0) (replicate 6 0) [[97, 98]] [0, 1, 0, 1] [])), (False, None), (True, None)]
       \<lparr>ds_task = True, ds_is_stop_requested = False, ds_ip_addr = 1, ds_packet = replicate 512 0\<rparr>)) = [DNS_SEND r, DNS_CLOSE] \<and>
     is_question 1 (dns_query (1, 2) (1, 0) (replicate 6 0) [[97, 98]] [0, 1, 0, 1] []) r"
proof -
  let ?so = "\<lparr>so_fd = 3, so_bind = 0, so_timeout = 0\<rparr>" and ?q = "dns_query (1, 2) (1, 0) (replicate 6 0) [[97, 98]] [0, 1, 0, 1] []"
    and ?d = "\<lparr>ds_task = True, ds_is_stop_requested = False, ds_ip_addr = 1, ds_packet = replicate 512 0\<rparr>"
  let ?turns = "[(False, Some ?q), (False, None), (True, None)]"
  obtain e c d' where r: "RunDnsTask ?so ?turns ?d = (e, c, d')" by (metis prod.exhaust)
  have len: "\<forall>bytes. Some bytes \<in> snd ` set ?turns \<longrightarrow> length bytes \<le> DNS_PACKET_MAX"
    by (simp add: dns_query_def encode_labels_def)
  have "length (ds_packet ?d) = DNS_PACKET_MAX" by simp
  from RunDnsTask_answers [OF r this len] obtain replies where a: "e" "list_all2 (dns_answers 1) [Some ?q, None] replies"
    "c = map DNS_SEND (List.map_filter (\<lambda>r. r) replies) @ (if e then [DNS_CLOSE] else [])" by auto
  have "is_question 1 ?q (dns_reply (1, 2) (1, 0) [[97, 98]] [0, 1, 0, 1] 1)"
    unfolding is_question_def
    by (intro exI [of _ "(1, 2)"] exI [of _ "(1, 0)"] exI [of _ "replicate 6 0"] exI [of _ "[[97, 98]]"] exI [of _ "[0, 1, 0, 1]"]
      exI [of _ "[]"]) (simp add: valid_labels_def encode_labels_def)
  then obtain x where "replies = [Some x, None]" "is_question 1 ?q x"
    using a(2) by (auto simp: dns_answers_def list_all2_Cons1 split: option.splits)
  then show ?thesis using r a by (simp add: map_filter_simps)
qed

text \<open>C36: whatever bytes arrive, the responder is safe. For any packet at all, with the response over it or elsewhere, the buffer
  keeps its size and the result lies within it; a reply is only given to a well-formed query with one question, whose name ends
  inside the packet, and is then the reply to this question; any other packet leaves the buffer alone.\<close>

theorem BuildDnsResponse_safe:
  assumes "is_alias \<Longrightarrow> take (length query) response = query"
  shows "case BuildDnsResponse query ip_addr is_alias response of (n, r) \<Rightarrow>
    length r = length response \<and> n \<le> length response \<and>
    (n = 0 \<and> r = response \<or>
     (\<exists>ident flags counts labels question rest. query = dns_query ident flags counts labels question rest \<and>
        valid_labels labels \<and> take n r = dns_reply ident flags labels question ip_addr))"
proof -
  obtain n r where b: "BuildDnsResponse query ip_addr is_alias response = (n, r)" by fastforce
  from dns_reply_only [OF b] show ?thesis
  proof
    assume "n = 0 \<and> r = response" then show ?thesis using b by simp
  next
    assume "\<exists>ident flags counts labels question rest. query = dns_query ident flags counts labels question rest \<and> valid_labels labels \<and>
       length counts = 6 \<and> length question = 4 \<and> fst flags AND 0x80 = 0 \<and> 17 + length (encode_labels labels) + 16 \<le> length response"
    then obtain ident flags counts labels question rest where q: "query = dns_query ident flags counts labels question rest"
      "valid_labels labels" "length counts = 6" "length question = 4" "fst flags AND 0x80 = 0"
      "17 + length (encode_labels labels) + 16 \<le> length response" by blast
    have "case BuildDnsResponse query ip_addr is_alias response of (n, r) \<Rightarrow>
      n = length (dns_reply ident flags labels question ip_addr) \<and> take n r = dns_reply ident flags labels question ip_addr \<and>
      length r = length response"
      by (rule dns_reply_built [OF q(2-5,1,6) assms])
    then have d: "n = length (dns_reply ident flags labels question ip_addr) \<and> take n r = dns_reply ident flags labels question ip_addr \<and>
      length r = length response" unfolding b prod.case .
    have "n \<le> length response" using d q(4,6) by (simp add: dns_reply_def dns_answer_header_def)
    then show ?thesis unfolding b prod.case using d q(1,2) by blast
  qed
qed

theorem BuildDnsResponse_safe_witness: "BuildDnsResponse [1, 2, 3] 0 False (replicate 512 0) = (0, replicate 512 0)"
proof -
  obtain n r where b: "BuildDnsResponse [1, 2, 3] 0 False (replicate 512 0) = (n, r)" by fastforce
  have "length ([1, 2, 3] :: byte list) < length (dns_query i f c l q rest)" for i f c l q rest by (simp add: dns_query_def)
  then have "[1, 2, 3] \<noteq> dns_query i f c l q rest" for i f c l q rest by (metis less_irrefl)
  then show ?thesis using BuildDnsResponse_safe [of False "[1, 2, 3]" "replicate 512 0" 0] unfolding b prod.case by blast
qed

end
