(* ===== verification/Button.thy ===== *)
theory Button
  imports Prelude "HOL-Library.Sublist"
begin

section \<open>The button: hold and update gesture\<close>

text \<open>
  Model of main/button/button.c and button.h. The samples of the GPIO and the timer are inputs; the two callbacks are the
  calls that \<open>RunButtonTask\<close> reports. The ring of press starts is the list of its five entries. \<open>gesture\<close> reads it
  as a list of press starts, newest first, and the reference definition of a sample works on that list.
\<close>

abbreviation (input) FW_UPDATE_GESTURE_PRESSES :: nat where "FW_UPDATE_GESTURE_PRESSES \<equiv> 5"
abbreviation (input) FW_UPDATE_GESTURE_WINDOW_MS :: u32 where "FW_UPDATE_GESTURE_WINDOW_MS \<equiv> 3000"
abbreviation (input) BUTTON_HOLD_MS :: u32 where "BUTTON_HOLD_MS \<equiv> 1000"

datatype button_event =
    BUTTON_EVENT_NONE
  | BUTTON_EVENT_PRESS_STARTED
  | BUTTON_EVENT_HOLD_REACHED
  | BUTTON_EVENT_UPDATE_GESTURE

record button_state =
  bs_is_pressed :: bool
  bs_is_hold_reported :: bool
  bs_press_start_ms :: u32
  bs_gesture_starts_ms :: "u32 list"
  bs_gesture_next :: byte
  bs_gesture_presses :: byte
  bs_release_ms :: u32

definition zero_button :: button_state where
  "zero_button = \<lparr>bs_is_pressed = False, bs_is_hold_reported = False, bs_press_start_ms = 0,
     bs_gesture_starts_ms = replicate FW_UPDATE_GESTURE_PRESSES 0, bs_gesture_next = 0, bs_gesture_presses = 0, bs_release_ms = 0\<rparr>"

definition ResetGesture :: "button_state \<Rightarrow> button_state" where
  "ResetGesture s = s\<lparr>bs_gesture_presses := 0, bs_gesture_next := 0\<rparr>"

definition IsGestureComplete :: "button_state \<Rightarrow> bool" where
  "IsGestureComplete s =
     (if unat (bs_gesture_presses s) < FW_UPDATE_GESTURE_PRESSES then False
      else let oldest_ms = bs_gesture_starts_ms s ! unat (bs_gesture_next s);
               newest_ms = bs_gesture_starts_ms s ! ((unat (bs_gesture_next s) + FW_UPDATE_GESTURE_PRESSES - 1) mod FW_UPDATE_GESTURE_PRESSES)
           in newest_ms - oldest_ms \<le> FW_UPDATE_GESTURE_WINDOW_MS)"

definition ProcessGestureRelease :: "button_state \<Rightarrow> u32 \<Rightarrow> button_event \<times> button_state" where
  "ProcessGestureRelease s now_ms =
     (if bs_is_pressed s then
        let s = s\<lparr>bs_release_ms := now_ms\<rparr> in
        if \<not> bs_is_hold_reported s \<and> IsGestureComplete s then (BUTTON_EVENT_UPDATE_GESTURE, ResetGesture s)
        else (BUTTON_EVENT_NONE, s)
      else if 0 < bs_gesture_presses s \<and> FW_UPDATE_GESTURE_WINDOW_MS \<le> now_ms - bs_release_ms s
      then (BUTTON_EVENT_NONE, ResetGesture s)
      else (BUTTON_EVENT_NONE, s))"

definition CountGesturePress :: "button_state \<Rightarrow> u32 \<Rightarrow> button_state" where
  "CountGesturePress s now_ms =
     (let s = s\<lparr>bs_gesture_starts_ms := (bs_gesture_starts_ms s)[unat (bs_gesture_next s) := now_ms]\<rparr>;
          s = s\<lparr>bs_gesture_next := of_nat ((unat (bs_gesture_next s) + 1) mod FW_UPDATE_GESTURE_PRESSES)\<rparr>
      in if unat (bs_gesture_presses s) < FW_UPDATE_GESTURE_PRESSES
         then s\<lparr>bs_gesture_presses := bs_gesture_presses s + 1\<rparr> else s)"

definition ProcessButtonSample :: "button_state \<Rightarrow> bool \<Rightarrow> u32 \<Rightarrow> u32 \<Rightarrow> button_event \<times> button_state" where
  "ProcessButtonSample s is_low now_ms hold_ms =
     (if \<not> is_low then
        let (event, s) = ProcessGestureRelease s now_ms
        in (event, s\<lparr>bs_is_pressed := False, bs_is_hold_reported := False\<rparr>)
      else if \<not> bs_is_pressed s then
        let s = s\<lparr>bs_is_pressed := True, bs_is_hold_reported := False, bs_press_start_ms := now_ms\<rparr>
        in (BUTTON_EVENT_PRESS_STARTED, CountGesturePress s now_ms)
      else if \<not> bs_is_hold_reported s \<and> hold_ms \<le> now_ms - bs_press_start_ms s then
        (BUTTON_EVENT_HOLD_REACHED, ResetGesture (s\<lparr>bs_is_hold_reported := True\<rparr>))
      else (BUTTON_EVENT_NONE, s))"

datatype button_call = ON_REQUEST | ON_UPDATE

text \<open>One round of \<open>RunButtonTask\<close> with the timer at \<open>time_us\<close>; a callback that is NULL is not called.\<close>

definition RunButtonTask :: "bool \<Rightarrow> bool \<Rightarrow> nat \<Rightarrow> bool \<Rightarrow> button_state \<Rightarrow> button_call option \<times> button_state" where
  "RunButtonTask has_request has_update time_us is_low s =
     (let now_ms = of_nat (time_us div 1000); (event, s) = ProcessButtonSample s is_low now_ms BUTTON_HOLD_MS
      in (case event of
            BUTTON_EVENT_HOLD_REACHED \<Rightarrow> if has_request then Some ON_REQUEST else None
          | BUTTON_EVENT_UPDATE_GESTURE \<Rightarrow> if has_update then Some ON_UPDATE else None
          | _ \<Rightarrow> None, s))"

text \<open>
  \<open>StartButton\<close>: the two callbacks are only stored when the GPIO could be configured; the state is whether each is not NULL. The
  result is whether the task exists.
\<close>

definition StartButton :: "esp_err \<Rightarrow> bool \<Rightarrow> bool \<Rightarrow> bool \<Rightarrow> bool \<times> bool \<Rightarrow> bool \<times> bool \<times> bool" where
  "StartButton gpio_config has_task on_request on_update callbacks =
     (if gpio_config \<noteq> ESP_OK then (False, callbacks) else (has_task, (on_request, on_update)))"

subsection \<open>The reference: a list of press starts\<close>

record button_spec =
  sp_press :: "(u32 \<times> bool) option"
  sp_starts :: "u32 list"
  sp_release :: u32

text \<open>The current press with its start and whether its hold was reported; the counted press starts, newest first.\<close>

definition spec_sample :: "button_spec \<Rightarrow> bool \<Rightarrow> u32 \<Rightarrow> u32 \<Rightarrow> button_event \<times> button_spec" where
  "spec_sample s is_low now hold = (case (sp_press s, is_low) of
     (None, False) \<Rightarrow> (BUTTON_EVENT_NONE, if 3000 \<le> now - sp_release s then s\<lparr>sp_starts := []\<rparr> else s)
   | (Some (start, held), False) \<Rightarrow>
       if \<not> held \<and> length (sp_starts s) = 5 \<and> hd (sp_starts s) - last (sp_starts s) \<le> 3000
       then (BUTTON_EVENT_UPDATE_GESTURE, \<lparr>sp_press = None, sp_starts = [], sp_release = now\<rparr>)
       else (BUTTON_EVENT_NONE, s\<lparr>sp_press := None, sp_release := now\<rparr>)
   | (None, True) \<Rightarrow> (BUTTON_EVENT_PRESS_STARTED, s\<lparr>sp_press := Some (now, False), sp_starts := take 5 (now # sp_starts s)\<rparr>)
   | (Some (start, held), True) \<Rightarrow>
       if \<not> held \<and> hold \<le> now - start
       then (BUTTON_EVENT_HOLD_REACHED, s\<lparr>sp_press := Some (start, True), sp_starts := []\<rparr>)
       else (BUTTON_EVENT_NONE, s))"

definition ring_ok :: "button_state \<Rightarrow> bool" where
  "ring_ok s \<longleftrightarrow> length (bs_gesture_starts_ms s) = 5 \<and> unat (bs_gesture_next s) < 5 \<and> unat (bs_gesture_presses s) \<le> 5"

definition gesture :: "button_state \<Rightarrow> u32 list" where
  "gesture s = map (\<lambda>j. bs_gesture_starts_ms s ! ((unat (bs_gesture_next s) + 4 - j) mod 5)) [0..<unat (bs_gesture_presses s)]"

definition button_abs :: "button_state \<Rightarrow> button_spec" where
  "button_abs s = \<lparr>sp_press = (if bs_is_pressed s then Some (bs_press_start_ms s, bs_is_hold_reported s) else None),
     sp_starts = gesture s, sp_release = bs_release_ms s\<rparr>"

lemma gesture_reset [simp]: "gesture (ResetGesture s) = []"
  by (simp add: gesture_def ResetGesture_def)

lemma gesture_update [simp]:
  "gesture (s\<lparr>bs_is_pressed := p\<rparr>) = gesture s" "gesture (s\<lparr>bs_is_hold_reported := h\<rparr>) = gesture s"
  "gesture (s\<lparr>bs_press_start_ms := t\<rparr>) = gesture s" "gesture (s\<lparr>bs_release_ms := t\<rparr>) = gesture s"
  by (simp_all add: gesture_def)

lemma ring_nth:
  assumes "ring_ok s" "j < 4"
  shows "bs_gesture_starts_ms (CountGesturePress s now) ! ((unat (bs_gesture_next (CountGesturePress s now)) + 4 - Suc j) mod 5) =
    bs_gesture_starts_ms s ! ((unat (bs_gesture_next s) + 4 - j) mod 5)"
proof -
  have n: "unat (bs_gesture_next (CountGesturePress s now)) = (unat (bs_gesture_next s) + 1) mod 5"
    by (simp add: CountGesturePress_def Let_def unat_of_nat)
  have "unat (bs_gesture_next s) \<in> {0, 1, 2, 3, 4}" "j \<in> {0, 1, 2, 3}" using assms by (auto simp: ring_ok_def)
  then show ?thesis
    using assms(1) unfolding n by (auto simp: CountGesturePress_def Let_def ring_ok_def)
qed

lemma count_fields:
  assumes "ring_ok s"
  shows "unat (bs_gesture_presses (CountGesturePress s now)) = min 5 (unat (bs_gesture_presses s) + 1)"
    and "bs_gesture_starts_ms (CountGesturePress s now) ! ((unat (bs_gesture_next (CountGesturePress s now)) + 4) mod 5) = now"
    and "ring_ok (CountGesturePress s now)"
proof -
  show p: "unat (bs_gesture_presses (CountGesturePress s now)) = min 5 (unat (bs_gesture_presses s) + 1)"
    using assms by (auto simp: CountGesturePress_def Let_def ring_ok_def unat_word_ariths)
  have n: "unat (bs_gesture_next (CountGesturePress s now)) = (unat (bs_gesture_next s) + 1) mod 5"
    by (simp add: CountGesturePress_def Let_def unat_of_nat)
  have "unat (bs_gesture_next s) \<in> {0, 1, 2, 3, 4}" using assms by (auto simp: ring_ok_def)
  then show "bs_gesture_starts_ms (CountGesturePress s now) ! ((unat (bs_gesture_next (CountGesturePress s now)) + 4) mod 5) = now"
    using assms unfolding n by (auto simp: CountGesturePress_def Let_def ring_ok_def)
  show "ring_ok (CountGesturePress s now)"
    using assms p n by (simp add: ring_ok_def) (simp add: CountGesturePress_def Let_def)
qed

lemma length_gesture: "length (gesture s) = unat (bs_gesture_presses s)"
  by (simp add: gesture_def)

lemma nth_gesture:
  "i < unat (bs_gesture_presses s) \<Longrightarrow> gesture s ! i = bs_gesture_starts_ms s ! ((unat (bs_gesture_next s) + 4 - i) mod 5)"
  by (simp add: gesture_def)

lemma gesture_count:
  assumes "ring_ok s"
  shows "gesture (CountGesturePress s now) = take 5 (now # gesture s)"
proof (rule nth_equalityI)
  show "length (gesture (CountGesturePress s now)) = length (take 5 (now # gesture s))"
    using count_fields(1) [OF assms, of now] by (simp add: length_gesture)
  fix i assume "i < length (gesture (CountGesturePress s now))"
  then have i: "i < min 5 (unat (bs_gesture_presses s) + 1)" using count_fields(1) [OF assms, of now] by (simp add: length_gesture)
  then have nth: "gesture (CountGesturePress s now) ! i =
      bs_gesture_starts_ms (CountGesturePress s now) ! ((unat (bs_gesture_next (CountGesturePress s now)) + 4 - i) mod 5)"
    using count_fields(1) [OF assms, of now] by (intro nth_gesture) simp
  show "gesture (CountGesturePress s now) ! i = take 5 (now # gesture s) ! i"
  proof (cases i)
    case 0
    then show ?thesis unfolding nth using count_fields(2) [OF assms, of now] by simp
  next
    case (Suc j)
    then have "j < 4" "j < unat (bs_gesture_presses s)" using i by simp_all
    then show ?thesis
      unfolding nth using Suc i ring_nth [OF assms, of j now] by (simp add: nth_gesture)
  qed
qed

lemma gesture_complete:
  assumes "ring_ok s"
  shows "IsGestureComplete s \<longleftrightarrow> length (gesture s) = 5 \<and> hd (gesture s) - last (gesture s) \<le> 3000"
proof (cases "unat (bs_gesture_presses s) = 5")
  case True
  then have g: "gesture s = map (\<lambda>j. bs_gesture_starts_ms s ! ((unat (bs_gesture_next s) + 4 - j) mod 5)) [0, 1, 2, 3, 4]"
    by (simp add: gesture_def upt_rec)
  have "unat (bs_gesture_next s) mod 5 = unat (bs_gesture_next s)" using assms by (simp add: ring_ok_def)
  then show ?thesis using True by (simp add: IsGestureComplete_def g Let_def add.commute)
next
  case False
  then show ?thesis using assms by (simp add: IsGestureComplete_def length_gesture ring_ok_def)
qed

lemma button_step:
  assumes ok: "ring_ok s"
  shows "(case ProcessButtonSample s is_low now hold of (event, s') \<Rightarrow> ring_ok s' \<and> (event, button_abs s') = spec_sample (button_abs s) is_low now hold)"
proof -
  have reset: "ring_ok (ResetGesture t)" if "ring_ok t" for t using that by (simp add: ring_ok_def ResetGesture_def)
  have zero: "0 < bs_gesture_presses s \<longleftrightarrow> gesture s \<noteq> []"
    by (simp add: gesture_def word_less_nat_alt)
  consider (release) "\<not> is_low" "bs_is_pressed s" | (up) "\<not> is_low" "\<not> bs_is_pressed s"
    | (press) "is_low" "\<not> bs_is_pressed s" | (hold) "is_low" "bs_is_pressed s" by blast
  then show ?thesis
  proof cases
    case release
    have ok2: "ring_ok (s\<lparr>bs_release_ms := now\<rparr>)" using ok by (simp add: ring_ok_def)
    have c: "IsGestureComplete (s\<lparr>bs_release_ms := now\<rparr>) \<longleftrightarrow> length (gesture s) = 5 \<and> hd (gesture s) - last (gesture s) \<le> 3000"
      using gesture_complete [OF ok2] by simp
    show ?thesis
      using release ok reset [OF ok2]
      by (auto simp: ProcessButtonSample_def ProcessGestureRelease_def Let_def c button_abs_def spec_sample_def ring_ok_def ResetGesture_def gesture_def)
  next
    case up
    then show ?thesis
      using ok zero by (auto simp: ProcessButtonSample_def ProcessGestureRelease_def button_abs_def spec_sample_def ring_ok_def ResetGesture_def
          gesture_def [of "s\<lparr>bs_gesture_presses := 0, bs_gesture_next := 0\<rparr>"])
  next
    case press
    define t where "t = s\<lparr>bs_is_pressed := True, bs_is_hold_reported := False, bs_press_start_ms := now\<rparr>"
    have t: "ring_ok t" "gesture t = gesture s" using ok by (simp_all add: t_def ring_ok_def)
    have same: "bs_is_pressed (CountGesturePress t now) = True" "bs_is_hold_reported (CountGesturePress t now) = False"
      "bs_press_start_ms (CountGesturePress t now) = now" "bs_release_ms (CountGesturePress t now) = bs_release_ms s"
      by (simp_all add: CountGesturePress_def Let_def t_def)
    show ?thesis
      using press count_fields(3) [OF t(1), of now] gesture_count [OF t(1), of now]
      by (simp add: ProcessButtonSample_def button_abs_def spec_sample_def same t(2) flip: t_def)
  next
    case hold
    then show ?thesis
      using ok by (auto simp: ProcessButtonSample_def button_abs_def spec_sample_def ring_ok_def ResetGesture_def gesture_def)
  qed
qed

subsection \<open>Runs\<close>

text \<open>The events of a list of samples (level and time), each with its time.\<close>

fun button_run :: "u32 \<Rightarrow> button_state \<Rightarrow> (bool \<times> u32) list \<Rightarrow> (button_event \<times> u32) list" where
  "button_run hold s [] = []"
| "button_run hold s ((is_low, now) # samples) =
     (case ProcessButtonSample s is_low now hold of (event, s) \<Rightarrow> (event, now) # button_run hold s samples)"

fun spec_run :: "u32 \<Rightarrow> button_spec \<Rightarrow> (bool \<times> u32) list \<Rightarrow> (button_event \<times> u32) list" where
  "spec_run hold s [] = []"
| "spec_run hold s ((is_low, now) # samples) =
     (case spec_sample s is_low now hold of (event, s) \<Rightarrow> (event, now) # spec_run hold s samples)"

lemma button_run_abs: "ring_ok s \<Longrightarrow> button_run hold s samples = spec_run hold (button_abs s) samples"
proof (induction samples arbitrary: s)
  case (Cons sample samples)
  obtain is_low now where sample: "sample = (is_low, now)" by fastforce
  obtain event s' where step: "ProcessButtonSample s is_low now hold = (event, s')" by fastforce
  with button_step [OF Cons.prems, of is_low now hold]
  have "ring_ok s'" "spec_sample (button_abs s) is_low now hold = (event, button_abs s')" by simp_all
  with Cons.IH [of s'] show ?case by (simp add: sample step)
qed simp

text \<open>The press starts since the last hold or gesture, newest first.\<close>

fun presses :: "u32 list \<Rightarrow> (button_event \<times> u32) list \<Rightarrow> u32 list" where
  "presses ts [] = ts"
| "presses ts ((BUTTON_EVENT_NONE, t) # es) = presses ts es"
| "presses ts ((BUTTON_EVENT_PRESS_STARTED, t) # es) = presses (t # ts) es"
| "presses ts ((BUTTON_EVENT_HOLD_REACHED, t) # es) = presses [] es"
| "presses ts ((BUTTON_EVENT_UPDATE_GESTURE, t) # es) = presses [] es"

lemma spec_sample_starts:
  assumes "spec_sample s is_low now hold = (event, s')" "prefix (sp_starts s) ts"
  shows "prefix (sp_starts s') (presses ts [(event, now)])"
proof -
  have press: "prefix (take 5 (now # sp_starts s)) (now # ts)"
    using take_is_prefix [of 5 "now # sp_starts s"] assms(2) by (meson prefix_order.trans Cons_prefix_Cons)
  show ?thesis
    using assms press by (cases "sp_press s"; cases is_low) (auto simp: spec_sample_def split: if_splits)
qed

lemma spec_sample_update:
  "spec_sample s is_low now hold = (BUTTON_EVENT_UPDATE_GESTURE, s') \<Longrightarrow>
   \<not> is_low \<and> length (sp_starts s) = 5 \<and> hd (sp_starts s) - last (sp_starts s) \<le> 3000"
  by (cases "sp_press s"; cases is_low) (auto simp: spec_sample_def split: if_splits)

lemma presses_append: "presses ts (es @ fs) = presses (presses ts es) fs"
  by (induction ts es rule: presses.induct) auto

lemma spec_run_update:
  assumes "prefix (sp_starts s) ts" "spec_run hold s samples = before @ (BUTTON_EVENT_UPDATE_GESTURE, now) # later"
  shows "\<exists>rest t1 t2 t3 t4 t5. presses ts before = t5 # t4 # t3 # t2 # t1 # rest \<and> t5 - t1 \<le> 3000"
  using assms
proof (induction samples arbitrary: s ts before)
  case (Cons sample samples)
  obtain is_low t where sample: "sample = (is_low, t)" by fastforce
  obtain event s' where step: "spec_sample s is_low t hold = (event, s')" by fastforce
  show ?case
  proof (cases before)
    case Nil
    then have "event = BUTTON_EVENT_UPDATE_GESTURE" using Cons.prems(2) by (simp add: sample step)
    with step have u: "length (sp_starts s) = 5" "hd (sp_starts s) - last (sp_starts s) \<le> 3000"
      using spec_sample_update by blast+
    from u(1) obtain t5 t4 t3 t2 t1 where l: "sp_starts s = [t5, t4, t3, t2, t1]" by (auto simp: numeral_eq_Suc length_Suc_conv)
    then obtain rest where "ts = t5 # t4 # t3 # t2 # t1 # rest" using Cons.prems(1) by (auto simp: prefix_def)
    with u l Nil show ?thesis by simp
  next
    case (Cons e before')
    then have e: "e = (event, t)" "spec_run hold s' samples = before' @ (BUTTON_EVENT_UPDATE_GESTURE, now) # later"
      using Cons.prems(2) by (simp_all add: sample step)
    from Cons.IH [OF spec_sample_starts [OF step Cons.prems(1)] e(2)] show ?thesis
      using presses_append [of ts "[e]" before'] Cons e(1) by simp
  qed
qed simp

definition idle_spec :: button_spec where
  "idle_spec = \<lparr>sp_press = None, sp_starts = [], sp_release = 0\<rparr>"

lemma zero_button: "ring_ok zero_button" "button_abs zero_button = idle_spec"
  by (simp_all add: ring_ok_def zero_button_def button_abs_def gesture_def idle_spec_def)

subsection \<open>Properties\<close>

text \<open>C29: the ring of press starts implements a list. On every sequence of samples the code, with its five-entry ring, its 8-bit
  indices and its wrapping time differences, reports exactly the events of the reference that keeps the counted press starts
  as a list.\<close>

theorem button_refines_reference:
  "button_run hold zero_button samples = spec_run hold idle_spec samples"
  using button_run_abs [OF zero_button(1)] zero_button(2) by simp

text \<open>What an update gesture is. Whenever a run reports the gesture, five press starts, the last five and all after
  the last reported hold and the last gesture, lie within 3,000 ms, modulo the 32-bit clock. So neither a hold nor four presses,
  nor presses counted twice, ever request the updater.\<close>

theorem update_gesture_needs_five_presses:
  assumes "button_run hold zero_button samples = before @ (BUTTON_EVENT_UPDATE_GESTURE, now) # later"
  shows "\<exists>rest t1 t2 t3 t4 t5. presses [] before = t5 # t4 # t3 # t2 # t1 # rest \<and> t5 - t1 \<le> 3000"
  using assms spec_run_update [of idle_spec "[]"] button_run_abs [OF zero_button(1)] zero_button(2)
  by (simp add: idle_spec_def)

theorem update_gesture_needs_five_presses_witness:
  "\<exists>samples before now. button_run 1000 zero_button samples = before @ [(BUTTON_EVENT_UPDATE_GESTURE, now)] \<and>
     length (presses [] before) = 5 \<and> hd (presses [] before) - last (presses [] before) \<le> 3000"
proof -
  let ?samples = "[(True, 100), (False, 200), (True, 300), (False, 400), (True, 500), (False, 600), (True, 700), (False, 800),
    (True, 900), (False, 1000)]"
  let ?before = "butlast (button_run 1000 zero_button ?samples)"
  have run: "button_run 1000 zero_button ?samples = ?before @ (BUTTON_EVENT_UPDATE_GESTURE, 1000) # []"
    unfolding button_run_abs [OF zero_button(1)] zero_button(2) by (simp add: idle_spec_def spec_sample_def)
  have "length (presses [] ?before) = 5"
    unfolding button_run_abs [OF zero_button(1)] zero_button(2) by (simp add: idle_spec_def spec_sample_def)
  moreover from this obtain t5 t4 t3 t2 t1 where "presses [] ?before = [t5, t4, t3, t2, t1]" by (auto simp: numeral_eq_Suc length_Suc_conv)
  ultimately show ?thesis
    using update_gesture_needs_five_presses [OF run] run by (intro exI [of _ ?samples] exI [of _ ?before] exI [of _ 1000]) simp
qed

end
