(* ===== verification/Provisioning.thy ===== *)
theory Provisioning
  imports HttpPortal DnsServer FwUpdate Button Queue
begin

section \<open>The provisioning orchestrator\<close>

text \<open>
  Model of main/provisioning/provisioning.c: the task that owns the Wi-Fi state machine, its message queue and its deadlines.
  The static variables are the record \<open>orch\<close>, which also holds the state of the components only this task starts and stops
  (HTTP server, DNS server, mDNS, Wi-Fi manager, credential store) and the metadata partition. Each function of the source is
  one definition; its calls of other components are their models. What leaves the modelled system (the state callback, the
  timing set handed to the LED driver, the armed read) is appended to \<open>os_out\<close>. Handlers run in the one orchestrator task, so each
  is one step; the queue and the mutex of \<open>s_state\<close> make the posts of other tasks steps of their own. The wiping of message
  copies and the log lines are not modelled.
\<close>

abbreviation (input) BOOT_ATTEMPT_MAX :: u32 where "BOOT_ATTEMPT_MAX \<equiv> 5"
abbreviation (input) ATTEMPT_TIMEOUT_MS :: u32 where "ATTEMPT_TIMEOUT_MS \<equiv> 10000"
abbreviation (input) ATTEMPT_PAUSE_MS :: u32 where "ATTEMPT_PAUSE_MS \<equiv> 2000"
abbreviation (input) BOOT_BUTTON_WINDOW_MS :: u32 where "BOOT_BUTTON_WINDOW_MS \<equiv> BUTTON_HOLD_MS + 50"
abbreviation (input) AP_SHUTDOWN_DELAY_MS :: u32 where "AP_SHUTDOWN_DELAY_MS \<equiv> 3000"
abbreviation (input) PORTAL_RETRY_MS :: u32 where "PORTAL_RETRY_MS \<equiv> 5000"
abbreviation (input) MDNS_HOSTNAME_CHECK_DELAY_MS :: u32 where "MDNS_HOSTNAME_CHECK_DELAY_MS \<equiv> 3000"
abbreviation (input) STATION_SERVICE_RETRY_MS :: u32 where "STATION_SERVICE_RETRY_MS \<equiv> 5000"
abbreviation (input) QUEUE_LENGTH :: nat where "QUEUE_LENGTH \<equiv> 8"
abbreviation (input) FW_HEALTHY_UPTIME_MS :: u32 where "FW_HEALTHY_UPTIME_MS \<equiv> 30000"

datatype orchestrator_state =
    STATE_BOOT_WAIT
  | STATE_STA_ATTEMPT
  | STATE_STA_PAUSE
  | STATE_CONNECTED
  | STATE_RECONNECT_WAIT
  | STATE_RECONNECT_TRY
  | STATE_PORTAL_IDLE
  | STATE_PORTAL_TRIAL
  | STATE_PORTAL_SUCCESS
  | STATE_PORTAL_RETRY

text \<open>The tagged union \<open>message_t\<close>.\<close>

datatype message =
    MSG_BUTTON_REQUEST
  | MSG_STA_CONNECTED
  | MSG_STA_DISCONNECTED
  | MSG_CREDENTIALS_SUBMITTED wifi_credentials
  | MSG_LED_TIMING_SUBMITTED ws2812_timing u32
  | MSG_STA_GOT_IP
  | MSG_PULSE_RESULT ws2812_measurement
  | MSG_PULSE_READ_REQUESTED u32
  | MSG_UPDATE_REQUEST

datatype provisioning_state =
    PROVISIONING_STATE_CONNECTING
  | PROVISIONING_STATE_CONNECTED
  | PROVISIONING_STATE_DISCONNECTED
  | PROVISIONING_STATE_PORTAL

datatype orch_out =
    STATE_NOTIFIED provisioning_state
  | LED_TIMING_APPLIED ws2812_timing u32
  | PULSE_READ_ARMED u32

text \<open>The third-party code below: ESP-IDF, NVS, the partition driver, the size of ota_0, and the tick rate.\<close>

record ('e, 'n, 'd) orch_drv =
  od_platform :: "'e platform"
  od_nvs :: "'n nvs_drv"
  od_partition :: "'d partition_drv"
  od_ota_size :: "u32 option"
  od_tick_rate :: nat

record ('e, 'n, 'd) orch =
  os_state :: orchestrator_state
  os_has_deadline :: bool
  os_deadline_ticks :: u32
  os_attempt_count :: u32
  os_failure_count :: u32
  os_is_associated :: bool
  os_has_stored :: bool
  os_stored :: wifi_credentials
  os_active :: wifi_credentials
  os_trial :: wifi_credentials
  os_state_cb :: bool
  os_has_ip :: bool
  os_is_http_up :: bool
  os_is_mdns_up :: bool
  os_http_start_failures :: u32
  os_mdns_start_failures :: u32
  os_hostname_in_use :: string
  os_is_healthy_pending :: bool
  os_healthy_deadline_ticks :: u32
  os_queue :: "message list"
  os_http :: http_state
  os_dns :: dns_state
  os_mdns :: bool
  os_wifi :: wifi_state
  os_store :: "'n store"
  os_flash :: 'd
  os_io :: "'e io"
  os_out :: "orch_out list"
  os_restarted :: bool

subsection \<open>States and deadlines\<close>

definition ProvisioningSetStateCallback :: "bool \<Rightarrow> ('e, 'n, 'd) orch \<Rightarrow> ('e, 'n, 'd) orch" where
  "ProvisioningSetStateCallback callback s = s\<lparr>os_state_cb := callback\<rparr>"

definition NotifyState :: "provisioning_state \<Rightarrow> ('e, 'n, 'd) orch \<Rightarrow> ('e, 'n, 'd) orch" where
  "NotifyState state s = (if os_state_cb s then s\<lparr>os_out := os_out s @ [STATE_NOTIFIED state]\<rparr> else s)"

definition pdMS_TO_TICKS :: "nat \<Rightarrow> u32 \<Rightarrow> u32" where
  "pdMS_TO_TICKS hz ms = of_nat (unat ms * hz div 1000)"

definition xTaskGetTickCount :: "('e, 'n, 'd) orch_drv \<Rightarrow> ('e, 'n, 'd) orch \<Rightarrow> u32" where
  "xTaskGetTickCount E s = pl_ticks (od_platform E) (io_env (os_io s))"

definition SetState :: "('e, 'n, 'd) orch_drv \<Rightarrow> orchestrator_state \<Rightarrow> u32 \<Rightarrow> ('e, 'n, 'd) orch \<Rightarrow> ('e, 'n, 'd) orch" where
  "SetState E state timeout_ms s = s\<lparr>os_state := state, os_has_deadline := (timeout_ms \<noteq> 0),
     os_deadline_ticks := xTaskGetTickCount E s + pdMS_TO_TICKS (od_tick_rate E) timeout_ms\<rparr>"

definition IsPortalState :: "('e, 'n, 'd) orch \<Rightarrow> bool" where
  "IsPortalState s \<longleftrightarrow> os_state s = STATE_PORTAL_IDLE \<or> os_state s = STATE_PORTAL_TRIAL \<or> os_state s = STATE_PORTAL_SUCCESS \<or>
     os_state s = STATE_PORTAL_RETRY"

text \<open>The subtraction wraps and is read as a signed number.\<close>

definition GetRemainingTicks :: "('e, 'n, 'd) orch_drv \<Rightarrow> u32 \<Rightarrow> ('e, 'n, 'd) orch \<Rightarrow> u32" where
  "GetRemainingTicks E deadline_ticks s =
     (let remaining_ticks = sint (deadline_ticks - xTaskGetTickCount E s)
      in if 0 < remaining_ticks then of_int remaining_ticks else 0)"

definition GetWaitTicks :: "('e, 'n, 'd) orch_drv \<Rightarrow> ('e, 'n, 'd) orch \<Rightarrow> u32" where
  "GetWaitTicks E s =
     (let wait_ticks = (if os_has_deadline s then GetRemainingTicks E (os_deadline_ticks s) s else - 1)
      in if os_is_healthy_pending s \<and> GetRemainingTicks E (os_healthy_deadline_ticks s) s < wait_ticks
         then GetRemainingTicks E (os_healthy_deadline_ticks s) s else wait_ticks)"

subsection \<open>The queue\<close>

text \<open>\<open>xQueueSend\<close> with no waiting: a message for a full queue is dropped.\<close>

definition PostMessage :: "message \<Rightarrow> ('e, 'n, 'd) orch \<Rightarrow> ('e, 'n, 'd) orch" where
  "PostMessage m s = (if length (os_queue s) < QUEUE_LENGTH then s\<lparr>os_queue := os_queue s @ [m]\<rparr> else s)"

interpretation posts: bounded_queue QUEUE_LENGTH os_queue "\<lambda>m s. (length (os_queue s) < QUEUE_LENGTH, PostMessage m s)"
  by unfold_locales (auto simp: PostMessage_def)

definition HandleButtonRequest :: "('e, 'n, 'd) orch \<Rightarrow> ('e, 'n, 'd) orch" where
  "HandleButtonRequest s = PostMessage MSG_BUTTON_REQUEST s"

definition HandleUpdateGesture :: "('e, 'n, 'd) orch \<Rightarrow> ('e, 'n, 'd) orch" where
  "HandleUpdateGesture s = PostMessage MSG_UPDATE_REQUEST s"

definition HandleWifiManagerEvent :: "wifi_manager_event \<Rightarrow> ('e, 'n, 'd) orch \<Rightarrow> ('e, 'n, 'd) orch" where
  "HandleWifiManagerEvent event s = (case event of
     WIFI_MANAGER_EVENT_STA_CONNECTED \<Rightarrow> PostMessage MSG_STA_CONNECTED s
   | WIFI_MANAGER_EVENT_STA_DISCONNECTED \<Rightarrow> PostMessage MSG_STA_DISCONNECTED s
   | WIFI_MANAGER_EVENT_STA_GOT_IP \<Rightarrow> PostMessage MSG_STA_GOT_IP s)"

definition SubmitCredentials :: "wifi_credentials \<Rightarrow> ('e, 'n, 'd) orch \<Rightarrow> bool \<times> ('e, 'n, 'd) orch" where
  "SubmitCredentials credentials s =
     (let is_idle = (os_state s = STATE_PORTAL_IDLE)
      in if \<not> is_idle then (False, s) else (True, PostMessage (MSG_CREDENTIALS_SUBMITTED credentials) s))"

definition SubmitLedTiming :: "ws2812_timing option \<Rightarrow> u32 \<Rightarrow> ('e, 'n, 'd) orch \<Rightarrow> ('e, 'n, 'd) orch" where
  "SubmitLedTiming timing submit_seq s = (case timing of
     None \<Rightarrow> s
   | Some t \<Rightarrow> if length (os_queue s) < QUEUE_LENGTH
               then s\<lparr>os_queue := os_queue s @ [MSG_LED_TIMING_SUBMITTED t submit_seq]\<rparr> else s)"

definition PostPulseResult :: "ws2812_measurement option \<Rightarrow> ('e, 'n, 'd) orch \<Rightarrow> ('e, 'n, 'd) orch" where
  "PostPulseResult measurement s = (case measurement of
     None \<Rightarrow> s
   | Some m \<Rightarrow> if length (os_queue s) < QUEUE_LENGTH then s\<lparr>os_queue := os_queue s @ [MSG_PULSE_RESULT m]\<rparr> else s)"

definition RequestPulseRead :: "u32 \<Rightarrow> ('e, 'n, 'd) orch \<Rightarrow> ('e, 'n, 'd) orch" where
  "RequestPulseRead submit_seq s =
     (if length (os_queue s) < QUEUE_LENGTH then s\<lparr>os_queue := os_queue s @ [MSG_PULSE_READ_REQUESTED submit_seq]\<rparr> else s)"

text \<open>\<open>s_portal_ops\<close>: what the calls of the HTTP handlers do.\<close>

definition s_portal_ops :: "portal_call \<Rightarrow> ('e, 'n, 'd) orch \<Rightarrow> ('e, 'n, 'd) orch" where
  "s_portal_ops call s = (case call of
     SUBMIT_CREDENTIALS c \<Rightarrow> snd (SubmitCredentials c s)
   | APPLY_LED_TIMING timing submit_seq \<Rightarrow> SubmitLedTiming (Some timing) submit_seq s
   | REQUEST_PULSE_READ submit_seq \<Rightarrow> RequestPulseRead submit_seq s)"

subsection \<open>Calls of the Wi-Fi manager\<close>

definition connect_station :: "('e, 'n, 'd) orch_drv \<Rightarrow> wifi_credentials \<Rightarrow> ('e, 'n, 'd) orch \<Rightarrow> ('e, 'n, 'd) orch" where
  "connect_station E c s =
     (let (is_ok, w, io) = ConnectWifiStation (od_platform E) c (os_wifi s, os_io s) in s\<lparr>os_wifi := w, os_io := io\<rparr>)"

definition disconnect_station :: "('e, 'n, 'd) orch_drv \<Rightarrow> ('e, 'n, 'd) orch \<Rightarrow> ('e, 'n, 'd) orch" where
  "disconnect_station E s =
     (let (w, io) = DisconnectWifiStation (od_platform E) (os_wifi s, os_io s) in s\<lparr>os_wifi := w, os_io := io\<rparr>)"

definition set_identity :: "('e, 'n, 'd) orch_drv \<Rightarrow> ('e, 'n, 'd) orch \<Rightarrow> ('e, 'n, 'd) orch" where
  "set_identity E s = s\<lparr>os_http := SetHttpStationIdentity (Some (os_hostname_in_use s))
     (GetWifiStationAddress (od_platform E) (os_wifi s) (os_io s)) (os_http s)\<rparr>"

definition StartBootAttempt :: "('e, 'n, 'd) orch_drv \<Rightarrow> ('e, 'n, 'd) orch \<Rightarrow> ('e, 'n, 'd) orch" where
  "StartBootAttempt E s =
     (let s = s\<lparr>os_attempt_count := os_attempt_count s + 1\<rparr>; s = connect_station E (os_stored s) s
      in SetState E STATE_STA_ATTEMPT ATTEMPT_TIMEOUT_MS s)"

definition BeginReconnectWait :: "('e, 'n, 'd) orch_drv \<Rightarrow> ('e, 'n, 'd) orch \<Rightarrow> ('e, 'n, 'd) orch" where
  "BeginReconnectWait E s =
     (let delay_ms = GetWifiReconnectDelayMs (os_failure_count s) in SetState E STATE_RECONNECT_WAIT delay_ms s)"

subsection \<open>Station services\<close>

text \<open>The counter after a start; the first failure is logged as an error, later ones as warnings.\<close>

definition ReportStationServiceStart :: "bool \<Rightarrow> u32 \<Rightarrow> u32" where
  "ReportStationServiceStart is_started failure_count = (if is_started then 0 else failure_count + 1)"

definition start_station_http :: "('e, 'n, 'd) orch_drv \<Rightarrow> ('e, 'n, 'd) orch \<Rightarrow> ('e, 'n, 'd) orch" where
  "start_station_http E s =
     (if \<not> os_is_http_up s then
        let s = s\<lparr>os_hostname_in_use := MDNS_SERVICE_HOSTNAME\<rparr>; s = set_identity E s;
            (is_up, http, io) = StartHttpStationServer (od_platform E) (os_http s, os_io s)
        in s\<lparr>os_is_http_up := is_up, os_http := http, os_io := io,
             os_http_start_failures := ReportStationServiceStart is_up (os_http_start_failures s)\<rparr>
      else s)"

definition start_station_mdns :: "('e, 'n, 'd) orch_drv \<Rightarrow> ('e, 'n, 'd) orch \<Rightarrow> ('e, 'n, 'd) orch" where
  "start_station_mdns E s =
     (if \<not> os_is_mdns_up s then
        let (is_up, mdns, io) = StartMdnsService (od_platform E) (os_mdns s, os_io s)
        in s\<lparr>os_is_mdns_up := is_up, os_mdns := mdns, os_io := io,
             os_mdns_start_failures := ReportStationServiceStart is_up (os_mdns_start_failures s)\<rparr>
      else s)"

definition StartStationServices :: "('e, 'n, 'd) orch_drv \<Rightarrow> ('e, 'n, 'd) orch \<Rightarrow> ('e, 'n, 'd) orch" where
  "StartStationServices E s =
     (let s = start_station_http E s; s = start_station_mdns E s
      in SetState E STATE_CONNECTED
           (if os_is_http_up s \<and> os_is_mdns_up s then MDNS_HOSTNAME_CHECK_DELAY_MS else STATION_SERVICE_RETRY_MS) s)"

definition StopStationServices :: "('e, 'n, 'd) orch_drv \<Rightarrow> ('e, 'n, 'd) orch \<Rightarrow> ('e, 'n, 'd) orch" where
  "StopStationServices E s =
     (let (mdns, io) = StopMdnsService (od_platform E) (os_mdns s, os_io s);
          (http, io) = StopHttpPortal (od_platform E) (os_http s, io)
      in s\<lparr>os_mdns := mdns, os_http := http, os_io := io, os_is_http_up := False, os_is_mdns_up := False,
           os_http_start_failures := 0, os_mdns_start_failures := 0\<rparr>)"

definition CheckMdnsHostname :: "('e, 'n, 'd) orch_drv \<Rightarrow> ('e, 'n, 'd) orch \<Rightarrow> ('e, 'n, 'd) orch" where
  "CheckMdnsHostname E s = (case LogMdnsHostnameInUse (od_platform E) MDNS_SERVICE_HOSTNAME_MAX (os_io s) of
     None \<Rightarrow> s
   | Some name \<Rightarrow> set_identity E (s\<lparr>os_hostname_in_use := name\<rparr>))"

definition HandleStationGotIp :: "('e, 'n, 'd) orch_drv \<Rightarrow> ('e, 'n, 'd) orch \<Rightarrow> ('e, 'n, 'd) orch" where
  "HandleStationGotIp E s =
     (let s = s\<lparr>os_has_ip := True\<rparr> in
      if os_state s \<noteq> STATE_CONNECTED then s
      else let s = (if os_is_http_up s then set_identity E s else s)
           in if os_is_http_up s \<and> os_is_mdns_up s then SetState E STATE_CONNECTED MDNS_HOSTNAME_CHECK_DELAY_MS s
              else StartStationServices E s)"

subsection \<open>Provisioning mode\<close>

definition StopPortalServices :: "('e, 'n, 'd) orch_drv \<Rightarrow> ('e, 'n, 'd) orch \<Rightarrow> ('e, 'n, 'd) orch" where
  "StopPortalServices E s =
     (let (http, io) = StopHttpPortal (od_platform E) (os_http s, os_io s);
          (dns, io) = StopDnsServer (od_platform E) (os_dns s, io);
          (is_ok, w, io) = StopWifiAccessPoint (od_platform E) (os_wifi s, io)
      in s\<lparr>os_http := http, os_dns := dns, os_wifi := w, os_io := io\<rparr>)"

text \<open>The chain of the three starts, each only when the one before succeeded.\<close>

definition start_portal_services :: "('e, 'n, 'd) orch_drv \<Rightarrow> ('e, 'n, 'd) orch \<Rightarrow> bool \<times> ('e, 'n, 'd) orch" where
  "start_portal_services E s =
     (let (is_ok, w, io) = StartWifiAccessPoint (od_platform E) (os_wifi s, os_io s); s = s\<lparr>os_wifi := w, os_io := io\<rparr> in
      if \<not> is_ok then (False, s)
      else let (is_ok, dns, io) = StartDnsServer (od_platform E) (GetWifiAccessPointAddress (od_platform E) (os_wifi s) (os_io s))
                 (os_dns s, os_io s); s = s\<lparr>os_dns := dns, os_io := io\<rparr> in
      if \<not> is_ok then (False, s)
      else let (is_ok, http, io) = StartHttpPortal (od_platform E) (os_http s, os_io s); s = s\<lparr>os_http := http, os_io := io\<rparr>
           in (is_ok, s))"

definition EnterProvisioning :: "('e, 'n, 'd) orch_drv \<Rightarrow> ('e, 'n, 'd) orch \<Rightarrow> ('e, 'n, 'd) orch" where
  "EnterProvisioning E s =
     (let s = StopStationServices E s; s = s\<lparr>os_has_ip := False\<rparr>; s = disconnect_station E s;
          (is_started, s) = start_portal_services E s
      in if \<not> is_started then SetState E STATE_PORTAL_RETRY PORTAL_RETRY_MS (StopPortalServices E s)
         else NotifyState PROVISIONING_STATE_PORTAL (SetState E STATE_PORTAL_IDLE 0 s))"

definition LeaveProvisioning :: "('e, 'n, 'd) orch_drv \<Rightarrow> ('e, 'n, 'd) orch \<Rightarrow> ('e, 'n, 'd) orch" where
  "LeaveProvisioning E s =
     (let s = StopPortalServices E s; s = s\<lparr>os_trial := zero_credentials\<rparr> in
      if os_is_associated s then
        let s = s\<lparr>os_failure_count := 0\<rparr>; s = SetState E STATE_CONNECTED 0 s; s = NotifyState PROVISIONING_STATE_CONNECTED s
        in if os_has_ip s then StartStationServices E s else s
      else let s = s\<lparr>os_failure_count := 0\<rparr>; s = NotifyState PROVISIONING_STATE_DISCONNECTED s in BeginReconnectWait E s)"

definition FailTrial :: "('e, 'n, 'd) orch_drv \<Rightarrow> ('e, 'n, 'd) orch \<Rightarrow> ('e, 'n, 'd) orch" where
  "FailTrial E s =
     (let s = disconnect_station E s; s = s\<lparr>os_trial := zero_credentials\<rparr>;
          s = s\<lparr>os_http := SetHttpPortalStatus PORTAL_STATUS_FAILED (os_http s)\<rparr>
      in SetState E STATE_PORTAL_IDLE 0 s)"

subsection \<open>Messages and timeouts\<close>

definition HandleStationConnected :: "('e, 'n, 'd) orch_drv \<Rightarrow> ('e, 'n, 'd) orch \<Rightarrow> ('e, 'n, 'd) orch" where
  "HandleStationConnected E s =
     (if os_state s = STATE_STA_ATTEMPT \<or> os_state s = STATE_RECONNECT_WAIT \<or> os_state s = STATE_RECONNECT_TRY then
        let s = (if os_state s = STATE_STA_ATTEMPT then s\<lparr>os_active := os_stored s\<rparr> else s); s = s\<lparr>os_failure_count := 0\<rparr>
        in NotifyState PROVISIONING_STATE_CONNECTED (SetState E STATE_CONNECTED 0 s)
      else if os_state s = STATE_PORTAL_TRIAL then
        let (is_stored, store) = ReplaceCredentials (od_nvs E) (Some (os_trial s)) (os_store s); s = s\<lparr>os_store := store\<rparr> in
        if is_stored then
          let s = s\<lparr>os_active := os_trial s, os_http := SetHttpPortalStatus PORTAL_STATUS_CONNECTED (os_http s)\<rparr>
          in SetState E STATE_PORTAL_SUCCESS AP_SHUTDOWN_DELAY_MS s
        else FailTrial E s
      else s)"

definition HandleStationDisconnected :: "('e, 'n, 'd) orch_drv \<Rightarrow> ('e, 'n, 'd) orch \<Rightarrow> ('e, 'n, 'd) orch" where
  "HandleStationDisconnected E s =
     (if os_state s = STATE_CONNECTED then
        let s = s\<lparr>os_failure_count := 0\<rparr>; s = NotifyState PROVISIONING_STATE_DISCONNECTED s in BeginReconnectWait E s
      else if os_state s = STATE_RECONNECT_TRY then
        BeginReconnectWait E (s\<lparr>os_failure_count := os_failure_count s + 1\<rparr>)
      else s)"

text \<open>\<open>RestartIntoUpdater\<close> restarts the chip and does not return.\<close>

definition RestartIntoUpdater :: "('e, 'n, 'd) orch \<Rightarrow> ('e, 'n, 'd) orch" where
  "RestartIntoUpdater s = s\<lparr>os_restarted := True\<rparr>"

definition HandleUpdateRequest :: "('e, 'n, 'd) orch_drv \<Rightarrow> ('e, 'n, 'd) orch \<Rightarrow> ('e, 'n, 'd) orch" where
  "HandleUpdateRequest E s =
     (let (result, flash) = RequestFwUpdate (od_partition E) (od_ota_size E) (os_flash s); s = s\<lparr>os_flash := flash\<rparr> in
      if result = FW_UPDATE_REQUEST_FAILED then s
      else RestartIntoUpdater (disconnect_station E (StopPortalServices E (StopStationServices E s))))"

definition HandleMessage :: "('e, 'n, 'd) orch_drv \<Rightarrow> message \<Rightarrow> ('e, 'n, 'd) orch \<Rightarrow> ('e, 'n, 'd) orch" where
  "HandleMessage E m s = (case m of
     MSG_BUTTON_REQUEST \<Rightarrow> (if IsPortalState s then s else EnterProvisioning E s)
   | MSG_STA_CONNECTED \<Rightarrow> HandleStationConnected E (s\<lparr>os_is_associated := True\<rparr>)
   | MSG_STA_DISCONNECTED \<Rightarrow> HandleStationDisconnected E (s\<lparr>os_is_associated := False, os_has_ip := False\<rparr>)
   | MSG_STA_GOT_IP \<Rightarrow> HandleStationGotIp E s
   | MSG_CREDENTIALS_SUBMITTED c \<Rightarrow>
       (if os_state s = STATE_PORTAL_IDLE
        then let s = s\<lparr>os_trial := c\<rparr>; s = connect_station E (os_trial s) s in SetState E STATE_PORTAL_TRIAL ATTEMPT_TIMEOUT_MS s
        else s)
   | MSG_LED_TIMING_SUBMITTED timing submit_seq \<Rightarrow> s\<lparr>os_out := os_out s @ [LED_TIMING_APPLIED timing submit_seq]\<rparr>
   | MSG_PULSE_RESULT measurement \<Rightarrow> s\<lparr>os_http := SetHttpTunerResult (Some measurement) (os_http s)\<rparr>
   | MSG_PULSE_READ_REQUESTED submit_seq \<Rightarrow> s\<lparr>os_out := os_out s @ [PULSE_READ_ARMED submit_seq]\<rparr>
   | MSG_UPDATE_REQUEST \<Rightarrow> HandleUpdateRequest E s)"

definition HandleTimeout :: "('e, 'n, 'd) orch_drv \<Rightarrow> ('e, 'n, 'd) orch \<Rightarrow> ('e, 'n, 'd) orch" where
  "HandleTimeout E s = (case os_state s of
     STATE_BOOT_WAIT \<Rightarrow>
       (if os_has_stored s then StartBootAttempt E (NotifyState PROVISIONING_STATE_CONNECTING s) else EnterProvisioning E s)
   | STATE_STA_ATTEMPT \<Rightarrow>
       (let s = disconnect_station E s in
        if os_attempt_count s < BOOT_ATTEMPT_MAX then SetState E STATE_STA_PAUSE ATTEMPT_PAUSE_MS s else EnterProvisioning E s)
   | STATE_STA_PAUSE \<Rightarrow> StartBootAttempt E s
   | STATE_RECONNECT_WAIT \<Rightarrow> SetState E STATE_RECONNECT_TRY ATTEMPT_TIMEOUT_MS (connect_station E (os_active s) s)
   | STATE_RECONNECT_TRY \<Rightarrow>
       (let s = s\<lparr>os_failure_count := os_failure_count s + 1\<rparr>; s = disconnect_station E s in BeginReconnectWait E s)
   | STATE_PORTAL_TRIAL \<Rightarrow> FailTrial E s
   | STATE_PORTAL_SUCCESS \<Rightarrow> LeaveProvisioning E s
   | STATE_PORTAL_RETRY \<Rightarrow> EnterProvisioning E s
   | STATE_CONNECTED \<Rightarrow>
       (if \<not> (os_is_http_up s \<and> os_is_mdns_up s) \<and> os_has_ip s then StartStationServices E s
        else let s = SetState E STATE_CONNECTED 0 s in if os_is_http_up s \<and> os_is_mdns_up s then CheckMdnsHostname E s else s)
   | STATE_PORTAL_IDLE \<Rightarrow> s)"

subsection \<open>The task\<close>

text \<open>One turn of the loop after a receive timeout.\<close>

definition timeout_turn :: "('e, 'n, 'd) orch_drv \<Rightarrow> ('e, 'n, 'd) orch \<Rightarrow> ('e, 'n, 'd) orch" where
  "timeout_turn E s =
     (let s = (if os_is_healthy_pending s \<and> GetRemainingTicks E (os_healthy_deadline_ticks s) s = 0
               then s\<lparr>os_is_healthy_pending := False, os_flash := MarkFirmwareHealthy (od_partition E) (os_flash s)\<rparr> else s)
      in if os_has_deadline s \<and> GetRemainingTicks E (os_deadline_ticks s) s = 0 then HandleTimeout E s else s)"

text \<open>A turn of the loop: the first message, or a receive timeout when the queue is empty.\<close>

definition RunOrchestratorTask :: "('e, 'n, 'd) orch_drv \<Rightarrow> ('e, 'n, 'd) orch \<Rightarrow> ('e, 'n, 'd) orch" where
  "RunOrchestratorTask E s = (case os_queue s of
     m # rest \<Rightarrow> HandleMessage E m (s\<lparr>os_queue := rest\<rparr>)
   | [] \<Rightarrow> timeout_turn E s)"

text \<open>
  The result is whether the task was created, which begins with \<open>SetState\<close>; \<open>is_timer\<close> is whether the one-shot timer runs. The
  interfaces that exist are those of \<open>InitWifiManager\<close>, the timer results those of \<open>StartFwHealthyTimer\<close>.
\<close>

definition ProvisioningStart ::
  "('e, 'n, 'd) orch_drv \<Rightarrow> bool \<Rightarrow> bool \<Rightarrow> esp_err \<Rightarrow> esp_err \<Rightarrow> ('e, 'n, 'd) orch \<Rightarrow> bool \<times> bool \<times> ('e, 'n, 'd) orch" where
  "ProvisioningStart E has_ap_netif has_sta_netif create_result start_result s =
     (let s = s\<lparr>os_queue := []\<rparr>;
          s = s\<lparr>os_is_healthy_pending := True,
                os_healthy_deadline_ticks := xTaskGetTickCount E s + pdMS_TO_TICKS (od_tick_rate E) FW_HEALTHY_UPTIME_MS\<rparr>;
          s = s\<lparr>os_store := snd (InitCredentialStore (od_nvs E) (os_store s))\<rparr>;
          (stored, store) = LoadCredentials (od_nvs E) (os_store s);
          s = s\<lparr>os_store := store, os_has_stored := (stored \<noteq> None),
                os_stored := (case stored of None \<Rightarrow> zero_credentials | Some c \<Rightarrow> c)\<rparr>;
          (is_ok, w, io) = InitWifiManager (od_platform E) has_ap_netif has_sta_netif (os_wifi s, os_io s);
          s = s\<lparr>os_wifi := w, os_io := io\<rparr>
      in if \<not> is_ok
         then let (is_timer, has_timer) = StartFwHealthyTimer False create_result start_result
              in (False, is_timer, s\<lparr>os_is_healthy_pending := False\<rparr>)
         else (True, False, SetState E STATE_BOOT_WAIT BOOT_BUTTON_WINDOW_MS s))"

subsection \<open>What each operation leaves alone\<close>

definition io_mode :: "('e, 'n, 'd) orch \<Rightarrow> wifi_mode" where
  "io_mode s = mode_set (io_log (os_io s))"

definition io_off :: "('e, 'n, 'd) orch \<Rightarrow> bool" where
  "io_off s = ap_asked_off (io_log (os_io s))"

lemma io_off_keeps: "io_keeps p io io' \<Longrightarrow> ap_asked_off (io_log io') = ap_asked_off (io_log io)"
  by (simp add: ap_asked_off_def io_keeps_asked)

text \<open>The steps that only call the Wi-Fi driver or only set state and deadline.\<close>

definition wifi_only :: "('e, 'n, 'd) orch_drv \<Rightarrow> ('e, 'n, 'd) orch \<Rightarrow> ('e, 'n, 'd) orch \<Rightarrow> bool" where
  "wifi_only E s s' \<longleftrightarrow> (\<exists>w io. s' = s\<lparr>os_wifi := w, os_io := io\<rparr> \<and> io_calls (od_platform E) (os_io s) io)"

lemma connect_station_only: "wifi_only E s (connect_station E c s)"
proof -
  obtain ok w io where "ConnectWifiStation (od_platform E) c (os_wifi s, os_io s) = (ok, w, io)" by (metis prod.exhaust)
  with wifi_calls(3) [OF this] show ?thesis by (auto simp: wifi_only_def connect_station_def)
qed

lemma connect_station_off: "io_off s \<Longrightarrow> io_off (connect_station E c s)"
proof -
  assume a: "io_off s"
  obtain ok w io where "ConnectWifiStation (od_platform E) c (os_wifi s, os_io s) = (ok, w, io)" by (metis prod.exhaust)
  with wifi_asked_off(2) [OF this] a show "io_off (connect_station E c s)" by (simp add: connect_station_def io_off_def)
qed

lemma disconnect_station_only:
  "wifi_only E s (disconnect_station E s)" "io_mode (disconnect_station E s) = io_mode s"
  "io_off (disconnect_station E s) = io_off s"
proof -
  obtain w io where d: "DisconnectWifiStation (od_platform E) (os_wifi s, os_io s) = (w, io)" by fastforce
  note k = wifi_keeps(1) [OF d]
  show "wifi_only E s (disconnect_station E s)" using d io_keeps_calls [OF k] by (auto simp: wifi_only_def disconnect_station_def)
  show "io_mode (disconnect_station E s) = io_mode s" using d io_keeps_mode [OF k] by (simp add: disconnect_station_def io_mode_def)
  show "io_off (disconnect_station E s) = io_off s" using d io_off_keeps [OF k] by (simp add: disconnect_station_def io_off_def)
qed

lemma NotifyState_form: "\<exists>out. NotifyState state s = s\<lparr>os_out := out\<rparr>"
proof (cases "os_state_cb s")
  case False
  then have "NotifyState state s = s\<lparr>os_out := os_out s\<rparr>" by (simp add: NotifyState_def)
  then show ?thesis ..
qed (simp add: NotifyState_def exI [of _ "os_out s @ [STATE_NOTIFIED state]"])

lemma StopStationServices_form:
  "\<exists>http io. StopStationServices E s = s\<lparr>os_mdns := False, os_http := http, os_io := io, os_is_http_up := False,
     os_is_mdns_up := False, os_http_start_failures := 0, os_mdns_start_failures := 0\<rparr> \<and>
     server_down http \<and> io_keeps (od_platform E) (os_io s) io"
proof -
  obtain m io1 where m: "StopMdnsService (od_platform E) (os_mdns s, os_io s) = (m, io1)" by fastforce
  obtain http io2 where h: "StopHttpPortal (od_platform E) (os_http s, io1) = (http, io2)" by fastforce
  note f = mdns.stop_law [OF m] portal.stop_law [OF h]
  have "StopStationServices E s = s\<lparr>os_mdns := False, os_http := http, os_io := io2, os_is_http_up := False,
     os_is_mdns_up := False, os_http_start_failures := 0, os_mdns_start_failures := 0\<rparr>"
    using m h f(1) by (simp add: StopStationServices_def)
  then show ?thesis using f io_keeps_trans by blast
qed

lemma StopPortalServices_form:
  "\<exists>http dns w io. StopPortalServices E s = s\<lparr>os_http := http, os_dns := dns, os_wifi := w, os_io := io\<rparr> \<and>
     server_down http \<and> \<not> ds_task dns \<and> ap_asked_off (io_log io) \<and> io_calls (od_platform E) (os_io s) io"
proof -
  obtain http io1 where h: "StopHttpPortal (od_platform E) (os_http s, os_io s) = (http, io1)" by fastforce
  obtain dns io2 where d: "StopDnsServer (od_platform E) (os_dns s, io1) = (dns, io2)" by fastforce
  obtain ok w io3 where w: "StopWifiAccessPoint (od_platform E) (os_wifi s, io2) = (ok, w, io3)" by (metis prod.exhaust)
  have "StopPortalServices E s = s\<lparr>os_http := http, os_dns := dns, os_wifi := w, os_io := io3\<rparr>"
    using h d w by (simp add: StopPortalServices_def)
  moreover have "io_calls (od_platform E) (os_io s) io3"
    using portal.stop_law [OF h] dns.stop_law [OF d] wifi_calls(2) [OF w] io_keeps_calls io_calls_trans by blast
  ultimately show ?thesis using portal.stop_law [OF h] dns.stop_law [OF d] wifi_asked_off(1) [OF w] by blast
qed

lemma start_portal_services_form:
  assumes "start_portal_services E s = (ok, s')"
  shows "\<exists>http dns w io. s' = s\<lparr>os_http := http, os_dns := dns, os_wifi := w, os_io := io\<rparr> \<and>
     io_calls (od_platform E) (os_io s) io \<and>
     (ok \<longrightarrow> server_up HTTP_PROFILE_PROVISIONING http \<and> hs_status http = PORTAL_STATUS_IDLE \<and> dns_running dns \<and>
        mode_set (io_log io) = WIFI_MODE_APSTA)"
proof -
  obtain ok1 w io1 where 1: "StartWifiAccessPoint (od_platform E) (os_wifi s, os_io s) = (ok1, w, io1)" by (metis prod.exhaust)
  obtain ok2 dns io2 where 2: "StartDnsServer (od_platform E) (GetWifiAccessPointAddress (od_platform E) w io1) (os_dns s, io1) = (ok2, dns, io2)"
    by (metis prod.exhaust)
  obtain ok3 http io3 where 3: "StartHttpPortal (od_platform E) (os_http s, io2) = (ok3, http, io3)" by (metis prod.exhaust)
  note c1 = wifi_calls(1) [OF 1] and c2 = dns.start_law [OF 2] and c3 = portal.start_law [OF 3]
  have calls: "io_calls (od_platform E) (os_io s) io2" "io_calls (od_platform E) (os_io s) io3"
    using c1 c2 c3 io_keeps_calls io_calls_trans by blast+
  note S = start_portal_services_def Let_def
  consider "\<not> ok1" | "ok1" "\<not> ok2" | "ok1" "ok2" by blast
  then show ?thesis
  proof cases
    case 1
    then have "\<not> ok" "s' = s\<lparr>os_http := os_http s, os_dns := os_dns s, os_wifi := w, os_io := io1\<rparr>"
      using assms \<open>StartWifiAccessPoint _ _ = _\<close> by (auto simp: S)
    then show ?thesis using c1 by blast
  next
    case 2
    then have "\<not> ok" "s' = s\<lparr>os_http := os_http s, os_dns := dns, os_wifi := w, os_io := io2\<rparr>"
      using assms \<open>StartWifiAccessPoint _ _ = _\<close> \<open>StartDnsServer _ _ _ = _\<close> by (auto simp: S intro!: orch.equality)
    then show ?thesis using calls(1) by blast
  next
    case 3
    then have r: "ok = ok3" "s' = s\<lparr>os_http := http, os_dns := dns, os_wifi := w, os_io := io3\<rparr>"
      using assms \<open>StartWifiAccessPoint _ _ = _\<close> \<open>StartDnsServer _ _ _ = _\<close> \<open>StartHttpPortal _ _ = _\<close>
      by (auto simp: S intro!: orch.equality)
    have "mode_set (io_log io3) = WIFI_MODE_APSTA"
      using StartWifiAccessPoint_mode [OF \<open>StartWifiAccessPoint _ _ = _\<close>] 3 dns.service_mode(1) [OF \<open>StartDnsServer _ _ _ = _\<close>]
        portal.service_mode(1) [OF \<open>StartHttpPortal _ _ = _\<close>] by simp
    moreover have "ok3 \<Longrightarrow> server_up HTTP_PROFILE_PROVISIONING http \<and> hs_status http = PORTAL_STATUS_IDLE"
      using StartHttpPortal_state [OF \<open>StartHttpPortal _ _ = _\<close>] by simp
    moreover have "dns_running dns" using c2 3 by simp
    ultimately show ?thesis using r calls(2) by blast
  qed
qed

text \<open>Starting the station services: each flag says whether its service is up.\<close>

lemma start_station_http_form:
  "\<exists>name http io hu hf. start_station_http E s = s\<lparr>os_hostname_in_use := name, os_http := http, os_is_http_up := hu, os_io := io,
       os_http_start_failures := hf\<rparr> \<and> io_keeps (od_platform E) (os_io s) io \<and>
     (if os_is_http_up s then hu \<and> http = os_http s else if hu then server_up HTTP_PROFILE_STATION http else server_down http)"
proof (cases "os_is_http_up s")
  case True
  then have "start_station_http E s = s\<lparr>os_hostname_in_use := os_hostname_in_use s, os_http := os_http s, os_is_http_up := True,
     os_io := os_io s, os_http_start_failures := os_http_start_failures s\<rparr>" by (simp add: start_station_http_def)
  then show ?thesis using True io_keeps_refl by metis
next
  case False
  let ?s = "set_identity E (s\<lparr>os_hostname_in_use := MDNS_SERVICE_HOSTNAME\<rparr>)"
  obtain hu http io where h: "StartHttpStationServer (od_platform E) (os_http ?s, os_io ?s) = (hu, http, io)" by (metis prod.exhaust)
  have "start_station_http E s = s\<lparr>os_hostname_in_use := MDNS_SERVICE_HOSTNAME, os_http := http, os_is_http_up := hu, os_io := io,
     os_http_start_failures := ReportStationServiceStart hu (os_http_start_failures s)\<rparr>"
    using h False by (auto simp: start_station_http_def set_identity_def intro!: orch.equality)
  moreover have "os_io ?s = os_io s" by (simp add: set_identity_def)
  ultimately show ?thesis using station.start_law [OF h] False by metis
qed

lemma start_station_mdns_form:
  "\<exists>mdns io mu mf. start_station_mdns E s = s\<lparr>os_mdns := mdns, os_is_mdns_up := mu, os_io := io, os_mdns_start_failures := mf\<rparr> \<and>
     io_keeps (od_platform E) (os_io s) io \<and> (if os_is_mdns_up s then mu \<and> mdns = os_mdns s else mdns = mu)"
proof (cases "os_is_mdns_up s")
  case True
  then have "start_station_mdns E s = s\<lparr>os_mdns := os_mdns s, os_is_mdns_up := True, os_io := os_io s,
     os_mdns_start_failures := os_mdns_start_failures s\<rparr>" by (simp add: start_station_mdns_def)
  then show ?thesis using True io_keeps_refl by metis
next
  case False
  obtain mu mdns io where m: "StartMdnsService (od_platform E) (os_mdns s, os_io s) = (mu, mdns, io)" by (metis prod.exhaust)
  have "start_station_mdns E s = s\<lparr>os_mdns := mdns, os_is_mdns_up := mu, os_io := io,
     os_mdns_start_failures := ReportStationServiceStart mu (os_mdns_start_failures s)\<rparr>"
    using m False by (auto simp: start_station_mdns_def intro!: orch.equality)
  then show ?thesis using mdns.start_law [OF m] StartMdnsService_running [OF m] False by metis
qed

text \<open>The variables of the state machine itself, which no start or stop of a service touches.\<close>

definition control where
  "control s = (os_state s, os_has_deadline s, os_deadline_ticks s, os_attempt_count s, os_failure_count s, os_is_associated s,
     os_has_stored s, os_stored s, os_active s, os_trial s, os_state_cb s, os_has_ip s, os_is_healthy_pending s,
     os_healthy_deadline_ticks s, os_queue s, os_store s, os_flash s, os_restarted s)"

lemma control_frames:
  "control (connect_station E c s) = control s"
  "control (disconnect_station E s) = control s"
  "control (NotifyState state s) = control s"
  "control (set_identity E s) = control s"
  "control (StopStationServices E s) = control s"
  "control (StopPortalServices E s) = control s"
  "control (snd (start_portal_services E s)) = control s"
  "control (start_station_http E s) = control s"
  "control (start_station_mdns E s) = control s"
proof -
  show "control (connect_station E c s) = control s"
    using connect_station_only [of E s c] by (auto simp: wifi_only_def control_def)
  show "control (disconnect_station E s) = control s"
    using disconnect_station_only(1) [of E s] by (auto simp: wifi_only_def control_def)
  show "control (NotifyState state s) = control s" using NotifyState_form [of state s] by (auto simp: control_def)
  show "control (set_identity E s) = control s" by (simp add: set_identity_def control_def)
  show "control (StopStationServices E s) = control s" using StopStationServices_form [of E s] by (auto simp: control_def)
  show "control (StopPortalServices E s) = control s" using StopPortalServices_form [of E s] by (auto simp: control_def)
  show "control (snd (start_portal_services E s)) = control s"
    using start_portal_services_form [of E s "fst (start_portal_services E s)" "snd (start_portal_services E s)"]
    by (auto simp: control_def)
  show "control (start_station_http E s) = control s" using start_station_http_form [of E s] by (auto simp: control_def)
  show "control (start_station_mdns E s) = control s" using start_station_mdns_form [of E s] by (auto simp: control_def)
qed

lemmas frames [simp] = control_frames [unfolded control_def prod.inject]

lemma SetState_sel [simp]:
  "os_state (SetState E st t s) = st" "os_has_deadline (SetState E st t s) = (t \<noteq> 0)" "os_http (SetState E st t s) = os_http s"
  "os_dns (SetState E st t s) = os_dns s" "os_io (SetState E st t s) = os_io s" "os_mdns (SetState E st t s) = os_mdns s"
  "os_is_http_up (SetState E st t s) = os_is_http_up s" "os_is_mdns_up (SetState E st t s) = os_is_mdns_up s"
  "os_store (SetState E st t s) = os_store s" "os_flash (SetState E st t s) = os_flash s"
  "os_restarted (SetState E st t s) = os_restarted s" "os_attempt_count (SetState E st t s) = os_attempt_count s"
  "os_has_stored (SetState E st t s) = os_has_stored s" "os_trial (SetState E st t s) = os_trial s"
  "os_queue (SetState E st t s) = os_queue s" "io_mode (SetState E st t s) = io_mode s" "io_off (SetState E st t s) = io_off s" "os_wifi (SetState E st t s) = os_wifi s"
  "os_is_healthy_pending (SetState E st t s) = os_is_healthy_pending s"
  by (simp_all add: SetState_def io_mode_def io_off_def)

lemma wifi_only_sel:
  "wifi_only E s s' \<Longrightarrow> os_http s' = os_http s \<and> os_dns s' = os_dns s \<and> os_mdns s' = os_mdns s \<and> os_is_http_up s' = os_is_http_up s \<and>
     os_is_mdns_up s' = os_is_mdns_up s \<and> os_out s' = os_out s"
  by (auto simp: wifi_only_def)

lemma wifi_only_calls: "wifi_only E s s' \<Longrightarrow> io_calls (od_platform E) (os_io s) (os_io s')"
  by (auto simp: wifi_only_def)

lemmas connect_sel [simp] = connect_station_only [THEN wifi_only_sel]
  and disconnect_sel [simp] = disconnect_station_only(1) [THEN wifi_only_sel] disconnect_station_only(2,3)

lemma NotifyState_sel [simp]:
  "os_http (NotifyState st s) = os_http s" "os_dns (NotifyState st s) = os_dns s" "os_mdns (NotifyState st s) = os_mdns s"
  "os_is_http_up (NotifyState st s) = os_is_http_up s" "os_is_mdns_up (NotifyState st s) = os_is_mdns_up s"
  "os_io (NotifyState st s) = os_io s" "io_mode (NotifyState st s) = io_mode s"
  "io_off (NotifyState st s) = io_off s"
  using NotifyState_form [of st s] by (auto simp: io_mode_def io_off_def)

lemma set_identity_sel [simp]:
  "os_dns (set_identity E s) = os_dns s" "os_mdns (set_identity E s) = os_mdns s" "os_is_http_up (set_identity E s) = os_is_http_up s"
  "os_is_mdns_up (set_identity E s) = os_is_mdns_up s" "os_io (set_identity E s) = os_io s" "io_mode (set_identity E s) = io_mode s"
  "io_off (set_identity E s) = io_off s" "server_up profile (os_http (set_identity E s)) = server_up profile (os_http s)"
  "server_down (os_http (set_identity E s)) = server_down (os_http s)" "hs_status (os_http (set_identity E s)) = hs_status (os_http s)"
  by (simp_all add: set_identity_def io_mode_def io_off_def SetHttpStationIdentity_def server_up_def server_down_def)

lemma StopStationServices_sel [simp]:
  "os_dns (StopStationServices E s) = os_dns s" "\<not> os_mdns (StopStationServices E s)" "\<not> os_is_http_up (StopStationServices E s)"
  "\<not> os_is_mdns_up (StopStationServices E s)" "server_down (os_http (StopStationServices E s))"
  "io_mode (StopStationServices E s) = io_mode s" "io_calls (od_platform E) (os_io s) (os_io (StopStationServices E s))"
  "io_off (StopStationServices E s) = io_off s"
  using StopStationServices_form [of E s] by (auto simp: io_mode_def io_off_def io_off_keeps io_keeps_mode io_keeps_calls)

lemma StopPortalServices_sel [simp]:
  "\<not> ds_task (os_dns (StopPortalServices E s))" "os_mdns (StopPortalServices E s) = os_mdns s"
  "os_is_http_up (StopPortalServices E s) = os_is_http_up s" "os_is_mdns_up (StopPortalServices E s) = os_is_mdns_up s"
  "server_down (os_http (StopPortalServices E s))" "io_calls (od_platform E) (os_io s) (os_io (StopPortalServices E s))"
  "io_off (StopPortalServices E s)"
  using StopPortalServices_form [of E s] by (auto simp: io_off_def)

lemma start_portal_services_sel:
  assumes "start_portal_services E s = (ok, s')"
  shows "control s' = control s \<and> os_mdns s' = os_mdns s \<and> os_is_http_up s' = os_is_http_up s \<and> os_is_mdns_up s' = os_is_mdns_up s \<and>
    io_calls (od_platform E) (os_io s) (os_io s') \<and>
    (ok \<longrightarrow> server_up HTTP_PROFILE_PROVISIONING (os_http s') \<and> hs_status (os_http s') = PORTAL_STATUS_IDLE \<and>
       dns_running (os_dns s') \<and> io_mode s' = WIFI_MODE_APSTA)"
  using start_portal_services_form [OF assms] by (auto simp: control_def io_mode_def)

text \<open>
  What has been started and not stopped. While the station profile is to be served: of the portal nothing, of the station services
  exactly what the two flags say.
\<close>

definition station_services :: "('e, 'n, 'd) orch \<Rightarrow> bool" where
  "station_services s \<longleftrightarrow> io_off s \<and> \<not> ds_task (os_dns s) \<and>
     (if os_is_http_up s then server_up HTTP_PROFILE_STATION (os_http s) else server_down (os_http s)) \<and> os_mdns s = os_is_mdns_up s"

definition portal_services :: "('e, 'n, 'd) orch \<Rightarrow> bool" where
  "portal_services s \<longleftrightarrow> io_mode s = WIFI_MODE_APSTA \<and> dns_running (os_dns s) \<and> server_up HTTP_PROFILE_PROVISIONING (os_http s) \<and>
     \<not> os_is_http_up s \<and> \<not> os_is_mdns_up s \<and> \<not> os_mdns s"

definition no_services :: "('e, 'n, 'd) orch \<Rightarrow> bool" where
  "no_services s \<longleftrightarrow> io_off s \<and> \<not> ds_task (os_dns s) \<and> server_down (os_http s) \<and> \<not> os_is_http_up s \<and> \<not> os_is_mdns_up s \<and> \<not> os_mdns s"

lemmas services = station_services_def portal_services_def no_services_def

lemma StartStationServices_sel:
  "os_state (StartStationServices E s) = STATE_CONNECTED" "os_has_deadline (StartStationServices E s)"
  "os_store (StartStationServices E s) = os_store s" "os_restarted (StartStationServices E s) = os_restarted s"
  "os_has_ip (StartStationServices E s) = os_has_ip s" "os_flash (StartStationServices E s) = os_flash s"
  "os_is_associated (StartStationServices E s) = os_is_associated s" "os_queue (StartStationServices E s) = os_queue s"
  "os_trial (StartStationServices E s) = os_trial s"
  by (simp_all add: StartStationServices_def Let_def) (simp_all add: SetState_def)

lemma StartStationServices_services:
  "station_services s \<Longrightarrow> station_services (StartStationServices E s)"
  "io_calls (od_platform E) (os_io s) (os_io (StartStationServices E s))"
  "io_mode (StartStationServices E s) = io_mode s"
proof -
  let ?s1 = "start_station_http E s" and ?s2 = "start_station_mdns E (start_station_http E s)"
  have o: "io_off ?s1 = io_off s" "io_off ?s2 = io_off ?s1"
    using start_station_http_form [of E s] start_station_mdns_form [of E ?s1] by (auto simp: io_off_def io_off_keeps)
  have 2: "os_http (StartStationServices E s) = os_http ?s2" "os_dns (StartStationServices E s) = os_dns ?s2"
    "os_mdns (StartStationServices E s) = os_mdns ?s2" "os_is_http_up (StartStationServices E s) = os_is_http_up ?s2"
    "os_is_mdns_up (StartStationServices E s) = os_is_mdns_up ?s2" "os_io (StartStationServices E s) = os_io ?s2"
    "io_mode (StartStationServices E s) = io_mode ?s2" "io_off (StartStationServices E s) = io_off ?s2"
    by (simp_all add: StartStationServices_def Let_def)
  show "station_services (StartStationServices E s)" if "station_services s"
    using that start_station_http_form [of E s] start_station_mdns_form [of E ?s1]
    unfolding station_services_def 2 o by (auto split: if_splits)
  have "io_mode ?s1 = io_mode s" "io_mode ?s2 = io_mode ?s1"
    using start_station_http_form [of E s] start_station_mdns_form [of E ?s1] by (auto simp: io_mode_def io_keeps_mode)
  then show "io_mode (StartStationServices E s) = io_mode s" unfolding 2 by simp
  have "io_calls (od_platform E) (os_io s) (os_io ?s1)" "io_calls (od_platform E) (os_io ?s1) (os_io ?s2)"
    using start_station_http_form [of E s] start_station_mdns_form [of E ?s1] by (auto simp: io_keeps_calls)
  then show "io_calls (od_platform E) (os_io s) (os_io (StartStationServices E s))" unfolding 2 by (rule io_calls_trans)
qed

lemma EnterProvisioning_cases:
  obtains (portal) "os_state (EnterProvisioning E s) = STATE_PORTAL_IDLE" "portal_services (EnterProvisioning E s)"
      "hs_status (os_http (EnterProvisioning E s)) = PORTAL_STATUS_IDLE"
  | (retry) "os_state (EnterProvisioning E s) = STATE_PORTAL_RETRY" "os_has_deadline (EnterProvisioning E s)"
      "no_services (EnterProvisioning E s)"
proof -
  let ?s = "disconnect_station E ((StopStationServices E s)\<lparr>os_has_ip := False\<rparr>)"
  obtain ok s' where st: "start_portal_services E ?s = (ok, s')" by fastforce
  note f = start_portal_services_sel [OF st]
  show thesis
  proof (cases ok)
    case True
    then have "EnterProvisioning E s = NotifyState PROVISIONING_STATE_PORTAL (SetState E STATE_PORTAL_IDLE 0 s')"
      using st by (simp add: EnterProvisioning_def Let_def)
    then show thesis using f True by (intro portal) (auto simp: services)
  next
    case False
    then have "EnterProvisioning E s = SetState E STATE_PORTAL_RETRY PORTAL_RETRY_MS (StopPortalServices E s')"
      using st by (simp add: EnterProvisioning_def Let_def)
    then show thesis using f by (intro retry) (auto simp: services)
  qed
qed

lemma EnterProvisioning_sel:
  "os_store (EnterProvisioning E s) = os_store s" "os_flash (EnterProvisioning E s) = os_flash s"
  "os_restarted (EnterProvisioning E s) = os_restarted s" "os_queue (EnterProvisioning E s) = os_queue s"
  "\<not> os_has_ip (EnterProvisioning E s)" "os_trial (EnterProvisioning E s) = os_trial s"
  "io_calls (od_platform E) (os_io s) (os_io (EnterProvisioning E s))"
proof -
  let ?a = "(StopStationServices E s)\<lparr>os_has_ip := False\<rparr>"
  let ?s = "disconnect_station E ?a"
  obtain ok s' where st: "start_portal_services E ?s = (ok, s')" by fastforce
  note f = start_portal_services_sel [OF st]
  then have c: "control s' = control ?s" by simp
  have e: "EnterProvisioning E s = (if \<not> ok then SetState E STATE_PORTAL_RETRY PORTAL_RETRY_MS (StopPortalServices E s')
      else NotifyState PROVISIONING_STATE_PORTAL (SetState E STATE_PORTAL_IDLE 0 s'))"
    using st by (simp add: EnterProvisioning_def Let_def)
  show "os_store (EnterProvisioning E s) = os_store s" "os_flash (EnterProvisioning E s) = os_flash s"
    "os_restarted (EnterProvisioning E s) = os_restarted s" "os_queue (EnterProvisioning E s) = os_queue s"
    "\<not> os_has_ip (EnterProvisioning E s)" "os_trial (EnterProvisioning E s) = os_trial s"
    using c by (simp_all add: e control_def) (simp_all add: SetState_def)
  have "io_calls (od_platform E) (os_io ?a) (os_io ?s)"
    by (rule wifi_only_calls) (rule disconnect_station_only(1))
  then have "io_calls (od_platform E) (os_io s) (os_io ?s)"
    using io_calls_trans [OF StopStationServices_sel(7) [of E s]] by simp
  then have "io_calls (od_platform E) (os_io s) (os_io s')" using f io_calls_trans by blast
  then show "io_calls (od_platform E) (os_io s) (os_io (EnterProvisioning E s))"
    unfolding e using io_calls_trans [OF _ StopPortalServices_sel(6) [of E s']] by auto
qed

lemma BeginReconnectWait_sel:
  "os_state (BeginReconnectWait E s) = STATE_RECONNECT_WAIT" "os_has_deadline (BeginReconnectWait E s)"
  "\<exists>t. BeginReconnectWait E s = SetState E STATE_RECONNECT_WAIT t s"
proof -
  have "unat (GetWifiReconnectDelayMs (os_failure_count s)) \<noteq> 0" unfolding delay_spec by simp
  then have "GetWifiReconnectDelayMs (os_failure_count s) \<noteq> 0" by auto
  then show "os_state (BeginReconnectWait E s) = STATE_RECONNECT_WAIT" "os_has_deadline (BeginReconnectWait E s)"
    "\<exists>t. BeginReconnectWait E s = SetState E STATE_RECONNECT_WAIT t s" by (auto simp: BeginReconnectWait_def)
qed

lemma StartBootAttempt_sel:
  "os_state (StartBootAttempt E s) = STATE_STA_ATTEMPT" "os_has_deadline (StartBootAttempt E s)"
  "os_attempt_count (StartBootAttempt E s) = os_attempt_count s + 1"
  "io_calls (od_platform E) (os_io s) (os_io (StartBootAttempt E s))"
  using connect_station_only [of E "s\<lparr>os_attempt_count := os_attempt_count s + 1\<rparr>" "os_stored s"]
  by (auto simp: StartBootAttempt_def Let_def wifi_only_def)

end
