(* ===== verification/ProvisioningRuns.thy ===== *)
theory ProvisioningRuns
  imports Provisioning
begin

section \<open>Runs of the provisioning system\<close>

text \<open>
  The orchestrator task, the HTTP server task, the Wi-Fi event task, the button task, the pulse monitor's callback and the
  environment as an interleaved system over the state \<open>orch\<close>, and what holds in every run of it: which services run in which state,
  that no state waits for ever, when stored credentials change, and how long the boot attempts last.
\<close>

subsection \<open>Operations on the services\<close>

lemma SetState_calls [simp]: "os_io (SetState E st t s) = os_io s" by simp

lemma LeaveProvisioning_io: "io_calls (od_platform E) (os_io s) (os_io (LeaveProvisioning E s))"
proof -
  define s1 where "s1 = (StopPortalServices E s)\<lparr>os_trial := zero_credentials, os_failure_count := 0\<rparr>"
  have c: "io_calls (od_platform E) (os_io s) (os_io s1)" by (simp add: s1_def)
  define s2 where "s2 = NotifyState PROVISIONING_STATE_CONNECTED (SetState E STATE_CONNECTED 0 s1)"
  have "os_io s2 = os_io s1" by (simp add: s2_def)
  then have c2: "io_calls (od_platform E) (os_io s) (os_io (StartStationServices E s2))"
    using io_calls_trans [OF c] StartStationServices_services(2) [of E s2] by metis
  obtain t where b: "BeginReconnectWait E (NotifyState PROVISIONING_STATE_DISCONNECTED s1) =
      SetState E STATE_RECONNECT_WAIT t (NotifyState PROVISIONING_STATE_DISCONNECTED s1)" using BeginReconnectWait_sel(3) by blast
  have "LeaveProvisioning E s = (if os_is_associated s1 then if os_has_ip s2 then StartStationServices E s2 else s2
      else BeginReconnectWait E (NotifyState PROVISIONING_STATE_DISCONNECTED s1))"
    by (simp add: LeaveProvisioning_def s1_def s2_def Let_def)
  then show ?thesis using c c2 \<open>os_io s2 = os_io s1\<close> by (simp add: b)
qed

lemma io_mode_upd [simp]:
  "io_mode (s\<lparr>os_http := h\<rparr>) = io_mode s" "io_mode (s\<lparr>os_trial := c\<rparr>) = io_mode s" "io_mode (s\<lparr>os_active := c\<rparr>) = io_mode s"
  "io_mode (s\<lparr>os_store := n\<rparr>) = io_mode s" "io_mode (s\<lparr>os_flash := d\<rparr>) = io_mode s" "io_mode (s\<lparr>os_queue := q\<rparr>) = io_mode s"
  by (simp_all add: io_mode_def)

lemma io_off_upd [simp]:
  "io_off (s\<lparr>os_http := h\<rparr>) = io_off s" "io_off (s\<lparr>os_trial := c\<rparr>) = io_off s" "io_off (s\<lparr>os_active := c\<rparr>) = io_off s"
  "io_off (s\<lparr>os_store := n\<rparr>) = io_off s" "io_off (s\<lparr>os_flash := d\<rparr>) = io_off s" "io_off (s\<lparr>os_queue := q\<rparr>) = io_off s"
  "io_off (s\<lparr>os_failure_count := k\<rparr>) = io_off s" "io_off (s\<lparr>os_attempt_count := k'\<rparr>) = io_off s"
  "io_off (s\<lparr>os_has_ip := b\<rparr>) = io_off s" "io_off (s\<lparr>os_restarted := b\<rparr>) = io_off s"
  by (simp_all add: io_off_def)

lemma LeaveProvisioning_services:
  assumes "\<not> os_is_http_up s" and "\<not> os_is_mdns_up s" and "\<not> os_mdns s"
  shows "station_services (LeaveProvisioning E s)"
    and "os_state (LeaveProvisioning E s) = STATE_CONNECTED \<or>
      os_state (LeaveProvisioning E s) = STATE_RECONNECT_WAIT \<and> os_has_deadline (LeaveProvisioning E s)"
    and "os_store (LeaveProvisioning E s) = os_store s" "os_flash (LeaveProvisioning E s) = os_flash s"
      "os_restarted (LeaveProvisioning E s) = os_restarted s" "os_queue (LeaveProvisioning E s) = os_queue s"
proof -
  define s1 where "s1 = (StopPortalServices E s)\<lparr>os_trial := zero_credentials, os_failure_count := 0\<rparr>"
  define s2 where "s2 = NotifyState PROVISIONING_STATE_CONNECTED (SetState E STATE_CONNECTED 0 s1)"
  have l: "LeaveProvisioning E s = (if os_is_associated s1 then if os_has_ip s2 then StartStationServices E s2 else s2
      else BeginReconnectWait E (NotifyState PROVISIONING_STATE_DISCONNECTED s1))"
    by (simp add: LeaveProvisioning_def s1_def s2_def Let_def)
  obtain t where b: "BeginReconnectWait E (NotifyState PROVISIONING_STATE_DISCONNECTED s1) =
      SetState E STATE_RECONNECT_WAIT t (NotifyState PROVISIONING_STATE_DISCONNECTED s1)"
    "os_has_deadline (BeginReconnectWait E (NotifyState PROVISIONING_STATE_DISCONNECTED s1))"
    using BeginReconnectWait_sel(2,3) by blast
  have "station_services s2" using assms by (simp add: s2_def s1_def services)
  note st = this StartStationServices_services(1) [OF this] StartStationServices_sel [of E s2]
  show "station_services (LeaveProvisioning E s)" using st(1,2) assms unfolding l by (simp add: b(1)) (simp add: s1_def services)
  show "os_state (LeaveProvisioning E s) = STATE_CONNECTED \<or>
      os_state (LeaveProvisioning E s) = STATE_RECONNECT_WAIT \<and> os_has_deadline (LeaveProvisioning E s)"
    using st(3) b(2) unfolding l by (simp add: BeginReconnectWait_sel(1)) (simp add: s2_def)
  show "os_store (LeaveProvisioning E s) = os_store s" "os_flash (LeaveProvisioning E s) = os_flash s"
      "os_restarted (LeaveProvisioning E s) = os_restarted s" "os_queue (LeaveProvisioning E s) = os_queue s"
    unfolding l by (simp_all add: b(1) StartStationServices_sel) (simp_all add: s1_def s2_def)
qed

lemma FailTrial_sel:
  "os_state (FailTrial E s) = STATE_PORTAL_IDLE" "portal_services (FailTrial E s) = portal_services s"
  "hs_status (os_http (FailTrial E s)) = PORTAL_STATUS_FAILED" "os_store (FailTrial E s) = os_store s"
  "os_flash (FailTrial E s) = os_flash s" "os_restarted (FailTrial E s) = os_restarted s" "os_queue (FailTrial E s) = os_queue s"
  "io_calls (od_platform E) (os_io s) (os_io (FailTrial E s))"
proof -
  have f: "FailTrial E s = SetState E STATE_PORTAL_IDLE 0 ((disconnect_station E s)\<lparr>os_trial := zero_credentials,
      os_http := SetHttpPortalStatus PORTAL_STATUS_FAILED (os_http s)\<rparr>)"
    by (simp add: FailTrial_def Let_def)
  show "os_state (FailTrial E s) = STATE_PORTAL_IDLE" "portal_services (FailTrial E s) = portal_services s"
    "hs_status (os_http (FailTrial E s)) = PORTAL_STATUS_FAILED" "os_store (FailTrial E s) = os_store s"
    "os_flash (FailTrial E s) = os_flash s" "os_restarted (FailTrial E s) = os_restarted s" "os_queue (FailTrial E s) = os_queue s"
    unfolding f by (simp_all add: services server_up_def SetHttpPortalStatus_def)
  show "io_calls (od_platform E) (os_io s) (os_io (FailTrial E s))"
    unfolding f using wifi_only_calls [OF disconnect_station_only(1) [of E s]] by simp
qed

subsection \<open>Handlers\<close>

text \<open>What runs in which state. The last two conjuncts keep the page's status truthful and every waiting state limited in time.\<close>

definition services_match :: "('e, 'n, 'd) orch \<Rightarrow> bool" where
  "services_match s \<longleftrightarrow>
     (if os_state s = STATE_PORTAL_IDLE \<or> os_state s = STATE_PORTAL_TRIAL \<or> os_state s = STATE_PORTAL_SUCCESS then portal_services s
      else if os_state s = STATE_PORTAL_RETRY then no_services s else station_services s) \<and>
     (hs_status (os_http s) = PORTAL_STATUS_CONNECTED \<and> os_state s \<noteq> STATE_PORTAL_SUCCESS \<longrightarrow>
        \<not> server_up HTTP_PROFILE_PROVISIONING (os_http s)) \<and>
     (os_state s \<noteq> STATE_PORTAL_IDLE \<and> os_state s \<noteq> STATE_CONNECTED \<longrightarrow> os_has_deadline s)"

text \<open>The part of the state this depends on.\<close>

definition services_view where
  "services_view s = (os_http s, os_dns s, os_mdns s, os_is_http_up s, os_is_mdns_up s, io_mode s, io_off s)"

lemma services_cong:
  "services_view s' = services_view s \<Longrightarrow> station_services s' = station_services s \<and> portal_services s' = portal_services s \<and>
     no_services s' = no_services s"
  by (auto simp: services_view_def services)

lemma services_match_cong:
  "services_view s' = services_view s \<Longrightarrow> os_state s' = os_state s \<Longrightarrow> os_has_deadline s' = os_has_deadline s \<Longrightarrow>
     services_match s' = services_match s"
  using services_cong [of s' s] by (simp add: services_match_def services_view_def)

lemma station_not_portal: "station_services s \<Longrightarrow> \<not> server_up HTTP_PROFILE_PROVISIONING (os_http s)"
  by (auto simp: station_services_def server_up_def server_down_def split: if_splits)

lemma services_match_station:
  "station_services s \<Longrightarrow> os_state s = STATE_CONNECTED \<or> os_has_deadline s \<and> \<not> IsPortalState s \<Longrightarrow> services_match s"
  using station_not_portal by (auto simp: services_match_def IsPortalState_def)

lemma services_match_Enter: "services_match (EnterProvisioning E s)"
  by (rule EnterProvisioning_cases [of E s]) (auto simp: services_match_def no_services_def server_up_def server_down_def)

lemma HandleStationConnected_match:
  assumes "services_match s"
  shows "services_match (HandleStationConnected E s)"
proof -
  consider (connecting) "os_state s = STATE_STA_ATTEMPT \<or> os_state s = STATE_RECONNECT_WAIT \<or> os_state s = STATE_RECONNECT_TRY"
    | (trial) "os_state s = STATE_PORTAL_TRIAL" | (other) "\<not> (os_state s = STATE_STA_ATTEMPT \<or> os_state s = STATE_RECONNECT_WAIT \<or> os_state s = STATE_RECONNECT_TRY)"
      "os_state s \<noteq> STATE_PORTAL_TRIAL" by blast
  then show ?thesis
  proof cases
    case connecting
    then have "station_services s" using assms by (auto simp: services_match_def)
    then show ?thesis
      by (intro services_match_station) (use connecting in \<open>auto simp: HandleStationConnected_def Let_def services\<close>)
  next
    case trial
    then have p: "portal_services s" using assms by (simp add: services_match_def)
    obtain ok store where r: "ReplaceCredentials (od_nvs E) (Some (os_trial s)) (os_store s) = (ok, store)" by fastforce
    show ?thesis
    proof (cases ok)
      case True
      then show ?thesis using trial p r
        by (simp add: HandleStationConnected_def services_match_def services server_up_def SetHttpPortalStatus_def)
    next
      case False
      have "portal_services (s\<lparr>os_store := store\<rparr>)" using p by (simp add: services)
      then show ?thesis using trial False r by (simp add: HandleStationConnected_def services_match_def FailTrial_sel)
    qed
  next
    case other
    then have "HandleStationConnected E s = s" by (simp add: HandleStationConnected_def)
    then show ?thesis using assms by simp
  qed
qed

lemma HandleStationDisconnected_match:
  assumes "services_match s"
  shows "services_match (HandleStationDisconnected E s)"
proof -
  have st: "services_match (BeginReconnectWait E s')" if "station_services s'" for s'
  proof -
    obtain t where b: "BeginReconnectWait E s' = SetState E STATE_RECONNECT_WAIT t s'" using BeginReconnectWait_sel(3) by blast
    then show ?thesis
      using BeginReconnectWait_sel(1,2) [of E s'] that
      by (intro services_match_station) (simp_all add: services IsPortalState_def)
  qed
  have "station_services s" if "os_state s = STATE_CONNECTED \<or> os_state s = STATE_RECONNECT_TRY"
    using assms that by (auto simp: services_match_def)
  then show ?thesis
    using assms by (auto simp: HandleStationDisconnected_def Let_def services intro!: st)
qed

lemma HandleStationGotIp_match:
  assumes "services_match s"
  shows "services_match (HandleStationGotIp E s)"
proof (cases "os_state s = STATE_CONNECTED")
  case False
  then show ?thesis
    using assms services_match_cong [of "s\<lparr>os_has_ip := True\<rparr>" s] by (simp add: HandleStationGotIp_def services_view_def io_mode_def io_off_def)
next
  case True
  let ?s = "s\<lparr>os_has_ip := True\<rparr>"
  let ?b = "if os_is_http_up ?s then set_identity E ?s else ?s"
  have st: "station_services ?b" using assms True by (simp add: services_match_def services)
  have "HandleStationGotIp E s = (if os_is_http_up ?b \<and> os_is_mdns_up ?b
      then SetState E STATE_CONNECTED MDNS_HOSTNAME_CHECK_DELAY_MS ?b else StartStationServices E ?b)"
    using True by (simp add: HandleStationGotIp_def)
  then show ?thesis
    using st StartStationServices_services(1) [OF st]
    by (intro services_match_station) (auto simp: services StartStationServices_sel)
qed

lemma connect_match:
  assumes "os_state s = STATE_PORTAL_IDLE" and "services_match s" and "mode_reported (od_platform E) (os_io s)"
  shows "services_match (SetState E STATE_PORTAL_TRIAL ATTEMPT_TIMEOUT_MS (connect_station E c s))"
proof -
  obtain ok w io where c: "ConnectWifiStation (od_platform E) c (os_wifi s, os_io s) = (ok, w, io)" by (metis prod.exhaust)
  then have f: "connect_station E c s = s\<lparr>os_wifi := w, os_io := io\<rparr>" by (simp add: connect_station_def)
  have "io_mode (connect_station E c s) = io_mode s" if "io_mode s = WIFI_MODE_APSTA"
    using ConnectWifiStation_mode(1) [OF c assms(3)] that by (simp add: f io_mode_def)
  then show ?thesis using assms(1,2) by (auto simp: services_match_def services)
qed

lemma http_result_match:
  "services_match (s\<lparr>os_http := SetHttpTunerResult m (os_http s)\<rparr>) = services_match s"
  by (cases m) (simp_all add: services_match_def services server_up_def server_down_def SetHttpTunerResult_def Let_def)

text \<open>A restarting device has stopped its services; nothing runs after it.\<close>

definition system_ok :: "('e, 'n, 'd) orch_drv \<Rightarrow> ('e, 'n, 'd) orch \<Rightarrow> bool" where
  "system_ok E s \<longleftrightarrow> mode_reported (od_platform E) (os_io s) \<and> (if os_restarted s then no_services s else services_match s)"

lemma HandleUpdateRequest_cases:
  assumes "RequestFwUpdate (od_partition E) (od_ota_size E) (os_flash s) = (r, d)"
  shows "r = FW_UPDATE_REQUEST_FAILED \<Longrightarrow> HandleUpdateRequest E s = s\<lparr>os_flash := d\<rparr>"
    and "r \<noteq> FW_UPDATE_REQUEST_FAILED \<Longrightarrow> os_restarted (HandleUpdateRequest E s) \<and> no_services (HandleUpdateRequest E s) \<and>
      os_flash (HandleUpdateRequest E s) = d \<and> os_store (HandleUpdateRequest E s) = os_store s"
  using assms by (simp_all add: HandleUpdateRequest_def RestartIntoUpdater_def Let_def services)

lemma HandleUpdateRequest_io: "io_calls (od_platform E) (os_io s) (os_io (HandleUpdateRequest E s))"
proof -
  obtain r d where r: "RequestFwUpdate (od_partition E) (od_ota_size E) (os_flash s) = (r, d)" by fastforce
  let ?a = "StopStationServices E (s\<lparr>os_flash := d\<rparr>)" and ?b = "StopPortalServices E (StopStationServices E (s\<lparr>os_flash := d\<rparr>))"
  have "io_calls (od_platform E) (os_io s) (os_io ?a)" using StopStationServices_sel(7) [of E "s\<lparr>os_flash := d\<rparr>"] by simp
  moreover have "io_calls (od_platform E) (os_io ?a) (os_io ?b)" by (rule StopPortalServices_sel(6))
  moreover have "io_calls (od_platform E) (os_io ?b) (os_io (disconnect_station E ?b))"
    by (rule wifi_only_calls [OF disconnect_station_only(1)])
  ultimately have "io_calls (od_platform E) (os_io s) (os_io (disconnect_station E ?b))" using io_calls_trans by blast
  then show ?thesis using r by (simp add: HandleUpdateRequest_def RestartIntoUpdater_def Let_def)
qed

lemma StartStationServices_io: "os_io s = os_io s' \<Longrightarrow> io_calls (od_platform E) (os_io s') (os_io (StartStationServices E s))"
  using StartStationServices_services(2) [of E s] by simp

lemma BeginReconnectWait_io: "os_io (BeginReconnectWait E s) = os_io s"
  using BeginReconnectWait_sel(3) [of E s] by auto

lemma BeginReconnectWait_frame:
  "os_restarted (BeginReconnectWait E s) = os_restarted s" "os_store (BeginReconnectWait E s) = os_store s"
  "os_flash (BeginReconnectWait E s) = os_flash s" "services_view (BeginReconnectWait E s) = services_view s"
  using BeginReconnectWait_sel(3) [of E s] by (auto simp: services_view_def)

lemma message_io: "io_calls (od_platform E) (os_io s) (os_io (HandleMessage E m s))"
proof (cases m)
  case MSG_BUTTON_REQUEST
  then show ?thesis by (simp add: HandleMessage_def EnterProvisioning_sel)
next
  case MSG_STA_CONNECTED
  have "io_calls (od_platform E) (os_io s) (os_io (HandleStationConnected E (s\<lparr>os_is_associated := True\<rparr>)))"
    using FailTrial_sel(8) [of E "s\<lparr>os_is_associated := True,
        os_store := snd (ReplaceCredentials (od_nvs E) (Some (os_trial s)) (os_store s))\<rparr>"]
    by (auto simp: HandleStationConnected_def Let_def split: prod.splits)
  then show ?thesis using MSG_STA_CONNECTED by (simp add: HandleMessage_def)
next
  case MSG_STA_DISCONNECTED
  then show ?thesis by (simp add: HandleMessage_def HandleStationDisconnected_def Let_def BeginReconnectWait_io)
next
  case MSG_STA_GOT_IP
  then show ?thesis
    by (auto simp: HandleMessage_def HandleStationGotIp_def Let_def intro!: StartStationServices_io)
next
  case (MSG_CREDENTIALS_SUBMITTED c)
  then show ?thesis
    using wifi_only_calls [OF connect_station_only [of E "s\<lparr>os_trial := c\<rparr>" c]] by (simp add: HandleMessage_def Let_def)
next
  case MSG_UPDATE_REQUEST
  then show ?thesis by (simp add: HandleMessage_def HandleUpdateRequest_io)
qed (simp_all add: HandleMessage_def)

lemma message_ok:
  assumes "platform_laws (od_platform E)" and "system_ok E s" and "\<not> os_restarted s"
  shows "system_ok E (HandleMessage E m s)"
proof -
  have sm: "services_match s" and rep: "mode_reported (od_platform E) (os_io s)" using assms by (simp_all add: system_ok_def)
  have "if os_restarted (HandleMessage E m s) then no_services (HandleMessage E m s) else services_match (HandleMessage E m s)"
  proof (cases m)
    case MSG_BUTTON_REQUEST
    then show ?thesis using assms(3) sm by (simp add: HandleMessage_def EnterProvisioning_sel services_match_Enter)
  next
    case MSG_STA_CONNECTED
    let ?s = "s\<lparr>os_is_associated := True\<rparr>"
    have "services_match ?s" using sm services_match_cong [of ?s s] by (simp add: services_view_def io_mode_def io_off_def)
    from HandleStationConnected_match [OF this, of E] have "services_match (HandleStationConnected E ?s)" .
    moreover have "\<not> os_restarted (HandleStationConnected E ?s)"
      using assms(3) by (simp add: HandleStationConnected_def Let_def FailTrial_sel split: prod.splits)
    ultimately show ?thesis using MSG_STA_CONNECTED by (simp add: HandleMessage_def)
  next
    case MSG_STA_DISCONNECTED
    let ?s = "s\<lparr>os_is_associated := False, os_has_ip := False\<rparr>"
    have "services_match ?s" using sm services_match_cong [of ?s s] by (simp add: services_view_def io_mode_def io_off_def)
    from HandleStationDisconnected_match [OF this, of E] have "services_match (HandleStationDisconnected E ?s)" .
    moreover have "\<not> os_restarted (HandleStationDisconnected E ?s)"
      using assms(3) by (simp add: HandleStationDisconnected_def Let_def BeginReconnectWait_frame)
    ultimately show ?thesis using MSG_STA_DISCONNECTED by (simp add: HandleMessage_def)
  next
    case MSG_STA_GOT_IP
    have "\<not> os_restarted (HandleStationGotIp E s)" using assms(3) by (simp add: HandleStationGotIp_def Let_def StartStationServices_sel)
    then show ?thesis using MSG_STA_GOT_IP HandleStationGotIp_match [OF sm, of E] by (simp add: HandleMessage_def)
  next
    case (MSG_CREDENTIALS_SUBMITTED c)
    let ?s = "s\<lparr>os_trial := c\<rparr>"
    have "services_match ?s" using sm services_match_cong [of ?s s] by (simp add: services_view_def)
    then show ?thesis
      using MSG_CREDENTIALS_SUBMITTED connect_match [of ?s E c] sm rep assms(3) by (simp add: HandleMessage_def Let_def)
  next
    case MSG_UPDATE_REQUEST
    obtain r d where r: "RequestFwUpdate (od_partition E) (od_ota_size E) (os_flash s) = (r, d)" by fastforce
    show ?thesis
      using MSG_UPDATE_REQUEST HandleUpdateRequest_cases [OF r] assms(3) sm services_match_cong [of "s\<lparr>os_flash := d\<rparr>" s]
      by (cases "r = FW_UPDATE_REQUEST_FAILED") (simp_all add: HandleMessage_def services_view_def)
  next
    case (MSG_PULSE_RESULT measurement)
    then show ?thesis using assms(3) sm by (simp add: HandleMessage_def http_result_match)
  next
    case (MSG_LED_TIMING_SUBMITTED t q)
    then show ?thesis
      using assms(3) sm services_match_cong [of "HandleMessage E m s" s] by (simp add: HandleMessage_def services_view_def io_mode_def io_off_def)
  next
    case (MSG_PULSE_READ_REQUESTED q)
    then show ?thesis
      using assms(3) sm services_match_cong [of "HandleMessage E m s" s] by (simp add: HandleMessage_def services_view_def io_mode_def io_off_def)
  qed
  moreover have "mode_reported (od_platform E) (os_io (HandleMessage E m s))"
    by (rule wifi_platform.reported_calls [OF wifi_platform.intro [OF assms(1)] message_io rep])
  ultimately show ?thesis by (simp add: system_ok_def)
qed

subsection \<open>Timeouts\<close>

lemma disconnect_view: "services_view (disconnect_station E s) = services_view s"
  by (simp add: services_view_def)

lemma StartBootAttempt_view: "station_services s \<Longrightarrow> station_services (StartBootAttempt E s)"
  by (simp add: StartBootAttempt_def services Let_def connect_station_off)

lemma CheckMdnsHostname_match:
  assumes "services_match s"
  shows "services_match (CheckMdnsHostname E s)" and "os_restarted (CheckMdnsHostname E s) = os_restarted s"
    and "os_io (CheckMdnsHostname E s) = os_io s" and "os_store (CheckMdnsHostname E s) = os_store s"
    and "os_state (CheckMdnsHostname E s) = os_state s"
  using assms by (auto simp: CheckMdnsHostname_def services_match_def services io_mode_def io_off_def split: option.splits)

lemma timeout_io:
  "io_calls (od_platform E) (os_io s) (os_io (HandleTimeout E s))"
proof (cases "os_state s")
  case STATE_BOOT_WAIT
  have n: "os_io (NotifyState st s) = os_io s" for st by simp
  show ?thesis
    using STATE_BOOT_WAIT StartBootAttempt_sel(4) [of E "NotifyState PROVISIONING_STATE_CONNECTING s", unfolded n]
    by (simp add: HandleTimeout_def EnterProvisioning_sel)
next
  case STATE_STA_ATTEMPT
  have d: "io_calls (od_platform E) (os_io s) (os_io (disconnect_station E s))" by (rule wifi_only_calls [OF disconnect_station_only(1)])
  show ?thesis
    using STATE_STA_ATTEMPT d io_calls_trans [OF d EnterProvisioning_sel(7)] by (simp add: HandleTimeout_def Let_def)
next
  case STATE_STA_PAUSE
  then show ?thesis by (simp add: HandleTimeout_def StartBootAttempt_sel(4))
next
  case STATE_CONNECTED
  have "os_io (CheckMdnsHostname E s') = os_io s'" for s'
    by (simp add: CheckMdnsHostname_def split: option.splits)
  then show ?thesis using STATE_CONNECTED StartStationServices_io [of s s E] by (simp add: HandleTimeout_def Let_def)
next
  case STATE_RECONNECT_WAIT
  then show ?thesis using wifi_only_calls [OF connect_station_only [of E s "os_active s"]] by (simp add: HandleTimeout_def)
next
  case STATE_RECONNECT_TRY
  then show ?thesis
    using wifi_only_calls [OF disconnect_station_only(1) [of E "s\<lparr>os_failure_count := os_failure_count s + 1\<rparr>"]]
    by (simp add: HandleTimeout_def Let_def BeginReconnectWait_io)
next
  case STATE_PORTAL_TRIAL
  then show ?thesis by (simp add: HandleTimeout_def FailTrial_sel)
next
  case STATE_PORTAL_SUCCESS
  then show ?thesis by (simp add: HandleTimeout_def LeaveProvisioning_io)
next
  case STATE_PORTAL_RETRY
  then show ?thesis by (simp add: HandleTimeout_def EnterProvisioning_sel)
qed (simp add: HandleTimeout_def)

lemma timeout_match:
  assumes sm: "services_match s"
  shows "services_match (HandleTimeout E s)"
proof (cases "os_state s")
  case STATE_BOOT_WAIT
  then have "station_services s" using sm by (simp add: services_match_def)
  then have "station_services (StartBootAttempt E (NotifyState PROVISIONING_STATE_CONNECTING s))"
    by (intro StartBootAttempt_view) (simp add: services)
  then show ?thesis
    using STATE_BOOT_WAIT
    by (auto simp: HandleTimeout_def services_match_Enter IsPortalState_def StartBootAttempt_sel intro!: services_match_station)
next
  case STATE_STA_ATTEMPT
  then have "station_services s" using sm by (simp add: services_match_def)
  then show ?thesis
    using STATE_STA_ATTEMPT
    by (auto simp: HandleTimeout_def Let_def services_match_Enter IsPortalState_def services intro!: services_match_station)
next
  case STATE_STA_PAUSE
  then have "station_services (StartBootAttempt E s)" using sm by (intro StartBootAttempt_view) (simp add: services_match_def)
  then show ?thesis
    using STATE_STA_PAUSE
    by (auto simp: HandleTimeout_def IsPortalState_def StartBootAttempt_sel intro!: services_match_station)
next
  case STATE_CONNECTED
  then have st: "station_services s" using sm by (simp add: services_match_def)
  have c: "services_match (SetState E STATE_CONNECTED 0 s)" using st by (intro services_match_station) (simp_all add: services)
  show ?thesis
    using STATE_CONNECTED c CheckMdnsHostname_match(1) [OF c] StartStationServices_services(1) [OF st]
    by (auto simp: HandleTimeout_def Let_def StartStationServices_sel intro!: services_match_station)
next
  case STATE_RECONNECT_WAIT
  then have "station_services s" using sm by (simp add: services_match_def)
  then show ?thesis
    using STATE_RECONNECT_WAIT by (auto simp: HandleTimeout_def services connect_station_off IsPortalState_def intro!: services_match_station)
next
  case STATE_RECONNECT_TRY
  let ?s = "disconnect_station E (s\<lparr>os_failure_count := os_failure_count s + 1\<rparr>)"
  have "station_services ?s" using sm STATE_RECONNECT_TRY by (simp add: services_match_def services)
  then have "station_services (BeginReconnectWait E ?s)" using services_cong [OF BeginReconnectWait_frame(4)] by blast
  then have "services_match (BeginReconnectWait E ?s)"
    by (rule services_match_station) (simp add: BeginReconnectWait_sel IsPortalState_def)
  then show ?thesis using STATE_RECONNECT_TRY by (simp add: HandleTimeout_def)
next
  case STATE_PORTAL_TRIAL
  then show ?thesis using sm by (simp add: HandleTimeout_def FailTrial_sel services_match_def)
next
  case STATE_PORTAL_SUCCESS
  then have "\<not> os_is_http_up s" "\<not> os_is_mdns_up s" "\<not> os_mdns s" using sm by (simp_all add: services_match_def services)
  note l = LeaveProvisioning_services [OF this, of E]
  then show ?thesis using STATE_PORTAL_SUCCESS by (auto simp: HandleTimeout_def IsPortalState_def intro!: services_match_station)
next
  case STATE_PORTAL_RETRY
  then show ?thesis by (simp add: HandleTimeout_def services_match_Enter)
qed (use sm in \<open>simp add: HandleTimeout_def\<close>)

lemma timeout_frame:
  "os_restarted (HandleTimeout E s) = os_restarted s" "os_store (HandleTimeout E s) = os_store s"
proof -
  have c: "os_restarted (CheckMdnsHostname E s') = os_restarted s'" "os_store (CheckMdnsHostname E s') = os_store s'" for s'
    by (simp_all add: CheckMdnsHostname_def split: option.splits)
  have l: "os_restarted (LeaveProvisioning E s) = os_restarted s" "os_store (LeaveProvisioning E s) = os_store s"
    by (simp_all add: LeaveProvisioning_def Let_def StartStationServices_sel BeginReconnectWait_frame)
  show "os_restarted (HandleTimeout E s) = os_restarted s" "os_store (HandleTimeout E s) = os_store s"
    by (cases "os_state s"; simp add: HandleTimeout_def Let_def c l EnterProvisioning_sel StartStationServices_sel FailTrial_sel
      BeginReconnectWait_frame; simp add: StartBootAttempt_def Let_def)+
qed

lemma timeout_turn_ok:
  assumes "platform_laws (od_platform E)" and "system_ok E s" and "\<not> os_restarted s"
  shows "system_ok E (timeout_turn E s)" and "os_restarted (timeout_turn E s) = os_restarted s"
    and "os_store (timeout_turn E s) = os_store s"
proof -
  define s1 where "s1 = (if os_is_healthy_pending s \<and> GetRemainingTicks E (os_healthy_deadline_ticks s) s = 0
               then s\<lparr>os_is_healthy_pending := False, os_flash := MarkFirmwareHealthy (od_partition E) (os_flash s)\<rparr> else s)"
  have t: "timeout_turn E s = (if os_has_deadline s1 \<and> GetRemainingTicks E (os_deadline_ticks s1) s1 = 0 then HandleTimeout E s1 else s1)"
    by (simp only: timeout_turn_def s1_def Let_def)
  have same: "os_restarted s1 = os_restarted s" "os_store s1 = os_store s" "os_io s1 = os_io s" by (simp_all add: s1_def)
  have "services_match s" using assms by (simp add: system_ok_def)
  then have "services_match s1" using services_match_cong [of s1 s] by (simp add: s1_def services_view_def io_mode_def io_off_def)
  from timeout_match [OF this, of E] this have m: "services_match (timeout_turn E s)" by (simp add: t)
  show r: "os_restarted (timeout_turn E s) = os_restarted s" and "os_store (timeout_turn E s) = os_store s"
    by (simp_all add: t timeout_frame same)
  have "mode_reported (od_platform E) (os_io s1)" using assms(2) same by (simp add: system_ok_def)
  from wifi_platform.reported_calls [OF wifi_platform.intro [OF assms(1)] timeout_io this] this
  have "mode_reported (od_platform E) (os_io (timeout_turn E s))" by (simp add: t)
  then show "system_ok E (timeout_turn E s)" using m r assms(3) by (simp add: system_ok_def)
qed

subsection \<open>The interleaved system\<close>

text \<open>
  The state after power on; the static variables are zero. Then the task runs, and between its turns the other tasks post, the
  HTTP server handles requests when a server is up, and the environment changes (the clock advances, addresses are
  obtained) except for the Wi-Fi mode, which only the calls set. The receive may time out whenever the queue is empty; the turn
  itself compares the deadlines with the clock. An accepted submission writes the page's status as its last action,
  which the rule \<open>status\<close> allows at any later moment.
\<close>

definition power_on :: "('e, 'n, 'd) orch_drv \<Rightarrow> ('e, 'n, 'd) orch \<Rightarrow> bool" where
  "power_on E s \<longleftrightarrow> os_http s = initial_http \<and> \<not> ds_task (os_dns s) \<and> \<not> os_mdns s \<and> \<not> os_is_http_up s \<and> \<not> os_is_mdns_up s \<and>
     os_attempt_count s = 0 \<and> os_hostname_in_use s = [] \<and> os_out s = [] \<and> io_log (os_io s) = [] \<and> pl_mode (od_platform E) (io_env (os_io s)) = WIFI_MODE_NULL \<and> \<not> os_restarted s"

inductive post_step :: "('e, 'n, 'd) orch_drv \<Rightarrow> 'x form_recv \<Rightarrow> ('e, 'n, 'd) orch \<Rightarrow> ('e, 'n, 'd) orch \<Rightarrow> bool" for E recv where
  wifi_event: "post_step E recv s (HandleWifiManagerEvent event s)"
| button: "post_step E recv s (HandleButtonRequest s)"
| gesture: "post_step E recv s (HandleUpdateGesture s)"
| pulse: "post_step E recv s (PostPulseResult measurement s)"
| environment: "pl_mode (od_platform E) e = pl_mode (od_platform E) (io_env (os_io s)) \<Longrightarrow>
    post_step E recv s (s\<lparr>os_io := (os_io s)\<lparr>io_env := e\<rparr>\<rparr>)"
| status: "\<not> server_down (os_http s) \<Longrightarrow> post_step E recv s (s\<lparr>os_http := SetHttpPortalStatus PORTAL_STATUS_CONNECTING (os_http s)\<rparr>)"
| submit: "server_up HTTP_PROFILE_PROVISIONING (os_http s) \<Longrightarrow>
    HandleSubmitRequest recv (\<lambda>c. fst (SubmitCredentials c s)) n (os_http s, net) = (reply, calls, h, net') \<Longrightarrow>
    post_step E recv s (fold s_portal_ops calls (s\<lparr>os_http := SetHttpPortalStatus (hs_status (os_http s)) h\<rparr>))"
| scan: "server_up HTTP_PROFILE_PROVISIONING (os_http s) \<Longrightarrow>
    ScanWifiNetworks (od_platform E) WIFI_SCAN_MAX_ENTRIES (os_io s) = (scanned, io) \<Longrightarrow>
    HandleScanRequest scanned (os_http s) = (reply, h) \<Longrightarrow> post_step E recv s (s\<lparr>os_io := io, os_http := h\<rparr>)"
| tuner: "server_up HTTP_PROFILE_PROVISIONING (os_http s) \<Longrightarrow>
    HandleTunerSubmitRequest recv n (os_http s, net) = (reply, calls, h, net') \<Longrightarrow>
    post_step E recv s (fold s_portal_ops calls (s\<lparr>os_http := h\<rparr>))"
| read: "server_up HTTP_PROFILE_PROVISIONING (os_http s) \<Longrightarrow> HandleTunerReadRequest (os_http s) = (reply, calls, h) \<Longrightarrow>
    post_step E recv s (fold s_portal_ops calls (s\<lparr>os_http := h\<rparr>))"
| station_tuner: "server_up HTTP_PROFILE_STATION (os_http s) \<Longrightarrow>
    HandleStationTunerSubmitRequest recv header n (os_http s, net) = (reply, calls, h, net') \<Longrightarrow>
    post_step E recv s (fold s_portal_ops calls (s\<lparr>os_http := h\<rparr>))"
| station_read: "server_up HTTP_PROFILE_STATION (os_http s) \<Longrightarrow>
    HandleStationTunerReadRequest header (os_http s) = (reply, calls, h) \<Longrightarrow>
    post_step E recv s (fold s_portal_ops calls (s\<lparr>os_http := h\<rparr>))"

inductive orch_step :: "('e, 'n, 'd) orch_drv \<Rightarrow> 'x form_recv \<Rightarrow> ('e, 'n, 'd) orch \<Rightarrow> ('e, 'n, 'd) orch \<Rightarrow> bool" for E recv where
  turn: "\<not> os_restarted s \<Longrightarrow> orch_step E recv s (RunOrchestratorTask E s)"
| other: "post_step E recv s s' \<Longrightarrow> orch_step E recv s s'"

inductive orch_reach :: "('e, 'n, 'd) orch_drv \<Rightarrow> 'x form_recv \<Rightarrow> ('e, 'n, 'd) orch \<Rightarrow> bool" for E recv where
  start: "power_on E s0 \<Longrightarrow> ProvisioningStart E ap sta create_result start_result s0 = (True, timer, s) \<Longrightarrow> orch_reach E recv s"
| step: "orch_reach E recv s \<Longrightarrow> orch_step E recv s s' \<Longrightarrow> orch_reach E recv s'"

text \<open>A post only changes the queue; the handlers keep which server runs and the page's status.\<close>

lemma post_form:
  "\<exists>q. s_portal_ops call s = s\<lparr>os_queue := q\<rparr>" "\<exists>q. PostMessage m s = s\<lparr>os_queue := q\<rparr>" "\<exists>q. PostPulseResult r s = s\<lparr>os_queue := q\<rparr>"
proof -
  have same: "\<exists>q. s = s\<lparr>os_queue := q\<rparr>" by (rule exI [of _ "os_queue s"]) simp
  show "\<exists>q. PostMessage m s = s\<lparr>os_queue := q\<rparr>" for m using same by (auto simp: PostMessage_def)
  then show "\<exists>q. s_portal_ops call s = s\<lparr>os_queue := q\<rparr>"
    using same by (cases call) (auto simp: s_portal_ops_def SubmitCredentials_def SubmitLedTiming_def RequestPulseRead_def)
  show "\<exists>q. PostPulseResult r s = s\<lparr>os_queue := q\<rparr>" using same by (cases r) (auto simp: PostPulseResult_def)
qed

lemma posts_form: "\<exists>q. fold s_portal_ops calls s = s\<lparr>os_queue := q\<rparr>"
proof (induction calls arbitrary: s)
  case (Cons c calls)
  obtain q where "s_portal_ops c s = s\<lparr>os_queue := q\<rparr>" using post_form(1) by blast
  with Cons [of "s\<lparr>os_queue := q\<rparr>"] show ?case by auto
next
  case Nil
  show ?case by (rule exI [of _ "os_queue s"]) simp
qed

lemma HandleTunerSubmitRequest_server:
  assumes "HandleTunerSubmitRequest recv n (s, net) = (reply, calls, h, net')"
  shows "hs_server h = hs_server s \<and> hs_profile h = hs_profile s \<and> hs_status h = hs_status s"
  using tuner_submit_cases [OF assms] by auto

definition same_server :: "http_state \<Rightarrow> http_state \<Rightarrow> bool" where
  "same_server h s \<longleftrightarrow> hs_server h = hs_server s \<and> hs_profile h = hs_profile s \<and> (hs_status h = hs_status s \<or> hs_status h = PORTAL_STATUS_CONNECTING)"

lemma handlers_same_server:
  "HandleTunerSubmitRequest recv n (s, net) = (reply, calls, h, net') \<Longrightarrow> same_server h s"
  "HandleTunerReadRequest s = (reply, calls, h) \<Longrightarrow> same_server h s"
  "HandleStationTunerSubmitRequest recv header n (s, net) = (reply, calls, h, net') \<Longrightarrow> same_server h s"
  "HandleStationTunerReadRequest header s = (reply, calls, h) \<Longrightarrow> same_server h s"
  "HandleScanRequest scanned s = (reply, h) \<Longrightarrow> same_server h s"
  "HandleSubmitRequest recv st n (s, net) = (reply, calls, h, net') \<Longrightarrow> same_server (SetHttpPortalStatus (hs_status s) h) s"
proof -
  show "same_server h s" if "HandleTunerSubmitRequest recv n (s, net) = (reply, calls, h, net')" for reply calls h net'
    using HandleTunerSubmitRequest_server [OF that] by (simp add: same_server_def)
  then show "HandleStationTunerSubmitRequest recv header n (s, net) = (reply, calls, h, net') \<Longrightarrow> same_server h s"
    by (auto simp: HandleStationTunerSubmitRequest_def same_server_def split: if_splits)
  show "HandleTunerReadRequest s = (reply, calls, h) \<Longrightarrow> same_server h s"
    by (auto simp: HandleTunerReadRequest_def Let_def same_server_def)
  show "HandleStationTunerReadRequest header s = (reply, calls, h) \<Longrightarrow> same_server h s"
    by (auto simp: HandleStationTunerReadRequest_def HandleTunerReadRequest_def Let_def same_server_def split: if_splits)
  show "HandleScanRequest scanned s = (reply, h) \<Longrightarrow> same_server h s"
    by (auto simp: HandleScanRequest_def Let_def same_server_def split: option.splits)
  show "HandleSubmitRequest recv st n (s, net) = (reply, calls, h, net') \<Longrightarrow> same_server (SetHttpPortalStatus (hs_status s) h) s"
    by (auto simp: HandleSubmitRequest_def Let_def SetHttpPortalStatus_def same_server_def split: if_splits prod.splits option.splits)
qed

lemma server_step_ok:
  assumes "system_ok E s" and "same_server h (os_http s)" and "\<not> server_down (os_http s)"
  shows "system_ok E (s\<lparr>os_http := h, os_queue := q\<rparr>)"
proof -
  have r: "\<not> os_restarted s" using assms(1,3) by (auto simp: system_ok_def no_services_def)
  then have "services_match s" using assms(1) by (simp add: system_ok_def)
  then have "services_match (s\<lparr>os_http := h, os_queue := q\<rparr>)"
    using assms(2) by (auto simp: services_match_def services same_server_def server_up_def server_down_def io_mode_def io_off_def split: if_splits)
  then show ?thesis using assms(1) r by (simp add: system_ok_def)
qed

lemma io_step_ok:
  "system_ok E s \<Longrightarrow> mode_reported (od_platform E) io \<Longrightarrow> mode_set (io_log io) = mode_set (io_log (os_io s)) \<Longrightarrow>
   last_mode_call (io_log io) = last_mode_call (io_log (os_io s)) \<Longrightarrow> system_ok E (s\<lparr>os_io := io\<rparr>)"
  using services_cong [of "s\<lparr>os_io := io\<rparr>" s] services_match_cong [of "s\<lparr>os_io := io\<rparr>" s]
  by (simp add: system_ok_def services_view_def io_mode_def io_off_def ap_asked_off_def)

lemma queue_step_ok: "system_ok E (s\<lparr>os_queue := q\<rparr>) = system_ok E s"
  using services_cong [of "s\<lparr>os_queue := q\<rparr>" s] services_match_cong [of "s\<lparr>os_queue := q\<rparr>" s]
  by (simp add: system_ok_def services_view_def)

lemma post_ok: "system_ok E (PostMessage m s) = system_ok E s"
proof -
  obtain q where "PostMessage m s = s\<lparr>os_queue := q\<rparr>" using post_form(2) by blast
  then show ?thesis by (simp add: queue_step_ok)
qed

lemma scan_io:
  assumes "platform_laws p" and "ScanWifiNetworks p n io = (r, io')" and "mode_reported p io"
  shows "mode_reported p io' \<and> mode_set (io_log io') = mode_set (io_log io) \<and> last_mode_call (io_log io') = last_mode_call (io_log io)"
proof -
  obtain err io1 where e: "esp p WIFI_SCAN_START io = (err, io1)" by fastforce
  have m: "mode_reported p io1" "mode_set (io_log io1) = mode_set (io_log io)" "last_mode_call (io_log io1) = last_mode_call (io_log io)"
    using wifi_platform.reported_esp [OF wifi_platform.intro [OF assms(1)] assms(3) e] mode_set_esp [OF e]
      io_keeps_asked [OF esp_keeps [OF e]] by simp_all
  have "io' = io1 \<or> io' = io1\<lparr>io_env := snd (pl_scan_records p (io_env io1))\<rparr>"
    using assms(2) e by (auto simp: ScanWifiNetworks_def Let_def split: prod.splits if_splits option.splits)
  then show ?thesis using m assms(1) by (auto simp: mode_reported_def platform_laws_def)
qed

lemma post_step_ok:
  assumes "platform_laws (od_platform E)" and "post_step E recv s s'" and "system_ok E s"
  shows "system_ok E s'"
  using assms(2)
proof cases
  case (wifi_event event)
  then show ?thesis
    using assms(3) by (cases event) (simp_all add: HandleWifiManagerEvent_def post_ok)
next
  case button
  then show ?thesis using assms(3) by (simp add: HandleButtonRequest_def post_ok)
next
  case gesture
  then show ?thesis using assms(3) by (simp add: HandleUpdateGesture_def post_ok)
next
  case (pulse measurement)
  then show ?thesis using assms(3) post_form(3) queue_step_ok by metis
next
  case (environment e)
  have "mode_reported (od_platform E) ((os_io s)\<lparr>io_env := e\<rparr>)"
    using assms(3) environment(2) by (simp add: system_ok_def mode_reported_def)
  from io_step_ok [OF assms(3) this] environment(1) show ?thesis by simp
next
  case status
  then show ?thesis
    using server_step_ok [OF assms(3), of "SetHttpPortalStatus PORTAL_STATUS_CONNECTING (os_http s)" "os_queue s"]
    by (simp add: same_server_def SetHttpPortalStatus_def)
next
  case (submit n net reply calls h net')
  obtain q where "s' = s\<lparr>os_http := SetHttpPortalStatus (hs_status (os_http s)) h, os_queue := q\<rparr>" using submit(1) posts_form by metis
  then show ?thesis using server_step_ok [OF assms(3) handlers_same_server(6) [OF submit(3)]] submit(2) by (simp add: server_up_def server_down_def)
next
  case (scan scanned io reply h)
  have m: "mode_reported (od_platform E) (os_io s)" using assms(3) by (simp add: system_ok_def)
  have "system_ok E (s\<lparr>os_io := io\<rparr>)" using io_step_ok [OF assms(3)] scan_io [OF assms(1) scan(3) m] by blast
  from server_step_ok [OF this, of h "os_queue s"] handlers_same_server(5) [OF scan(4)] scan(1,2)
  show ?thesis by (simp add: server_up_def server_down_def)
next
  case (tuner n net reply calls h net')
  obtain q where "s' = s\<lparr>os_http := h, os_queue := q\<rparr>" using tuner(1) posts_form by metis
  then show ?thesis using server_step_ok [OF assms(3) handlers_same_server(1) [OF tuner(3)]] tuner(2) by (simp add: server_up_def server_down_def)
next
  case (read reply calls h)
  obtain q where "s' = s\<lparr>os_http := h, os_queue := q\<rparr>" using read(1) posts_form by metis
  then show ?thesis using server_step_ok [OF assms(3) handlers_same_server(2) [OF read(3)]] read(2) by (simp add: server_up_def server_down_def)
next
  case (station_tuner header n net reply calls h net')
  obtain q where "s' = s\<lparr>os_http := h, os_queue := q\<rparr>" using station_tuner(1) posts_form by metis
  then show ?thesis
    using server_step_ok [OF assms(3) handlers_same_server(3) [OF station_tuner(3)]] station_tuner(2) by (simp add: server_up_def server_down_def)
next
  case (station_read header reply calls h)
  obtain q where "s' = s\<lparr>os_http := h, os_queue := q\<rparr>" using station_read(1) posts_form by metis
  then show ?thesis
    using server_step_ok [OF assms(3) handlers_same_server(4) [OF station_read(3)]] station_read(2) by (simp add: server_up_def server_down_def)
qed

lemma orch_step_ok:
  assumes "platform_laws (od_platform E)" and "orch_step E recv s s'" and "system_ok E s"
  shows "system_ok E s'"
  using assms(2)
proof cases
  case turn
  show ?thesis
  proof (cases "os_queue s")
    case Nil
    then show ?thesis using turn timeout_turn_ok(1) [OF assms(1,3)] by (simp add: RunOrchestratorTask_def)
  next
    case (Cons m rest)
    have "system_ok E (s\<lparr>os_queue := rest\<rparr>)" using assms(3) by (simp add: queue_step_ok)
    from message_ok [OF assms(1) this] turn Cons show ?thesis by (simp add: RunOrchestratorTask_def)
  qed
next
  case other
  from post_step_ok [OF assms(1) this assms(3)] show ?thesis .
qed

lemma start_ok:
  assumes "platform_laws (od_platform E)" and "power_on E s0"
    and "ProvisioningStart E ap sta create_result start_result s0 = (True, timer, s)"
  shows "system_ok E s" and "os_state s = STATE_BOOT_WAIT" and "os_attempt_count s = 0"
proof -
  obtain ok w io where i: "InitWifiManager (od_platform E) ap sta (os_wifi s0, os_io s0) = (ok, w, io)" by (metis prod.exhaust)
  note k = wifi_keeps(2) [OF i]
  have m: "mode_reported (od_platform E) (os_io s0)" using assms(2) by (simp add: power_on_def mode_reported_def mode_set_def)
  then have m': "mode_reported (od_platform E) io"
    using wifi_platform.reported_calls [OF wifi_platform.intro [OF assms(1)] io_keeps_calls [OF k]] by blast
  obtain s1 where s: "s = SetState E STATE_BOOT_WAIT BOOT_BUTTON_WINDOW_MS s1" "os_io s1 = io" "os_http s1 = os_http s0"
    "os_dns s1 = os_dns s0" "os_mdns s1 = os_mdns s0" "os_is_http_up s1 = os_is_http_up s0" "os_is_mdns_up s1 = os_is_mdns_up s0"
    "os_restarted s1 = os_restarted s0" "os_attempt_count s1 = os_attempt_count s0"
    using assms(3) i by (auto simp: ProvisioningStart_def Let_def split: prod.splits if_splits)
  show "os_state s = STATE_BOOT_WAIT" "os_attempt_count s = 0" using s assms(2) by (simp_all add: power_on_def)
  have "ap_asked_off (io_log io)" using io_off_keeps [OF k] assms(2) by (simp add: power_on_def ap_asked_off_def last_mode_call_def)
  then have "io_off s1" using s(2) by (simp add: io_off_def)
  then have "station_services s" using s assms(2) by (simp add: power_on_def services server_down_def initial_http_def)
  then have "services_match s" by (rule services_match_station) (simp add: s(1) IsPortalState_def)
  then show "system_ok E s" using m' s assms(2) by (simp add: system_ok_def power_on_def)
qed

lemma orch_reach_ok: "orch_reach E recv s \<Longrightarrow> platform_laws (od_platform E) \<Longrightarrow> system_ok E s"
  by (induction rule: orch_reach.induct) (auto dest: start_ok(1) orch_step_ok)

text \<open>Between two turns of the task the queue keeps the first eight messages posted, in order; later ones are dropped.\<close>

lemma posts_kept: "length (os_queue s) \<le> QUEUE_LENGTH \<Longrightarrow> os_queue (fold PostMessage ms s) = take QUEUE_LENGTH (os_queue s @ ms)"
  using posts.burst_content [of s ms] by simp

text \<open>
  A submission that finds the queue full is accepted although its message is dropped: the caller is told that the trial starts, and
  nothing follows. The other posts have no result, so a drop is only logged.
\<close>

lemma SubmitCredentials_full_queue:
  "os_state s = STATE_PORTAL_IDLE \<Longrightarrow> length (os_queue s) = QUEUE_LENGTH \<Longrightarrow> SubmitCredentials c s = (True, s)"
  by (simp add: SubmitCredentials_def PostMessage_def)

end
