(* ===== verification/ProvisioningMachine.thy ===== *)
theory ProvisioningMachine
  imports ProvisioningRuns
begin

section \<open>The provisioning state machine\<close>

text \<open>
  The orchestrator as an abstract machine without services, clocks and queues, and the proof that the detailed model refines it;
  then what the runs of ProvisioningRuns guarantee, stated as properties.
\<close>

subsection \<open>The abstract machine\<close>

record machine =
  ma_state :: orchestrator_state
  ma_attempts :: u32
  ma_has_stored :: bool
  ma_is_associated :: bool

definition orch_abs :: "('e, 'n, 'd) orch \<Rightarrow> machine" where
  "orch_abs s = \<lparr>ma_state = os_state s, ma_attempts = os_attempt_count s, ma_has_stored = os_has_stored s,
     ma_is_associated = os_is_associated s\<rparr>"

definition is_portal_state :: "orchestrator_state \<Rightarrow> bool" where
  "is_portal_state st \<longleftrightarrow> st = STATE_PORTAL_IDLE \<or> st = STATE_PORTAL_TRIAL \<or> st = STATE_PORTAL_SUCCESS \<or> st = STATE_PORTAL_RETRY"

text \<open>\<open>up\<close>: the portal's services start; \<open>saved\<close>: the credentials are stored. None is the expiry of the state's deadline.\<close>

definition machine_portal :: "bool \<Rightarrow> orchestrator_state" where
  "machine_portal up = (if up then STATE_PORTAL_IDLE else STATE_PORTAL_RETRY)"

definition machine_message :: "bool \<Rightarrow> bool \<Rightarrow> message \<Rightarrow> machine \<Rightarrow> machine" where
  "machine_message up saved m a = (case m of
     MSG_BUTTON_REQUEST \<Rightarrow> if is_portal_state (ma_state a) then a else a\<lparr>ma_state := machine_portal up\<rparr>
   | MSG_STA_CONNECTED \<Rightarrow> a\<lparr>ma_is_associated := True, ma_state :=
       (if ma_state a \<in> {STATE_STA_ATTEMPT, STATE_RECONNECT_WAIT, STATE_RECONNECT_TRY} then STATE_CONNECTED
        else if ma_state a = STATE_PORTAL_TRIAL then if saved then STATE_PORTAL_SUCCESS else STATE_PORTAL_IDLE
        else ma_state a)\<rparr>
   | MSG_STA_DISCONNECTED \<Rightarrow> a\<lparr>ma_is_associated := False, ma_state :=
       (if ma_state a \<in> {STATE_CONNECTED, STATE_RECONNECT_TRY} then STATE_RECONNECT_WAIT else ma_state a)\<rparr>
   | MSG_CREDENTIALS_SUBMITTED c \<Rightarrow> if ma_state a = STATE_PORTAL_IDLE then a\<lparr>ma_state := STATE_PORTAL_TRIAL\<rparr> else a
   | _ \<Rightarrow> a)"

definition machine_timeout :: "bool \<Rightarrow> machine \<Rightarrow> machine" where
  "machine_timeout up a = (case ma_state a of
     STATE_BOOT_WAIT \<Rightarrow> if ma_has_stored a then a\<lparr>ma_state := STATE_STA_ATTEMPT, ma_attempts := ma_attempts a + 1\<rparr>
                        else a\<lparr>ma_state := machine_portal up\<rparr>
   | STATE_STA_ATTEMPT \<Rightarrow> a\<lparr>ma_state := (if ma_attempts a < BOOT_ATTEMPT_MAX then STATE_STA_PAUSE else machine_portal up)\<rparr>
   | STATE_STA_PAUSE \<Rightarrow> a\<lparr>ma_state := STATE_STA_ATTEMPT, ma_attempts := ma_attempts a + 1\<rparr>
   | STATE_RECONNECT_WAIT \<Rightarrow> a\<lparr>ma_state := STATE_RECONNECT_TRY\<rparr>
   | STATE_RECONNECT_TRY \<Rightarrow> a\<lparr>ma_state := STATE_RECONNECT_WAIT\<rparr>
   | STATE_PORTAL_TRIAL \<Rightarrow> a\<lparr>ma_state := STATE_PORTAL_IDLE\<rparr>
   | STATE_PORTAL_SUCCESS \<Rightarrow> a\<lparr>ma_state := (if ma_is_associated a then STATE_CONNECTED else STATE_RECONNECT_WAIT)\<rparr>
   | STATE_PORTAL_RETRY \<Rightarrow> a\<lparr>ma_state := machine_portal up\<rparr>
   | _ \<Rightarrow> a)"

text \<open>What the operations do to the abstract state.\<close>

lemma abs_frames:
  "orch_abs (connect_station E c s) = orch_abs s" "orch_abs (disconnect_station E s) = orch_abs s"
  "orch_abs (NotifyState st s) = orch_abs s" "orch_abs (set_identity E s) = orch_abs s"
  "orch_abs (StopStationServices E s) = orch_abs s" "orch_abs (StopPortalServices E s) = orch_abs s"
  "orch_abs (start_station_http E s) = orch_abs s" "orch_abs (start_station_mdns E s) = orch_abs s"
  by (simp_all add: orch_abs_def)

lemma abs_SetState: "orch_abs (SetState E st t s) = (orch_abs s)\<lparr>ma_state := st\<rparr>"
  by (simp add: orch_abs_def SetState_def)

lemma abs_sel [simp]: "ma_state (orch_abs s) = os_state s" "ma_attempts (orch_abs s) = os_attempt_count s"
  "ma_has_stored (orch_abs s) = os_has_stored s" "ma_is_associated (orch_abs s) = os_is_associated s"
  by (simp_all add: orch_abs_def)

lemma abs_same: "(orch_abs s)\<lparr>ma_state := os_state s\<rparr> = orch_abs s"
  by (simp add: orch_abs_def)

lemma abs_StartStation: "orch_abs (StartStationServices E s) = (orch_abs s)\<lparr>ma_state := STATE_CONNECTED\<rparr>"
  by (simp add: StartStationServices_def Let_def abs_SetState abs_frames)

lemma abs_Enter: "\<exists>up. orch_abs (EnterProvisioning E s) = (orch_abs s)\<lparr>ma_state := machine_portal up\<rparr>"
proof -
  let ?s = "disconnect_station E ((StopStationServices E s)\<lparr>os_has_ip := False\<rparr>)"
  obtain ok s' where st: "start_portal_services E ?s = (ok, s')" by fastforce
  have "control s' = control ?s" using start_portal_services_sel [OF st] by simp
  then have a: "orch_abs s' = orch_abs s" by (simp add: control_def orch_abs_def)
  have "EnterProvisioning E s = (if \<not> ok then SetState E STATE_PORTAL_RETRY PORTAL_RETRY_MS (StopPortalServices E s')
      else NotifyState PROVISIONING_STATE_PORTAL (SetState E STATE_PORTAL_IDLE 0 s'))"
    using st by (simp add: EnterProvisioning_def Let_def)
  then have "orch_abs (EnterProvisioning E s) = (orch_abs s)\<lparr>ma_state := machine_portal ok\<rparr>"
    using a by (simp add: abs_SetState abs_frames machine_portal_def)
  then show ?thesis ..
qed

lemma abs_Begin: "orch_abs (BeginReconnectWait E s) = (orch_abs s)\<lparr>ma_state := STATE_RECONNECT_WAIT\<rparr>"
  using BeginReconnectWait_sel(3) [of E s] abs_SetState by metis

lemma abs_upd:
  "orch_abs (s\<lparr>os_failure_count := n\<rparr>) = orch_abs s" "orch_abs (s\<lparr>os_active := c\<rparr>) = orch_abs s" "orch_abs (s\<lparr>os_trial := c\<rparr>) = orch_abs s"
  "orch_abs (s\<lparr>os_http := h\<rparr>) = orch_abs s" "orch_abs (s\<lparr>os_store := st\<rparr>) = orch_abs s" "orch_abs (s\<lparr>os_flash := d\<rparr>) = orch_abs s"
  "orch_abs (s\<lparr>os_has_ip := b\<rparr>) = orch_abs s" "orch_abs (s\<lparr>os_out := out\<rparr>) = orch_abs s" "orch_abs (s\<lparr>os_queue := q\<rparr>) = orch_abs s"
  "orch_abs (s\<lparr>os_restarted := b\<rparr>) = orch_abs s" "orch_abs (s\<lparr>os_hostname_in_use := name\<rparr>) = orch_abs s"
  "orch_abs (s\<lparr>os_is_healthy_pending := b\<rparr>) = orch_abs s" "orch_abs (s\<lparr>os_io := io\<rparr>) = orch_abs s"
  "orch_abs (s\<lparr>os_is_associated := b\<rparr>) = (orch_abs s)\<lparr>ma_is_associated := b\<rparr>"
  "orch_abs (s\<lparr>os_attempt_count := a\<rparr>) = (orch_abs s)\<lparr>ma_attempts := a\<rparr>"
  by (simp_all add: orch_abs_def)

lemmas abs_simps = abs_frames abs_SetState abs_StartStation abs_Begin abs_upd

lemma abs_FailTrial: "orch_abs (FailTrial E s) = (orch_abs s)\<lparr>ma_state := STATE_PORTAL_IDLE\<rparr>"
  by (simp add: FailTrial_def Let_def abs_simps)

lemma abs_Leave:
  "orch_abs (LeaveProvisioning E s) = (orch_abs s)\<lparr>ma_state := (if os_is_associated s then STATE_CONNECTED else STATE_RECONNECT_WAIT)\<rparr>"
  by (simp add: LeaveProvisioning_def Let_def abs_simps)

lemma abs_StartBoot:
  "orch_abs (StartBootAttempt E s) = (orch_abs s)\<lparr>ma_state := STATE_STA_ATTEMPT, ma_attempts := os_attempt_count s + 1\<rparr>"
  by (simp add: StartBootAttempt_def Let_def abs_simps, (simp add: orch_abs_def)?)

lemma message_refines: "\<exists>up saved. orch_abs (HandleMessage E m s) = machine_message up saved m (orch_abs s)"
proof (cases m)
  case MSG_BUTTON_REQUEST
  then show ?thesis using abs_Enter [of E s]
    by (cases "IsPortalState s") (auto simp: HandleMessage_def machine_message_def IsPortalState_def is_portal_state_def)
next
  case MSG_STA_CONNECTED
  let ?s = "s\<lparr>os_is_associated := True\<rparr>"
  obtain saved store where r: "ReplaceCredentials (od_nvs E) (Some (os_trial ?s)) (os_store ?s) = (saved, store)" by fastforce
  have "orch_abs (HandleStationConnected E ?s) = machine_message True saved m (orch_abs s)"
    unfolding HandleStationConnected_def Let_def r
    using MSG_STA_CONNECTED abs_same [of s]
    by (cases "os_state s") (simp_all add: machine_message_def abs_simps abs_FailTrial, (simp_all add: orch_abs_def)?)
  then show ?thesis using MSG_STA_CONNECTED by (auto simp: HandleMessage_def)
next
  case MSG_STA_DISCONNECTED
  then show ?thesis
    by (cases "os_state s") (simp_all add: HandleMessage_def HandleStationDisconnected_def Let_def machine_message_def abs_simps,
      (simp_all add: orch_abs_def)?)
next
  case MSG_STA_GOT_IP
  then have "orch_abs (HandleMessage E m s) = orch_abs s"
    by (simp add: HandleMessage_def HandleStationGotIp_def Let_def abs_simps, (simp add: orch_abs_def)?)
  then show ?thesis using MSG_STA_GOT_IP by (simp add: machine_message_def)
next
  case MSG_UPDATE_REQUEST
  then have "orch_abs (HandleMessage E m s) = orch_abs s"
    by (simp add: HandleMessage_def HandleUpdateRequest_def RestartIntoUpdater_def Let_def abs_simps split: prod.splits)
  then show ?thesis using MSG_UPDATE_REQUEST by (simp add: machine_message_def)
qed (simp_all add: HandleMessage_def machine_message_def abs_simps Let_def)

lemma timeout_refines: "\<exists>up. orch_abs (HandleTimeout E s) = machine_timeout up (orch_abs s)"
proof -
  have c: "orch_abs (CheckMdnsHostname E s') = orch_abs s'" for s'
    by (simp add: CheckMdnsHostname_def abs_simps split: option.splits)
  have d: "orch_abs (EnterProvisioning E (disconnect_station E s)) = (orch_abs s)\<lparr>ma_state := machine_portal up\<rparr> \<Longrightarrow> ?thesis"
    if "os_state s = STATE_STA_ATTEMPT" "\<not> os_attempt_count s < BOOT_ATTEMPT_MAX" for up
    using that by (intro exI [of _ up]) (simp add: HandleTimeout_def machine_timeout_def Let_def)
  show ?thesis
    using abs_same [of s] abs_Enter [of E s] abs_Enter [of E "disconnect_station E s"] d
    by (cases "os_state s")
      (auto simp: HandleTimeout_def machine_timeout_def Let_def abs_simps c abs_FailTrial abs_Leave abs_StartBoot)
qed

subsection \<open>Well-formed data\<close>

definition cred_ok :: "wifi_credentials \<Rightarrow> bool" where
  "cred_ok c \<longleftrightarrow> wf_credentials c \<and> IsCredentialsValid (Some c)"

definition message_wf :: "message \<Rightarrow> bool" where
  "message_wf m = (case m of MSG_CREDENTIALS_SUBMITTED c \<Rightarrow> cred_ok c | MSG_LED_TIMING_SUBMITTED t q \<Rightarrow> valid_timing t | _ \<Rightarrow> True)"

definition out_wf :: "orch_out \<Rightarrow> bool" where
  "out_wf x = (case x of LED_TIMING_APPLIED t q \<Rightarrow> valid_timing t | _ \<Rightarrow> True)"

definition bodies_clear :: "http_state \<Rightarrow> bool" where
  "bodies_clear h \<longleftrightarrow> hs_body h = zero_body \<and> hs_tuner_body h = zero_tuner_body"

definition wf_data :: "('e, 'n, 'd) orch \<Rightarrow> bool" where
  "wf_data s \<longleftrightarrow> list_all out_wf (os_out s) \<and> bodies_clear (os_http s) \<and> length (os_hostname_in_use s) < MDNS_SERVICE_HOSTNAME_MAX"

text \<open>The pair a state connects with, or will reconnect with, is one that may be used.\<close>

definition state_creds :: "('e, 'n, 'd) orch \<Rightarrow> bool" where
  "state_creds s = (case os_state s of
     STATE_BOOT_WAIT \<Rightarrow> True
   | STATE_STA_ATTEMPT \<Rightarrow> os_has_stored s
   | STATE_STA_PAUSE \<Rightarrow> os_has_stored s
   | STATE_PORTAL_IDLE \<Rightarrow> True
   | STATE_PORTAL_RETRY \<Rightarrow> True
   | STATE_PORTAL_TRIAL \<Rightarrow> cred_ok (os_trial s)
   | _ \<Rightarrow> cred_ok (os_active s))"

definition wf_orch :: "('e, 'n, 'd) orch \<Rightarrow> bool" where
  "wf_orch s \<longleftrightarrow> wf_data s \<and> length (os_queue s) \<le> QUEUE_LENGTH \<and> list_all message_wf (os_queue s) \<and>
     (os_has_stored s \<longrightarrow> cred_ok (os_stored s)) \<and> state_creds s"

lemma state_creds_cong:
  "os_state s' = os_state s \<Longrightarrow> os_has_stored s' = os_has_stored s \<Longrightarrow> os_trial s' = os_trial s \<Longrightarrow> os_active s' = os_active s \<Longrightarrow>
     state_creds s' = state_creds s"
  by (cases "os_state s") (simp_all add: state_creds_def)

lemma state_creds_upd [simp]:
  "state_creds (s\<lparr>os_queue := q\<rparr>) = state_creds s" "state_creds (s\<lparr>os_http := h\<rparr>) = state_creds s"
  "state_creds (s\<lparr>os_flash := d\<rparr>) = state_creds s" "state_creds (s\<lparr>os_io := io\<rparr>) = state_creds s"
  "state_creds (s\<lparr>os_io := io, os_http := h\<rparr>) = state_creds s"
  "state_creds (s\<lparr>os_is_healthy_pending := b, os_flash := d\<rparr>) = state_creds s" "state_creds (s\<lparr>os_out := out\<rparr>) = state_creds s"
  "state_creds (s\<lparr>os_is_associated := b\<rparr>) = state_creds s"
  "state_creds (s\<lparr>os_is_healthy_pending := b\<rparr>) = state_creds s" "state_creds (s\<lparr>os_has_ip := b\<rparr>) = state_creds s"
  "state_creds (s\<lparr>os_is_associated := a, os_has_ip := b\<rparr>) = state_creds s"
  by (rule state_creds_cong; simp)+

lemma server_bodies:
  "StopHttpPortal p (h, io) = (h', io') \<Longrightarrow> bodies_clear h' = bodies_clear h"
  "StartHttpPortal p (h, io) = (ok, h', io') \<Longrightarrow> bodies_clear h' = bodies_clear h"
  "StartHttpStationServer p (h, io) = (ok, h', io') \<Longrightarrow> bodies_clear h' = bodies_clear h"
proof -
  show st: "bodies_clear h' = bodies_clear h" if "StopHttpPortal p (h, io) = (h', io')" for h io h' io'
    using that by (auto simp: StopHttpPortal_def bodies_clear_def split: if_splits)
  show "StartHttpPortal p (h, io) = (ok, h', io') \<Longrightarrow> bodies_clear h' = bodies_clear h"
    by (auto simp: StartHttpPortal_def Let_def split: prod.splits if_splits dest!: st)
      (simp_all add: bodies_clear_def SetHttpPortalStatus_def)
  show "StartHttpStationServer p (h, io) = (ok, h', io') \<Longrightarrow> bodies_clear h' = bodies_clear h"
    by (auto simp: StartHttpStationServer_def Let_def split: prod.splits if_splits dest!: st)
      (simp_all add: bodies_clear_def)
qed

lemma setter_bodies:
  "bodies_clear (SetHttpStationIdentity name ip h) = bodies_clear h" "bodies_clear (SetHttpTunerResult m h) = bodies_clear h"
  "bodies_clear (SetHttpPortalStatus st h) = bodies_clear h"
  by (simp_all add: bodies_clear_def SetHttpStationIdentity_def SetHttpPortalStatus_def SetHttpTunerResult_def Let_def split: option.split)

lemma wf_data_ops [simp, intro]:
  assumes "wf_data s"
  shows "wf_data (connect_station E c s)" and "wf_data (disconnect_station E s)" and "wf_data (NotifyState st s)"
    and "wf_data (set_identity E s)" and "wf_data (StopStationServices E s)" and "wf_data (StopPortalServices E s)"
    and "wf_data (start_station_http E s)" and "wf_data (start_station_mdns E s)" and "wf_data (snd (start_portal_services E s))"
    and "wf_data (SetState E st' t s)"
proof -
  show "wf_data (connect_station E c s)" using assms connect_station_only [of E s c] by (auto simp: wf_data_def wifi_only_def)
  show "wf_data (disconnect_station E s)" using assms disconnect_station_only(1) [of E s] by (auto simp: wf_data_def wifi_only_def)
  show "wf_data (NotifyState st s)" using assms by (simp add: wf_data_def NotifyState_def out_wf_def)
  have id: "wf_data (set_identity E r)" if "wf_data r" for r
    using that by (simp add: wf_data_def set_identity_def setter_bodies)
  show "wf_data (set_identity E s)" by (rule id [OF assms])
  show "wf_data (StopStationServices E s)"
    using assms by (auto simp: wf_data_def StopStationServices_def server_bodies split: prod.splits)
  show "wf_data (StopPortalServices E s)"
    using assms by (auto simp: wf_data_def StopPortalServices_def server_bodies split: prod.splits)
  have "wf_data (s\<lparr>os_hostname_in_use := MDNS_SERVICE_HOSTNAME\<rparr>)" using assms by (simp add: wf_data_def)
  from id [OF this] assms show "wf_data (start_station_http E s)"
    by (auto simp: wf_data_def start_station_http_def Let_def server_bodies split: prod.splits)
  show "wf_data (start_station_mdns E s)"
    using assms by (auto simp: wf_data_def start_station_mdns_def Let_def split: prod.splits)
  show "wf_data (snd (start_portal_services E s))"
    using assms by (auto simp: wf_data_def start_portal_services_def Let_def server_bodies split: prod.splits)
  show "wf_data (SetState E st' t s)" using assms by (simp add: wf_data_def SetState_def)
qed

lemma wf_data_upd [simp]:
  "wf_data (s\<lparr>os_has_ip := b\<rparr>) = wf_data s" "wf_data (s\<lparr>os_trial := c\<rparr>) = wf_data s" "wf_data (s\<lparr>os_active := c\<rparr>) = wf_data s"
  "wf_data (s\<lparr>os_failure_count := n\<rparr>) = wf_data s" "wf_data (s\<lparr>os_attempt_count := n\<rparr>) = wf_data s"
  "wf_data (s\<lparr>os_store := st\<rparr>) = wf_data s" "wf_data (s\<lparr>os_flash := d\<rparr>) = wf_data s" "wf_data (s\<lparr>os_restarted := b\<rparr>) = wf_data s"
  "wf_data (s\<lparr>os_is_associated := b\<rparr>) = wf_data s" "wf_data (s\<lparr>os_queue := q\<rparr>) = wf_data s"
  "wf_data (s\<lparr>os_is_healthy_pending := b\<rparr>) = wf_data s" "wf_data (s\<lparr>os_io := io\<rparr>) = wf_data s"
  "bodies_clear h = bodies_clear (os_http s) \<Longrightarrow> wf_data (s\<lparr>os_http := h\<rparr>) = wf_data s"
  by (simp_all add: wf_data_def)

declare setter_bodies [simp]

lemma SetState_creds [simp]: "os_active (SetState E st t s) = os_active s" "os_stored (SetState E st t s) = os_stored s"
  by (simp_all add: SetState_def)

lemma wf_data_compound [simp, intro]:
  assumes "wf_data s"
  shows "wf_data (StartStationServices E s)" and "wf_data (EnterProvisioning E s)" and "wf_data (LeaveProvisioning E s)"
    and "wf_data (FailTrial E s)" and "wf_data (BeginReconnectWait E s)" and "wf_data (StartBootAttempt E s)"
    and "wf_data (CheckMdnsHostname E s)"
proof -
  show st: "wf_data (StartStationServices E s)" using assms by (simp add: StartStationServices_def Let_def)
  obtain ok s' where e: "start_portal_services E (disconnect_station E ((StopStationServices E s)\<lparr>os_has_ip := False\<rparr>)) = (ok, s')"
    by fastforce
  have "wf_data s'" using wf_data_ops(9) [of "disconnect_station E ((StopStationServices E s)\<lparr>os_has_ip := False\<rparr>)" E] e assms by simp
  then show "wf_data (EnterProvisioning E s)" using e by (simp add: EnterProvisioning_def Let_def)
  have b: "wf_data (BeginReconnectWait E r)" if "wf_data r" for r using that by (simp add: BeginReconnectWait_def)
  then show "wf_data (BeginReconnectWait E s)" using assms .
  have st: "wf_data (StartStationServices E r)" if "wf_data r" for r using that by (simp add: StartStationServices_def Let_def)
  show "wf_data (LeaveProvisioning E s)" using assms by (simp add: LeaveProvisioning_def Let_def b st)
  show "wf_data (StartBootAttempt E s)" using assms by (simp add: StartBootAttempt_def Let_def)
  have "wf_data ((disconnect_station E s)\<lparr>os_trial := zero_credentials\<rparr>)" using assms by simp
  then show "wf_data (FailTrial E s)" unfolding FailTrial_def Let_def by (intro wf_data_ops(10)) simp
  show "wf_data (CheckMdnsHostname E s)"
  proof (cases "LogMdnsHostnameInUse (od_platform E) MDNS_SERVICE_HOSTNAME_MAX (os_io s)")
    case (Some name)
    then have "wf_data (s\<lparr>os_hostname_in_use := name\<rparr>)"
      using assms LogMdnsHostnameInUse_name [OF Some] by (simp add: wf_data_def)
    then show ?thesis using Some by (simp add: CheckMdnsHostname_def)
  qed (use assms in \<open>simp add: CheckMdnsHostname_def\<close>)
qed

definition pairs where
  "pairs s = (os_has_stored s, os_stored s, os_active s, os_queue s)"

lemma pairs_frames:
  "pairs (SetState E st t s) = pairs s" "pairs (StartStationServices E s) = pairs s" "pairs (EnterProvisioning E s) = pairs s"
  "pairs (BeginReconnectWait E s) = pairs s" "pairs (LeaveProvisioning E s) = pairs s" "pairs (FailTrial E s) = pairs s"
  "pairs (StartBootAttempt E s) = pairs s" "pairs (CheckMdnsHostname E s) = pairs s"
proof -
  show set: "pairs (SetState E st t s) = pairs s" for st t s by (simp add: pairs_def SetState_def)
  have st: "pairs (StartStationServices E r) = pairs r" for r
    by (simp add: StartStationServices_def Let_def set) (simp add: pairs_def)
  then show "pairs (StartStationServices E s) = pairs s" .
  obtain ok s' where e: "start_portal_services E (disconnect_station E ((StopStationServices E s)\<lparr>os_has_ip := False\<rparr>)) = (ok, s')"
    by fastforce
  have "pairs s' = pairs s" using start_portal_services_sel [OF e] by (simp add: control_def pairs_def)
  then show "pairs (EnterProvisioning E s) = pairs s"
    using e set by (auto simp: EnterProvisioning_def Let_def) (simp_all add: pairs_def SetState_def)
  have b: "pairs (BeginReconnectWait E r) = pairs r" for r by (simp add: BeginReconnectWait_def set)
  then show "pairs (BeginReconnectWait E s) = pairs s" .
  have "pairs (LeaveProvisioning E s) = pairs (StopPortalServices E s)"
    by (simp add: LeaveProvisioning_def Let_def b st) (simp add: pairs_def SetState_def)
  then show "pairs (LeaveProvisioning E s) = pairs s" by (simp add: pairs_def)
  show "pairs (FailTrial E s) = pairs s" "pairs (StartBootAttempt E s) = pairs s" "pairs (CheckMdnsHostname E s) = pairs s"
    by (simp_all add: FailTrial_def StartBootAttempt_def CheckMdnsHostname_def Let_def set split: option.split) (simp_all add: pairs_def)
qed

lemmas pairs_simps [simp] = pairs_frames [unfolded pairs_def prod.inject]

lemma Enter_creds: "state_creds (EnterProvisioning E s)"
  by (rule EnterProvisioning_cases [of E s]) (simp_all add: state_creds_def)

lemma wf_data_out: "wf_data s \<Longrightarrow> out_wf x \<Longrightarrow> wf_data (s\<lparr>os_out := os_out s @ [x]\<rparr>)"
  by (simp add: wf_data_def)

lemma creds_of_ops:
  "state_creds (StartStationServices E s) = cred_ok (os_active s)" "state_creds (BeginReconnectWait E s) = cred_ok (os_active s)"
  "state_creds (StartBootAttempt E s) = os_has_stored s" "state_creds (FailTrial E s)"
  "state_creds (LeaveProvisioning E s) = cred_ok (os_active s)"
  "state_creds (SetState E STATE_STA_PAUSE t s) = os_has_stored s" "state_creds (SetState E STATE_CONNECTED t s) = cred_ok (os_active s)"
  "state_creds (SetState E STATE_RECONNECT_TRY t s) = cred_ok (os_active s)"
  "state_creds (SetState E STATE_PORTAL_TRIAL t s) = cred_ok (os_trial s)" "state_creds (SetState E STATE_BOOT_WAIT t s)"
proof -
  have "os_state (LeaveProvisioning E s) = STATE_CONNECTED \<or> os_state (LeaveProvisioning E s) = STATE_RECONNECT_WAIT"
    using arg_cong [OF abs_Leave [of E s], of ma_state] by (auto split: if_splits)
  then show "state_creds (LeaveProvisioning E s) = cred_ok (os_active s)" by (auto simp: state_creds_def)
qed (simp_all add: state_creds_def StartStationServices_sel BeginReconnectWait_sel StartBootAttempt_sel FailTrial_sel)

lemma creds_at:
  "state_creds s \<Longrightarrow> os_state s = STATE_STA_ATTEMPT \<or> os_state s = STATE_STA_PAUSE \<Longrightarrow> os_has_stored s"
  "state_creds s \<Longrightarrow> os_state s = STATE_CONNECTED \<or> os_state s = STATE_RECONNECT_WAIT \<or> os_state s = STATE_RECONNECT_TRY \<or>
     os_state s = STATE_PORTAL_SUCCESS \<Longrightarrow> cred_ok (os_active s)"
  by (auto simp: state_creds_def)

lemma message_wf_step:
  assumes "wf_orch s" and "message_wf m"
  shows "wf_orch (HandleMessage E m s)"
proof -
  have d: "wf_data s" and q: "length (os_queue s) \<le> QUEUE_LENGTH" "list_all message_wf (os_queue s)"
    and h: "os_has_stored s \<longrightarrow> cred_ok (os_stored s)" and c: "state_creds s"
    using assms(1) by (simp_all add: wf_orch_def)
  show ?thesis
  proof (cases m)
    case MSG_BUTTON_REQUEST
    then show ?thesis using d q h c by (simp add: HandleMessage_def wf_orch_def Enter_creds)
  next
    case MSG_STA_CONNECTED
    let ?s = "s\<lparr>os_is_associated := True\<rparr>"
    consider (connecting) "os_state s = STATE_STA_ATTEMPT \<or> os_state s = STATE_RECONNECT_WAIT \<or> os_state s = STATE_RECONNECT_TRY"
      | (trial) "os_state s = STATE_PORTAL_TRIAL"
      | (other) "\<not> (os_state s = STATE_STA_ATTEMPT \<or> os_state s = STATE_RECONNECT_WAIT \<or> os_state s = STATE_RECONNECT_TRY)"
        "os_state s \<noteq> STATE_PORTAL_TRIAL" by blast
    then have "wf_orch (HandleStationConnected E ?s)"
    proof cases
      case connecting
      then show ?thesis
        using d q h c by (auto simp: HandleStationConnected_def Let_def wf_orch_def state_creds_def)
    next
      case trial
      obtain ok st where r: "ReplaceCredentials (od_nvs E) (Some (os_trial s)) (os_store s) = (ok, st)" by fastforce
      show ?thesis
      proof (cases ok)
        case True
        then show ?thesis
          using trial r d q h c by (simp add: HandleStationConnected_def wf_orch_def state_creds_def)
      next
        case False
        then show ?thesis
          using trial r d q h by (simp add: HandleStationConnected_def wf_orch_def state_creds_def FailTrial_sel)
      qed
    next
      case other
      then have "HandleStationConnected E ?s = ?s" by (simp add: HandleStationConnected_def)
      then show ?thesis using assms(1) by (simp add: wf_orch_def)
    qed
    then show ?thesis using MSG_STA_CONNECTED by (simp add: HandleMessage_def)
  next
    case MSG_STA_DISCONNECTED
    then show ?thesis
      using d q h c creds_at(2) [OF c]
      by (auto simp: HandleMessage_def HandleStationDisconnected_def Let_def wf_orch_def creds_of_ops)
  next
    case MSG_STA_GOT_IP
    have i: "state_creds (set_identity E r) = state_creds r" for r by (rule state_creds_cong) simp_all
    show ?thesis
      using MSG_STA_GOT_IP d q h c creds_at(2) [OF c]
      by (auto simp: HandleMessage_def HandleStationGotIp_def Let_def wf_orch_def creds_of_ops i)
  next
    case (MSG_CREDENTIALS_SUBMITTED cr)
    then show ?thesis
      using d q h c assms(2) by (auto simp: HandleMessage_def Let_def wf_orch_def message_wf_def creds_of_ops)
  next
    case (MSG_LED_TIMING_SUBMITTED t n)
    then show ?thesis
      using d q h c assms(2) wf_data_out [OF d] by (auto simp: HandleMessage_def wf_orch_def message_wf_def out_wf_def)
  next
    case (MSG_PULSE_RESULT r)
    then show ?thesis using d q h c by (simp add: HandleMessage_def wf_orch_def)
  next
    case (MSG_PULSE_READ_REQUESTED n)
    then show ?thesis
      using d q h c wf_data_out [OF d] by (auto simp: HandleMessage_def wf_orch_def out_wf_def)
  next
    case MSG_UPDATE_REQUEST
    have i: "state_creds ((disconnect_station E (StopPortalServices E (StopStationServices E r)))\<lparr>os_restarted := True\<rparr>) = state_creds r" for r
      by (rule state_creds_cong) simp_all
    show ?thesis
      using MSG_UPDATE_REQUEST d q h c
      by (auto simp: HandleMessage_def HandleUpdateRequest_def RestartIntoUpdater_def Let_def wf_orch_def i split: prod.splits)
  qed
qed

lemma timeout_wf_step:
  assumes "wf_orch s"
  shows "wf_orch (HandleTimeout E s)"
proof -
  have w: "wf_data s" "length (os_queue s) \<le> QUEUE_LENGTH" "list_all message_wf (os_queue s)"
    "os_has_stored s \<longrightarrow> cred_ok (os_stored s)" and c: "state_creds s"
    using assms by (simp_all add: wf_orch_def)
  have ck: "state_creds (CheckMdnsHostname E (SetState E STATE_CONNECTED 0 s)) = cred_ok (os_active s)"
    by (simp add: CheckMdnsHostname_def state_creds_def split: option.split)
  have up: "state_creds (s\<lparr>os_failure_count := n\<rparr>) = state_creds s" for n by (rule state_creds_cong) simp_all
  show ?thesis
    using w c creds_at [OF c]
    by (cases "os_state s") (auto simp: HandleTimeout_def Let_def wf_orch_def Enter_creds creds_of_ops ck up)
qed

lemma queue_wf_step: "wf_orch s \<Longrightarrow> length q \<le> QUEUE_LENGTH \<Longrightarrow> list_all message_wf q \<Longrightarrow> wf_orch (s\<lparr>os_queue := q\<rparr>)"
  by (simp add: wf_orch_def)

lemma append_wf: "wf_orch s \<Longrightarrow> message_wf m \<Longrightarrow> length (os_queue s) < QUEUE_LENGTH \<Longrightarrow> wf_orch (s\<lparr>os_queue := os_queue s @ [m]\<rparr>)"
  by (intro queue_wf_step) (simp_all add: wf_orch_def)

lemma post_wf: "wf_orch s \<Longrightarrow> message_wf m \<Longrightarrow> wf_orch (PostMessage m s)"
  by (simp add: PostMessage_def append_wf)

lemma call_wf:
  assumes "wf_orch s" and "case call of SUBMIT_CREDENTIALS c \<Rightarrow> cred_ok c | APPLY_LED_TIMING t q \<Rightarrow> valid_timing t | _ \<Rightarrow> True"
  shows "wf_orch (s_portal_ops call s)"
  using assms by (cases call) (auto simp: s_portal_ops_def SubmitCredentials_def PostMessage_def SubmitLedTiming_def RequestPulseRead_def
      message_wf_def intro!: append_wf)

lemma http_wf_step: "wf_orch s \<Longrightarrow> bodies_clear h = bodies_clear (os_http s) \<Longrightarrow> wf_orch (s\<lparr>os_http := h\<rparr>)"
  by (simp add: wf_orch_def wf_data_def)

lemma tuner_wf:
  assumes "wf_orch s" and "HandleTunerSubmitRequest recv n (os_http s, net) = (reply, calls, h, net')"
  shows "wf_orch (fold s_portal_ops calls (s\<lparr>os_http := h\<rparr>))"
proof -
  have b: "bodies_clear (os_http s)" using assms(1) by (simp add: wf_orch_def wf_data_def)
  from tuner_submit_cases [OF assms(2)] show ?thesis
  proof
    assume a: "calls = [] \<and> hr_status reply = ''400 Bad Request'' \<and>
      (\<exists>b. h = os_http s\<lparr>hs_tuner_body := b\<rparr> \<and> (b = hs_tuner_body (os_http s) \<or> b = zero_tuner_body))"
    then have "bodies_clear h = bodies_clear (os_http s)" using b by (auto simp: bodies_clear_def)
    from http_wf_step [OF assms(1) this] a show ?thesis by simp
  next
    assume "\<exists>timing. valid_timing timing \<and> calls = [APPLY_LED_TIMING timing (hs_submit_seq (os_http s) + 1)] \<and>
       reply = respond_seq (hs_submit_seq (os_http s) + 1) ''Sent'' \<and>
       h = os_http s\<lparr>hs_tuner_body := zero_tuner_body, hs_submit_seq := hs_submit_seq (os_http s) + 1\<rparr>"
    then obtain t where a: "valid_timing t" "calls = [APPLY_LED_TIMING t (hs_submit_seq (os_http s) + 1)]"
      "bodies_clear h = bodies_clear (os_http s)" using b by (auto simp: bodies_clear_def)
    from call_wf [OF http_wf_step [OF assms(1) a(3)]] a(1,2) show ?thesis by simp
  qed
qed

lemma read_wf:
  assumes "wf_orch s" and "HandleTunerReadRequest (os_http s) = (reply, calls, h)"
  shows "wf_orch (fold s_portal_ops calls (s\<lparr>os_http := h\<rparr>))"
proof -
  have a: "calls = [REQUEST_PULSE_READ (hs_submit_seq h)]" "bodies_clear h = bodies_clear (os_http s)"
    using assms(2) by (auto simp: HandleTunerReadRequest_def Let_def bodies_clear_def)
  from call_wf [OF http_wf_step [OF assms(1) a(2)]] a(1) show ?thesis by simp
qed

lemma submit_wf:
  assumes "wf_orch s" and "HandleSubmitRequest recv st n (os_http s, net) = (reply, calls, h, net')"
  shows "wf_orch (fold s_portal_ops calls (s\<lparr>os_http := SetHttpPortalStatus (hs_status (os_http s)) h\<rparr>))"
proof -
  have b: "bodies_clear (os_http s)" using assms(1) by (simp add: wf_orch_def wf_data_def)
  note cases = HandleSubmitRequest_cases [OF assms(2)]
  have h: "bodies_clear (SetHttpPortalStatus (hs_status (os_http s)) h) = bodies_clear (os_http s)"
    using cases b by (auto simp: bodies_clear_def SetHttpPortalStatus_def)
  have "calls = [] \<or> (\<exists>c. calls = [SUBMIT_CREDENTIALS c] \<and> cred_ok c)"
    using cases b by (auto simp: bodies_clear_def cred_ok_def ValidateSubmission_spec)
  then show ?thesis using http_wf_step [OF assms(1) h] call_wf [OF http_wf_step [OF assms(1) h]] by auto
qed

lemma post_step_wf:
  assumes "post_step E recv s s'" and w: "wf_orch s"
  shows "wf_orch s'"
  using assms(1)
proof cases
  case (wifi_event event)
  then show ?thesis using w by (cases event) (auto simp: HandleWifiManagerEvent_def message_wf_def intro!: post_wf)
next
  case button
  then show ?thesis using w by (auto simp: HandleButtonRequest_def message_wf_def intro!: post_wf)
next
  case gesture
  then show ?thesis using w by (auto simp: HandleUpdateGesture_def message_wf_def intro!: post_wf)
next
  case (pulse measurement)
  then show ?thesis
    using w by (cases measurement) (auto simp: PostPulseResult_def message_wf_def intro!: append_wf)
next
  case (environment e)
  then show ?thesis using w by (simp add: wf_orch_def wf_data_def)
next
  case status
  then show ?thesis using w http_wf_step [OF w] by (simp add: setter_bodies)
next
  case (submit n net reply calls h net')
  then show ?thesis using submit_wf [OF w] by simp
next
  case (scan scanned io reply h)
  then have "bodies_clear h = bodies_clear (os_http s)"
    by (auto simp: HandleScanRequest_def Let_def bodies_clear_def split: option.splits)
  then show ?thesis using scan(1) w by (simp add: wf_orch_def wf_data_def)
next
  case (tuner n net reply calls h net')
  then show ?thesis using tuner_wf [OF w] by simp
next
  case (read reply calls h)
  then show ?thesis using read_wf [OF w] by simp
next
  case (station_tuner header n net reply calls h net')
  then show ?thesis
    using w tuner_wf [OF w] by (auto simp: HandleStationTunerSubmitRequest_def split: if_splits)
next
  case (station_read header reply calls h)
  then show ?thesis
    using w read_wf [OF w] by (auto simp: HandleStationTunerReadRequest_def split: if_splits)
qed

lemma turn_wf: "wf_orch s \<Longrightarrow> wf_orch (RunOrchestratorTask E s)"
proof (cases "os_queue s")
  case Nil
  assume w: "wf_orch s"
  have "wf_orch (s\<lparr>os_is_healthy_pending := False, os_flash := d\<rparr>)" for d
    using w by (simp add: wf_orch_def)
  then show ?thesis
    using w Nil timeout_wf_step by (auto simp: RunOrchestratorTask_def timeout_turn_def Let_def)
next
  case (Cons m rest)
  assume w: "wf_orch s"
  have "wf_orch (s\<lparr>os_queue := rest\<rparr>)" "message_wf m" using w Cons by (simp_all add: wf_orch_def)
  from message_wf_step [OF this] Cons show ?thesis by (simp add: RunOrchestratorTask_def)
qed

lemma Load_cred_ok: "LoadCredentials drv st = (Some c, st') \<Longrightarrow> cred_ok c"
  by (auto simp: LoadCredentials_def Let_def cred_ok_def wf_credentials_def cred_of_blob_def cred_size_def split: prod.splits if_splits)

lemma orch_reach_wf: "orch_reach E recv s \<Longrightarrow> wf_orch s"
proof (induction rule: orch_reach.induct)
  case (start s0 ap sta cr sr timer s)
  obtain stored st where l: "LoadCredentials (od_nvs E) (snd (InitCredentialStore (od_nvs E) (os_store s0))) = (stored, st)" by fastforce
  have "\<exists>s1. s = SetState E STATE_BOOT_WAIT BOOT_BUTTON_WINDOW_MS s1 \<and> os_out s1 = os_out s0 \<and> os_http s1 = os_http s0 \<and>
    os_hostname_in_use s1 = os_hostname_in_use s0 \<and> os_queue s1 = [] \<and> os_has_stored s1 = (stored \<noteq> None) \<and>
    (\<forall>c. stored = Some c \<longrightarrow> os_stored s1 = c)"
    using start(2) l by (auto simp: ProvisioningStart_def Let_def split: prod.splits if_splits)
  then obtain s1 where s1: "s = SetState E STATE_BOOT_WAIT BOOT_BUTTON_WINDOW_MS s1" "os_out s1 = os_out s0" "os_http s1 = os_http s0"
    "os_hostname_in_use s1 = os_hostname_in_use s0" "os_queue s1 = []" "os_has_stored s1 = (stored \<noteq> None)"
    "\<forall>c. stored = Some c \<longrightarrow> os_stored s1 = c" by blast
  have "wf_data s1"
    using s1 start(1) by (simp add: wf_data_def power_on_def bodies_clear_def initial_http_def zero_body_def zero_tuner_body_def)
  then show ?case
    using s1 l Load_cred_ok by (auto simp: wf_orch_def creds_of_ops)
next
  case (step s s')
  from step(2) show ?case
  proof cases
    case turn
    then show ?thesis using turn_wf [OF step(3)] by simp
  next
    case other
    then show ?thesis using post_step_wf [OF other step(3)] by simp
  qed
qed

subsection \<open>Deadlines\<close>

lemma pos_signed:
  assumes "0 < sint (w :: u32)"
  shows "unat w = nat (sint w)" "unat w < 2 ^ 31" "of_int (sint w) = w"
proof -
  have b: "sint w < 2 ^ 31" using sint_lt [of w] by simp
  have "w = of_nat (nat (sint w))" using assms by simp
  then have "unat w = unat (of_nat (nat (sint w)) :: u32)" by simp
  also have "\<dots> = nat (sint w)" unfolding unat_of_nat using assms b by (simp add: nat_less_iff)
  finally show "unat w = nat (sint w)" .
  then show "unat w < 2 ^ 31" using b by simp
  show "of_int (sint w) = w" by simp
qed

lemma remaining_exact:
  fixes d t0 t :: u32
  assumes "unat d < 2 ^ 31" and "unat (t - t0) < 2 ^ 31"
  shows "(let r = sint (t0 + d - t) in if 0 < r then nat r else 0) = unat d - unat (t - t0)"
proof -
  have "t0 + d - t = d - (t - t0)" by simp
  moreover have "sint (d - (t - t0)) = int (unat d) - int (unat (t - t0))"
  proof -
    have s: "sint w = int (unat w)" if "unat w < 2 ^ 31" for w :: u32
    proof -
      have "sint (of_nat (unat w) :: u32) = signed_take_bit 31 (int (unat w))"
        by (subst signed_of_nat) simp
      also have "\<dots> = int (unat w)" by (rule signed_take_bit_int_eq_self) (use that in \<open>simp_all del: of_nat_unat\<close>)
      finally show ?thesis by simp
    qed
    have "sint (d - (t - t0)) = signed_take_bit 31 (sint d - sint (t - t0))" by (subst sint_word_ariths(2)) simp
    also have "\<dots> = signed_take_bit 31 (int (unat d) - int (unat (t - t0)))" by (simp only: s [OF assms(1)] s [OF assms(2)])
    also have "\<dots> = int (unat d) - int (unat (t - t0))" by (rule signed_take_bit_int_eq_self) (use assms in \<open>simp_all del: of_nat_unat\<close>)
    finally show ?thesis .
  qed
  ultimately have e: "sint (t0 + d - t) = int (unat d) - int (unat (t - t0))" by (simp only:)
  have "(if 0 < int x - int y then nat (int x - int y) else 0) = x - y" for x y :: nat by auto
  then show ?thesis unfolding e Let_def .
qed

text \<open>
  The remaining time of a deadline is exact, also when the 32-bit tick counter wraps around, as long as less than half its range has
  passed.
\<close>

lemma GetRemainingTicks_exact:
  assumes "unat (pdMS_TO_TICKS (od_tick_rate E) ms) < 2 ^ 31" and "os_deadline_ticks s' = os_deadline_ticks (SetState E st ms s)"
    and "unat (xTaskGetTickCount E s' - xTaskGetTickCount E s) < 2 ^ 31"
  shows "unat (GetRemainingTicks E (os_deadline_ticks s') s') =
    unat (pdMS_TO_TICKS (od_tick_rate E) ms) - unat (xTaskGetTickCount E s' - xTaskGetTickCount E s)"
proof -
  let ?r = "sint (xTaskGetTickCount E s + pdMS_TO_TICKS (od_tick_rate E) ms - xTaskGetTickCount E s')"
  have d: "os_deadline_ticks s' = xTaskGetTickCount E s + pdMS_TO_TICKS (od_tick_rate E) ms" using assms(2) by (simp add: SetState_def)
  show ?thesis
    using remaining_exact [OF assms(1,3)] pos_signed(1) [of "xTaskGetTickCount E s + pdMS_TO_TICKS (od_tick_rate E) ms - xTaskGetTickCount E s'"]
    by (simp add: GetRemainingTicks_def d Let_def split: if_splits)
qed

lemma expired:
  assumes "xTaskGetTickCount E s' = xTaskGetTickCount E s + GetRemainingTicks E d s"
  shows "GetRemainingTicks E d s' = 0"
proof (cases "0 < sint (d - xTaskGetTickCount E s)")
  case True
  then have "xTaskGetTickCount E s' = d" using assms by (simp add: GetRemainingTicks_def Let_def)
  then show ?thesis by (simp add: GetRemainingTicks_def)
qed (use assms in \<open>simp add: GetRemainingTicks_def Let_def\<close>)

lemma remaining_finite: "unat (GetRemainingTicks E d s) < 2 ^ 31"
  using pos_signed(2) [of "d - xTaskGetTickCount E s"] by (simp add: GetRemainingTicks_def Let_def)

subsection \<open>Boot attempts\<close>

text \<open>
  A start with stored credentials during which the network never answers and nobody presses the button: \<open>n\<close> counts the expiries of
  the state's deadline. Everything else may happen in between.
\<close>

inductive boot_run :: "('e, 'n, 'd) orch_drv \<Rightarrow> 'x form_recv \<Rightarrow> nat \<Rightarrow> ('e, 'n, 'd) orch \<Rightarrow> bool" for E recv where
  start: "power_on E s0 \<Longrightarrow> ProvisioningStart E ap sta create_result start_result s0 = (True, timer, s) \<Longrightarrow> os_has_stored s \<Longrightarrow>
    boot_run E recv 0 s"
| expiry: "boot_run E recv n s \<Longrightarrow> os_queue s = [] \<Longrightarrow> os_has_deadline s \<Longrightarrow> GetRemainingTicks E (os_deadline_ticks s) s = 0 \<Longrightarrow>
    boot_run E recv (Suc n) (RunOrchestratorTask E s)"
| idle: "boot_run E recv n s \<Longrightarrow> os_queue s = [] \<Longrightarrow> \<not> (os_has_deadline s \<and> GetRemainingTicks E (os_deadline_ticks s) s = 0) \<Longrightarrow>
    boot_run E recv n (RunOrchestratorTask E s)"
| message: "boot_run E recv n s \<Longrightarrow> os_queue s = m # rest \<Longrightarrow> m \<noteq> MSG_STA_CONNECTED \<Longrightarrow> m \<noteq> MSG_BUTTON_REQUEST \<Longrightarrow>
    boot_run E recv n (RunOrchestratorTask E s)"
| other: "boot_run E recv n s \<Longrightarrow> post_step E recv s s' \<Longrightarrow> boot_run E recv n s'"

definition boot_state :: "nat \<Rightarrow> orchestrator_state" where
  "boot_state n = (if n = 0 then STATE_BOOT_WAIT else if odd n then STATE_STA_ATTEMPT else STATE_STA_PAUSE)"

definition boot_inv :: "nat \<Rightarrow> machine \<Rightarrow> bool" where
  "boot_inv n a \<longleftrightarrow> (if n < 10 then ma_has_stored a \<and> ma_state a = boot_state n \<and> ma_attempts a = of_nat ((n + 1) div 2)
     else ma_state a \<in> {STATE_PORTAL_IDLE, STATE_PORTAL_TRIAL, STATE_PORTAL_RETRY} \<and> (n = 10 \<longrightarrow> ma_attempts a = 5))"

lemma boot_inv_message: "boot_inv n a \<Longrightarrow> m \<noteq> MSG_STA_CONNECTED \<Longrightarrow> m \<noteq> MSG_BUTTON_REQUEST \<Longrightarrow> boot_inv n (machine_message up saved m a)"
  by (cases m) (auto simp: boot_inv_def machine_message_def boot_state_def split: if_splits)

lemma boot_inv_timeout:
  assumes "boot_inv n a"
  shows "boot_inv (Suc n) (machine_timeout up a)"
proof (cases "n < 10")
  case False
  then show ?thesis using assms by (cases up) (auto simp: boot_inv_def machine_timeout_def machine_portal_def)
next
  case True
  then have h: "ma_has_stored a" "ma_state a = boot_state n" "ma_attempts a = of_nat ((n + 1) div 2)" using assms by (simp_all add: boot_inv_def)
  from True have "n \<in> {0, 1, 2, 3, 4, 5, 6, 7, 8, 9}" by auto
  then show ?thesis using h by (cases up) (auto simp: boot_inv_def machine_timeout_def boot_state_def machine_portal_def)
qed

lemma turn_abs:
  "os_queue s = m # rest \<Longrightarrow> \<exists>up saved. orch_abs (RunOrchestratorTask E s) = machine_message up saved m (orch_abs s)"
  "os_queue s = [] \<Longrightarrow> os_has_deadline s \<Longrightarrow> GetRemainingTicks E (os_deadline_ticks s) s = 0 \<Longrightarrow>
     \<exists>up. orch_abs (RunOrchestratorTask E s) = machine_timeout up (orch_abs s)"
  "os_queue s = [] \<Longrightarrow> \<not> (os_has_deadline s \<and> GetRemainingTicks E (os_deadline_ticks s) s = 0) \<Longrightarrow>
     orch_abs (RunOrchestratorTask E s) = orch_abs s"
proof -
  define s1 where "s1 = (if os_is_healthy_pending s \<and> GetRemainingTicks E (os_healthy_deadline_ticks s) s = 0
               then s\<lparr>os_is_healthy_pending := False, os_flash := MarkFirmwareHealthy (od_partition E) (os_flash s)\<rparr> else s)"
  have t: "timeout_turn E s = (if os_has_deadline s1 \<and> GetRemainingTicks E (os_deadline_ticks s1) s1 = 0 then HandleTimeout E s1 else s1)"
    by (simp only: timeout_turn_def s1_def Let_def)
  have a: "orch_abs s1 = orch_abs s" by (simp add: s1_def orch_abs_def)
  have d: "os_has_deadline s1 = os_has_deadline s" "GetRemainingTicks E (os_deadline_ticks s1) s1 = GetRemainingTicks E (os_deadline_ticks s) s"
    by (simp_all add: s1_def GetRemainingTicks_def xTaskGetTickCount_def)
  show "os_queue s = m # rest \<Longrightarrow> \<exists>up saved. orch_abs (RunOrchestratorTask E s) = machine_message up saved m (orch_abs s)"
    using message_refines [of E m "s\<lparr>os_queue := rest\<rparr>"] by (simp add: RunOrchestratorTask_def abs_upd)
  show "os_queue s = [] \<Longrightarrow> os_has_deadline s \<Longrightarrow> GetRemainingTicks E (os_deadline_ticks s) s = 0 \<Longrightarrow>
     \<exists>up. orch_abs (RunOrchestratorTask E s) = machine_timeout up (orch_abs s)"
    using timeout_refines [of E s1] t d a by (simp add: RunOrchestratorTask_def)
  show "os_queue s = [] \<Longrightarrow> \<not> (os_has_deadline s \<and> GetRemainingTicks E (os_deadline_ticks s) s = 0) \<Longrightarrow>
     orch_abs (RunOrchestratorTask E s) = orch_abs s"
    using t d a by (auto simp: RunOrchestratorTask_def)
qed

lemma posts_abs: "orch_abs (fold s_portal_ops calls s) = orch_abs s"
proof -
  obtain q where "fold s_portal_ops calls s = s\<lparr>os_queue := q\<rparr>" using posts_form by blast
  then show ?thesis by (simp add: abs_upd)
qed

text \<open>The other tasks and the environment only touch the queue, the HTTP server's state and the surroundings.\<close>

lemma post_step_form:
  assumes "post_step E recv s s'"
  shows "\<exists>q h io. s' = s\<lparr>os_queue := q, os_http := h, os_io := io\<rparr>"
proof -
  have m: "\<exists>q. PostMessage m s = s\<lparr>os_queue := q\<rparr>" for m using post_form(2) by blast
  show ?thesis
    using assms
  proof cases
    case (wifi_event event)
    then obtain q where "s' = s\<lparr>os_queue := q\<rparr>" using m by (cases event) (auto simp: HandleWifiManagerEvent_def)
    then have "s' = s\<lparr>os_queue := q, os_http := os_http s, os_io := os_io s\<rparr>" by simp
    then show ?thesis by blast
  next
    case button
    then obtain q where "s' = s\<lparr>os_queue := q\<rparr>" using m by (auto simp: HandleButtonRequest_def)
    then have "s' = s\<lparr>os_queue := q, os_http := os_http s, os_io := os_io s\<rparr>" by simp
    then show ?thesis by blast
  next
    case gesture
    then obtain q where "s' = s\<lparr>os_queue := q\<rparr>" using m by (auto simp: HandleUpdateGesture_def)
    then have "s' = s\<lparr>os_queue := q, os_http := os_http s, os_io := os_io s\<rparr>" by simp
    then show ?thesis by blast
  next
    case (pulse r)
    then obtain q where "s' = s\<lparr>os_queue := q\<rparr>" using post_form(3) by blast
    then have "s' = s\<lparr>os_queue := q, os_http := os_http s, os_io := os_io s\<rparr>" by simp
    then show ?thesis by blast
  next
    case (environment e)
    then have "s' = s\<lparr>os_queue := os_queue s, os_http := os_http s, os_io := (os_io s)\<lparr>io_env := e\<rparr>\<rparr>" by simp
    then show ?thesis by blast
  next
    case status
    then have "s' = s\<lparr>os_queue := os_queue s, os_http := SetHttpPortalStatus PORTAL_STATUS_CONNECTING (os_http s), os_io := os_io s\<rparr>" by simp
    then show ?thesis by blast
  next
    case (scan scanned io reply h)
    then have "s' = s\<lparr>os_queue := os_queue s, os_http := h, os_io := io\<rparr>" by simp
    then show ?thesis by blast
  next
    case (submit n net reply calls h net')
    obtain q where "s' = s\<lparr>os_http := SetHttpPortalStatus (hs_status (os_http s)) h, os_queue := q\<rparr>" using submit(1) posts_form by metis
    then have "s' = s\<lparr>os_queue := q, os_http := SetHttpPortalStatus (hs_status (os_http s)) h, os_io := os_io s\<rparr>" by simp
    then show ?thesis by blast
  next
    case (tuner n net reply calls h net')
    obtain q where "s' = s\<lparr>os_http := h, os_queue := q\<rparr>" using tuner(1) posts_form by metis
    then have "s' = s\<lparr>os_queue := q, os_http := h, os_io := os_io s\<rparr>" by simp
    then show ?thesis by blast
  next
    case (read reply calls h)
    obtain q where "s' = s\<lparr>os_http := h, os_queue := q\<rparr>" using read(1) posts_form by metis
    then have "s' = s\<lparr>os_queue := q, os_http := h, os_io := os_io s\<rparr>" by simp
    then show ?thesis by blast
  next
    case (station_tuner header n net reply calls h net')
    obtain q where "s' = s\<lparr>os_http := h, os_queue := q\<rparr>" using station_tuner(1) posts_form by metis
    then have "s' = s\<lparr>os_queue := q, os_http := h, os_io := os_io s\<rparr>" by simp
    then show ?thesis by blast
  next
    case (station_read header reply calls h)
    obtain q where "s' = s\<lparr>os_http := h, os_queue := q\<rparr>" using station_read(1) posts_form by metis
    then have "s' = s\<lparr>os_queue := q, os_http := h, os_io := os_io s\<rparr>" by simp
    then show ?thesis by blast
  qed
qed

lemma post_step_abs:
  assumes "post_step E recv s s'"
  shows "orch_abs s' = orch_abs s" and "os_store s' = os_store s" and "os_restarted s' = os_restarted s"
  using post_step_form [OF assms] by (auto simp: orch_abs_def)

lemma boot_run_inv: "boot_run E recv n s \<Longrightarrow> platform_laws (od_platform E) \<Longrightarrow> boot_inv n (orch_abs s)"
proof (induction rule: boot_run.induct)
  case (start s0 ap sta cr sr timer s)
  then show ?case using start_ok [OF start(4,1,2)] by (simp add: boot_inv_def boot_state_def)
next
  case (expiry n s)
  then show ?case using turn_abs(2) [OF expiry(2-4)] boot_inv_timeout by metis
next
  case (idle n s)
  then show ?case using turn_abs(3) [OF idle(2,3)] by simp
next
  case (message n s m rest)
  then show ?case using turn_abs(1) [OF message(2)] boot_inv_message by metis
next
  case (other n s s')
  then show ?case using post_step_abs(1) [OF other(2)] by simp
qed

subsection \<open>An example device\<close>

text \<open>A radio that works, a key-value store with credentials, and a metadata partition with a valid record.\<close>

definition drv_on :: "'d partition_drv \<Rightarrow> (radio, kv, 'd) orch_drv" where
  "drv_on part_drv = \<lparr>od_platform = radio_platform, od_nvs = kv_drv, od_partition = part_drv, od_ota_size = Some 4096, od_tick_rate = 100\<rparr>"

definition example_drv :: "(radio, kv, nor_dev) orch_drv" where
  "example_drv = drv_on nor_drv"

lemma example_drv_sel [simp]: "od_platform (drv_on p) = radio_platform" "od_nvs (drv_on p) = kv_drv" "od_partition (drv_on p) = p"
  "od_ota_size (drv_on p) = Some 4096" "od_platform example_drv = radio_platform" "od_nvs example_drv = kv_drv"
  by (simp_all add: example_drv_def drv_on_def)

definition example_kv :: "kv store" where
  "example_kv = \<lparr>cs_ready = False, cs_nvs = \<lparr>kv_mem = (\<lambda>_. None)(ACTIVE_KEY := Some (cred_blob example_credentials)), kv_script = []\<rparr>\<rparr>"

definition orch_on :: "'d \<Rightarrow> (radio, kv, 'd) orch" where
  "orch_on flash = \<lparr>os_state = STATE_BOOT_WAIT, os_has_deadline = False, os_deadline_ticks = 0, os_attempt_count = 0, os_failure_count = 0,
     os_is_associated = False, os_has_stored = False, os_stored = zero_credentials, os_active = zero_credentials,
     os_trial = zero_credentials, os_state_cb = False, os_has_ip = False, os_is_http_up = False, os_is_mdns_up = False,
     os_http_start_failures = 0, os_mdns_start_failures = 0, os_hostname_in_use = [], os_is_healthy_pending = False,
     os_healthy_deadline_ticks = 0, os_queue = [], os_http = initial_http,
     os_dns = \<lparr>ds_task = False, ds_is_stop_requested = False, ds_ip_addr = 0, ds_packet = []\<rparr>, os_mdns = False,
     os_wifi = \<lparr>wf_has_ap_netif = False, wf_has_sta_netif = False, wf_on_event = False, wf_is_started = False\<rparr>,
     os_store = example_kv, os_flash = flash,
     os_io = \<lparr>io_env = \<lparr>rd_mode = WIFI_MODE_NULL, rd_script = [], rd_ticks = 0\<rparr>, io_log = []\<rparr>, os_out = [], os_restarted = False\<rparr>"

definition example_orch :: "(radio, kv, nor_dev) orch" where
  "example_orch = orch_on (nor_holding example_meta (BuildFwCtrlRecord 1 0))"

lemmas example_defs = example_orch_def orch_on_def example_drv_def drv_on_def

lemma power_on_orch_on: "power_on (drv_on p) (orch_on f)"
  by (simp add: power_on_def example_defs radio_platform_def)

lemma example_power_on: "power_on example_drv example_orch"
  by (simp add: example_drv_def example_orch_def power_on_orch_on)

lemma radio_run_ok:
  "rd_script (io_env io) = [] \<Longrightarrow> \<exists>io'. run_calls radio_platform cs io = (ESP_OK, io') \<and> rd_script (io_env io') = []"
  by (induction cs arbitrary: io) (simp_all add: esp_def radio_platform_def radio_call_def Let_def)

lemma start_on:
  obtains s timer where "ProvisioningStart (drv_on p) True True ESP_OK ESP_OK (orch_on f) = (True, timer, s)" "os_has_stored s"
    "\<not> os_restarted s" "os_queue s = []"
proof -
  let ?io = "os_io (orch_on f)" and ?w = "os_wifi (orch_on f)"
  let ?io2 = "snd (esp radio_platform EVENT_LOOP_CREATE (snd (esp radio_platform NETIF_INIT ?io)))"
  have 2: "rd_script (io_env ?io2) = []" by (simp add: esp_def radio_platform_def radio_call_def Let_def example_defs)
  from radio_run_ok [OF this, of "[DHCPS_OFFER_DNS, NETIF_SET_DNS 1]"] obtain io3 where
    3: "run_calls radio_platform [DHCPS_OFFER_DNS, NETIF_SET_DNS 1] ?io2 = (ESP_OK, io3)" "rd_script (io_env io3) = []" by blast
  have ip: "pl_ap_ip radio_platform e = Some 1" for e by (simp add: radio_platform_def)
  from radio_run_ok [OF 3(2), of "[WIFI_INIT False, WIFI_SET_STORAGE_RAM, EVENT_REGISTER_WIFI, EVENT_REGISTER_IP]"] obtain io4 where
    4: "run_calls radio_platform [WIFI_INIT False, WIFI_SET_STORAGE_RAM, EVENT_REGISTER_WIFI, EVENT_REGISTER_IP] io3 = (ESP_OK, io4)" by blast
  have "fst (InitWifiManager radio_platform True True (w, ?io))" for w
    using 3 4 by (simp add: InitWifiManager_def OfferAccessPointDns_def ip Let_def del: run_calls.simps)
  then obtain w' io' where i: "InitWifiManager radio_platform True True (?w, ?io) = (True, w', io')" by (metis prod.collapse)
  have c: "InitCredentialStore kv_drv example_kv = (True, example_kv\<lparr>cs_ready := True\<rparr>)"
    by (simp add: InitCredentialStore_def example_kv_def RecoverPendingRecord_def kv_run)
  have l: "LoadCredentials kv_drv (example_kv\<lparr>cs_ready := True\<rparr>) = (Some example_credentials, example_kv\<lparr>cs_ready := True\<rparr>)"
    using example_loaded [of "(\<lambda>_. None)(ACTIVE_KEY := Some (cred_blob example_credentials))"] by (simp add: example_kv_def)
  define r where "r = ProvisioningStart (drv_on p) True True ESP_OK ESP_OK (orch_on f)"
  have st: "os_store (orch_on f) = example_kv" by (simp add: example_defs)
  have "fst r" "os_has_stored (snd (snd r))" "\<not> os_restarted (snd (snd r))" "os_queue (snd (snd r)) = []"
    using i c l st unfolding r_def by (simp_all add: ProvisioningStart_def Let_def) (simp add: example_defs)
  then show thesis using that [of "fst (snd r)" "snd (snd r)"] unfolding r_def by (metis prod.collapse)
qed

lemma example_start:
  obtains s timer where "ProvisioningStart example_drv True True ESP_OK ESP_OK example_orch = (True, timer, s)" "os_has_stored s"
    "\<not> os_restarted s" "os_queue s = []"
  unfolding example_drv_def example_orch_def by (rule start_on)

subsection \<open>Properties\<close>

text \<open>C5: what has been started and not stopped is what the state says. In every reachable state of the interleaved system, before the
  restart into the updater: in the portal states the access point is on, the DNS server has been started and not asked to stop,
  the provisioning profile of the HTTP server runs and mDNS does not. In every other state the DNS server has no task handle, and
  the last mode change asked for the station mode, so the access point is off unless exactly this call failed. In the retry
  state there is no HTTP server and no mDNS; in the remaining states exactly the station services that the flags name. The
  page only says "connected" while the success is shown.\<close>

theorem services_follow_state:
  assumes "platform_laws (od_platform E)" and "orch_reach E recv s" and "\<not> os_restarted s"
  shows "(os_state s \<in> {STATE_PORTAL_IDLE, STATE_PORTAL_TRIAL, STATE_PORTAL_SUCCESS} \<longrightarrow>
       mode_set (io_log (os_io s)) = WIFI_MODE_APSTA \<and> ds_task (os_dns s) \<and> \<not> ds_is_stop_requested (os_dns s) \<and>
       server_up HTTP_PROFILE_PROVISIONING (os_http s) \<and> \<not> os_mdns s) \<and>
    (os_state s \<notin> {STATE_PORTAL_IDLE, STATE_PORTAL_TRIAL, STATE_PORTAL_SUCCESS} \<longrightarrow> \<not> ds_task (os_dns s) \<and>
       (mode_set (io_log (os_io s)) = WIFI_MODE_APSTA \<longrightarrow>
          (\<exists>err. err \<noteq> ESP_OK \<and> last_mode_call (io_log (os_io s)) = Some (WIFI_MODE_STA, err)))) \<and>
    (os_state s = STATE_PORTAL_RETRY \<longrightarrow> server_down (os_http s) \<and> \<not> os_mdns s) \<and>
    (\<not> is_portal_state (os_state s) \<longrightarrow> os_mdns s = os_is_mdns_up s \<and>
       (if os_is_http_up s then server_up HTTP_PROFILE_STATION (os_http s) else server_down (os_http s))) \<and>
    (server_up HTTP_PROFILE_PROVISIONING (os_http s) \<and> GetHttpPortalStatus (os_http s) = PORTAL_STATUS_CONNECTED \<longrightarrow>
       os_state s = STATE_PORTAL_SUCCESS)"
proof -
  have m: "services_match s" using orch_reach_ok [OF assms(2,1)] assms(3) by (simp add: system_ok_def)
  have off: "mode_set (io_log (os_io s)) = WIFI_MODE_APSTA \<longrightarrow>
      (\<exists>err. err \<noteq> ESP_OK \<and> last_mode_call (io_log (os_io s)) = Some (WIFI_MODE_STA, err))" if "io_off s"
    using that ap_asked_off_on by (auto simp: io_off_def)
  show ?thesis
  proof (cases "os_state s \<in> {STATE_PORTAL_IDLE, STATE_PORTAL_TRIAL, STATE_PORTAL_SUCCESS}")
    case True
    then show ?thesis using m
      by (auto simp: services_match_def services io_mode_def dns_running_def is_portal_state_def GetHttpPortalStatus_def)
  next
    case False
    then have "io_off s" using m by (auto simp: services_match_def services split: if_splits)
    then show ?thesis using m False off
      by (auto simp: services_match_def services is_portal_state_def GetHttpPortalStatus_def split: if_splits)
  qed
qed

theorem services_follow_state_witness:
  "\<exists>s. orch_reach example_drv whole_recv s \<and> \<not> ds_task (os_dns s) \<and> server_down (os_http s)"
proof -
  obtain s timer where s: "ProvisioningStart example_drv True True ESP_OK ESP_OK example_orch = (True, timer, s)" "\<not> os_restarted s"
    by (rule example_start)
  have r: "orch_reach example_drv whole_recv s" by (rule orch_reach.start [OF example_power_on s(1)])
  have l: "platform_laws (od_platform example_drv)" by (simp add: example_defs radio_laws)
  have st: "os_state s = STATE_BOOT_WAIT" by (rule start_ok(2) [OF l example_power_on s(1)])
  have "\<not> os_is_http_up s" using s(1) by (auto simp: ProvisioningStart_def Let_def example_defs split: prod.splits if_splits)
  then show ?thesis using services_follow_state [OF l r s(2)] st r by (auto simp: is_portal_state_def)
qed

text \<open>C7: the orchestrator refines the abstract machine. A step of the system either leaves the machine's state alone, or is its reaction to
  the first message of the queue, or its reaction to the expiry of the state's deadline with an empty queue; the only freedom
  is whether the portal's services start and whether the credentials are stored.\<close>

theorem orch_refines_machine:
  assumes "orch_step E recv s s'"
  shows "orch_abs s' = orch_abs s \<or>
    (\<exists>m rest up saved. os_queue s = m # rest \<and> orch_abs s' = machine_message up saved m (orch_abs s)) \<or>
    (\<exists>up. os_queue s = [] \<and> os_has_deadline s \<and> GetRemainingTicks E (os_deadline_ticks s) s = 0 \<and>
       orch_abs s' = machine_timeout up (orch_abs s))"
  using assms
proof cases
  case turn
  then show ?thesis
    using turn_abs [of s, where E = E]
    by (cases "os_queue s"; cases "os_has_deadline s \<and> GetRemainingTicks E (os_deadline_ticks s) s = 0") auto
next
  case other
  then show ?thesis using post_step_abs(1) by blast
qed

theorem orch_refines_machine_witness:
  "\<exists>up saved. orch_abs (RunOrchestratorTask example_drv (example_orch\<lparr>os_queue := [MSG_BUTTON_REQUEST]\<rparr>)) =
     machine_message up saved MSG_BUTTON_REQUEST (orch_abs (example_orch\<lparr>os_queue := [MSG_BUTTON_REQUEST]\<rparr>)) \<or>
   orch_abs (RunOrchestratorTask example_drv (example_orch\<lparr>os_queue := [MSG_BUTTON_REQUEST]\<rparr>)) =
     orch_abs (example_orch\<lparr>os_queue := [MSG_BUTTON_REQUEST]\<rparr>)"
proof -
  let ?s = "example_orch\<lparr>os_queue := [MSG_BUTTON_REQUEST]\<rparr>"
  have "orch_step example_drv whole_recv ?s (RunOrchestratorTask example_drv ?s)"
    by (rule orch_step.turn) (simp add: example_defs)
  from orch_refines_machine [OF this] show ?thesis by auto
qed

text \<open>C16: no state waits for ever. Every reachable state but the idle portal and the connection has a deadline, the task's receive then
  waits for less than half the range of the tick counter, and once the clock has advanced by the remaining time of the deadline,
  wrap-around included, the deadline counts as passed.\<close>

theorem waiting_states_end:
  assumes "platform_laws (od_platform E)" and "orch_reach E recv s" and "\<not> os_restarted s"
    and "os_state s \<noteq> STATE_PORTAL_IDLE" and "os_state s \<noteq> STATE_CONNECTED"
    and "xTaskGetTickCount E s' = xTaskGetTickCount E s + GetRemainingTicks E (os_deadline_ticks s) s"
  shows "os_has_deadline s \<and> unat (GetWaitTicks E s) < 2 ^ 31 \<and> GetRemainingTicks E (os_deadline_ticks s) s' = 0"
proof -
  have d: "os_has_deadline s" using orch_reach_ok [OF assms(2,1)] assms(3-5) by (simp add: system_ok_def services_match_def)
  have "GetWaitTicks E s = GetRemainingTicks E (os_deadline_ticks s) s \<or> GetWaitTicks E s = GetRemainingTicks E (os_healthy_deadline_ticks s) s"
    using d by (simp add: GetWaitTicks_def Let_def)
  then show ?thesis using d remaining_finite expired [OF assms(6)] by metis
qed

theorem waiting_states_end_witness: "\<exists>s. orch_reach example_drv whole_recv s \<and> unat (GetWaitTicks example_drv s) < 2 ^ 31"
proof -
  obtain s timer where s: "ProvisioningStart example_drv True True ESP_OK ESP_OK example_orch = (True, timer, s)" "\<not> os_restarted s"
    by (rule example_start)
  have r: "orch_reach example_drv whole_recv s" by (rule orch_reach.start [OF example_power_on s(1)])
  have l: "platform_laws (od_platform example_drv)" by (simp add: example_defs radio_laws)
  have st: "os_state s = STATE_BOOT_WAIT" by (rule start_ok(2) [OF l example_power_on s(1)])
  let ?e = "(io_env (os_io s))\<lparr>rd_ticks := xTaskGetTickCount example_drv s + GetRemainingTicks example_drv (os_deadline_ticks s) s\<rparr>"
  have "xTaskGetTickCount example_drv (s\<lparr>os_io := (os_io s)\<lparr>io_env := ?e\<rparr>\<rparr>) =
      xTaskGetTickCount example_drv s + GetRemainingTicks example_drv (os_deadline_ticks s) s"
    by (simp add: xTaskGetTickCount_def example_drv_def radio_platform_def)
  from waiting_states_end [OF l r s(2) _ _ this] st r show ?thesis by auto
qed

text \<open>C6: stored credentials only change when they are proven. The one step that touches the store is the receipt of the connection event
  during a trial; it replaces the stored pair by the pair under trial with the atomic replacement, and the success is shown exactly
  if that reports success; in every reachable state the pair under trial is well-formed and valid.\<close>

theorem credentials_change_only_when_proven:
  assumes "orch_step E recv s s'" and "os_store s' \<noteq> os_store s"
  shows "os_state s = STATE_PORTAL_TRIAL \<and> (\<exists>rest. os_queue s = MSG_STA_CONNECTED # rest) \<and>
    (orch_reach E recv s \<longrightarrow> wf_credentials (os_trial s) \<and> IsCredentialsValid (Some (os_trial s))) \<and>
    (\<exists>is_stored. ReplaceCredentials (od_nvs E) (Some (os_trial s)) (os_store s) = (is_stored, os_store s') \<and>
       (os_state s' = STATE_PORTAL_SUCCESS) = is_stored)"
  using assms(1)
proof cases
  case other
  then show ?thesis using post_step_abs(2) assms(2) by blast
next
  case turn
  show ?thesis
  proof (cases "os_queue s")
    case Nil
    then have "os_store s' = os_store s"
      using turn by (auto simp: RunOrchestratorTask_def timeout_turn_def Let_def timeout_frame)
    then show ?thesis using assms(2) by simp
  next
    case (Cons m rest)
    let ?s = "s\<lparr>os_queue := rest\<rparr>"
    have s': "s' = HandleMessage E m ?s" using turn Cons by (simp add: RunOrchestratorTask_def)
    have m: "m = MSG_STA_CONNECTED"
    proof (rule ccontr)
      assume "m \<noteq> MSG_STA_CONNECTED"
      then have "os_store s' = os_store s"
        unfolding s' by (cases m) (auto simp: HandleMessage_def EnterProvisioning_sel HandleStationDisconnected_def BeginReconnectWait_frame
          HandleStationGotIp_def Let_def StartStationServices_sel HandleUpdateRequest_def RestartIntoUpdater_def split: prod.splits)
      then show False using assms(2) by simp
    qed
    have t: "os_state s = STATE_PORTAL_TRIAL"
      using assms(2) unfolding s' m HandleMessage_def HandleStationConnected_def by (auto simp: Let_def split: if_splits)
    obtain ok st where r: "ReplaceCredentials (od_nvs E) (Some (os_trial s)) (os_store s) = (ok, st)" by fastforce
    have "os_store s' = st \<and> (os_state s' = STATE_PORTAL_SUCCESS) = ok"
      unfolding s' m using t r by (cases ok) (simp_all add: HandleMessage_def HandleStationConnected_def FailTrial_sel)
    moreover have "orch_reach E recv s \<Longrightarrow> cred_ok (os_trial s)"
      using orch_reach_wf [of E recv s] t by (simp add: wf_orch_def state_creds_def)
    ultimately show ?thesis using t m Cons r by (auto simp: cred_ok_def)
  qed
qed

theorem credentials_change_only_when_proven_witness:
  "\<exists>is_stored store. ReplaceCredentials kv_drv (Some example_credentials) (example_store []) = (is_stored, store) \<and> is_stored"
proof -
  let ?s = "example_orch\<lparr>os_state := STATE_PORTAL_TRIAL, os_trial := example_credentials, os_store := example_store [],
      os_queue := [MSG_STA_CONNECTED]\<rparr>"
  let ?t = "RunOrchestratorTask example_drv ?s"
  have st: "orch_step example_drv whole_recv ?s ?t" by (rule orch_step.turn) (simp add: example_defs)
  have r: "ReplaceCredentials kv_drv (Some example_credentials) (example_store []) =
      (True, \<lparr>cs_ready = True, cs_nvs = \<lparr>kv_mem = (\<lambda>_. None)(ACTIVE_KEY := Some (cred_blob example_credentials)), kv_script = []\<rparr>\<rparr>)"
    by (rule example_replaced)
  have s: "os_store ?t = \<lparr>cs_ready = True, cs_nvs = \<lparr>kv_mem = (\<lambda>_. None)(ACTIVE_KEY := Some (cred_blob example_credentials)), kv_script = []\<rparr>\<rparr>"
    "os_state ?t = STATE_PORTAL_SUCCESS"
    by (simp_all add: RunOrchestratorTask_def HandleMessage_def HandleStationConnected_def r)
  have "((\<lambda>_. None)(ACTIVE_KEY := Some (cred_blob example_credentials))) ACTIVE_KEY \<noteq> (\<lambda>_. None :: string option) ACTIVE_KEY" by simp
  then have "(\<lambda>_. None)(ACTIVE_KEY := Some (cred_blob example_credentials)) \<noteq> (\<lambda>_. None)" by metis
  then have "os_store ?t \<noteq> os_store ?s" unfolding s(1) by (simp add: example_store_def)
  from credentials_change_only_when_proven [OF st this] s(2) show ?thesis by (auto simp: example_drv_def)
qed

text \<open>C14: a start with stored credentials ends in the portal if the network never answers. Whatever else happens in between, the deadline
  expiries alternate between attempts and pauses, the n-th odd one starting attempt n, and the tenth, which ends the fifth
  attempt, leads to provisioning mode, which is not left again.\<close>

theorem boot_gives_up_to_portal:
  assumes "platform_laws (od_platform E)" and "boot_run E recv n s"
  shows "(n < 10 \<longrightarrow> os_state s = (if n = 0 then STATE_BOOT_WAIT else if odd n then STATE_STA_ATTEMPT else STATE_STA_PAUSE) \<and>
      os_attempt_count s = of_nat ((n + 1) div 2)) \<and>
    (10 \<le> n \<longrightarrow> IsPortalState s \<and> os_state s \<noteq> STATE_PORTAL_SUCCESS) \<and> (n = 10 \<longrightarrow> os_attempt_count s = BOOT_ATTEMPT_MAX)"
  using boot_run_inv [OF assms(2,1)] by (auto simp: boot_inv_def boot_state_def IsPortalState_def)

theorem boot_gives_up_to_portal_witness: "\<exists>s. boot_run example_drv whole_recv 0 s \<and> os_state s = STATE_BOOT_WAIT"
proof -
  obtain s timer where s: "ProvisioningStart example_drv True True ESP_OK ESP_OK example_orch = (True, timer, s)" "os_has_stored s"
    by (rule example_start)
  have r: "boot_run example_drv whole_recv 0 s" by (rule boot_run.start [OF example_power_on s])
  have l: "platform_laws (od_platform example_drv)" by (simp add: example_defs radio_laws)
  from boot_gives_up_to_portal [OF l r] r show ?thesis by auto
qed

text \<open>C17: the data of the provisioning system stays well-formed. In every reachable state the queue holds at most eight messages,
  every submitted or stored pair, and the pair each state connects with, is one that may be used, every timing set on its way to
  the LED driver is valid, no form body with a password is left in a buffer, and the host name fits its buffer.\<close>

theorem provisioning_data_wf:
  assumes "orch_reach E recv s"
  shows "length (os_queue s) \<le> QUEUE_LENGTH \<and>
    list_all (\<lambda>m. case m of MSG_CREDENTIALS_SUBMITTED c \<Rightarrow> cred_ok c | MSG_LED_TIMING_SUBMITTED t q \<Rightarrow> valid_timing t | _ \<Rightarrow> True) (os_queue s) \<and>
    list_all (\<lambda>x. case x of LED_TIMING_APPLIED t q \<Rightarrow> valid_timing t | _ \<Rightarrow> True) (os_out s) \<and>
    (os_has_stored s \<longrightarrow> cred_ok (os_stored s)) \<and> state_creds s \<and>
    hs_body (os_http s) = zero_body \<and> hs_tuner_body (os_http s) = zero_tuner_body \<and>
    length (os_hostname_in_use s) < MDNS_SERVICE_HOSTNAME_MAX"
  using orch_reach_wf [OF assms]
  by (simp add: wf_orch_def wf_data_def bodies_clear_def message_wf_def [abs_def] out_wf_def [abs_def])

theorem provisioning_data_wf_witness: "\<exists>s. orch_reach example_drv whole_recv s \<and> os_has_stored s \<and> cred_ok (os_stored s)"
proof -
  obtain s timer where s: "ProvisioningStart example_drv True True ESP_OK ESP_OK example_orch = (True, timer, s)" "os_has_stored s"
    by (rule example_start)
  have r: "orch_reach example_drv whole_recv s" by (rule orch_reach.start [OF example_power_on s(1)])
  from provisioning_data_wf [OF r] r s(2) show ?thesis by blast
qed

end
