(* ===== verification/Reconnect.thy ===== *)
theory Reconnect
  imports ProvisioningMachine
begin

text \<open>
  The reconnect loop of main/provisioning/provisioning.c: what happens between the loss of a connection and its return, in every
  interleaving with the other tasks and the environment.
\<close>

section \<open>Reconnecting\<close>

definition reconnecting :: "orchestrator_state \<Rightarrow> bool" where
  "reconnecting st \<longleftrightarrow> st = STATE_RECONNECT_WAIT \<or> st = STATE_RECONNECT_TRY"

text \<open>
  A run that begins with the turn that starts to reconnect and in which neither the connection returns nor somebody presses the button.
  It remembers the credentials in use at its begin, the number \<open>n\<close> of attempts that have failed, which are the returns to the wait, and
  the tick \<open>t\<close> at which the state was last entered.
\<close>

inductive reconnect_run ::
  "('e, 'n, 'd) orch_drv \<Rightarrow> 'x form_recv \<Rightarrow> wifi_credentials \<Rightarrow> nat \<Rightarrow> u32 \<Rightarrow> ('e, 'n, 'd) orch \<Rightarrow> bool" for E recv where
  lost: "\<not> reconnecting (os_state s) \<Longrightarrow> \<not> os_restarted s \<Longrightarrow> s' = RunOrchestratorTask E s \<Longrightarrow> reconnecting (os_state s') \<Longrightarrow>
    reconnect_run E recv (os_active s) 0 (xTaskGetTickCount E s') s'"
| turn: "reconnect_run E recv c n t s \<Longrightarrow> \<not> os_restarted s \<Longrightarrow> \<forall>rest. os_queue s \<noteq> MSG_STA_CONNECTED # rest \<Longrightarrow>
    \<forall>rest. os_queue s \<noteq> MSG_BUTTON_REQUEST # rest \<Longrightarrow> s' = RunOrchestratorTask E s \<Longrightarrow>
    n' = (if os_state s = STATE_RECONNECT_TRY \<and> os_state s' = STATE_RECONNECT_WAIT then Suc n else n) \<Longrightarrow>
    t' = (if os_state s' = os_state s then t else xTaskGetTickCount E s') \<Longrightarrow> reconnect_run E recv c n' t' s'"
| other: "reconnect_run E recv c n t s \<Longrightarrow> post_step E recv s s' \<Longrightarrow> reconnect_run E recv c n t s'"

text \<open>What the state holds then.\<close>

definition reconnect_ms :: "orchestrator_state \<Rightarrow> nat \<Rightarrow> u32" where
  "reconnect_ms st n = (if st = STATE_RECONNECT_TRY then ATTEMPT_TIMEOUT_MS else GetWifiReconnectDelayMs (of_nat n))"

definition reconnect_inv ::
  "('e, 'n, 'd) orch_drv \<Rightarrow> wifi_credentials \<Rightarrow> nat \<Rightarrow> u32 \<Rightarrow> ('e, 'n, 'd) orch \<Rightarrow> bool" where
  "reconnect_inv E c n t s \<longleftrightarrow> reconnecting (os_state s) \<and> os_failure_count s = of_nat n \<and> os_active s = c \<and> os_has_deadline s \<and>
     os_deadline_ticks s = t + pdMS_TO_TICKS (od_tick_rate E) (reconnect_ms (os_state s) n)"

lemma SetState_reconnect:
  assumes "s' = SetState E st (reconnect_ms st n) s" and "reconnecting st" and "os_failure_count s = of_nat n" and "os_active s = c"
  shows "reconnect_inv E c n (xTaskGetTickCount E s') s'"
proof -
  have "unat (GetWifiReconnectDelayMs (of_nat n)) \<noteq> 0" unfolding delay_spec by simp
  then have "GetWifiReconnectDelayMs (of_nat n) \<noteq> 0" by auto
  then have "reconnect_ms st n \<noteq> 0" by (simp add: reconnect_ms_def)
  then show ?thesis using assms by (simp add: reconnect_inv_def SetState_def xTaskGetTickCount_def)
qed

lemma BeginReconnectWait_inv:
  assumes "os_failure_count s = of_nat n" and "os_active s = c" and "s' = BeginReconnectWait E s"
  shows "os_state s' = STATE_RECONNECT_WAIT" and "reconnect_inv E c n (xTaskGetTickCount E s') s'"
proof -
  have "s' = SetState E STATE_RECONNECT_WAIT (reconnect_ms STATE_RECONNECT_WAIT n) s"
    using assms(1,3) by (simp add: BeginReconnectWait_def reconnect_ms_def)
  then show "os_state s' = STATE_RECONNECT_WAIT" "reconnect_inv E c n (xTaskGetTickCount E s') s'"
    using SetState_reconnect [of s' E STATE_RECONNECT_WAIT n s c] assms(1,2) by (simp_all add: reconnecting_def)
qed

text \<open>The variables the loop works on.\<close>

definition loop_state where
  "loop_state s = (os_state s, os_has_deadline s, os_deadline_ticks s, os_failure_count s, os_active s)"

lemma reconnect_inv_cong: "loop_state s' = loop_state s \<Longrightarrow> reconnect_inv E c n t s' = reconnect_inv E c n t s"
  by (simp add: loop_state_def reconnect_inv_def)

lemma other_message:
  assumes "reconnecting (os_state s)" and "m \<noteq> MSG_STA_CONNECTED" and "m \<noteq> MSG_BUTTON_REQUEST"
    and "m = MSG_STA_DISCONNECTED \<Longrightarrow> os_state s = STATE_RECONNECT_WAIT"
  shows "loop_state (HandleMessage E m s) = loop_state s"
proof (cases m)
  case MSG_UPDATE_REQUEST
  then show ?thesis
    by (simp add: HandleMessage_def HandleUpdateRequest_def RestartIntoUpdater_def Let_def loop_state_def split: prod.splits)
qed (use assms in \<open>auto simp: HandleMessage_def HandleStationDisconnected_def HandleStationGotIp_def Let_def loop_state_def reconnecting_def\<close>)

lemma message_inv:
  assumes "reconnect_inv E c n t s" and "m \<noteq> MSG_STA_CONNECTED" and "m \<noteq> MSG_BUTTON_REQUEST" and "s' = HandleMessage E m s"
    and "n' = (if os_state s = STATE_RECONNECT_TRY \<and> os_state s' = STATE_RECONNECT_WAIT then Suc n else n)"
    and "t' = (if os_state s' = os_state s then t else xTaskGetTickCount E s')"
  shows "reconnect_inv E c n' t' s'"
proof (cases "m = MSG_STA_DISCONNECTED \<and> os_state s = STATE_RECONNECT_TRY")
  case True
  let ?s = "s\<lparr>os_is_associated := False, os_has_ip := False, os_failure_count := os_failure_count s + 1\<rparr>"
  have s': "s' = BeginReconnectWait E ?s" using True assms(4) by (simp add: HandleMessage_def HandleStationDisconnected_def)
  have "os_failure_count ?s = of_nat (Suc n)" "os_active ?s = c" using assms(1) by (simp_all add: reconnect_inv_def)
  note b = BeginReconnectWait_inv [OF this s']
  then show ?thesis using True assms(5,6) by simp
next
  case False
  have r: "reconnecting (os_state s)" using assms(1) by (simp add: reconnect_inv_def)
  have l: "loop_state s' = loop_state s" unfolding assms(4)
    by (rule other_message [OF r assms(2,3)]) (use False r in \<open>auto simp: reconnecting_def\<close>)
  then have "os_state s' = os_state s" by (simp add: loop_state_def)
  then show ?thesis using reconnect_inv_cong [OF l] assms(1,5,6) by auto
qed

lemma timeout_inv:
  assumes "reconnect_inv E c n t s" and "s' = HandleTimeout E s"
    and "n' = (if os_state s = STATE_RECONNECT_TRY \<and> os_state s' = STATE_RECONNECT_WAIT then Suc n else n)"
    and "t' = (if os_state s' = os_state s then t else xTaskGetTickCount E s')"
  shows "reconnect_inv E c n' t' s'"
proof (cases "os_state s = STATE_RECONNECT_TRY")
  case True
  let ?s = "disconnect_station E (s\<lparr>os_failure_count := os_failure_count s + 1\<rparr>)"
  have s': "s' = BeginReconnectWait E ?s" using True assms(2) by (simp add: HandleTimeout_def Let_def)
  have "os_failure_count ?s = of_nat (Suc n)" "os_active ?s = c" using assms(1) by (simp_all add: reconnect_inv_def)
  note b = BeginReconnectWait_inv [OF this s']
  then show ?thesis using True assms(3,4) by simp
next
  case False
  then have w: "os_state s = STATE_RECONNECT_WAIT" using assms(1) by (simp add: reconnect_inv_def reconnecting_def)
  let ?s = "connect_station E (os_active s) s"
  have s': "s' = SetState E STATE_RECONNECT_TRY (reconnect_ms STATE_RECONNECT_TRY n) ?s"
    using w assms(2) by (simp add: HandleTimeout_def reconnect_ms_def)
  have "os_failure_count ?s = of_nat n" "os_active ?s = c" using assms(1) by (simp_all add: reconnect_inv_def)
  from SetState_reconnect [OF s' _ this] have "reconnect_inv E c n (xTaskGetTickCount E s') s'" by (simp add: reconnecting_def)
  then show ?thesis using w s' assms(3,4) by simp
qed

text \<open>A turn with an empty queue: the healthy deadline first, then the one of the state.\<close>

lemma idle_turn:
  assumes "os_queue s = []"
  obtains s1 where "loop_state s1 = loop_state s" "orch_abs s1 = orch_abs s" "os_io s1 = os_io s" "os_wifi s1 = os_wifi s"
    "RunOrchestratorTask E s = (if os_has_deadline s \<and> GetRemainingTicks E (os_deadline_ticks s) s = 0 then HandleTimeout E s1 else s1)"
proof -
  define s1 where "s1 = (if os_is_healthy_pending s \<and> GetRemainingTicks E (os_healthy_deadline_ticks s) s = 0
               then s\<lparr>os_is_healthy_pending := False, os_flash := MarkFirmwareHealthy (od_partition E) (os_flash s)\<rparr> else s)"
  have t: "RunOrchestratorTask E s = (if os_has_deadline s1 \<and> GetRemainingTicks E (os_deadline_ticks s1) s1 = 0 then HandleTimeout E s1 else s1)"
    using assms by (simp add: RunOrchestratorTask_def timeout_turn_def s1_def Let_def)
  have "loop_state s1 = loop_state s" "orch_abs s1 = orch_abs s" "os_io s1 = os_io s" "os_wifi s1 = os_wifi s"
    by (simp_all add: s1_def loop_state_def orch_abs_def)
  then show thesis using that [of s1] t by (simp add: loop_state_def GetRemainingTicks_def xTaskGetTickCount_def)
qed

lemma lost_inv:
  assumes "\<not> reconnecting (os_state s)" and "s' = RunOrchestratorTask E s" and "reconnecting (os_state s')"
  shows "reconnect_inv E (os_active s) 0 (xTaskGetTickCount E s') s'"
proof (cases "os_queue s")
  case (Cons m rest)
  let ?s = "s\<lparr>os_queue := rest\<rparr>"
  have s': "s' = HandleMessage E m ?s" using assms(2) Cons by (simp add: RunOrchestratorTask_def)
  obtain up saved where "orch_abs s' = machine_message up saved m (orch_abs ?s)" using message_refines [of E m ?s] s' by blast
  then have "os_state s' = ma_state (machine_message up saved m (orch_abs ?s))" by (metis abs_sel(1))
  then have m: "m = MSG_STA_DISCONNECTED" "os_state s = STATE_CONNECTED"
    using assms(1,3) by (cases m; auto simp: machine_message_def orch_abs_def reconnecting_def machine_portal_def split: if_splits)+
  let ?t = "NotifyState PROVISIONING_STATE_DISCONNECTED
    (s\<lparr>os_queue := rest, os_is_associated := False, os_has_ip := False, os_failure_count := 0\<rparr>)"
  have s'': "s' = BeginReconnectWait E ?t" using s' m by (simp add: HandleMessage_def HandleStationDisconnected_def)
  have "os_failure_count ?t = of_nat 0" "os_active ?t = os_active s" by simp_all
  from BeginReconnectWait_inv(2) [OF this s''] show ?thesis .
next
  case Nil
  obtain s1 where s1: "loop_state s1 = loop_state s" "orch_abs s1 = orch_abs s"
    "s' = (if os_has_deadline s \<and> GetRemainingTicks E (os_deadline_ticks s) s = 0 then HandleTimeout E s1 else s1)"
    using idle_turn [OF Nil] assms(2) by metis
  have "os_state s1 = os_state s" "os_active s1 = os_active s" using s1(1) by (simp_all add: loop_state_def)
  then have s': "s' = HandleTimeout E s1" using s1(3) assms(1,3) by (auto split: if_splits)
  obtain up where "orch_abs s' = machine_timeout up (orch_abs s1)" using timeout_refines [of E s1] s' by blast
  then have "os_state s' = ma_state (machine_timeout up (orch_abs s1))" by (metis abs_sel(1))
  then have m: "os_state s1 = STATE_PORTAL_SUCCESS" "\<not> os_is_associated s1"
    using assms(1,3) \<open>os_state s1 = os_state s\<close>
    by (cases "os_state s1"; auto simp: machine_timeout_def orch_abs_def reconnecting_def machine_portal_def split: if_splits)+
  let ?t = "NotifyState PROVISIONING_STATE_DISCONNECTED ((StopPortalServices E s1)\<lparr>os_trial := zero_credentials, os_failure_count := 0\<rparr>)"
  have s'': "s' = BeginReconnectWait E ?t" using s' m by (simp add: HandleTimeout_def LeaveProvisioning_def Let_def)
  have "os_failure_count ?t = of_nat 0" "os_active ?t = os_active s" using \<open>os_active s1 = os_active s\<close> by simp_all
  from BeginReconnectWait_inv(2) [OF this s''] show ?thesis .
qed

lemma reconnect_run_inv: "reconnect_run E recv c n t s \<Longrightarrow> reconnect_inv E c n t s"
proof (induction rule: reconnect_run.induct)
  case (lost s s')
  then show ?case using lost_inv by blast
next
  case (turn c n t s s' n' t')
  show ?case
  proof (cases "os_queue s")
    case (Cons m rest)
    have l: "loop_state (s\<lparr>os_queue := rest\<rparr>) = loop_state s" by (simp add: loop_state_def)
    then show ?thesis
      using message_inv [of E c n t "s\<lparr>os_queue := rest\<rparr>" m s' n' t'] turn(3-8) Cons reconnect_inv_cong [OF l, of E c n t]
      by (simp add: RunOrchestratorTask_def)
  next
    case Nil
    obtain s1 where s1: "loop_state s1 = loop_state s"
      "s' = (if os_has_deadline s \<and> GetRemainingTicks E (os_deadline_ticks s) s = 0 then HandleTimeout E s1 else s1)"
      using idle_turn [OF Nil] turn(5) by metis
    have i: "reconnect_inv E c n t s1" using turn(8) reconnect_inv_cong [OF s1(1)] by blast
    have st: "os_state s1 = os_state s" using s1(1) by (simp add: loop_state_def)
    show ?thesis
    proof (cases "os_has_deadline s \<and> GetRemainingTicks E (os_deadline_ticks s) s = 0")
      case True
      then show ?thesis using timeout_inv [OF i, of s' n' t'] s1(2) turn(6,7) st by simp
    next
      case False
      then show ?thesis using i s1(2) turn(6,7) st by auto
    qed
  qed
next
  case (other c n t s s')
  have "loop_state s' = loop_state s" using post_step_form [OF other(2)] by (auto simp: loop_state_def)
  then show ?case using other(3) reconnect_inv_cong by blast
qed

text \<open>The attempt itself, its two ways to fail, and the return of the connection.\<close>

lemma attempt_turn:
  assumes "reconnect_inv E c n t s" and "os_queue s = []" and "os_state s = STATE_RECONNECT_WAIT"
    and "GetRemainingTicks E (os_deadline_ticks s) s = 0"
  shows "os_state (RunOrchestratorTask E s) = STATE_RECONNECT_TRY \<and> os_active (RunOrchestratorTask E s) = c \<and>
    os_failure_count (RunOrchestratorTask E s) = of_nat n \<and>
    os_io (RunOrchestratorTask E s) = snd (snd (ConnectWifiStation (od_platform E) c (os_wifi s, os_io s)))"
proof -
  obtain s1 where s1: "loop_state s1 = loop_state s" "os_io s1 = os_io s" "os_wifi s1 = os_wifi s"
    "RunOrchestratorTask E s = (if os_has_deadline s \<and> GetRemainingTicks E (os_deadline_ticks s) s = 0 then HandleTimeout E s1 else s1)"
    using idle_turn [OF assms(2)] by metis
  have s1': "os_has_deadline s" "os_active s1 = c" "os_failure_count s1 = of_nat n" "os_state s1 = STATE_RECONNECT_WAIT"
    using assms(1,3) s1(1) by (simp_all add: reconnect_inv_def loop_state_def)
  let ?u = "connect_station E c s1"
  have t: "RunOrchestratorTask E s = SetState E STATE_RECONNECT_TRY ATTEMPT_TIMEOUT_MS ?u"
    using s1' s1(4) assms(4) by (simp add: HandleTimeout_def)
  have "os_active ?u = c" "os_failure_count ?u = of_nat n" using s1' by simp_all
  moreover have "os_io ?u = snd (snd (ConnectWifiStation (od_platform E) c (os_wifi s, os_io s)))"
    using s1(2,3) by (simp add: connect_station_def split: prod.splits)
  ultimately show ?thesis unfolding t by (simp add: SetState_def)
qed

lemma failed_turn:
  assumes "reconnect_inv E c n t s" and "os_state s = STATE_RECONNECT_TRY"
    and "os_queue s = [] \<and> GetRemainingTicks E (os_deadline_ticks s) s = 0 \<or> os_queue s = MSG_STA_DISCONNECTED # rest"
    and "s' = RunOrchestratorTask E s"
  shows "os_state s' = STATE_RECONNECT_WAIT" and "reconnect_inv E c (Suc n) (xTaskGetTickCount E s') s'"
proof -
  have i: "os_has_deadline s" "os_active s = c" "os_failure_count s = of_nat n" using assms(1) by (simp_all add: reconnect_inv_def)
  have "\<exists>u. os_failure_count u = of_nat (Suc n) \<and> os_active u = c \<and> s' = BeginReconnectWait E u"
  proof (cases "os_queue s = []")
    case True
    obtain s1 where s1: "loop_state s1 = loop_state s"
      "s' = (if os_has_deadline s \<and> GetRemainingTicks E (os_deadline_ticks s) s = 0 then HandleTimeout E s1 else s1)"
      using idle_turn [OF True] assms(4) by metis
    have "os_state s1 = STATE_RECONNECT_TRY" "os_active s1 = c" "os_failure_count s1 = of_nat n"
      using s1(1) assms(2) i by (simp_all add: loop_state_def)
    moreover have "s' = HandleTimeout E s1" using s1(2) i(1) assms(3) True by simp
    ultimately show ?thesis
      by (intro exI [of _ "disconnect_station E (s1\<lparr>os_failure_count := os_failure_count s1 + 1\<rparr>)"]) (simp add: HandleTimeout_def Let_def)
  next
    case False
    then have "os_queue s = MSG_STA_DISCONNECTED # rest" using assms(3) by simp
    then show ?thesis using assms(2,4) i
      by (intro exI [of _ "s\<lparr>os_queue := rest, os_is_associated := False, os_has_ip := False,
        os_failure_count := os_failure_count s + 1\<rparr>"]) (simp add: RunOrchestratorTask_def HandleMessage_def HandleStationDisconnected_def)
  qed
  then obtain u where "os_failure_count u = of_nat (Suc n)" "os_active u = c" "s' = BeginReconnectWait E u" by blast
  from BeginReconnectWait_inv [OF this] show "os_state s' = STATE_RECONNECT_WAIT"
    "reconnect_inv E c (Suc n) (xTaskGetTickCount E s') s'" by blast+
qed

lemma connected_turn:
  assumes "reconnect_inv E c n t s" and "os_queue s = MSG_STA_CONNECTED # rest"
  shows "os_state (RunOrchestratorTask E s) = STATE_CONNECTED \<and> os_active (RunOrchestratorTask E s) = c \<and>
    os_failure_count (RunOrchestratorTask E s) = 0"
proof -
  have n: "os_state (NotifyState st u) = os_state u" "os_active (NotifyState st u) = os_active u"
    "os_failure_count (NotifyState st u) = os_failure_count u" for st u by simp_all
  have st: "os_state s \<noteq> STATE_STA_ATTEMPT" "os_state s = STATE_RECONNECT_WAIT \<or> os_state s = STATE_RECONNECT_TRY" "os_active s = c"
    using assms(1) by (auto simp: reconnect_inv_def reconnecting_def)
  then have "RunOrchestratorTask E s = NotifyState PROVISIONING_STATE_CONNECTED (SetState E STATE_CONNECTED 0
      (s\<lparr>os_queue := rest, os_is_associated := True, os_failure_count := 0\<rparr>))"
    using assms(2) by (auto simp: RunOrchestratorTask_def HandleMessage_def HandleStationConnected_def)
  then show ?thesis using st(3) by (simp add: n) (simp add: SetState_def)
qed

section \<open>Properties\<close>

text \<open>C15: a lost connection is tried again for ever, with the same credentials and with growing delays. As long as neither the network
  answers nor the button is pressed, whatever else happens in between, the orchestrator is in the wait or in the attempt, and the state has
  a deadline: after \<open>n\<close> failed attempts the wait lasts 1 s doubled \<open>n\<close> times but at most 60 s, and an attempt 10 s, counted from
  the moment the state was entered. It never stays in either: the turn that finds the deadline of the wait passed starts an attempt with
  the credentials in use when the connection was lost; the turn that finds the deadline of the attempt passed, or that receives its
  failure, returns to the wait, with one more failure counted and the longer delay set; both continue the run. The connection event leads
  back to the connected state and clears the count.\<close>

theorem reconnects_for_ever:
  assumes "reconnect_run E recv c n t s" and "s' = RunOrchestratorTask E s"
  shows "(os_state s = STATE_RECONNECT_WAIT \<or> os_state s = STATE_RECONNECT_TRY) \<and> os_failure_count s = of_nat n \<and> os_active s = c \<and>
    os_has_deadline s \<and>
    (\<exists>delay_ms. os_deadline_ticks s = t + pdMS_TO_TICKS (od_tick_rate E) delay_ms \<and>
       unat delay_ms = (if os_state s = STATE_RECONNECT_TRY then 10000 else min (1000 * 2 ^ (n mod 2 ^ 32)) 60000)) \<and>
    (os_queue s = [] \<and> os_state s = STATE_RECONNECT_WAIT \<and> GetRemainingTicks E (os_deadline_ticks s) s = 0 \<longrightarrow>
       os_state s' = STATE_RECONNECT_TRY \<and> os_active s' = c \<and> os_failure_count s' = of_nat n \<and>
       os_io s' = snd (snd (ConnectWifiStation (od_platform E) c (os_wifi s, os_io s)))) \<and>
    (os_state s = STATE_RECONNECT_TRY \<and>
       (os_queue s = [] \<and> GetRemainingTicks E (os_deadline_ticks s) s = 0 \<or> (\<exists>rest. os_queue s = MSG_STA_DISCONNECTED # rest)) \<longrightarrow>
       os_state s' = STATE_RECONNECT_WAIT \<and> os_active s' = c \<and> os_failure_count s' = of_nat (Suc n) \<and> os_has_deadline s' \<and>
       os_deadline_ticks s' = xTaskGetTickCount E s' + pdMS_TO_TICKS (od_tick_rate E) (GetWifiReconnectDelayMs (of_nat (Suc n)))) \<and>
    (\<forall>rest. os_queue s = MSG_STA_CONNECTED # rest \<longrightarrow> os_state s' = STATE_CONNECTED \<and> os_active s' = c \<and> os_failure_count s' = 0)"
proof -
  have i: "reconnect_inv E c n t s" using reconnect_run_inv [OF assms(1)] .
  have d: "unat (reconnect_ms (os_state s) n) =
      (if os_state s = STATE_RECONNECT_TRY then 10000 else min (1000 * 2 ^ (n mod 2 ^ 32)) 60000)"
    by (simp add: reconnect_ms_def delay_spec unat_of_nat)
  have f: "os_state s' = STATE_RECONNECT_WAIT \<and> os_active s' = c \<and> os_failure_count s' = of_nat (Suc n) \<and> os_has_deadline s' \<and>
      os_deadline_ticks s' = xTaskGetTickCount E s' + pdMS_TO_TICKS (od_tick_rate E) (GetWifiReconnectDelayMs (of_nat (Suc n)))"
    if trying: "os_state s = STATE_RECONNECT_TRY"
      and failed: "os_queue s = [] \<and> GetRemainingTicks E (os_deadline_ticks s) s = 0 \<or> (\<exists>rest. os_queue s = MSG_STA_DISCONNECTED # rest)"
  proof -
    obtain rest where "os_queue s = [] \<and> GetRemainingTicks E (os_deadline_ticks s) s = 0 \<or> os_queue s = MSG_STA_DISCONNECTED # rest"
      using failed by blast
    from failed_turn [OF i trying this assms(2)] show ?thesis by (simp add: reconnect_inv_def reconnect_ms_def)
  qed
  have w: "os_state s' = STATE_RECONNECT_TRY \<and> os_active s' = c \<and> os_failure_count s' = of_nat n \<and>
      os_io s' = snd (snd (ConnectWifiStation (od_platform E) c (os_wifi s, os_io s)))"
    if idle: "os_queue s = []" and waiting: "os_state s = STATE_RECONNECT_WAIT" and due: "GetRemainingTicks E (os_deadline_ticks s) s = 0"
    unfolding assms(2) by (rule attempt_turn [OF i idle waiting due])
  have k: "\<forall>rest. os_queue s = MSG_STA_CONNECTED # rest \<longrightarrow> os_state s' = STATE_CONNECTED \<and> os_active s' = c \<and> os_failure_count s' = 0"
    using connected_turn [OF i] assms(2) by blast
  have st: "(os_state s = STATE_RECONNECT_WAIT \<or> os_state s = STATE_RECONNECT_TRY) \<and> os_failure_count s = of_nat n \<and> os_active s = c \<and>
      os_has_deadline s \<and> os_deadline_ticks s = t + pdMS_TO_TICKS (od_tick_rate E) (reconnect_ms (os_state s) n)"
    using i by (simp add: reconnect_inv_def reconnecting_def)
  show ?thesis using st d f w k by blast
qed

theorem reconnects_for_ever_witness:
  "\<exists>s t. reconnect_run example_drv whole_recv zero_credentials 0 t s \<and> os_failure_count s = 0 \<and> os_has_deadline s"
proof -
  let ?s = "example_orch\<lparr>os_state := STATE_CONNECTED, os_queue := [MSG_STA_DISCONNECTED]\<rparr>"
  let ?t = "RunOrchestratorTask example_drv ?s"
  have "\<not> reconnecting (os_state ?s)" "\<not> os_restarted ?s" by (simp_all add: reconnecting_def example_defs)
  moreover have "reconnecting (os_state ?t)"
    by (simp add: RunOrchestratorTask_def HandleMessage_def HandleStationDisconnected_def BeginReconnectWait_sel reconnecting_def)
  moreover have "os_active ?s = zero_credentials" by (simp add: example_defs)
  ultimately have "reconnect_run example_drv whole_recv zero_credentials 0 (xTaskGetTickCount example_drv ?t) ?t"
    using reconnect_run.lost [of ?s ?t example_drv whole_recv] by simp
  from reconnects_for_ever [OF this HOL.refl] this show ?thesis by auto
qed

end
