(* ===== verification/UpdateCycle.thy ===== *)
theory UpdateCycle
  imports FwUpdate UpdaterMain ProvisioningMachine
begin

text \<open>
  The update across the two applications: the firmware's request, the updater's start, the upload and the next start; what a
  failed upload leaves behind; and what the firmware does to the flash while it runs.
\<close>

section \<open>From the gesture to the new firmware\<close>

lemma reliable_force:
  assumes laws: "flash_laws drv" and rel: "reliable drv ok" and ok: "ok d"
  obtains d' where "ProgramFwMetaForceFlag drv d = (ESP_OK, d')" "ok d'"
proof -
  obtain e1 d1 where w: "pd_write drv 56 (le32 FW_FORCE_BOOTLOADER_SET) d = (e1, d1)" by fastforce
  note w1 = reliable_calls(2) [OF rel ok w]
  obtain e2 bs d2 where r: "pd_read drv 56 4 d1 = ((e2, bs), d2)" by (metis prod.exhaust)
  note r1 = reliable_calls(1) [OF rel w1 [THEN conjunct2] r]
  have fd: "flash_driver drv" using laws by (rule flash_driver.intro)
  have "bs = mem_range (pd_mem drv d1) 56 4" using flash_driver.read_ok [OF fd] r r1 by blast
  also have "\<dots> = le32 FW_FORCE_BOOTLOADER_SET"
  proof (rule mem_range_eqI)
    fix i :: nat assume "i < 4"
    then show "pd_mem drv d1 (56 + i) = le32 FW_FORCE_BOOTLOADER_SET ! i"
      using flash_driver.write_ok [OF fd, of 56 "le32 FW_FORCE_BOOTLOADER_SET" d d1 i] w w1
      by (auto simp: le32_def fw_consts less_Suc_eq numeral_eq_Suc)
  qed simp
  finally have "ProgramFwMetaForceFlag drv d = (ESP_OK, d2)"
    using w w1 r r1 reliable_found [OF rel] by (simp add: ProgramFwMetaForceFlag_def Let_def of_le32_le32)
  then show thesis using r1 that by blast
qed

text \<open>
  The gesture leads into the updater: on a device whose flash calls succeed and that holds valid firmware, the orchestrator stops every
  service and restarts, and the updater started by that restart enters updater mode with reason "requested" and clears the request.
\<close>

lemma update_gesture_enters_updater:
  assumes "box_laws (od_partition E) ota" and "reliable_box (od_partition E) ota ok" and "ok (os_flash s)"
    and "od_ota_size E = Some (od_size ota)" and "IsFwMetaRecordValid (stored_meta (od_partition E) (os_flash s)) (od_size ota)"
    and "HandleMessage E MSG_UPDATE_REQUEST s = s'" and "app_main env (od_partition E) (Some ota) (os_flash s') = (out, d')"
  shows "ok d' \<and> os_restarted s' \<and> server_down (os_http s') \<and> \<not> ds_task (os_dns s') \<and> \<not> os_mdns s' \<and>
    (\<exists>v b. out = UpdaterMode UPDATER_REASON_REQUESTED v b) \<and>
    IsFwMetaRecordValid (stored_meta (od_partition E) d') (od_size ota) \<and> \<not> IsFwForceRequested (stored_meta (od_partition E) d') \<and>
    cr_crash_count (effective_ctrl (od_partition E) d') = cr_crash_count (effective_ctrl (od_partition E) (os_flash s))"
proof -
  let ?drv = "od_partition E" and ?d = "os_flash s"
  have laws: "flash_laws ?drv" and rel: "reliable ?drv ok" using assms(1,2) by (simp_all add: box_laws_def reliable_boxD)
  have fd: "flash_driver ?drv" using laws by (rule flash_driver.intro)
  obtain d1 where r: "ReadFwMetaRecord ?drv ?d = ((ESP_OK, stored_meta ?drv ?d), d1)" "ok d1" "pd_mem ?drv d1 = pd_mem ?drv ?d"
    by (rule flash_driver.reliable_read_meta [OF fd rel assms(3)])
  obtain d2 where f: "ProgramFwMetaForceFlag ?drv d1 = (ESP_OK, d2)" "ok d2" by (rule reliable_force [OF laws rel r(2)])
  have q: "RequestFwUpdate ?drv (Some (od_size ota)) ?d = (FW_UPDATE_REQUEST_SET, d2)"
    using r(1) f(1) assms(5) by (simp add: RequestFwUpdate_def)
  note c = flash_driver.RequestFwUpdate_cases [OF fd q]
  have u: "os_restarted s' \<and> no_services s' \<and> os_flash s' = d2"
    using HandleUpdateRequest_cases(2) [OF q [folded assms(4)]] assms(6) by (simp add: HandleMessage_def)
  have force: "IsFwForceRequested (stored_meta ?drv (os_flash s'))" using c(3) u by (simp add: IsFwForceRequested_def fw_consts)
  have "ok (os_flash s')" using u f(2) by simp
  note a = update_request_served_once [OF assms(1,2) this force assms(7), of "od_size ota"]
  have "IsFwMetaRecordValid (stored_meta ?drv (os_flash s')) (od_size ota)" using c(2) u assms(5) by auto
  then show ?thesis using a u c(1) by (auto simp: no_services_def)
qed

section \<open>After a failed upload\<close>

text \<open>
  The states of the flash after an upload was rejected, interrupted or failed: any number of further starts, after any reset and with any
  flash calls failing, and of further uploads that are not accepted may follow. The one case left out is an upload that is rejected for a
  flash failure and whose last erase of the record was itself reported as failed: the old record may then still be valid, and the next
  start may jump.
\<close>

inductive no_update_run :: "'x recv \<Rightarrow> 'd partition_drv \<Rightarrow> 'd ota_drv \<Rightarrow> 'd \<Rightarrow> bool" for recv drv ota where
  failed: "ProcessUpload recv drv (Some ota) n r = (res, reply, restart, r') \<Longrightarrow> res \<noteq> UPLOAD_OK \<Longrightarrow> res \<noteq> UPLOAD_REJECT_SIZE \<Longrightarrow>
    (res = UPLOAD_REJECT_FLASH \<longrightarrow> \<not> left_by_failed_erase drv (ur_dev r')) \<Longrightarrow> no_update_run recv drv ota (ur_dev r')"
| start: "no_update_run recv drv ota d \<Longrightarrow> app_main env drv (Some ota) d = (out, d') \<Longrightarrow> no_update_run recv drv ota d'"
| again: "no_update_run recv drv ota (ur_dev r) \<Longrightarrow> ProcessUpload recv drv (Some ota) n r = (res, reply, restart, r') \<Longrightarrow>
    res \<noteq> UPLOAD_OK \<Longrightarrow> (res = UPLOAD_REJECT_FLASH \<longrightarrow> \<not> left_by_failed_erase drv (ur_dev r')) \<Longrightarrow> no_update_run recv drv ota (ur_dev r')"

text \<open>A start on an erased record stays in the updater and leaves the record erased, whatever else fails.\<close>

context box_flash
begin

lemma app_main_erased:
  assumes "app_main env drv (Some ota) d = (out, d')" and "stored_meta drv d = meta_of_bytes (replicate 60 0xFF)"
  shows "\<exists>b. out = UpdaterMode (if me_reset_reason env = ESP_RST_DEEPSLEEP then UPDATER_REASON_BOOT_SELECT_FAILED
      else UPDATER_REASON_NO_FIRMWARE) None b"
    and "stored_meta drv d' = meta_of_bytes (replicate 60 0xFF)"
proof -
  obtain e1 "record" d1 where m: "ReadFwMetaRecord drv d = ((e1, record), d1)" by (metis prod.exhaust)
  obtain e2 ctrl d2 where c: "ReadFwCtrlRecord drv d1 = ((e2, ctrl), d2)" by (metis prod.exhaust)
  obtain inputs d3 where i: "boot_inputs env (Some ota) record ctrl d2 = (inputs, d3)" by (metis prod.exhaust)
  have rec: "record = meta_of_bytes (replicate 60 0xFF)"
    using ReadFwMetaRecord_fail [OF m] read_meta_ok m assms(2) by (cases "e1 = ESP_OK") auto
  note f = boot_inputs_facts [OF i]
  have v: "\<not> bi_is_force_requested inputs" "\<not> bi_is_record_valid inputs" using f(3,4) erased_meta by (simp_all add: rec)
  have nm: "\<not> bi_is_ota_match inputs"
    using i v(2) by (auto simp: boot_inputs_def Let_def split: prod.splits if_splits)
  have md: "bd_mode (DecideFwBoot inputs) = (if me_reset_reason env = ESP_RST_DEEPSLEEP then FW_BOOT_UPDATER_BOOT_SELECT_FAILED
      else FW_BOOT_UPDATER_NO_FIRMWARE)"
    using v f(7) by (simp add: DecideFwBoot_def Let_def)
  have o: "out = UpdaterMode (GetUpdaterReason (bd_mode (DecideFwBoot inputs))) None (StartUpdaterMode env None)"
    and d': "\<exists>n. d' = SaveCrashCount drv ctrl n d3"
    using assms(1) m c i v nm md by (auto simp: app_main_def Let_def split: if_splits)
  show "\<exists>b. out = UpdaterMode (if me_reset_reason env = ESP_RST_DEEPSLEEP then UPDATER_REASON_BOOT_SELECT_FAILED
      else UPDATER_REASON_NO_FIRMWARE) None b"
    using o md by simp
  have "pd_mem drv d3 = pd_mem drv d" using f(1) ReadFwMetaRecord_frame [OF m] ReadFwCtrlRecord_frame [OF c] by simp
  then show "stored_meta drv d' = meta_of_bytes (replicate 60 0xFF)"
    using d' SaveCrashCount_frame(1) assms(2) stored_cong(1) by metis
qed

end

lemma no_update_run_erased:
  assumes "box_laws drv ota" and "no_update_run recv drv ota d"
  shows "stored_meta drv d = meta_of_bytes (replicate 60 0xFF)"
  using assms(2)
proof (induction rule: no_update_run.induct)
  case (failed n r res reply restart r')
  then show ?case
    using box_flash.ProcessUpload_rejects [OF assms(1) [unfolded box_laws_iff] failed(1,2)]
    by (auto simp: stored_meta_def meta_erased_def)
next
  case (start d env out d')
  then show ?case using box_flash.app_main_erased(2) [OF assms(1) [unfolded box_laws_iff] start(2)] by blast
next
  case (again r n res reply restart r')
  then show ?case
    using box_flash.ProcessUpload_rejects [OF assms(1) [unfolded box_laws_iff] again(2,3)]
    by (cases "res = UPLOAD_REJECT_SIZE") (auto simp: stored_meta_def meta_erased_def)
qed

section \<open>While the firmware runs\<close>

text \<open>
  A run of the firmware: started by a jump of the updater on any contents of the flash, then the orchestrator and the tasks
  around it in any order, flash failures included. It remembers what ota_0 held at the jump.
\<close>

inductive firmware_run ::
  "('e, 'n, 'd) orch_drv \<Rightarrow> 'd ota_drv \<Rightarrow> 'x form_recv \<Rightarrow> (nat \<Rightarrow> byte) \<Rightarrow> ('e, 'n, 'd) orch \<Rightarrow> bool" for E ota recv where
  jumped: "app_main env (od_partition E) (Some ota) d = (JumpedToFirmware bp, os_flash s0) \<Longrightarrow> power_on E s0 \<Longrightarrow>
    ProvisioningStart E ap sta create_result start_result s0 = (True, timer, s) \<Longrightarrow> firmware_run E ota recv (od_mem ota d) s"
| step: "firmware_run E ota recv m s \<Longrightarrow> orch_step E recv s s' \<Longrightarrow> firmware_run E ota recv m s'"

text \<open>What a step of the firmware can do to the flash.\<close>

lemma HandleTimeout_flash: "os_flash (HandleTimeout E s) = os_flash s"
proof -
  have c: "os_flash (CheckMdnsHostname E t) = os_flash t" for t by (simp add: CheckMdnsHostname_def split: option.split)
  have b: "os_flash (StartBootAttempt E t) = os_flash t" for t by (simp add: StartBootAttempt_def Let_def)
  have l: "os_flash (LeaveProvisioning E t) = os_flash t" for t
    by (simp add: LeaveProvisioning_def Let_def StartStationServices_sel BeginReconnectWait_frame)
  show ?thesis
    by (cases "os_state s") (simp_all add: HandleTimeout_def Let_def c b l BeginReconnectWait_frame EnterProvisioning_sel FailTrial_sel
      StartStationServices_sel)
qed

lemma orch_step_flash:
  assumes "orch_step E recv s s'"
  shows "os_flash s' = os_flash s \<or> os_flash s' = MarkFirmwareHealthy (od_partition E) (os_flash s) \<or>
    (\<exists>q. RequestFwUpdate (od_partition E) (od_ota_size E) (os_flash s) = (q, os_flash s'))"
  using assms
proof cases
  case other
  then show ?thesis using post_step_form by fastforce
next
  case turn
  show ?thesis
  proof (cases "os_queue s")
    case Nil
    then show ?thesis using turn by (auto simp: RunOrchestratorTask_def timeout_turn_def Let_def HandleTimeout_flash)
  next
    case (Cons m rest)
    let ?s = "s\<lparr>os_queue := rest\<rparr>"
    have s': "s' = HandleMessage E m ?s" using turn Cons by (simp add: RunOrchestratorTask_def)
    show ?thesis
    proof (cases "m = MSG_UPDATE_REQUEST")
      case True
      obtain q d where q: "RequestFwUpdate (od_partition E) (od_ota_size E) (os_flash s) = (q, d)" by fastforce
      then have "os_flash s' = d"
        using s' True HandleUpdateRequest_cases [of E ?s q d] by (cases "q = FW_UPDATE_REQUEST_FAILED") (simp_all add: HandleMessage_def)
      then show ?thesis using q by blast
    next
      case False
      have f: "os_flash (SetState E st ms t) = os_flash t" for st ms t by simp
      have "os_flash s' = os_flash s" unfolding s' using False
        by (cases m) (auto simp: HandleMessage_def EnterProvisioning_sel HandleStationDisconnected_def BeginReconnectWait_frame
          HandleStationGotIp_def Let_def StartStationServices_sel HandleStationConnected_def FailTrial_sel split: prod.splits)
      then show ?thesis by blast
    qed
  qed
qed

context box_flash
begin

lemma MarkFirmwareHealthy_reliable:
  assumes "reliable drv ok" "ok d"
  shows "ok (MarkFirmwareHealthy drv d)" "od_mem ota (MarkFirmwareHealthy drv d) = od_mem ota d"
    "stored_meta drv (MarkFirmwareHealthy drv d) = stored_meta drv d" "cr_crash_count (effective_ctrl drv (MarkFirmwareHealthy drv d)) = 0"
proof -
  obtain d1 where r: "ReadFwCtrlRecord drv d = ((ESP_OK, effective_ctrl drv d), d1)" "ok d1" "pd_mem drv d1 = pd_mem drv d"
    by (rule reliable_read_ctrl [OF assms])
  have m: "od_mem ota d1 = od_mem ota d" using meta_ops_keep_ota r(1) by blast
  have s: "MarkFirmwareHealthy drv d = SaveCrashCount drv (effective_ctrl drv d) 0 d1"
    using r(1) by (simp add: MarkFirmwareHealthy_def SaveCrashCount_def)
  note e = stored_cong [OF r(3)]
  show "ok (MarkFirmwareHealthy drv d)" "cr_crash_count (effective_ctrl drv (MarkFirmwareHealthy drv d)) = 0"
    using SaveCrashCount_reliable [OF assms(1) r(2), of "effective_ctrl drv d" 0] by (simp_all add: s e)
  show "od_mem ota (MarkFirmwareHealthy drv d) = od_mem ota d" "stored_meta drv (MarkFirmwareHealthy drv d) = stored_meta drv d"
    using SaveCrashCount_frame [of "effective_ctrl drv d" 0 d1] m by (simp_all add: s e)
qed

end

context box_flash
begin

lemma firmware_calls_keep:
  "od_mem ota (MarkFirmwareHealthy drv d) = od_mem ota d" "stored_meta drv (MarkFirmwareHealthy drv d) = stored_meta drv d"
  "RequestFwUpdate drv size' d = (q, d') \<Longrightarrow> od_mem ota d' = od_mem ota d"
proof -
  obtain e c d1 where r: "ReadFwCtrlRecord drv d = ((e, c), d1)" by (metis prod.exhaust)
  have m: "od_mem ota d1 = od_mem ota d" "stored_meta drv d1 = stored_meta drv d"
    by (rule meta_ops_keep_ota(4) [OF r]) (rule stored_cong(1) [OF ReadFwCtrlRecord_frame [OF r]])
  have "MarkFirmwareHealthy drv d = SaveCrashCount drv c 0 d1" using r by (simp add: MarkFirmwareHealthy_def SaveCrashCount_def)
  then show "od_mem ota (MarkFirmwareHealthy drv d) = od_mem ota d" "stored_meta drv (MarkFirmwareHealthy drv d) = stored_meta drv d"
    using SaveCrashCount_frame [of c 0 d1] m by simp_all
  have p: "ProgramFwMetaForceFlag drv d0 = (x, d') \<Longrightarrow> od_mem ota d' = od_mem ota d0" for d0 x
    by (auto simp: ProgramFwMetaForceFlag_def Let_def split: if_splits prod.splits dest!: separate_calls)
  assume q: "RequestFwUpdate drv size' d = (q, d')"
  obtain e1 r1 d2 where r1: "ReadFwMetaRecord drv d = ((e1, r1), d2)" by (metis prod.exhaust)
  have "d' = d2 \<or> (\<exists>x. ProgramFwMetaForceFlag drv d2 = (x, d'))"
    using q r1 by (auto simp: RequestFwUpdate_def Let_def split: prod.splits option.splits if_splits)
  then show "od_mem ota d' = od_mem ota d" using p meta_ops_keep_ota(1) [OF r1] by metis
qed

end

text \<open>The force flag is no part of what the image is compared with.\<close>

lemma matches_force: "record_matches ota d (r\<lparr>mr_force_bootloader := f\<rparr>) = record_matches ota d r"
  by (simp add: record_matches_def)

lemma firmware_run_verified:
  assumes "box_laws (od_partition E) ota" and "firmware_run E ota recv m s"
  shows "od_mem ota (os_flash s) = m \<and> IsFwMetaRecordValid (stored_meta (od_partition E) (os_flash s)) (od_size ota) \<and>
    record_matches ota (os_flash s) (stored_meta (od_partition E) (os_flash s))"
  using assms(2)
proof (induction rule: firmware_run.induct)
  case (jumped env d bp s0 ap sta cr sr timer s)
  have "os_flash s = os_flash s0" using jumped(3) by (auto simp: ProvisioningStart_def Let_def split: prod.splits if_splits)
  then show ?case
    using box_flash.app_main_jump_facts [OF assms(1) [unfolded box_laws_iff] jumped(1)] by (simp add: record_matches_def)
next
  case (step m s s')
  have bx: "box_flash (od_partition E) ota" using assms(1) by (simp add: box_laws_iff)
  have fd: "flash_driver (od_partition E)" using assms(1) by (simp add: box_laws_def flash_driver_def)
  note k = box_flash.firmware_calls_keep [OF bx]
  have mem: "od_mem ota (os_flash s') = od_mem ota (os_flash s)" using orch_step_flash [OF step(2)] k by metis
  obtain f where "stored_meta (od_partition E) (os_flash s') = (stored_meta (od_partition E) (os_flash s))\<lparr>mr_force_bootloader := f\<rparr>"
    "IsFwMetaRecordValid (stored_meta (od_partition E) (os_flash s')) (od_size ota) =
     IsFwMetaRecordValid (stored_meta (od_partition E) (os_flash s)) (od_size ota)"
  proof -
    consider "stored_meta (od_partition E) (os_flash s') = stored_meta (od_partition E) (os_flash s)"
      | q where "RequestFwUpdate (od_partition E) (od_ota_size E) (os_flash s) = (q, os_flash s')"
      using orch_step_flash [OF step(2)] k(2) by metis
    then show thesis
    proof cases
      case 1
      then show thesis using that [of "mr_force_bootloader (stored_meta (od_partition E) (os_flash s))"] by simp
    next
      case 2
      from flash_driver.RequestFwUpdate_cases(2) [OF fd 2] show thesis using that by auto
    qed
  qed
  then show ?case using step(3) mem by (auto simp: record_matches_def)
qed

section \<open>Properties\<close>

text \<open>C9: an update works from the gesture to the new firmware. On a device whose flash calls succeed and that holds valid firmware, the
  orchestrator answers the gesture, in whatever state it is, by stopping every service and restarting; the updater enters updater mode
  with reason "requested" and keeps the record, with the request cleared; the upload of a valid image that the connection
  delivers succeeds and schedules the restart; and the start after it, after any reset that is neither a crash nor the wakeup of a
  failed jump, jumps to ota_0, which holds exactly the image sent, described by the record, with the crash count 0.\<close>

theorem update_reaches_new_firmware:
  assumes "box_laws (od_partition E) ota" and "reliable_box (od_partition E) ota ok" and "ok (os_flash s)"
    and "od_ota_size E = Some (od_size ota)" and "IsFwMetaRecordValid (stored_meta (od_partition E) (os_flash s)) (od_size ota)"
    and "HandleMessage E MSG_UPDATE_REQUEST s = s1" and "app_main env1 (od_partition E) (Some ota) (os_flash s1) = (out1, d1)"
    and "recv_laws recv" and "delivers recv served" and "CheckFwEmbeddedMeta img 304 = FW_META_CHECK_OK" and "304 \<le> length img"
    and "length img \<le> unat (od_size ota)" and "ur_dev r = d1" and "served 0 img (ur_net r)" and "length (ur_head r) = 304"
    and "ProcessUpload recv (od_partition E) (Some ota) (length img) r = (res, reply, restart, r2)"
    and "jump_works env2 ota" and "\<not> IsCrashReset (me_reset_reason env2)" and "me_reset_reason env2 \<noteq> ESP_RST_DEEPSLEEP"
    and "app_main env2 (od_partition E) (Some ota) (ur_dev r2) = (out2, d2)"
  shows "os_restarted s1 \<and> server_down (os_http s1) \<and> \<not> ds_task (os_dns s1) \<and> \<not> os_mdns s1 \<and>
    (\<exists>v b. out1 = UpdaterMode UPDATER_REASON_REQUESTED v b) \<and> IsFwMetaRecordValid (stored_meta (od_partition E) d1) (od_size ota) \<and>
    \<not> IsFwForceRequested (stored_meta (od_partition E) d1) \<and>
    cr_crash_count (effective_ctrl (od_partition E) d1) = cr_crash_count (effective_ctrl (od_partition E) (os_flash s)) \<and>
    res = UPLOAD_OK \<and> restart \<and> out2 = JumpedToFirmware (od_address ota, od_size ota) \<and>
    mem_range (od_mem ota d2) 0 (length img) = img \<and> image_installed (od_partition E) ota d2 (length img) \<and>
    cr_crash_count (effective_ctrl (od_partition E) d2) = 0"
proof -
  let ?drv = "od_partition E"
  have bx: "box_flash ?drv ota" using assms(1) by (simp add: box_laws_iff)
  note g = update_gesture_enters_updater [OF assms(1-7)]
  have "ok (ur_dev r)" using g assms(13) by simp
  then obtain reply' r' where u: "ProcessUpload recv ?drv (Some ota) (length img) r = (UPLOAD_OK, reply', True, r')"
    "mem_range (od_mem ota (ur_dev r')) 0 (length img) = img" "ok (ur_dev r')" "cr_crash_count (effective_ctrl ?drv (ur_dev r')) = 0"
    by (rule ProcessUpload_reliable [OF assms(1,2,8-12) _ assms(14,15)])
  then have r2: "res = UPLOAD_OK" "restart" "r2 = r'" using assms(16) by simp_all
  note i = box_flash.ProcessUpload_installs(1) [OF bx assms(8,15) u(1)]
  note m = image_installed_matches [OF i box_flash.digest_length [OF bx]]
  have "bd_mode (DecideFwBoot (stored_inputs env2 ?drv ota (ur_dev r'))) = FW_BOOT_FIRMWARE"
    using m assms(18,19) by (simp add: stored_inputs_def DecideFwBoot_def Let_def)
  then obtain d3 where j: "app_main env2 ?drv (Some ota) (ur_dev r') = (JumpedToFirmware (od_address ota, od_size ota), d3)"
    using box_flash.app_main_starts [OF bx assms(2) u(3) assms(17)] by blast
  then have d2: "out2 = JumpedToFirmware (od_address ota, od_size ota)" "d2 = d3" using assms(20) r2(3) by simp_all
  note f = box_flash.app_main_jump_facts [OF bx j]
  have "image_installed ?drv ota d2 (length img)" using i f(6,7) by (simp add: image_installed_def d2)
  moreover have "cr_crash_count (effective_ctrl ?drv d2) = 0" using u(4) stored_cong(3) [OF f(8)] assms(18) by (simp add: d2)
  ultimately show ?thesis using g r2 d2 f(7) u(2) by simp
qed

theorem update_reaches_new_firmware_witness:
  "\<exists>r2 :: (box_dev, byte list) upload_run. fst (app_main (example_env (ESP_RST_OTHER 1)) nor_drv (Some (box_ota 4096)) (ur_dev r2)) =
     JumpedToFirmware (0x100000, 4096) \<and> mem_range (bx_mem (ur_dev r2)) 0 304 = example_head"
proof -
  let ?E = "drv_on nor_drv" and ?s = "orch_on (example_box FW_FORCE_BOOTLOADER_CLEAR 1)" and ?env = "example_env (ESP_RST_OTHER 1)"
  obtain out1 d1 where a: "app_main ?env (od_partition ?E) (Some (box_ota 4096)) (os_flash (HandleMessage ?E MSG_UPDATE_REQUEST ?s)) = (out1, d1)"
    by fastforce
  let ?r = "(example_run example_head)\<lparr>ur_dev := d1\<rparr>"
  obtain res reply restart r2 where u: "ProcessUpload stream_recv (od_partition ?E) (Some (box_ota 4096)) (length example_head) ?r =
      (res, reply, restart, r2)" by (metis prod.exhaust)
  obtain out2 d2 where b: "app_main ?env (od_partition ?E) (Some (box_ota 4096)) (ur_dev r2) = (out2, d2)" by fastforce
  have f: "os_flash ?s = example_box FW_FORCE_BOOTLOADER_CLEAR 1" by (simp add: orch_on_def)
  have laws: "box_laws (od_partition ?E) (box_ota 4096)" "reliable_box (od_partition ?E) (box_ota 4096) (\<lambda>d. nd_script d = [])"
    by (simp_all add: box_box_laws box_reliable)
  have h: "nd_script (os_flash ?s) = []" "od_ota_size ?E = Some (od_size (box_ota 4096))"
    "IsFwMetaRecordValid (stored_meta (od_partition ?E) (os_flash ?s)) (od_size (box_ota 4096))"
    using example_matches(1) [of FW_FORCE_BOOTLOADER_CLEAR] by (simp_all add: f box_ota_def)
  have len: "304 \<le> length example_head" "length example_head \<le> unat (od_size (box_ota 4096))" by simp_all
  have run: "ur_dev ?r = d1" "ur_net ?r = example_head" "length (ur_head ?r) = 304" by (simp_all add: example_run_def)
  have env: "jump_works ?env (box_ota 4096)" "\<not> IsCrashReset (me_reset_reason ?env)" "me_reset_reason ?env \<noteq> ESP_RST_DEEPSLEEP"
    by (simp_all add: IsCrashReset_def)
  note t = update_reaches_new_firmware [OF laws h HOL.refl a stream_recv_laws stream_delivers example_head_ok len run u env b]
  have j: "app_main ?env (od_partition ?E) (Some (box_ota 4096)) (ur_dev r2) =
    (JumpedToFirmware (od_address (box_ota 4096), od_size (box_ota 4096)), d2)" using t b by simp
  have "od_mem (box_ota 4096) d2 = od_mem (box_ota 4096) (ur_dev r2)"
    by (rule box_flash.app_main_jump_facts(7) [OF laws(1) [unfolded box_laws_iff] j])
  then have "mem_range (bx_mem (ur_dev r2)) 0 304 = example_head" using t by (simp add: box_ota_def)
  moreover have "fst (app_main ?env nor_drv (Some (box_ota 4096)) (ur_dev r2)) = JumpedToFirmware (0x100000, 4096)"
    using j by (simp add: box_ota_def)
  ultimately show ?thesis by blast
qed



text \<open>C11: the firmware that runs is the firmware that was verified. Whatever the flash held before the updater jumped, and however the
  tasks of the firmware interleave, requests and failing flash calls included: ota_0 is what it was at the jump, and the record
  stays valid and keeps describing it, so that an update request or a healthy run never costs the installed firmware.\<close>

theorem running_firmware_stays_verified:
  assumes "box_laws (od_partition E) ota" and "firmware_run E ota recv m s"
  shows "od_mem ota (os_flash s) = m \<and> IsFwMetaRecordValid (stored_meta (od_partition E) (os_flash s)) (od_size ota) \<and>
    m 0 = FW_IMAGE_MAGIC \<and> mem_range m 292 9 = mr_version (stored_meta (od_partition E) (os_flash s)) \<and>
    od_digest ota m = mr_image_sha256 (stored_meta (od_partition E) (os_flash s))"
  using firmware_run_verified [OF assms] by (auto simp: record_matches_def)

theorem running_firmware_stays_verified_witness:
  "\<exists>s. firmware_run (drv_on nor_drv) (box_ota 4096) whole_recv example_ota s \<and>
     IsFwMetaRecordValid (stored_meta nor_drv (os_flash s)) 4096 \<and> bx_mem (os_flash s) = example_ota"
proof -
  let ?d = "example_box FW_FORCE_BOOTLOADER_CLEAR 0" and ?env = "example_env (ESP_RST_OTHER 1)"
  have "bd_mode (DecideFwBoot (stored_inputs ?env nor_drv (box_ota 4096) ?d)) = FW_BOOT_FIRMWARE"
    using example_matches(1) [of FW_FORCE_BOOTLOADER_CLEAR] example_matches(2) [of FW_FORCE_BOOTLOADER_CLEAR 0]
    by (simp add: stored_inputs_def DecideFwBoot_def Let_def IsFwForceRequested_def IsCrashReset_def)
  then obtain d' where a: "app_main ?env nor_drv (Some (box_ota 4096)) ?d = (JumpedToFirmware (od_address (box_ota 4096), od_size (box_ota 4096)), d')"
    using box.app_main_starts [OF box_reliable, of ?d ?env 4096] by auto
  obtain s timer where s: "ProvisioningStart (drv_on nor_drv) True True ESP_OK ESP_OK (orch_on d') = (True, timer, s)" by (rule start_on)
  have p: "od_partition (drv_on nor_drv) = nor_drv" "os_flash (orch_on d') = d'" by (simp_all add: orch_on_def)
  have m: "od_mem (box_ota 4096) ?d = example_ota" by (simp add: box_ota_def)
  have r: "firmware_run (drv_on nor_drv) (box_ota 4096) whole_recv example_ota s"
    using firmware_run.jumped [of ?env "drv_on nor_drv" "box_ota 4096" ?d _ "orch_on d'" True True ESP_OK ESP_OK timer s whole_recv] a s
    by (simp add: p m power_on_orch_on)
  have "box_laws (od_partition (drv_on nor_drv)) (box_ota 4096)" by (simp add: p box_box_laws)
  from running_firmware_stays_verified [OF this r] r show ?thesis by (auto simp: p box_ota_def)
qed

end
