(* ===== verification/Logging.thy ===== *)
theory Logging
  imports Prelude "HOL-Library.Sublist" "HOL-Library.Signed_Division" Queue
begin

section \<open>Logging\<close>

text \<open>
  Model of main/logging: the records of main/logging/logging.c, the bounded queue between the tasks that log and the writer task,
  and the text of a line. A logging call is at most three calls of the queue (send, and on a full queue receive and send again), each of
  which is atomic while the call is not: \<open>LogWrite\<close> is the call undisturbed, \<open>log_step\<close> interleaves the queue calls of any
  number of tasks with the writer. The formatted text of the message (\<open>vsnprintf\<close> of the caller's arguments) is a parameter,
  the UART driver is what is handed to \<open>uart_write_bytes\<close>, and CONFIG_LOG_TIMESTAMP_ENABLE is the parameter \<open>has_timestamp\<close>.
\<close>

subsection \<open>Levels and records\<close>

datatype log_level = LOG_LEVEL_DEBUG | LOG_LEVEL_INFO | LOG_LEVEL_WARNING | LOG_LEVEL_ERROR

text \<open>The values of the enumeration; its order is that of the values.\<close>

definition log_level_value :: "log_level \<Rightarrow> nat" where
  "log_level_value level = (case level of LOG_LEVEL_DEBUG \<Rightarrow> 0 | LOG_LEVEL_INFO \<Rightarrow> 1 | LOG_LEVEL_WARNING \<Rightarrow> 2 | LOG_LEVEL_ERROR \<Rightarrow> 3)"

lemma log_level_value_inject: "log_level_value a = log_level_value b \<longleftrightarrow> a = b"
  by (cases a; cases b) (simp_all add: log_level_value_def)

instantiation log_level :: linorder
begin

definition less_eq_log_level :: "log_level \<Rightarrow> log_level \<Rightarrow> bool" where
  "less_eq_log_level a b \<longleftrightarrow> log_level_value a \<le> log_level_value b"

definition less_log_level :: "log_level \<Rightarrow> log_level \<Rightarrow> bool" where
  "less_log_level a b \<longleftrightarrow> log_level_value a < log_level_value b"

instance
  by standard (auto simp: less_eq_log_level_def less_log_level_def log_level_value_inject [symmetric])

end

abbreviation (input) LOG_MODULE_NAME_MAX_LEN :: nat where "LOG_MODULE_NAME_MAX_LEN \<equiv> 15"
abbreviation (input) LOG_QUEUE_DEPTH :: nat where "LOG_QUEUE_DEPTH \<equiv> 16"
abbreviation (input) LOG_MESSAGE_MAX_LEN :: nat where "LOG_MESSAGE_MAX_LEN \<equiv> 128"
abbreviation (input) LOG_LINE_MAX_LEN :: nat where "LOG_LINE_MAX_LEN \<equiv> LOG_MESSAGE_MAX_LEN + 48"

text \<open>The two texts are the character arrays, with their null characters.\<close>

record log_record =
  lr_level :: log_level
  lr_module_name :: string
  lr_message :: string

definition s_level_name :: "log_level \<Rightarrow> string" where
  "s_level_name level = (case level of LOG_LEVEL_DEBUG \<Rightarrow> ''DEBUG'' | LOG_LEVEL_INFO \<Rightarrow> ''INFO''
     | LOG_LEVEL_WARNING \<Rightarrow> ''WARNING'' | LOG_LEVEL_ERROR \<Rightarrow> ''ERROR'')"

text \<open>The record a call fills: \<open>strncpy\<close> of at most 15 characters and a null character, and the formatted message cut to 127.\<close>

definition new_record :: "log_level \<Rightarrow> string \<Rightarrow> string \<Rightarrow> log_record" where
  "new_record level module_name text = \<lparr>lr_level = level,
     lr_module_name = cfield LOG_MODULE_NAME_MAX_LEN (cstr module_name) @ [NUL],
     lr_message = cfield LOG_MESSAGE_MAX_LEN (snprintf LOG_MESSAGE_MAX_LEN (cstr text))\<rparr>"

subsection \<open>The queue and its two ends\<close>

record log_state =
  lg_initialized :: bool
  lg_queue :: "log_record list"
  lg_uart :: string

definition log_send :: "log_record \<Rightarrow> log_state \<Rightarrow> bool \<times> log_state" where
  "log_send r s = (if length (lg_queue s) < LOG_QUEUE_DEPTH then (True, s\<lparr>lg_queue := lg_queue s @ [r]\<rparr>) else (False, s))"

definition log_receive :: "log_state \<Rightarrow> log_record option \<times> log_state" where
  "log_receive s = (case lg_queue s of [] \<Rightarrow> (None, s) | r # rest \<Rightarrow> (Some r, s\<lparr>lg_queue := rest\<rparr>))"

interpretation log: bounded_queue LOG_QUEUE_DEPTH lg_queue log_send
  by unfold_locales (auto simp: log_send_def split: if_splits)

text \<open>\<open>None\<close> is the abort of \<open>ESP_ERROR_CHECK\<close>; the parameters are the results of the four calls of ESP-IDF and FreeRTOS.\<close>

definition LogInit :: "esp_err \<Rightarrow> esp_err \<Rightarrow> bool \<Rightarrow> bool \<Rightarrow> log_state \<Rightarrow> log_state option" where
  "LogInit param_config driver_install has_queue has_task s =
     (if lg_initialized s then Some s
      else if param_config \<noteq> ESP_OK \<or> driver_install \<noteq> ESP_OK then None
      else if \<not> has_queue then Some s
      else if \<not> has_task then Some (s\<lparr>lg_queue := []\<rparr>)
      else Some (s\<lparr>lg_queue := [], lg_initialized := True\<rparr>))"

definition LogWrite :: "log_level \<Rightarrow> string \<Rightarrow> string \<Rightarrow> log_state \<Rightarrow> log_state" where
  "LogWrite level module_name text s =
     (if \<not> lg_initialized s then s
      else let r = new_record level module_name text; (is_sent, s) = log_send r s
           in if is_sent then s else let (discarded, s) = log_receive s; (is_sent, s) = log_send r s in s)"

text \<open>The macro of every log line: the level of the module filters the call.\<close>

definition LOG_EMIT :: "log_level \<Rightarrow> string \<Rightarrow> log_level \<Rightarrow> string \<Rightarrow> log_state \<Rightarrow> log_state" where
  "LOG_EMIT module_level module_name level text s = (if module_level \<le> level then LogWrite level module_name text s else s)"

text \<open>The conversion \<open>%lld\<close>, and the line of a record at an uptime in microseconds. C division truncates toward zero.\<close>

definition lld :: "int \<Rightarrow> string" where
  "lld i = (if i < 0 then ''-'' @ dec (nat (- i)) else dec (nat i))"

definition line_text :: "bool \<Rightarrow> 64 word \<Rightarrow> log_record \<Rightarrow> string" where
  "line_text has_timestamp uptime_us r =
     (if has_timestamp then ''['' @ lld (sint uptime_us sdiv 1000) @ '']'' else '''') @ ''['' @ s_level_name (lr_level r) @ ''][''
       @ cstr (lr_module_name r) @ ''] '' @ cstr (lr_message r) @ [CHR 0x0A]"

definition FormatRecord :: "bool \<Rightarrow> 64 word \<Rightarrow> log_record \<Rightarrow> nat \<Rightarrow> string" where
  "FormatRecord has_timestamp uptime_us r out_len = snprintf out_len (line_text has_timestamp uptime_us r)"

text \<open>One turn of the writer; with an empty queue it keeps waiting.\<close>

definition LogWriterTask :: "bool \<Rightarrow> 64 word \<Rightarrow> log_state \<Rightarrow> log_state" where
  "LogWriterTask has_timestamp uptime_us s = (case log_receive s of
     (None, s) \<Rightarrow> s
   | (Some r, s) \<Rightarrow> s\<lparr>lg_uart := lg_uart s @ FormatRecord has_timestamp uptime_us r LOG_LINE_MAX_LEN\<rparr>)"

lemmas queue_ops = log_send_def log_receive_def

subsection \<open>Lines\<close>

lemma cstr_length_less: "length buf \<le> n \<Longrightarrow> last buf = NUL \<Longrightarrow> 0 < n \<Longrightarrow> length (cstr buf) < n"
proof (cases "buf = []")
  case True assume "0 < n" then show ?thesis using True by (simp add: cstr_def)
next
  case False
  assume h: "length buf \<le> n" "last buf = NUL"
  then have "buf = butlast buf @ [NUL]" using False by (metis append_butlast_last_id)
  then have "cstr buf = cstr (butlast buf @ [NUL])" by simp
  also have "length \<dots> \<le> length (butlast buf)"
    using length_takeWhile_le [of "\<lambda>c. c \<noteq> NUL" "butlast buf"] by (simp add: cstr_def takeWhile_append)
  also have "\<dots> < n" using h False by (cases buf) auto
  finally show ?thesis .
qed

lemma length_lld_le: "\<bar>i\<bar> < 10 ^ Suc k \<Longrightarrow> length (lld i) \<le> Suc (Suc k)"
  using length_dec_le [of "nat (- i)" k] length_dec_le [of "nat i" k] by (auto simp: lld_def nat_less_iff)

lemma sdiv_bound:
  fixes i :: int assumes "\<bar>i\<bar> \<le> 1000 * n" "0 \<le> n" shows "\<bar>i sdiv 1000\<bar> \<le> n"
proof -
  have "\<bar>i sdiv 1000\<bar> = \<bar>i\<bar> div 1000" by (simp add: signed_divide_int_def sgn_if abs_mult)
  then show ?thesis using assms by linarith
qed

lemma length_uptime: "length (lld (sint (w :: 64 word) sdiv 1000)) \<le> 17"
proof -
  have "- (2 ^ 63) \<le> sint w" "sint w < 2 ^ 63" using sint_ge [of w] sint_lt [of w] by auto
  then have "\<bar>sint w\<bar> \<le> 1000 * (2 ^ 63 div 1000 + 1)" by simp
  then have "\<bar>sint w sdiv 1000\<bar> \<le> 2 ^ 63 div 1000 + 1" by (rule sdiv_bound) simp
  then show ?thesis using length_lld_le [of _ 15] by fastforce
qed

lemma length_s_level_name: "length (s_level_name level) \<le> 7"
  by (cases level) (simp_all add: s_level_name_def)

text \<open>A record whose two arrays have the sizes of the struct and end in a null character.\<close>

definition wf_log_record :: "log_record \<Rightarrow> bool" where
  "wf_log_record r \<longleftrightarrow> length (lr_module_name r) = LOG_MODULE_NAME_MAX_LEN + 1 \<and> last (lr_module_name r) = NUL \<and>
     length (lr_message r) = LOG_MESSAGE_MAX_LEN \<and> last (lr_message r) = NUL"

lemma last_cfield: "length s < n \<Longrightarrow> last (cfield n s) = NUL"
  by (simp add: cfield_def last_append)

lemma wf_new_record: "wf_log_record (new_record level module_name text)"
proof -
  have "length (snprintf LOG_MESSAGE_MAX_LEN (cstr text)) < LOG_MESSAGE_MAX_LEN" by (simp add: snprintf_def)
  then show ?thesis unfolding wf_log_record_def new_record_def using last_cfield by auto
qed

lemma wf_log_record_cstr:
  "wf_log_record r \<Longrightarrow> length (cstr (lr_module_name r)) \<le> 15" "wf_log_record r \<Longrightarrow> length (cstr (lr_message r)) \<le> 127"
  using cstr_length_less [of "lr_module_name r" 16] cstr_length_less [of "lr_message r" 128] by (auto simp: wf_log_record_def)

lemma FormatRecord_complete:
  assumes "wf_log_record r"
  shows "FormatRecord has_timestamp uptime_us r LOG_LINE_MAX_LEN = line_text has_timestamp uptime_us r"
proof -
  have "length (line_text has_timestamp uptime_us r) \<le> 174"
    using wf_log_record_cstr [OF assms] length_uptime [of uptime_us] length_s_level_name [of "lr_level r"]
    by (auto simp: line_text_def)
  then show ?thesis unfolding FormatRecord_def by (intro snprintf_fits) simp
qed

text \<open>What the two arrays of a new record say: the first 15 characters of the name and the first 127 of the message.\<close>

lemma takeWhile_take_all: "\<forall>x\<in>set xs. P x \<Longrightarrow> takeWhile P (xs @ replicate n y) = (if P y then xs @ replicate n y else xs)"
  by (induction xs) (auto simp: takeWhile_replicate)

lemma cstr_cfield_take: "NUL \<notin> set s \<Longrightarrow> cstr (cfield n s @ [NUL]) = take n s"
proof -
  assume h: "NUL \<notin> set s"
  have "cfield n s = take n s @ replicate (n - length s) NUL" by (simp add: cfield_def)
  then have "cfield n s @ [NUL] = take n s @ replicate (Suc (n - length s)) NUL" by (simp add: replicate_append_same)
  moreover have "\<forall>x\<in>set (take n s). x \<noteq> NUL" using h by (auto dest: in_set_takeD)
  ultimately show ?thesis unfolding cstr_def by (simp add: takeWhile_take_all del: replicate_Suc)
qed

lemma new_record_texts:
  "lr_level (new_record level module_name text) = level"
  "cstr (lr_module_name (new_record level module_name text)) = take 15 (cstr module_name)"
  "cstr (lr_message (new_record level module_name text)) = take 127 (cstr text)"
proof -
  have n: "NUL \<notin> set (take 127 (cstr text))" using NUL_notin_cstr in_set_takeD by fast
  show "lr_level (new_record level module_name text) = level" by (simp add: new_record_def)
  show "cstr (lr_module_name (new_record level module_name text)) = take 15 (cstr module_name)"
    by (simp add: new_record_def cstr_cfield_take)
  show "cstr (lr_message (new_record level module_name text)) = take 127 (cstr text)"
    unfolding new_record_def using cstr_cfield [OF n, of 128] by (simp add: snprintf_def)
qed

subsection \<open>A call that nothing interrupts\<close>

text \<open>The last \<open>n\<close> elements of a list.\<close>

definition last_n :: "nat \<Rightarrow> 'a list \<Rightarrow> 'a list" where
  "last_n n xs = drop (length xs - n) xs"

lemma last_n_append: "last_n n (last_n n xs @ ys) = last_n n (xs @ ys)"
proof (cases "length xs \<le> n")
  case True then show ?thesis by (simp add: last_n_def)
next
  case False
  then have "length xs - n + (n + length ys - n) = length xs + length ys - n" by simp
  then show ?thesis using False by (simp add: last_n_def drop_append add.commute)
qed

lemma LogWrite_keeps_last:
  assumes "lg_initialized s" "length (lg_queue s) \<le> LOG_QUEUE_DEPTH"
  shows "LogWrite level name text s = s\<lparr>lg_queue := last_n LOG_QUEUE_DEPTH (lg_queue s @ [new_record level name text])\<rparr>"
proof (cases "length (lg_queue s) < LOG_QUEUE_DEPTH")
  case True
  then show ?thesis using assms by (simp add: LogWrite_def queue_ops last_n_def)
next
  case False
  then obtain r q where "lg_queue s = r # q" "length q = 15" using assms by (cases "lg_queue s") auto
  then show ?thesis using assms by (simp add: LogWrite_def queue_ops last_n_def Let_def)
qed

text \<open>Calls in a row: level, module name and text of each.\<close>

fun log_calls :: "(log_level \<times> string \<times> string) list \<Rightarrow> log_state \<Rightarrow> log_state" where
  "log_calls [] s = s"
| "log_calls ((level, name, text) # cs) s = log_calls cs (LogWrite level name text s)"

fun call_record :: "log_level \<times> string \<times> string \<Rightarrow> log_record" where
  "call_record (level, name, text) = new_record level name text"

lemma log_calls_keep_last:
  assumes "lg_initialized s" "length (lg_queue s) \<le> LOG_QUEUE_DEPTH"
  shows "log_calls cs s = s\<lparr>lg_queue := last_n LOG_QUEUE_DEPTH (lg_queue s @ map call_record cs)\<rparr>"
  using assms
proof (induction cs s rule: log_calls.induct)
  case (1 s)
  then show ?case by (simp add: last_n_def)
next
  case (2 level name body cs s)
  let ?s = "LogWrite level name body s"
  have e: "?s = s\<lparr>lg_queue := last_n LOG_QUEUE_DEPTH (lg_queue s @ [new_record level name body])\<rparr>"
    by (rule LogWrite_keeps_last [OF 2(2,3)])
  then have "lg_initialized ?s" "length (lg_queue ?s) \<le> LOG_QUEUE_DEPTH" using 2(2) by (auto simp: last_n_def)
  from 2(1) [OF this] show ?case by (simp add: e last_n_append)
qed

text \<open>The writer drains the queue in its order, one line a record.\<close>

fun log_writer_turns :: "bool \<Rightarrow> 64 word list \<Rightarrow> log_state \<Rightarrow> log_state" where
  "log_writer_turns has_timestamp [] s = s"
| "log_writer_turns has_timestamp (us # uptimes) s = log_writer_turns has_timestamp uptimes (LogWriterTask has_timestamp us s)"

lemma LogWriterTask_turn:
  "lg_queue s = r # q \<Longrightarrow> wf_log_record r \<Longrightarrow> LogWriterTask has_timestamp us s =
     s\<lparr>lg_queue := q, lg_uart := lg_uart s @ line_text has_timestamp us r\<rparr>"
  by (simp add: LogWriterTask_def log_receive_def FormatRecord_complete [simplified])

lemma log_writer_drains:
  assumes "length uptimes = length (lg_queue s)" "\<forall>r\<in>set (lg_queue s). wf_log_record r"
  shows "log_writer_turns has_timestamp uptimes s =
    s\<lparr>lg_queue := [], lg_uart := lg_uart s @ concat (map2 (line_text has_timestamp) uptimes (lg_queue s))\<rparr>"
  using assms
proof (induction has_timestamp uptimes s rule: log_writer_turns.induct)
  case (1 has_timestamp s)
  then show ?case by simp
next
  case (2 has_timestamp us uptimes s)
  then obtain r q where q: "lg_queue s = r # q" by (cases "lg_queue s") auto
  then have t: "LogWriterTask has_timestamp us s = s\<lparr>lg_queue := q, lg_uart := lg_uart s @ line_text has_timestamp us r\<rparr>"
    using 2(3) by (simp add: LogWriterTask_turn)
  have "length uptimes = length (lg_queue (LogWriterTask has_timestamp us s))"
    "\<forall>r\<in>set (lg_queue (LogWriterTask has_timestamp us s)). wf_log_record r" using 2(2,3) q by (auto simp: t)
  from 2(1) [OF this] show ?case by (simp add: t q)
qed

subsection \<open>Calls of several tasks\<close>

text \<open>
  Where a task stands in \<open>LogWrite\<close>: outside, after a first send that found the queue full, or after it made room.
  The ghost fields record the calls in their order, the records the queue took in their order, how many calls found the queue full,
  and what the writer printed with the uptimes.
\<close>

datatype log_pc = LOG_OUTSIDE | LOG_FULL log_record | LOG_ROOM log_record

record log_system =
  ly_state :: log_state
  ly_pc :: "nat \<Rightarrow> log_pc"
  ly_called :: "log_record list"
  ly_taken :: "log_record list"
  ly_full :: nat
  ly_printed :: "(64 word \<times> log_record) list"

inductive log_step :: "bool \<Rightarrow> log_system \<Rightarrow> log_system \<Rightarrow> bool" for has_timestamp where
  call_sent: "lg_initialized (ly_state y) \<Longrightarrow> ly_pc y t = LOG_OUTSIDE \<Longrightarrow> r = new_record level name body \<Longrightarrow>
    log_send r (ly_state y) = (True, s) \<Longrightarrow>
    log_step has_timestamp y (y\<lparr>ly_state := s, ly_called := ly_called y @ [r], ly_taken := ly_taken y @ [r]\<rparr>)"
| call_full: "lg_initialized (ly_state y) \<Longrightarrow> ly_pc y t = LOG_OUTSIDE \<Longrightarrow> r = new_record level name body \<Longrightarrow>
    log_send r (ly_state y) = (False, s) \<Longrightarrow>
    log_step has_timestamp y (y\<lparr>ly_state := s, ly_pc := (ly_pc y)(t := LOG_FULL r), ly_called := ly_called y @ [r],
      ly_full := Suc (ly_full y)\<rparr>)"
| discard: "ly_pc y t = LOG_FULL r \<Longrightarrow> log_receive (ly_state y) = (discarded, s) \<Longrightarrow>
    log_step has_timestamp y (y\<lparr>ly_state := s, ly_pc := (ly_pc y)(t := LOG_ROOM r)\<rparr>)"
| second_sent: "ly_pc y t = LOG_ROOM r \<Longrightarrow> log_send r (ly_state y) = (True, s) \<Longrightarrow>
    log_step has_timestamp y (y\<lparr>ly_state := s, ly_pc := (ly_pc y)(t := LOG_OUTSIDE), ly_taken := ly_taken y @ [r]\<rparr>)"
| second_lost: "ly_pc y t = LOG_ROOM r \<Longrightarrow> log_send r (ly_state y) = (False, s) \<Longrightarrow>
    log_step has_timestamp y (y\<lparr>ly_state := s, ly_pc := (ly_pc y)(t := LOG_OUTSIDE)\<rparr>)"
| print: "lg_queue (ly_state y) = r # q \<Longrightarrow>
    log_step has_timestamp y (y\<lparr>ly_state := LogWriterTask has_timestamp us (ly_state y), ly_printed := ly_printed y @ [(us, r)]\<rparr>)"

text \<open>The state after \<open>LogInit\<close>, before the first call.\<close>

definition log_start :: log_system where
  "log_start = \<lparr>ly_state = \<lparr>lg_initialized = True, lg_queue = [], lg_uart = ''''\<rparr>, ly_pc = (\<lambda>_. LOG_OUTSIDE), ly_called = [],
     ly_taken = [], ly_full = 0, ly_printed = []\<rparr>"

inductive log_reach :: "bool \<Rightarrow> log_system \<Rightarrow> bool" for has_timestamp where
  start: "log_reach has_timestamp log_start"
| step: "log_reach has_timestamp y \<Longrightarrow> log_step has_timestamp y y' \<Longrightarrow> log_reach has_timestamp y'"

text \<open>Records under way hold well-formed arrays and come from calls; the rest is the account of what was printed.\<close>

definition log_inv :: "bool \<Rightarrow> log_system \<Rightarrow> bool" where
  "log_inv has_timestamp y \<longleftrightarrow> (\<forall>r\<in>set (ly_called y). wf_log_record r) \<and> set (ly_taken y) \<subseteq> set (ly_called y) \<and>
     (\<forall>t r. ly_pc y t = LOG_FULL r \<or> ly_pc y t = LOG_ROOM r \<longrightarrow> r \<in> set (ly_called y)) \<and>
     length (lg_queue (ly_state y)) \<le> LOG_QUEUE_DEPTH \<and> subseq (map snd (ly_printed y) @ lg_queue (ly_state y)) (ly_taken y) \<and>
     lg_uart (ly_state y) = concat (map (\<lambda>(us, r). line_text has_timestamp us r) (ly_printed y))"

lemma log_send_form:
  "log_send r s = (b, s') \<Longrightarrow> (if b then length (lg_queue s) < LOG_QUEUE_DEPTH \<and> s' = s\<lparr>lg_queue := lg_queue s @ [r]\<rparr> else s' = s)"
  by (auto simp: log_send_def split: if_splits)

lemma log_receive_form: "log_receive s = (d, s') \<Longrightarrow> s' = s\<lparr>lg_queue := tl (lg_queue s)\<rparr>"
  by (cases s) (auto simp: log_receive_def split: list.splits)

lemma subseq_drop_mid: "subseq (xs @ ys) zs \<Longrightarrow> subseq (xs @ tl ys) zs"
  by (cases ys) (auto intro: subseq_order.trans [OF list_emb_append_mono [OF subseq_order.refl list_emb_Cons [OF subseq_order.refl]]])

lemma subseq_snoc: "subseq (xs @ ys) zs \<Longrightarrow> subseq (xs @ ys @ [r]) (zs @ [r])"
  using list_emb_append_mono [of "(=)" "xs @ ys" zs "[r]" "[r]"] by simp

lemma log_inv_step: "log_step has_timestamp y y' \<Longrightarrow> log_inv has_timestamp y \<Longrightarrow> log_inv has_timestamp y'"
proof (induction rule: log_step.induct)
  case (call_sent y t r level name body s)
  then show ?case using log_send_form [OF call_sent(4)] subseq_snoc wf_new_record by (auto simp: log_inv_def)
next
  case (call_full y t r level name body s)
  then show ?case using log_send_form [OF call_full(4)] wf_new_record by (auto simp: log_inv_def)
next
  case (discard y t r discarded s)
  then show ?case using log_receive_form [OF discard(2)] subseq_drop_mid by (auto simp: log_inv_def)
next
  case (second_sent y t r s)
  then show ?case using log_send_form [OF second_sent(2)] subseq_snoc by (auto simp: log_inv_def)
next
  case (second_lost y t r s)
  then show ?case using log_send_form [OF second_lost(2)] by (auto simp: log_inv_def)
next
  case (print y r q us)
  then have "r \<in> set (ly_taken y)" using list_emb_set [of "(=)" "map snd (ly_printed y) @ r # q" "ly_taken y" r] by (auto simp: log_inv_def)
  then have "wf_log_record r" using print(2) by (auto simp: log_inv_def)
  then show ?case using print by (simp add: log_inv_def LogWriterTask_turn)
qed

lemma log_reach_inv: "log_reach has_timestamp y \<Longrightarrow> log_inv has_timestamp y"
proof (induction rule: log_reach.induct)
  case start
  then show ?case by (simp add: log_inv_def log_start_def)
next
  case (step y y')
  then show ?case using log_inv_step by blast
qed

text \<open>
  The account of the records that were neither printed nor are queued: each call that found the queue full costs at most two, the
  one it discarded and its own.
\<close>

definition log_waiting :: "log_system \<Rightarrow> nat set" where
  "log_waiting y = {t. \<exists>r. ly_pc y t = LOG_FULL r}"

definition log_account :: "log_system \<Rightarrow> bool" where
  "log_account y \<longleftrightarrow> finite (log_waiting y) \<and> length (ly_called y) \<le> length (ly_taken y) + ly_full y \<and>
     length (ly_taken y) + card (log_waiting y) \<le> length (ly_printed y) + length (lg_queue (ly_state y)) + ly_full y \<and>
     (ly_full y = 0 \<longrightarrow> (\<forall>t. ly_pc y t = LOG_OUTSIDE) \<and> ly_taken y = ly_called y)"

lemma log_waiting_upd:
  "ly_pc y' = (ly_pc y)(t := pc) \<Longrightarrow> log_waiting y' = (case pc of LOG_FULL r \<Rightarrow> insert t (log_waiting y) | _ \<Rightarrow> log_waiting y - {t})"
  by (cases pc) (auto simp: log_waiting_def)

lemma log_account_step: "log_step has_timestamp y y' \<Longrightarrow> log_account y \<Longrightarrow> log_account y'"
proof (induction rule: log_step.induct)
  case (call_sent y t r level name body s)
  then show ?case using log_send_form [OF call_sent(4)] by (simp add: log_account_def log_waiting_def)
next
  case (call_full y t r level name body s)
  let ?y = "y\<lparr>ly_state := s, ly_pc := (ly_pc y)(t := LOG_FULL r), ly_called := ly_called y @ [r], ly_full := Suc (ly_full y)\<rparr>"
  have "log_waiting ?y = insert t (log_waiting y)" using log_waiting_upd [of ?y y t "LOG_FULL r"] by simp
  moreover have "t \<notin> log_waiting y" using call_full by (simp add: log_waiting_def)
  ultimately show ?case using log_send_form [OF call_full(4)] call_full(5) by (simp add: log_account_def)
next
  case (discard y t r discarded s)
  let ?y = "y\<lparr>ly_state := s, ly_pc := (ly_pc y)(t := LOG_ROOM r)\<rparr>"
  have w: "log_waiting ?y = log_waiting y - {t}" using log_waiting_upd [of ?y y t "LOG_ROOM r"] by simp
  have t: "t \<in> log_waiting y" using discard by (simp add: log_waiting_def)
  moreover have "finite (log_waiting y)" using discard by (simp add: log_account_def)
  ultimately have "Suc (card (log_waiting ?y)) = card (log_waiting y)" unfolding w by (rule card.remove [symmetric, rotated])
  moreover have "ly_full y \<noteq> 0" using discard by (metis log_account_def log_pc.distinct(1))
  moreover have "length (lg_queue (ly_state y)) \<le> Suc (length (lg_queue s))" using log_receive_form [OF discard(2)] by simp
  moreover have "finite (log_waiting ?y)" unfolding w using discard by (simp add: log_account_def)
  ultimately show ?case using discard(3) unfolding log_account_def by simp
next
  case (second_sent y t r s)
  let ?y = "y\<lparr>ly_state := s, ly_pc := (ly_pc y)(t := LOG_OUTSIDE), ly_taken := ly_taken y @ [r]\<rparr>"
  have "log_waiting ?y = log_waiting y" using log_waiting_upd [of ?y y t LOG_OUTSIDE] second_sent by (auto simp: log_waiting_def)
  moreover have "ly_full y \<noteq> 0" using second_sent by (metis log_account_def log_pc.distinct(3))
  ultimately show ?case using log_send_form [OF second_sent(2)] second_sent(3) by (simp add: log_account_def)
next
  case (second_lost y t r s)
  let ?y = "y\<lparr>ly_state := s, ly_pc := (ly_pc y)(t := LOG_OUTSIDE)\<rparr>"
  have "log_waiting ?y = log_waiting y" using log_waiting_upd [of ?y y t LOG_OUTSIDE] second_lost by (auto simp: log_waiting_def)
  then show ?case using log_send_form [OF second_lost(2)] second_lost(3) by (simp add: log_account_def)
next
  case (print y r q us)
  then have "lg_queue (LogWriterTask has_timestamp us (ly_state y)) = q" by (simp add: LogWriterTask_def log_receive_def)
  then show ?case using print by (simp add: log_account_def log_waiting_def)
qed

lemma log_reach_account: "log_reach has_timestamp y \<Longrightarrow> log_account y"
proof (induction rule: log_reach.induct)
  case start
  then show ?case by (simp add: log_account_def log_start_def log_waiting_def)
next
  case (step y y')
  then show ?case using log_account_step by blast
qed

text \<open>A call that nothing interrupts is a run of these steps of one task.\<close>

lemma LogWrite_is_run:
  assumes r: "log_reach has_timestamp y" and "lg_initialized (ly_state y)" and t: "ly_pc y t = LOG_OUTSIDE"
  shows "\<exists>y'. log_reach has_timestamp y' \<and> ly_state y' = LogWrite level name body (ly_state y) \<and> ly_pc y' = ly_pc y \<and>
    ly_called y' = ly_called y @ [new_record level name body]"
proof -
  let ?r = "new_record level name body"
  obtain b s1 where s1: "log_send ?r (ly_state y) = (b, s1)" by fastforce
  show ?thesis
  proof (cases b)
    case True
    have "log_step has_timestamp y (y\<lparr>ly_state := s1, ly_called := ly_called y @ [?r], ly_taken := ly_taken y @ [?r]\<rparr>)"
      by (rule call_sent [OF assms(2) t HOL.refl]) (use s1 True in simp)
    from log_reach.step [OF r this] show ?thesis using s1 True assms(2) by (fastforce simp: LogWrite_def Let_def)
  next
    case False
    let ?y1 = "y\<lparr>ly_state := s1, ly_pc := (ly_pc y)(t := LOG_FULL ?r), ly_called := ly_called y @ [?r], ly_full := Suc (ly_full y)\<rparr>"
    have "log_step has_timestamp y ?y1" by (rule call_full [OF assms(2) t HOL.refl]) (use s1 False in simp)
    then have r1: "log_reach has_timestamp ?y1" by (rule log_reach.step [OF r])
    obtain d s2 where s2: "log_receive s1 = (d, s2)" by fastforce
    let ?y2 = "?y1\<lparr>ly_state := s2, ly_pc := (ly_pc ?y1)(t := LOG_ROOM ?r)\<rparr>"
    have "log_step has_timestamp ?y1 ?y2" by (rule discard [of _ t ?r]) (simp_all add: s2)
    then have r2: "log_reach has_timestamp ?y2" by (rule log_reach.step [OF r1])
    have room: "log_send ?r s2 = (True, s2\<lparr>lg_queue := lg_queue s2 @ [?r]\<rparr>)"
    proof -
      have "length (lg_queue s1) \<le> LOG_QUEUE_DEPTH"
        using log_reach_inv [OF r1] by (simp add: log_inv_def)
      then show ?thesis using log_receive_form [OF s2] by (cases "lg_queue s1") (auto simp: log_send_def)
    qed
    let ?s3 = "s2\<lparr>lg_queue := lg_queue s2 @ [?r]\<rparr>"
    let ?y3 = "?y2\<lparr>ly_state := ?s3, ly_pc := (ly_pc ?y2)(t := LOG_OUTSIDE), ly_taken := ly_taken ?y2 @ [?r]\<rparr>"
    have "log_step has_timestamp ?y2 ?y3" by (rule second_sent) (simp_all add: room)
    from log_reach.step [OF r2 this] have "log_reach has_timestamp ?y3" .
    moreover have "ly_state ?y3 = LogWrite level name body (ly_state y)"
      using s1 s2 room False assms(2) by (simp add: LogWrite_def Let_def)
    moreover have "ly_pc ?y3 = ly_pc y" using t by (auto simp: fun_eq_iff)
    ultimately show ?thesis by fastforce
  qed
qed

text \<open>
  The comment of \<open>LogWrite\<close> says that on a full queue the newest message replaces the oldest. With a second task this does not
  always hold: when that task logs between the receive and the second send, the queue is full again and the newest message is lost as well.
\<close>

lemma newest_can_be_lost:
  assumes r: "log_reach has_timestamp y" and "lg_initialized (ly_state y)" "length (lg_queue (ly_state y)) = LOG_QUEUE_DEPTH"
    and t: "ly_pc y t = LOG_OUTSIDE" "ly_pc y u = LOG_OUTSIDE" "t \<noteq> u" and that: "other = new_record level' name' body'"
  shows "\<exists>y'. log_reach has_timestamp y' \<and> ly_pc y' = ly_pc y \<and> ly_called y' = ly_called y @ [new_record level name body, other] \<and>
    ly_taken y' = ly_taken y @ [other] \<and> lg_queue (ly_state y') = tl (lg_queue (ly_state y)) @ [other]"
proof -
  let ?r = "new_record level name body" and ?q = "lg_queue (ly_state y)"
  let ?y1 = "y\<lparr>ly_state := ly_state y, ly_pc := (ly_pc y)(t := LOG_FULL ?r), ly_called := ly_called y @ [?r], ly_full := Suc (ly_full y)\<rparr>"
  let ?s2 = "(ly_state y)\<lparr>lg_queue := tl ?q\<rparr>"
  let ?y2 = "?y1\<lparr>ly_state := ?s2, ly_pc := (ly_pc ?y1)(t := LOG_ROOM ?r)\<rparr>"
  let ?s3 = "?s2\<lparr>lg_queue := tl ?q @ [other]\<rparr>"
  let ?y3 = "?y2\<lparr>ly_state := ?s3, ly_called := ly_called ?y2 @ [other], ly_taken := ly_taken ?y2 @ [other]\<rparr>"
  let ?y4 = "?y3\<lparr>ly_state := ?s3, ly_pc := (ly_pc ?y3)(t := LOG_OUTSIDE)\<rparr>"
  have "log_step has_timestamp y ?y1" by (rule call_full) (use assms in \<open>simp_all add: log_send_def\<close>)
  then have r1: "log_reach has_timestamp ?y1" by (rule log_reach.step [OF r])
  have "log_step has_timestamp ?y1 ?y2"
    by (rule discard [where discarded = "Some (hd ?q)"]) (use assms(3) in \<open>auto simp: log_receive_def split: list.splits\<close>)
  then have r2: "log_reach has_timestamp ?y2" by (rule log_reach.step [OF r1])
  have "log_step has_timestamp ?y2 ?y3"
    by (rule call_sent [where t = u]) (use assms that in \<open>simp_all add: log_send_def\<close>)
  then have r3: "log_reach has_timestamp ?y3" by (rule log_reach.step [OF r2])
  have "log_step has_timestamp ?y3 ?y4"
    by (rule second_lost [where r = ?r]) (use assms(3) in \<open>simp_all add: log_send_def\<close>)
  then have "log_reach has_timestamp ?y4" by (rule log_reach.step [OF r3])
  moreover have "ly_pc ?y4 = ly_pc y" using t by (auto simp: fun_eq_iff)
  ultimately show ?thesis by (intro exI [of _ ?y4]) simp
qed

subsection \<open>Properties\<close>

text \<open>
  A burst of logging calls followed by the writer prints, after what was printed before, exactly the last 16 of the queued and
  newly logged records in their order: nothing else is lost, and no line is cut whatever the texts and the uptime are. The line of a
  record names its level, the first 15 characters of the module name and the first 127 of the message.
\<close>

theorem log_burst_printed:
  assumes "lg_initialized s" "length (lg_queue s) \<le> LOG_QUEUE_DEPTH" "\<forall>r\<in>set (lg_queue s). wf_log_record r"
    and "length uptimes = min LOG_QUEUE_DEPTH (length (lg_queue s) + length calls)"
  shows "lg_uart (log_writer_turns has_timestamp uptimes (log_calls calls s)) =
    lg_uart s @ concat (map2 (line_text has_timestamp) uptimes (last_n LOG_QUEUE_DEPTH (lg_queue s @ map call_record calls)))"
proof -
  have w: "\<forall>r\<in>set (last_n LOG_QUEUE_DEPTH (lg_queue s @ map call_record calls)). wf_log_record r"
    using assms(3) wf_new_record by (auto simp: last_n_def dest!: in_set_dropD)
  show ?thesis unfolding log_calls_keep_last [OF assms(1,2)]
    using w assms(4) by (subst log_writer_drains) (simp_all add: last_n_def)
qed

theorem log_burst_printed_witness:
  "lg_uart (log_writer_turns True [2500000, 3500000] (log_calls [(LOG_LEVEL_INFO, ''main'', ''up''), (LOG_LEVEL_ERROR, ''led'', ''down'')]
     \<lparr>lg_initialized = True, lg_queue = [], lg_uart = ''''\<rparr>)) =
   concat (map2 (line_text True) [2500000, 3500000] [new_record LOG_LEVEL_INFO ''main'' ''up'', new_record LOG_LEVEL_ERROR ''led'' ''down''])"
  using log_burst_printed [of "\<lparr>lg_initialized = True, lg_queue = [], lg_uart = ''''\<rparr>" "[2500000, 3500000]"
    "[(LOG_LEVEL_INFO, ''main'', ''up''), (LOG_LEVEL_ERROR, ''led'', ''down'')]" True]
  by (simp add: last_n_def)

text \<open>
  What a reader of the serial port takes for the complete line of a record: the uptime in milliseconds where the build has time stamps,
  the level, the module name and the whole message, closed by the newline. (It says nothing of the buffer the code prints into.)
\<close>

definition complete_line :: "bool \<Rightarrow> 64 word \<Rightarrow> log_record \<Rightarrow> string \<Rightarrow> bool" where
  "complete_line has_timestamp uptime_us r line \<longleftrightarrow>
     (\<exists>stamp. line = stamp @ ''['' @ s_level_name (lr_level r) @ '']['' @ cstr (lr_module_name r) @ ''] '' @ cstr (lr_message r) @ [CHR 0x0A] \<and>
        stamp = (if has_timestamp then ''['' @ lld (sint uptime_us sdiv 1000) @ '']'' else []))"

text \<open>
  C40: In every interleaving of the logging tasks with the writer, what the UART received are complete lines of records that were
  logged: each ends with the newline and has the level, the module name and the whole message of its record (the first 127 characters of what the
  caller formatted) before it, cut nowhere, in the order in which the queue took the records, with the queued records next; the queue
  never overflows. At most two records are lost for each call that found the queue full, and as long as no call did, every logged record is
  printed or queued, in order.
\<close>

theorem log_lines_account:
  assumes "log_reach has_timestamp y"
  shows "(\<exists>lines. lg_uart (ly_state y) = concat lines \<and>
      list_all2 (\<lambda>line (us, r). complete_line has_timestamp us r line) lines (ly_printed y)) \<and>
    (\<forall>level name body. lr_level (new_record level name body) = level \<and> cstr (lr_module_name (new_record level name body)) = take 15 (cstr name) \<and>
      cstr (lr_message (new_record level name body)) = take 127 (cstr body)) \<and>
    subseq (map snd (ly_printed y) @ lg_queue (ly_state y)) (ly_taken y) \<and> set (ly_taken y) \<subseteq> set (ly_called y) \<and>
    length (lg_queue (ly_state y)) \<le> LOG_QUEUE_DEPTH \<and>
    length (ly_called y) \<le> length (ly_printed y) + length (lg_queue (ly_state y)) + 2 * ly_full y \<and>
    (ly_full y = 0 \<longrightarrow> map snd (ly_printed y) @ lg_queue (ly_state y) = ly_called y)"
proof -
  note i = log_reach_inv [OF assms, unfolded log_inv_def] and a = log_reach_account [OF assms, unfolded log_account_def]
  have "complete_line has_timestamp us r (line_text has_timestamp us r)" for us r
    by (simp add: complete_line_def line_text_def)
  then have "list_all2 (\<lambda>line (us, r). complete_line has_timestamp us r line)
      (map (\<lambda>(us, r). line_text has_timestamp us r) (ly_printed y)) (ly_printed y)"
    by (auto simp: list_all2_conv_all_nth split: prod.split)
  then have "\<exists>lines. lg_uart (ly_state y) = concat lines \<and>
      list_all2 (\<lambda>line (us, r). complete_line has_timestamp us r line) lines (ly_printed y)"
    using i by blast
  moreover have "length (ly_called y) \<le> length (ly_printed y) + length (lg_queue (ly_state y)) + 2 * ly_full y" using a by linarith
  moreover have "map snd (ly_printed y) @ lg_queue (ly_state y) = ly_called y" if "ly_full y = 0"
  proof -
    have "subseq (map snd (ly_printed y) @ lg_queue (ly_state y)) (ly_called y)" using i a that by simp
    moreover have "length (ly_called y) \<le> length (map snd (ly_printed y) @ lg_queue (ly_state y))" using a that by simp
    ultimately show ?thesis using list_emb_length [of "(=)"] subseq_same_length by fastforce
  qed
  ultimately show ?thesis using i new_record_texts by blast
qed

text \<open>A task logs and the writer prints the line.\<close>

definition logged_once :: log_system where
  "logged_once = (let r = new_record LOG_LEVEL_INFO ''main'' ''up''
     in log_start\<lparr>ly_state := \<lparr>lg_initialized = True, lg_queue = [], lg_uart = FormatRecord True 2500000 r LOG_LINE_MAX_LEN\<rparr>,
       ly_called := [r], ly_taken := [r], ly_printed := [(2500000, r)]\<rparr>)"

lemma logged_once_reach: "log_reach True logged_once"
proof -
  let ?r = "new_record LOG_LEVEL_INFO ''main'' ''up''"
  let ?y = "log_start\<lparr>ly_state := \<lparr>lg_initialized = True, lg_queue = [?r], lg_uart = ''''\<rparr>, ly_called := [?r], ly_taken := [?r]\<rparr>"
  have "log_step True log_start (log_start\<lparr>ly_state := \<lparr>lg_initialized = True, lg_queue = [?r], lg_uart = ''''\<rparr>,
      ly_called := ly_called log_start @ [?r], ly_taken := ly_taken log_start @ [?r]\<rparr>)"
    by (rule call_sent) (simp_all add: log_start_def log_send_def)
  then have "log_reach True ?y" using log_reach.step [OF log_reach.start] by (simp add: log_start_def)
  moreover have "log_step True ?y (?y\<lparr>ly_state := LogWriterTask True 2500000 (ly_state ?y), ly_printed := ly_printed ?y @ [(2500000, ?r)]\<rparr>)"
    by (rule print) simp
  ultimately have "log_reach True (?y\<lparr>ly_state := LogWriterTask True 2500000 (ly_state ?y), ly_printed := ly_printed ?y @ [(2500000, ?r)]\<rparr>)"
    by (rule log_reach.step)
  then show ?thesis by (simp add: logged_once_def log_start_def LogWriterTask_def log_receive_def Let_def)
qed

theorem log_lines_account_witness:
  "lg_uart (ly_state logged_once) = ''[2500][INFO][main] up'' @ [CHR 0x0A] \<and>
   map snd (ly_printed logged_once) @ lg_queue (ly_state logged_once) = ly_called logged_once"
proof -
  let ?r = "new_record LOG_LEVEL_INFO ''main'' ''up''"
  note t = log_lines_account [OF logged_once_reach]
  have p: "ly_printed logged_once = [(2500000, ?r)]" "ly_full logged_once = 0" by (simp_all add: logged_once_def log_start_def Let_def)
  then obtain line where l: "lg_uart (ly_state logged_once) = line" "complete_line True 2500000 ?r line"
    using t by (auto simp: list_all2_Cons2)
  have "lld (sint (2500000 :: 64 word) sdiv 1000) = ''2500''"
    by (simp add: lld_def signed_divide_int_def dec.simps, simp add: char_of_def bit_0)
  moreover have "cstr ''main'' = ''main''" "cstr ''up'' = ''up''" by (simp_all add: cstr_def NUL_def)
  ultimately have "line = ''[2500][INFO][main] up'' @ [CHR 0x0A]"
    using l(2) t by (simp add: complete_line_def s_level_name_def)
  then show ?thesis using l(1) t p(2) by simp
qed

end
