(* ===== verification/FirmwareMain.thy ===== *)
theory FirmwareMain
  imports ProvisioningMachine PulseCapture Logging
begin

section \<open>Start of the firmware\<close>

text \<open>
  Model of main/hello_world_main.c: the order in which \<open>app_main\<close> starts logging, the pulse monitor, the LED controller and
  provisioning, and of components/fw_meta/include/fw_build_config.h. The lines that \<open>app_main\<close> logs itself go to the log state;
  those of the components it starts are not modelled.
\<close>

definition FW_BUILD_CONFIG_NAME :: "bool \<Rightarrow> bool \<Rightarrow> bool \<Rightarrow> string" where
  "FW_BUILD_CONFIG_NAME is_optimization_debug is_optimization_size is_optimization_perf =
     (if is_optimization_debug then ''debug (-Og)'' else if is_optimization_size then ''release (-Os)''
      else if is_optimization_perf then ''other (-O2)'' else ''other (-O0)'')"

text \<open>The results of the calls of ESP-IDF and FreeRTOS during the start, the version in the image and the build configuration.\<close>

record firmware_env =
  fe_uart_param :: esp_err
  fe_uart_install :: esp_err
  fe_log_queue :: bool
  fe_log_task :: bool
  fe_project_ver :: "byte list"
  fe_build_config :: string
  fe_pulse :: pulse_start_env
  fe_led :: led_start_env
  fe_ap_netif :: bool
  fe_sta_netif :: bool
  fe_timer_create :: esp_err
  fe_timer_start :: esp_err

record ('h, 'e, 'n, 'd) firmware =
  fm_log :: log_state
  fm_pulse :: "'h pulse"
  fm_led :: led_state
  fm_orch :: "('e, 'n, 'd) orch"
  fm_has_orch_task :: bool
  fm_has_healthy_timer :: bool

definition log_main :: "log_level \<Rightarrow> string \<Rightarrow> ('h, 'e, 'n, 'd) firmware \<Rightarrow> ('h, 'e, 'n, 'd) firmware" where
  "log_main level text f = f\<lparr>fm_log := LOG_EMIT LOG_LEVEL_DEBUG ''main'' level text (fm_log f)\<rparr>"

text \<open>The two components of the strip: a failed start is logged and the start goes on.\<close>

definition start_strip :: "'h rx_drv \<Rightarrow> firmware_env \<Rightarrow> ('h, 'e, 'n, 'd) firmware \<Rightarrow> ('h, 'e, 'n, 'd) firmware" where
  "start_strip rx env f =
     (let (is_monitor, pulse) = StartPulseMonitor rx (fe_pulse env) (fm_pulse f); f = f\<lparr>fm_pulse := pulse\<rparr>;
          f = (if \<not> is_monitor then log_main LOG_LEVEL_ERROR ''pulse monitor failed to start; WS2812 pulses will not be measured'' f else f);
          (is_led, led) = StartLedController (fe_led env) (fm_led f); f = f\<lparr>fm_led := led\<rparr>
      in if \<not> is_led then log_main LOG_LEVEL_ERROR ''led controller failed to start; strip will not be driven'' f else f)"

text \<open>\<open>app_main\<close> of the firmware; \<open>None\<close> is the abort of \<open>LogInit\<close> when the UART driver cannot be installed.\<close>

definition firmware_main ::
  "'h rx_drv \<Rightarrow> ('e, 'n, 'd) orch_drv \<Rightarrow> firmware_env \<Rightarrow> ('h, 'e, 'n, 'd) firmware \<Rightarrow> ('h, 'e, 'n, 'd) firmware option" where
  "firmware_main rx E env f =
     (case LogInit (fe_uart_param env) (fe_uart_install env) (fe_log_queue env) (fe_log_task env) (fm_log f) of
        None \<Rightarrow> None
      | Some log \<Rightarrow>
          (let f = f\<lparr>fm_log := log\<rparr>;
               f = log_main LOG_LEVEL_INFO (''firmware '' @ bytes_str (GetFwVersion (fe_project_ver env)) @ '', build configuration: ''
                     @ fe_build_config env) f;
               f = log_main LOG_LEVEL_INFO ''logging initialized'' f;
               f = start_strip rx env f;
               (has_task, has_timer, s) =
                 ProvisioningStart E (fe_ap_netif env) (fe_sta_netif env) (fe_timer_create env) (fe_timer_start env) (fm_orch f);
               f = f\<lparr>fm_orch := s, fm_has_orch_task := has_task, fm_has_healthy_timer := has_timer\<rparr>
           in Some (log_main LOG_LEVEL_INFO ''startup sequence handed off to provisioning'' f)))"

text \<open>
  Provisioning starts whatever became of the pulse monitor and the LED controller, in the state of its own start; only a UART that
  cannot be installed stops the start.
\<close>

lemma LogInit_None_iff:
  "LogInit param_config driver_install has_queue has_task s = None \<longleftrightarrow>
     \<not> lg_initialized s \<and> (param_config \<noteq> ESP_OK \<or> driver_install \<noteq> ESP_OK)"
  by (simp add: LogInit_def)

lemma log_main_keeps [simp, frame]:
  "fm_orch (log_main level body f) = fm_orch f" "fm_has_orch_task (log_main level body f) = fm_has_orch_task f"
  "fm_has_healthy_timer (log_main level body f) = fm_has_healthy_timer f"
  by (simp_all add: log_main_def)

lemma start_strip_keeps [simp, frame]: "fm_orch (start_strip rx env f) = fm_orch f"
proof -
  obtain m p where m: "StartPulseMonitor rx (fe_pulse env) (fm_pulse f) = (m, p)" by fastforce
  define g where "g = (if \<not> m then log_main LOG_LEVEL_ERROR ''pulse monitor failed to start; WS2812 pulses will not be measured''
    (f\<lparr>fm_pulse := p\<rparr>) else f\<lparr>fm_pulse := p\<rparr>)"
  obtain l q where l: "StartLedController (fe_led env) (fm_led g) = (l, q)" by fastforce
  have "fm_orch g = fm_orch f" by (simp add: g_def)
  then show ?thesis using m l unfolding start_strip_def by (simp add: g_def [symmetric] Let_def)
qed

lemma firmware_main_None_iff:
  "firmware_main rx E env f = None \<longleftrightarrow> \<not> lg_initialized (fm_log f) \<and> (fe_uart_param env \<noteq> ESP_OK \<or> fe_uart_install env \<noteq> ESP_OK)"
  unfolding LogInit_None_iff [symmetric, where has_queue = "fe_log_queue env" and has_task = "fe_log_task env"] firmware_main_def Let_def
  by (simp split: option.split prod.split)

lemma firmware_main_provisions:
  assumes "firmware_main rx E env f = Some f'"
  shows "(fm_has_orch_task f', fm_has_healthy_timer f', fm_orch f') =
    ProvisioningStart E (fe_ap_netif env) (fe_sta_netif env) (fe_timer_create env) (fe_timer_start env) (fm_orch f)"
proof -
  obtain t h s where p: "ProvisioningStart E (fe_ap_netif env) (fe_sta_netif env) (fe_timer_create env) (fe_timer_start env) (fm_orch f)
      = (t, h, s)" by (metis prod.exhaust)
  show ?thesis using assms unfolding firmware_main_def Let_def by (auto simp: p split: option.splits)
qed

lemma firmware_main_reaches:
  assumes "firmware_main rx E env f = Some f'" "power_on E (fm_orch f)" "fm_has_orch_task f'"
  shows "orch_reach E recv (fm_orch f')"
  using orch_reach.start [OF assms(2)] firmware_main_provisions [OF assms(1)] assms(3) by metis

end
