(* ===== verification/TunerCycle.thy ===== *)
theory TunerCycle
  imports ProvisioningMachine PulseCapture
begin

section \<open>From the submitted timing to the served measurement\<close>

text \<open>
  The way of one tuner submission through the components: the request of the HTTP server task, the orchestrator's message, the
  LED driver task, the capture of the pulse monitor, the orchestrator's message with the result, and the reply to the query.
  Each part is the model of its component; the definitions here only put them in the order in which the tasks run when
  nothing else happens.
\<close>

text \<open>The arming function the LED driver calls, with the lock free.\<close>

definition arm_capture :: "'h rx_drv \<Rightarrow> ws2812_timing \<Rightarrow> u32 \<Rightarrow> byte list \<Rightarrow> 'h pulse \<Rightarrow> 'h pulse" where
  "arm_capture rx t submit_seq px = ArmPulseCapture rx True (Some t) submit_seq (Some px)"

text \<open>The interrupt of a finished receive, and the decode task from the arm signal to the publication.\<close>

definition capture_round :: "'h rx_drv \<Rightarrow> rmt_symbol list \<Rightarrow> 'h pulse \<Rightarrow> 'h pulse" where
  "capture_round rx symbols p =
     (let p = HandleRxDone (length symbols) (p\<lparr>ps_hw := rx_finish rx (ps_hw p), ps_symbol_buffer := symbols\<rparr>);
          wait = GetArmedSeq p; event = the (ps_capture_queue p);
          (is_current, wait, p) = TakeCurrentCapture event wait (p\<lparr>ps_capture_queue := None, ps_armed_sem := False\<rparr>)
      in if is_current then HandleCapture event p else p)"

text \<open>The monitor can be armed: started, no receive in flight, callback registered, and a receive that the driver accepts.\<close>

definition monitor_ready :: "'h rx_drv \<Rightarrow> 'h pulse \<Rightarrow> bool" where
  "monitor_ready rx p \<longleftrightarrow> ps_rx_channel p \<and> \<not> ps_is_receive_pending p \<and> ps_result_cb p \<and> length (ps_armed_pixel_grb p) = 18 \<and>
     length (ps_decode_pixel_grb p) = 18 \<and> fst (rx_receive rx (ps_hw p)) = ESP_OK"

lemma capture_round_publishes:
  assumes "monitor_ready rx p" "length px = 18" "length symbols = 144"
    and "AggregateWs2812Pulses symbols 144 t px 18 25 = Some st"
  shows "ps_published (capture_round rx symbols (arm_capture rx t n px p)) =
    ps_published p @ [pulse_result n WS2812_MEASUREMENT_DONE (Some st)]"
proof -
  obtain hw where rx: "rx_receive rx (ps_hw p) = (ESP_OK, hw)" using assms(1) by (cases "rx_receive rx (ps_hw p)") (auto simp: monitor_ready_def)
  let ?q = "ps_armed_seq p + 1"
  have arm: "arm_capture rx t n px p = CommitSend t n px ?q (p\<lparr>ps_capture_seq := ?q, ps_is_receive_pending := True, ps_hw := hw\<rparr>)"
    using assms(1,2) rx by (simp add: monitor_ready_def arm_capture_def ArmPulseCapture_def StartTaggedReceive_def TagReceive_def IssueReceive_def Let_def)
  have px: "overwrite 0 px xs = px" if "length xs = 18" for xs using assms(2) that by (simp add: overwrite_def)
  show ?thesis
    using assms px unfolding arm by (simp add: monitor_ready_def capture_round_def HandleRxDone_def TakeCurrentCapture_def CommitSend_def
      ClearPendingArmSignal_def HandleCapture_def DecodeCapture_def PublishPulseResult_def PublishMeasurement_def Let_def)
qed

text \<open>A frame that the driver can send: no earlier one in flight and every call of the RMT driver succeeds.\<close>

definition driver_ready :: "led_env \<Rightarrow> led_state \<Rightarrow> bool" where
  "driver_ready env led \<longleftrightarrow> ls_has_queue led \<and> \<not> ls_is_frame_in_flight led \<and> ls_pixel_grb led = BuildLedPixelPattern \<and>
     le_update_config env = ESP_OK \<and> le_transmit env = ESP_OK \<and> le_wait_done env = ESP_OK"

lemma driver_round:
  assumes "driver_ready env led" "RunLedDriverTask arm env (ApplyWs2812Timing (Some t) n led, p) = (led', p')"
  shows "p' = arm t n BuildLedPixelPattern p" "ls_config led' = BuildBytesEncoderConfig t" "ls_pixel_grb led' = BuildLedPixelPattern"
    "ls_reset_symbol led' = BuildResetSymbol t"
  using assms by (auto simp: driver_ready_def ApplyWs2812Timing_def RunLedDriverTask_def DriveFrame_def WaitForPreviousFrame_def
    UpdateWs2812Encoder_def Let_def split: if_splits)

lemma pattern_bits: "length BuildLedPixelPattern = 18" "\<exists>i<144. expected_bit BuildLedPixelPattern 18 i"
  "\<exists>i<144. \<not> expected_bit BuildLedPixelPattern 18 i"
proof -
  show "length BuildLedPixelPattern = 18" by (simp add: BuildLedPixelPattern_def)
  show "\<exists>i<144. expected_bit BuildLedPixelPattern 18 i"
    by (rule exI [of _ 10]) (simp add: expected_bit_def BuildLedPixelPattern_def LED_CONTROLLER_CHANNEL_VALUE_def bit_word_iff_drop_bit_and)
  show "\<exists>i<144. \<not> expected_bit BuildLedPixelPattern 18 i"
    by (rule exI [of _ 0]) (simp add: expected_bit_def BuildLedPixelPattern_def LED_CONTROLLER_CHANNEL_VALUE_def bit_word_iff_drop_bit_and)
qed

lemma loopback_measurement:
  assumes "valid_timing t" and "map (\<lambda>s. (rs_level0 s, rs_duration0 s)) symbols
      = map (\<lambda>s. (rs_level0 s, rs_duration0 s)) (data_symbols (BuildBytesEncoderConfig t) BuildLedPixelPattern)"
  obtains st where "length symbols = 144" "AggregateWs2812Pulses symbols 144 t BuildLedPixelPattern 18 25 = Some st"
    "unat (st_bit0_high_avg_ns st) = unat (wt_bit0_high_ns t)" "unat (st_bit1_high_avg_ns st) = unat (wt_bit1_high_ns t)"
    "st_match_available st = (wt_bit0_high_ns t \<noteq> wt_bit1_high_ns t)"
    "unat (st_match_count st) = (if wt_bit0_high_ns t \<noteq> wt_bit1_high_ns t then 144 else 0)"
proof -
  have len: "length symbols = 144" using arg_cong [OF assms(2), of length] pattern_bits(1) by (simp add: length_data_symbols)
  have "ValidateWs2812Timing t = WS2812_TIMING_OK" using assms(1) by (simp add: ValidateWs2812Timing_OK)
  note l = loopback_stats [OF this pattern_bits(1) assms(2), unfolded len]
  obtain st where st: "AggregateWs2812Pulses symbols 144 t BuildLedPixelPattern 18 25 = Some st" using Aggregate_Some by blast
  show thesis by (rule that [OF len st]) (use l pattern_bits(2,3) in \<open>auto simp: st\<close>)
qed

subsection \<open>The whole way\<close>

text \<open>What the orchestrator's calls do to the LED controller: \<open>os_out\<close> lists them.\<close>

definition deliver :: "orch_out \<Rightarrow> led_state \<Rightarrow> led_state" where
  "deliver x led = (case x of LED_TIMING_APPLIED t n \<Rightarrow> ApplyWs2812Timing (Some t) n led | _ \<Rightarrow> led)"

definition tuner_cycle where
  "tuner_cycle recv E rx env symbols len = (\<lambda>(s, net, led, p).
     (let (reply, calls, h, net) = HandleTunerSubmitRequest recv len (os_http s, net);
          s = RunOrchestratorTask E (fold s_portal_ops calls (s\<lparr>os_http := h\<rparr>));
          (led, p) = RunLedDriverTask (arm_capture rx) env (deliver (last (os_out s)) led, p);
          p = capture_round rx symbols p;
          s = RunOrchestratorTask E (PostPulseResult (Some (last (ps_published p))) s)
      in (reply, s, led, p)))"

lemma submit_turn:
  assumes "os_queue s = []"
  shows "RunOrchestratorTask E (fold s_portal_ops [APPLY_LED_TIMING t n] (s\<lparr>os_http := h\<rparr>)) =
    s\<lparr>os_http := h, os_out := os_out s @ [LED_TIMING_APPLIED t n]\<rparr>"
  using assms by (simp add: s_portal_ops_def SubmitLedTiming_def RunOrchestratorTask_def HandleMessage_def)

lemma result_turn:
  assumes "os_queue s = []"
  shows "RunOrchestratorTask E (PostPulseResult (Some m) s) = s\<lparr>os_http := SetHttpTunerResult (Some m) (os_http s)\<rparr>"
  using assms by (simp add: PostPulseResult_def RunOrchestratorTask_def HandleMessage_def)

lemma result_query:
  assumes "wm_submit_seq m = n" "wm_submit_seq (hs_result h) \<le> n" "n \<le> hs_submit_seq h" "n \<noteq> 0"
  shows "HandleTunerResultRequest (Some (''seq='' @ dec (unat n))) (SetHttpTunerResult (Some m) h) =
    respond ''200 OK'' ''text/plain'' (tuner_result_text (GetTunerResultState n (hs_submit_seq h) m) m)"
proof -
  have "length (dec (unat n)) \<le> 10" by (rule length_dec_word)
  then have len: "\<not> TUNER_RESULT_QUERY_MAX \<le> length (''seq='' @ dec (unat n))" by simp
  have "ParseTunerResultSeq (Some (''seq='' @ dec (unat n))) = Some n" using ParseTunerResultSeq_roundtrip [of "[]" n] by simp
  then show ?thesis using assms FormatTunerResult_complete
    unfolding HandleTunerResultRequest_def option.case if_not_P [OF len] by (simp add: SetHttpTunerResult_def Let_def)
qed

text \<open>The parts of the whole way; nothing is said of what was captured.\<close>

lemma tuner_cycle_parts:
  assumes "valid_timing t" and "form_arrives recv 0 (tuner_form t) net" and "hs_tuner_body (os_http s) = zero_tuner_body"
    and "os_queue s = []" and "n = hs_submit_seq (os_http s) + 1" and "driver_ready env led"
    and "tuner_cycle recv E rx env symbols (of_nat (length (tuner_form t))) (s, net, led, p) = (reply, s', led', p')"
  shows "reply = respond_seq n ''Sent''" and "ls_config led' = BuildBytesEncoderConfig t" and "ls_pixel_grb led' = BuildLedPixelPattern"
    and "p' = capture_round rx symbols (arm_capture rx t n BuildLedPixelPattern p)"
    and "s' = s\<lparr>os_http := SetHttpTunerResult (Some (last (ps_published p')))
           ((os_http s)\<lparr>hs_tuner_body := zero_tuner_body, hs_submit_seq := n\<rparr>), os_out := os_out s @ [LED_TIMING_APPLIED t n]\<rparr>"
    and "ls_reset_symbol led' = BuildResetSymbol t"
proof -
  let ?h = "(os_http s)\<lparr>hs_tuner_body := zero_tuner_body, hs_submit_seq := n\<rparr>"
  have body: "length (hs_tuner_body (os_http s)) = TUNER_BODY_MAX + 1" using assms(3) by (simp add: zero_tuner_body_def)
  obtain net' where h: "HandleTunerSubmitRequest recv (of_nat (length (tuner_form t))) (os_http s, net) =
      (respond_seq n ''Sent'', [APPLY_LED_TIMING t n], ?h, net')"
    using tuner_form_applied [OF assms(1,2) body] assms(5) by auto
  obtain led1 p1 where d: "RunLedDriverTask (arm_capture rx) env (ApplyWs2812Timing (Some t) n led, p) = (led1, p1)" by fastforce
  let ?p2 = "capture_round rx symbols p1"
  have c: "reply = respond_seq n ''Sent'' \<and> led' = led1 \<and> p' = ?p2 \<and>
      s' = RunOrchestratorTask E (PostPulseResult (Some (last (ps_published ?p2))) (s\<lparr>os_http := ?h, os_out := os_out s @ [LED_TIMING_APPLIED t n]\<rparr>))"
    using assms(7) h d submit_turn [OF assms(4), of E t n ?h] by (auto simp: tuner_cycle_def deliver_def Let_def)
  then show "reply = respond_seq n ''Sent''" by simp
  show "s' = s\<lparr>os_http := SetHttpTunerResult (Some (last (ps_published p')))
           ((os_http s)\<lparr>hs_tuner_body := zero_tuner_body, hs_submit_seq := n\<rparr>), os_out := os_out s @ [LED_TIMING_APPLIED t n]\<rparr>"
    using c assms(4) by (simp add: result_turn)
  show "ls_config led' = BuildBytesEncoderConfig t" "ls_pixel_grb led' = BuildLedPixelPattern"
    "p' = capture_round rx symbols (arm_capture rx t n BuildLedPixelPattern p)" "ls_reset_symbol led' = BuildResetSymbol t"
    using c driver_round [OF assms(6) d] by simp_all
qed

lemma done_text:
  assumes "unat (st_bit0_high_avg_ns st) = a" "unat (st_bit1_high_avg_ns st) = b" "unat (st_match_count st) \<le> 144"
  shows "tuner_result_text TUNER_RESULT_DONE (pulse_result n WS2812_MEASUREMENT_DONE (Some st)) =
    ''state=done&b0='' @ dec a @ ''&b1='' @ dec b @ ''&match='' @ (if st_match_available st then dec (unat (st_match_count st)) else ''n/a'')"
proof -
  have "unat (ucast (st_match_count st) :: u16) = unat (st_match_count st)"
    using assms(3) by (simp add: unsigned_ucast_eq take_bit_nat_eq_self)
  then show ?thesis using assms(1,2) by (simp add: tuner_result_text_def pulse_result_def)
qed

text \<open>C8: what is submitted is what is measured and served. The form of a valid timing set arrives at an idle device whose strip output is
  read back by its own input. Then the reply carries the next number; the LED driver sends the frame with exactly this timing set: the two
  bit symbols are high and low for the submitted times and the reset symbol lasts the submitted reset time, to the nanosecond; the
  monitor publishes one measurement for this number, and the query with this number is answered with the submitted high times
  as measured values, and with 144 matching bits when the two high times differ; when they are equal (a valid set may differ in
  the periods only, or not at all) the bits cannot be told apart and the match is answered as not available.\<close>

theorem submitted_timing_measured_and_served:
  assumes "valid_timing t" and "form_arrives recv 0 (tuner_form t) net" and "hs_tuner_body (os_http s) = zero_tuner_body"
    and "os_queue s = []" and "n = hs_submit_seq (os_http s) + 1" and "n \<noteq> 0" and "wm_submit_seq (hs_result (os_http s)) \<le> n"
    and "driver_ready env led" and "monitor_ready rx p"
    and "tuner_cycle recv E rx env symbols (of_nat (length (tuner_form t))) (s, net, led, p) = (reply, s', led', p')"
    and "map (\<lambda>s. (rs_level0 s, rs_duration0 s)) symbols
      = map (\<lambda>s. (rs_level0 s, rs_duration0 s)) (data_symbols (ls_config led') (ls_pixel_grb led'))"
  shows "reply = respond_seq n ''Sent'' \<and> os_out s' = os_out s @ [LED_TIMING_APPLIED t n] \<and>
    exact_symbol (bc_bit0 (ls_config led')) (unat (wt_bit0_high_ns t)) (unat (wt_bit0_period_ns t) - unat (wt_bit0_high_ns t)) \<and>
    exact_symbol (bc_bit1 (ls_config led')) (unat (wt_bit1_high_ns t)) (unat (wt_bit1_period_ns t) - unat (wt_bit1_high_ns t)) \<and>
    ls_reset_symbol led' = BuildResetSymbol t \<and> 25 * unat (rs_duration0 (ls_reset_symbol led')) = 1000 * unat (wt_reset_us t) \<and>
    (\<exists>m. ps_published p' = ps_published p @ [m] \<and> wm_submit_seq m = n) \<and>
    hr_body (HandleTunerResultRequest (Some (''seq='' @ dec (unat n))) (os_http s')) =
      ''state=done&b0='' @ dec (unat (wt_bit0_high_ns t)) @ ''&b1='' @ dec (unat (wt_bit1_high_ns t)) @ ''&match='' @
        (if wt_bit0_high_ns t \<noteq> wt_bit1_high_ns t then dec 144 else ''n/a'')"
proof -
  let ?h = "(os_http s)\<lparr>hs_tuner_body := zero_tuner_body, hs_submit_seq := n\<rparr>"
  note c = tuner_cycle_parts [OF assms(1-5,8,10)]
  obtain st where st: "length symbols = 144" "AggregateWs2812Pulses symbols 144 t BuildLedPixelPattern 18 25 = Some st"
    "unat (st_bit0_high_avg_ns st) = unat (wt_bit0_high_ns t)" "unat (st_bit1_high_avg_ns st) = unat (wt_bit1_high_ns t)"
    "st_match_available st = (wt_bit0_high_ns t \<noteq> wt_bit1_high_ns t)"
    "unat (st_match_count st) = (if wt_bit0_high_ns t \<noteq> wt_bit1_high_ns t then 144 else 0)"
    by (rule loopback_measurement [OF assms(1) assms(11) [unfolded c(2,3)]])
  let ?m = "pulse_result n WS2812_MEASUREMENT_DONE (Some st)"
  have m: "ps_published p' = ps_published p @ [?m]"
    unfolding c(4) by (rule capture_round_publishes [OF assms(9) pattern_bits(1) st(1,2)])
  have mf: "wm_submit_seq ?m = n" "wm_state ?m = WS2812_MEASUREMENT_DONE" by (simp_all add: pulse_result_def)
  have "GetTunerResultState n n ?m = TUNER_RESULT_DONE" using mf assms(6) by (simp add: GetTunerResultState_def)
  moreover have "os_http s' = SetHttpTunerResult (Some ?m) ?h" "os_out s' = os_out s @ [LED_TIMING_APPLIED t n]"
    unfolding c(5) by (simp_all add: m)
  moreover have "ValidateWs2812Timing t = WS2812_TIMING_OK" using assms(1) by (simp add: ValidateWs2812Timing_OK)
  note x = valid_timing_symbols_exact [OF this, folded c(2,6)]
  ultimately show ?thesis
    using c(1,6) x m mf done_text [OF st(3,4)] st(5,6) result_query [OF mf(1), of ?h] assms(6,7) by (auto simp: respond_def)
qed

text \<open>The example: the default timing set on a started device.\<close>

definition example_led :: led_state where
  "example_led = \<lparr>ls_channel = True, ls_config = BuildBytesEncoderConfig default_timing, ls_reset_symbol = BuildResetSymbol default_timing,
     ls_pixel_grb = BuildLedPixelPattern, ls_queue = None, ls_has_queue = True, ls_is_frame_in_flight = False, ls_is_boot_frame = False,
     ls_boot_done = True\<rparr>"

definition led_works :: led_env where
  "led_works = \<lparr>le_wait_previous = ESP_OK, le_update_config = ESP_OK, le_transmit = ESP_OK, le_wait_done = ESP_OK\<rparr>"

theorem submitted_timing_measured_and_served_witness:
  "case tuner_cycle whole_recv example_drv rx_example led_works
       (data_symbols (BuildBytesEncoderConfig default_timing) BuildLedPixelPattern)
       (of_nat (length (tuner_form default_timing))) (example_orch, tuner_form default_timing, example_led, example_statics) of
     (reply, s', led', p') \<Rightarrow> reply = respond_seq 1 ''Sent'' \<and>
       hr_body (HandleTunerResultRequest (Some (''seq='' @ dec 1)) (os_http s')) =
         ''state=done&b0='' @ dec 400 @ ''&b1='' @ dec 800 @ ''&match='' @ dec 144"
proof -
  let ?symbols = "data_symbols (BuildBytesEncoderConfig default_timing) BuildLedPixelPattern"
  have h: "form_arrives whole_recv 0 (tuner_form default_timing) (tuner_form default_timing)"
    by (rule whole_recv_arrives [OF default_form(1)])
  have o: "hs_tuner_body (os_http example_orch) = zero_tuner_body" "os_queue example_orch = []" "1 = hs_submit_seq (os_http example_orch) + 1"
    "(1 :: u32) \<noteq> 0" "wm_submit_seq (hs_result (os_http example_orch)) \<le> 1"
    by (simp_all add: example_defs initial_http_def zero_tuner_body_def zero_measurement_def)
  have r: "driver_ready led_works example_led" "monitor_ready rx_example example_statics"
    by (simp_all add: driver_ready_def led_works_def example_led_def monitor_ready_def example_statics_def rx_example_def)
  obtain reply s' led' p' where c: "tuner_cycle whole_recv example_drv rx_example led_works ?symbols (of_nat (length (tuner_form default_timing)))
      (example_orch, tuner_form default_timing, example_led, example_statics) = (reply, s', led', p')" by (metis prod.exhaust)
  note parts = tuner_cycle_parts [OF default_form(2) h o(1-3) r(1) c]
  have "wt_bit0_high_ns default_timing = 400" "wt_bit1_high_ns default_timing = 800" by (simp_all add: default_timing_def)
  with submitted_timing_measured_and_served [OF default_form(2) h o r c] parts(2,3) show ?thesis by (simp add: c)
qed

end
