(* ===== verification/Spec2Isabelle.thy ===== *)
theory Spec2Isabelle
  imports FwUpdate UpdaterMain PulseCapture ProvisioningMachine Reconnect UpdateCycle FirmwareMain TunerCycle
begin

text \<open>
  Verification library of the RGB strip tuner: an ESP32-C3 firmware that drives a WS2812 strip with adjustable pulse timings, measures
  the pulses with a second RMT channel, and is provisioned and operated over HTTP; and the updater application that starts it,
  watches over its crashes and installs new images.

  \<^bold>\<open>The program.\<close> At every reset the updater (updater/main) reads the two records of the fw_meta partition (components/fw_meta),
  decides whether to jump to the firmware in ota_0 or to stay in updater mode, and there serves a page that installs an uploaded
  image. The firmware (main) starts logging, pulse monitor and LED controller and hands over to the provisioning orchestrator: one
  task with a queue of 8 messages and one deadline, which starts and stops access point, station, DNS server, mDNS and the two
  profiles of the HTTP server, tries submitted credentials before it stores them, reconnects with growing delays, hands timing sets to the
  LED driver and measurements to the HTTP server, and after a gesture of the button restarts into the updater.

  \<^bold>\<open>Theories and sources.\<close>
  \<^item> Prelude: machine types, error codes, little-endian layout, C strings, formatting; the collections \<open>layout\<close>, \<open>cstr\<close>, \<open>frame\<close>.
    Queue: the contract of the FreeRTOS queues (locale \<open>bounded_queue\<close>), interpreted on the three queues that are sent to.
  \<^item> FwMeta (fw_meta.c, fw_meta.h): records and bytes, CRC-32, versions, image head, boot decision. FwMetaFlash (fw_meta_flash.c):
    the accesses to the partition over a driver parameter with the laws of NOR flash (locale \<open>flash_driver\<close>, and the contract
    \<open>meta_store\<close> it gives). OtaFlash: the ota_0 partition and its writer as ESP-IDF documents them (locale \<open>box_flash\<close>).
  \<^item> UpdaterMain (updater_main.c), UpdaterHttp (updater_http.c), UpdaterPage (updater_page.c), UpdaterAp (updater_ap.c): the
    start, the upload with its two tasks, the page and the access point. FwUpdate (main/fw_update): the firmware's side.
  \<^item> Ws2812Timing (main/ws2812_timing), LedController (main/led_controller), RmtPulseMonitor and PulseCapture (both
    main/rmt_pulse_monitor, the pure and the stateful part).
  \<^item> CredentialStore (main/credential_store) over an NVS parameter with the locale \<open>nvs_store\<close>; Button (main/button).
  \<^item> Platform: the calls of Wi-Fi, sockets and HTTP server as a parameter with a log of the calls (locale \<open>wifi_platform\<close>), and the contract
    \<open>service\<close> of what is started and stopped, interpreted on the DNS server, mDNS and both HTTP profiles. WifiManager, DnsServer,
    MdnsService, HttpPortal, PortalForm, PortalPages, StationOrigin and TunerResult model the files of their names under main.
    Json is a specification, not code: an independent JSON reader with which the scan list and the escaping are read back.
  \<^item> Provisioning (main/provisioning/provisioning.c): the state \<open>orch\<close> and every function; ProvisioningRuns: the task, the other tasks
    and the environment as interleaved steps; ProvisioningMachine: the abstract machine, the refinement and the
    properties; Reconnect: the runs between the loss of a connection and its return.
  \<^item> UpdateCycle: the update across the two applications, from the gesture to the start of the new image; what a failed upload leaves; the
    flash while the firmware runs.
  \<^item> TunerCycle: the way of a submitted timing set through HTTP server, orchestrator, LED driver and pulse monitor and back.
  \<^item> Logging (main/logging) and FirmwareMain (main/hello_world_main.c, fw_build_config.h). This theory: properties across applications.

  \<^bold>\<open>How code became definitions.\<close> A C struct or the static variables of a file are a record, an enum is a datatype, integers
  are words of their width, a buffer is a list, a string is its content before the terminator, an out parameter is a
  component of the result, and a function that changes state takes and returns it. Functions under \<open>main\<close> and \<open>components\<close> have the name
  of the source; a loop or block that became a definition of its own has a name in lower case. Third-party code (ESP-IDF,
  FreeRTOS, lwIP, NVS, mDNS) is a parameter: a record of functions over an abstract device state or the list of the results its calls
  return; the laws assumed of it are the documented behaviour, and each set of laws is instantiated by a concrete device, on which the
  witnesses run. Whether a call fails is always left to the device, so the safety properties hold with failures in any place.

  \<^bold>\<open>What the groups of lemmas show.\<close>
  \<^item> Update and start: a jump only to a verified image, which stays as verified while it runs; what an upload installs, in which cases, and that
    after a failed one the device stays in the updater until one succeeds (unless the very erase of the record fails); at most one
    upload claimed and without a result, whatever the two tasks do while the worker still replies; the gesture, the upload and
    the next start as one cycle that ends with the new image running; three crashes in a row stop the firmware, a healthy run resets
    the count; the CRC detects every burst of four bytes, also in the checksum.
  \<^item> Provisioning: in every interleaving exactly the services of the state have been started and not stopped; the refinement of the abstract machine; credentials
    change only when a trial has connected, atomically under power loss, whatever an earlier failure left; five boot attempts; a lost connection is tried again for ever, with
    delays that double up to a minute; no state waits for ever.
  \<^item> Strip: every request has at most one outcome and none is lost, whatever the receive driver does; every published measurement
    belongs to its request, as long as no receive survives a failed \<open>rmt_disable\<close> (\<open>stopped_reach\<close>; PulseCapture shows what
    happens otherwise); the driver's own frame is measured exactly, the
    statistics equal their reference definitions, the frame encoder ends however the memory is refilled; with the output looped back,
    a submitted timing set is what the query for its number reports as measured.
  \<^item> HTTP, DNS and text: what each handler accepts and calls, that pages of other origins have no effect, escaping and
    decoding, the scan list, result queries; the DNS task replies to well-formed questions, all of them and nothing else.
  \<^item> Button and logging: the ring buffer against the list of presses; complete lines, order, and what is lost on a full queue.

  \<^bold>\<open>Bounds and termination.\<close> No definition has fuel that could run out in the properties: loops are structural or have a measure. The
  receive loops end since each call delivers data, fails, or uses up one of the timeouts (5 in a row for an upload, 3 for a form). Runs are
  inductive relations, so their properties hold for any number of steps. The conversion of milliseconds to ticks is that of
  FreeRTOS without overflow, which the constants of the code (at most 60 s) never reach.

  \<^bold>\<open>Not modelled.\<close> The JavaScript of the two pages is text (another language); log lines outside theory Logging and outside the few whose
  text is computed; the wiping of local copies of passwords, except of the static form buffers; sockets below the bytes
  received and sent and the results of opening them; GPIO configuration, task creation and stack sizes; the delays before the
  two restarts, of which only the decision is kept; the build files, Python tools and tests, which are not code of
  the device. Handlers of one task are one step each; what other tasks can do in between is a step of the relations only
  where they share state (queues, the shared status of the portal, the capture sections of the pulse monitor, the upload hand-off:
  the worker takes a request, processes it, sets the result and only then replies, each a step of its own). The DNS task has no step in
  the relation of the orchestrator: its handle and stop flag are what the orchestrator knows of it, and RunDnsTask is modelled apart.
\<close>

section \<open>Crashes and healthy runs\<close>

text \<open>C13: a firmware that runs long enough is not stopped by later crashes. When the orchestrator, idle, reaches the healthy deadline, its turn
  clears the crash count, whatever it was; the start after a crash then jumps to the firmware again with count 1. Record and
  image are unchanged, so the same holds again for the next run: only crashes before the deadline add up to the stop of
  the property on three crashes.\<close>

theorem healthy_run_resets_crashes:
  assumes "box_laws (od_partition E) ota" and "reliable_box (od_partition E) ota ok" and "jump_works env ota"
    and "IsCrashReset (me_reset_reason env)" and "ok (os_flash s)"
    and "IsFwMetaRecordValid (stored_meta (od_partition E) (os_flash s)) (od_size ota)"
    and "\<not> IsFwForceRequested (stored_meta (od_partition E) (os_flash s))"
    and "record_matches ota (os_flash s) (stored_meta (od_partition E) (os_flash s))"
    and "os_queue s = []" and "os_is_healthy_pending s" and "GetRemainingTicks E (os_healthy_deadline_ticks s) s = 0"
    and "app_main env (od_partition E) (Some ota) (os_flash (RunOrchestratorTask E s)) = (out, d')"
  shows "cr_crash_count (effective_ctrl (od_partition E) (os_flash (RunOrchestratorTask E s))) = 0 \<and>
    out = JumpedToFirmware (od_address ota, od_size ota) \<and> cr_crash_count (effective_ctrl (od_partition E) d') = 1 \<and> ok d' \<and>
    stored_meta (od_partition E) d' = stored_meta (od_partition E) (os_flash s) \<and> od_mem ota d' = od_mem ota (os_flash s)"
proof -
  let ?drv = "od_partition E" and ?d = "MarkFirmwareHealthy (od_partition E) (os_flash s)"
  have bx: "box_flash ?drv ota" using assms(1) by (simp add: box_laws_iff)
  note h = box_flash.MarkFirmwareHealthy_reliable [OF bx reliable_boxD [OF assms(2)] assms(5)]
  have d: "os_flash (RunOrchestratorTask E s) = ?d"
    using assms(9-11) by (simp add: RunOrchestratorTask_def timeout_turn_def HandleTimeout_flash Let_def)
  have inputs: "stored_inputs env ?drv ota ?d = \<lparr>bi_is_force_requested = False, bi_is_record_valid = True, bi_is_ota_match = True,
      bi_crash_count = 0, bi_boot_attempts = cr_boot_attempts (effective_ctrl ?drv ?d), bi_reset_reason = me_reset_reason env\<rparr>"
    using assms(6-8) h by (simp add: stored_inputs_def Let_def record_matches_def)
  have "me_reset_reason env \<noteq> ESP_RST_DEEPSLEEP" using assms(4) by (auto simp: IsCrashReset_def)
  then have dec: "DecideFwBoot (stored_inputs env ?drv ota ?d) = \<lparr>bd_mode = FW_BOOT_FIRMWARE, bd_crash_count = 1\<rparr>"
    using inputs assms(4) by (simp add: DecideFwBoot_def Let_def FW_CRASH_RESET_LIMIT_def word_le_nat_alt)
  obtain d1 where a: "app_main env ?drv (Some ota) ?d = (JumpedToFirmware (od_address ota, od_size ota), d1)" "ok d1"
    "cr_crash_count (effective_ctrl ?drv d1) = 1"
    by (rule box_flash.app_main_starts [OF bx assms(2) h(1) assms(3)]) (simp_all add: dec)
  show ?thesis using a h assms(12) box_flash.app_main_jump_facts(6,7) [OF bx a(1)] by (simp add: d)
qed

theorem healthy_run_resets_crashes_witness:
  "let E = drv_on nor_drv; s = (orch_on (example_box FW_FORCE_BOOTLOADER_CLEAR 2))\<lparr>os_queue := [], os_is_healthy_pending := True,
       os_healthy_deadline_ticks := xTaskGetTickCount E (orch_on (example_box FW_FORCE_BOOTLOADER_CLEAR 2))\<rparr> in
   fst (app_main (example_env ESP_RST_PANIC) nor_drv (Some (box_ota 4096)) (os_flash (RunOrchestratorTask E s))) =
     JumpedToFirmware (0x100000, 4096)"
proof -
  let ?d = "example_box FW_FORCE_BOOTLOADER_CLEAR 2" and ?E = "drv_on nor_drv"
  define s where "s = (orch_on ?d)\<lparr>os_queue := [], os_is_healthy_pending := True,
    os_healthy_deadline_ticks := xTaskGetTickCount ?E (orch_on ?d)\<rparr>"
  have f: "os_flash s = ?d" by (simp add: s_def orch_on_def)
  have idle: "os_queue s = []" "os_is_healthy_pending s" "GetRemainingTicks ?E (os_healthy_deadline_ticks s) s = 0"
    by (simp_all add: s_def GetRemainingTicks_def xTaskGetTickCount_def)
  have h: "jump_works (example_env ESP_RST_PANIC) (box_ota 4096)" "IsCrashReset (me_reset_reason (example_env ESP_RST_PANIC))"
    "nd_script (os_flash s) = []" "IsFwMetaRecordValid (stored_meta nor_drv (os_flash s)) (od_size (box_ota 4096))"
    "\<not> IsFwForceRequested (stored_meta nor_drv (os_flash s))" "record_matches (box_ota 4096) (os_flash s) (stored_meta nor_drv (os_flash s))"
    using example_matches by (simp_all add: f IsCrashReset_def IsFwForceRequested_def)
  have p: "od_partition ?E = nor_drv" by (simp add: drv_on_def)
  obtain out d' where a: "app_main (example_env ESP_RST_PANIC) nor_drv (Some (box_ota 4096)) (os_flash (RunOrchestratorTask ?E s)) = (out, d')"
    by fastforce
  from healthy_run_resets_crashes [of ?E, unfolded p, OF box_box_laws box_reliable h idle a] a show ?thesis
    by (simp add: Let_def box_ota_def flip: s_def)
qed

end
